(* ===== verification/Prelude.thy ===== *)
theory Prelude
  imports Main "HOL-Library.Monad_Syntax" "HOL-Library.Product_Lexorder" "HOL-Library.List_Lexorder"
begin

text \<open>
  Shared vocabulary of the development.

  Rust code that may panic (an index out of range, \<open>unwrap\<close> on \<open>None\<close>, \<open>assert!\<close>,
  \<open>todo!\<close>, \<open>unreachable!\<close>) is modelled in the option monad: the type
  \<open>'a panicking\<close> is \<open>'a option\<close>, where \<open>None\<close> is the panic.  Mutation is
  explicit state passing.  The combinators below are the loops of the source: \<open>foldM\<close> is a
  \<open>for\<close> loop whose body may panic, \<open>mapM\<close>, \<open>filterM\<close>, \<open>anyM\<close>, \<open>allM\<close>, \<open>findM\<close> and
  \<open>find_mapM\<close> are the iterator adaptors over closures that may panic (with the same
  short-circuiting), \<open>map_accumM\<close> is \<open>map(..).collect()\<close> with a closure that mutates a state.
\<close>

named_theorems panic_simps \<open>rewrite rules for code that may panic\<close>

type_synonym 'a panicking = "'a option"

subsection \<open>Machine words used as indices\<close>

text \<open>The largest \<open>usize\<close>, on the 64-bit targets the program is built for.\<close>

definition usize_MAX :: nat where
  "usize_MAX = 18446744073709551615"

lemma usize_MAX_pos [simp]: "0 < usize_MAX"
  by (simp add: usize_MAX_def)

subsection \<open>Loops and iterator adaptors over code that may panic\<close>

primrec foldM :: "('a \<Rightarrow> 's \<Rightarrow> 's panicking) \<Rightarrow> 'a list \<Rightarrow> 's \<Rightarrow> 's panicking" where
  "foldM f [] s = Some s"
| "foldM f (x # xs) s = do { s' \<leftarrow> f x s; foldM f xs s' }"

primrec mapM :: "('a \<Rightarrow> 'b panicking) \<Rightarrow> 'a list \<Rightarrow> 'b list panicking" where
  "mapM f [] = Some []"
| "mapM f (x # xs) = do { y \<leftarrow> f x; ys \<leftarrow> mapM f xs; Some (y # ys) }"

primrec map_accumM :: "('a \<Rightarrow> 's \<Rightarrow> ('b \<times> 's) panicking) \<Rightarrow> 'a list \<Rightarrow> 's \<Rightarrow> ('b list \<times> 's) panicking" where
  "map_accumM f [] s = Some ([], s)"
| "map_accumM f (x # xs) s = do { (y, s') \<leftarrow> f x s; (ys, s'') \<leftarrow> map_accumM f xs s'; Some (y # ys, s'') }"

primrec filterM :: "('a \<Rightarrow> bool panicking) \<Rightarrow> 'a list \<Rightarrow> 'a list panicking" where
  "filterM p [] = Some []"
| "filterM p (x # xs) = do { b \<leftarrow> p x; ys \<leftarrow> filterM p xs; Some (if b then x # ys else ys) }"

primrec anyM :: "('a \<Rightarrow> bool panicking) \<Rightarrow> 'a list \<Rightarrow> bool panicking" where
  "anyM p [] = Some False"
| "anyM p (x # xs) = do { b \<leftarrow> p x; if b then Some True else anyM p xs }"

primrec allM :: "('a \<Rightarrow> bool panicking) \<Rightarrow> 'a list \<Rightarrow> bool panicking" where
  "allM p [] = Some True"
| "allM p (x # xs) = do { b \<leftarrow> p x; if b then allM p xs else Some False }"

primrec findM :: "('a \<Rightarrow> bool panicking) \<Rightarrow> 'a list \<Rightarrow> 'a option panicking" where
  "findM p [] = Some None"
| "findM p (x # xs) = do { b \<leftarrow> p x; if b then Some (Some x) else findM p xs }"

primrec find_mapM :: "('a \<Rightarrow> 'b option panicking) \<Rightarrow> 'a list \<Rightarrow> 'b option panicking" where
  "find_mapM f [] = Some None"
| "find_mapM f (x # xs) = do { r \<leftarrow> f x; (case r of Some y \<Rightarrow> Some (Some y) | None \<Rightarrow> find_mapM f xs) }"

text \<open>\<open>find_map\<close> with a closure that cannot panic.\<close>

primrec find_map :: "('a \<Rightarrow> 'b option) \<Rightarrow> 'a list \<Rightarrow> 'b option" where
  "find_map f [] = None"
| "find_map f (x # xs) = (case f x of Some y \<Rightarrow> Some y | None \<Rightarrow> find_map f xs)"

text \<open>\<open>Option::map\<close> with a closure that may panic.\<close>

fun mapM_option :: "('a \<Rightarrow> 'b panicking) \<Rightarrow> 'a option \<Rightarrow> 'b option panicking" where
  "mapM_option f None = Some None"
| "mapM_option f (Some x) = map_option Some (f x)"

text \<open>Indexing a \<open>Vec\<close> or slice: out of range is a panic.\<close>

definition vec_index :: "'a list \<Rightarrow> nat \<Rightarrow> 'a panicking" where
  "vec_index xs i = (if i < length xs then Some (xs ! i) else None)"

text \<open>\<open>VecExt::push_return_idx\<close>: append and return the index of the new element.\<close>

definition push_return_idx :: "'a list \<Rightarrow> 'a \<Rightarrow> nat \<times> 'a list" where
  "push_return_idx xs x = (length xs, xs @ [x])"

text \<open>\<open>Vec::dedup\<close>: drop an element equal to the last one kept.\<close>

fun dedup_by :: "('a \<Rightarrow> 'a \<Rightarrow> bool) \<Rightarrow> 'a list \<Rightarrow> 'a list" where
  "dedup_by eq [] = []"
| "dedup_by eq [x] = [x]"
| "dedup_by eq (x # y # xs) = (if eq y x then dedup_by eq (x # xs) else x # dedup_by eq (y # xs))"

text \<open>\<open>Iterator::position\<close>.\<close>

primrec position :: "('a \<Rightarrow> bool) \<Rightarrow> 'a list \<Rightarrow> nat option" where
  "position p [] = None"
| "position p (x # xs) = (if p x then Some 0 else map_option Suc (position p xs))"

text \<open>\<open>[\<dots>].join(sep)\<close> on strings.\<close>

fun join_with :: "string \<Rightarrow> string list \<Rightarrow> string" where
  "join_with sep [] = []"
| "join_with sep [x] = x"
| "join_with sep (x # y # xs) = x @ sep @ join_with sep (y # xs)"

subsection \<open>Laws of the combinators\<close>

lemma vec_index_Some [simp]: "i < length xs \<Longrightarrow> vec_index xs i = Some (xs ! i)"
  by (simp add: vec_index_def)

lemma vec_index_eq_Some: "vec_index xs i = Some x \<longleftrightarrow> i < length xs \<and> xs ! i = x"
  by (auto simp: vec_index_def)

lemma vec_index_append: "vec_index xs i = Some x \<Longrightarrow> vec_index (xs @ ys) i = Some x"
  by (auto simp: vec_index_eq_Some nth_append)

lemma vec_index_mem: "vec_index xs i = Some x \<Longrightarrow> x \<in> set xs"
  by (auto simp: vec_index_eq_Some)

lemma mapM_pure [panic_simps]: "(\<And>x. x \<in> set xs \<Longrightarrow> f x = Some (g x)) \<Longrightarrow> mapM f xs = Some (map g xs)"
  by (induction xs) auto

lemma filterM_pure [panic_simps]:
  "(\<And>x. x \<in> set xs \<Longrightarrow> p x = Some (q x)) \<Longrightarrow> filterM p xs = Some (filter q xs)"
  by (induction xs) auto

lemma anyM_pure [panic_simps]:
  "(\<And>x. x \<in> set xs \<Longrightarrow> p x = Some (q x)) \<Longrightarrow> anyM p xs = Some (\<exists>x \<in> set xs. q x)"
  by (induction xs) auto

lemma allM_pure [panic_simps]:
  "(\<And>x. x \<in> set xs \<Longrightarrow> p x = Some (q x)) \<Longrightarrow> allM p xs = Some (\<forall>x \<in> set xs. q x)"
  by (induction xs) auto

lemma findM_pure [panic_simps]:
  "(\<And>x. x \<in> set xs \<Longrightarrow> p x = Some (q x)) \<Longrightarrow> findM p xs = Some (find q xs)"
  by (induction xs) auto

lemma find_map_Some: "find_map f xs = Some y \<Longrightarrow> \<exists>x \<in> set xs. f x = Some y"
  by (induction xs) (auto split: option.splits)

lemma find_mapM_pure [panic_simps]:
  "(\<And>x. x \<in> set xs \<Longrightarrow> f x = Some (g x)) \<Longrightarrow> find_mapM f xs = Some (find_map g xs)"
  by (induction xs) (auto split: option.splits)

lemma foldM_append: "foldM f (xs @ ys) s = do { s' \<leftarrow> foldM f xs s; foldM f ys s' }"
  by (induction xs arbitrary: s) (auto split: Option.bind_splits)

lemma foldM_pure [panic_simps]:
  "(\<And>x s. x \<in> set xs \<Longrightarrow> f x s = Some (g x s)) \<Longrightarrow> foldM f xs s = Some (fold g xs s)"
  by (induction xs arbitrary: s) auto

lemma foldM_panics: "x \<in> set xs \<Longrightarrow> (\<And>s. f x s = None) \<Longrightarrow> foldM f xs s = None"
  by (induction xs arbitrary: s) (auto split: Option.bind_splits)

text \<open>The Hoare rule of a \<open>for\<close> loop: the invariant is kept by every iteration.\<close>

lemma foldM_invariant:
  assumes "foldM f xs s = Some s'" and "I s"
    and "\<And>x s s'. x \<in> set xs \<Longrightarrow> I s \<Longrightarrow> f x s = Some s' \<Longrightarrow> I s'"
  shows "I s'"
  using assms
proof (induction xs arbitrary: s)
  case Nil
  then show ?case by simp
next
  case (Cons x xs)
  from Cons.prems(1) obtain t where t: "f x s = Some t" "foldM f xs t = Some s'"
    by (auto split: Option.bind_splits)
  moreover have "I t" using Cons.prems(2,3) t(1) by auto
  ultimately show ?case using Cons.IH Cons.prems(3) by auto
qed

text \<open>A \<open>for\<close> loop whose body never panics under an invariant it keeps, never panics.\<close>

lemma foldM_total:
  assumes "I s" and "\<And>x s. x \<in> set xs \<Longrightarrow> I s \<Longrightarrow> \<exists>s'. f x s = Some s' \<and> I s'"
  shows "\<exists>s'. foldM f xs s = Some s' \<and> I s'"
  using assms
proof (induction xs arbitrary: s)
  case Nil
  then show ?case by simp
next
  case (Cons x xs)
  from Cons.prems obtain s' where "f x s = Some s'" "I s'" by auto
  moreover have "\<exists>s''. foldM f xs s' = Some s'' \<and> I s''"
    using \<open>I s'\<close> Cons.prems(2) by (intro Cons.IH) auto
  ultimately show ?case by auto
qed

lemma find_map_Some_in: "find_map f xs = Some y \<Longrightarrow> \<exists>x \<in> set xs. f x = Some y"
  by (induction xs) (auto split: option.splits)

lemma find_map_eq_None [simp]: "find_map f xs = None \<longleftrightarrow> (\<forall>x \<in> set xs. f x = None)"
  by (induction xs) (auto split: option.splits)

lemma position_Some: "position p xs = Some i \<Longrightarrow> i < length xs \<and> p (xs ! i) \<and> (\<forall>j < i. \<not> p (xs ! j))"
proof (induction xs arbitrary: i)
  case Nil
  then show ?case by simp
next
  case (Cons x xs)
  then show ?case by (cases i) (auto split: if_splits simp: less_Suc_eq_0_disj)
qed

lemma position_None [simp]: "position p xs = None \<longleftrightarrow> (\<forall>x \<in> set xs. \<not> p x)"
  by (induction xs) auto

lemma position_append:
  "position p (xs @ ys) =
     (case position p xs of Some i \<Rightarrow> Some i | None \<Rightarrow> map_option (\<lambda>i. i + length xs) (position p ys))"
  by (induction xs) (simp_all add: option.map_ident option.map_comp comp_def split: option.splits del: position_None)

lemma position_eq_distinct: "distinct xs \<Longrightarrow> i < length xs \<Longrightarrow> position (\<lambda>x. x = xs ! i) xs = Some i"
proof (induction xs arbitrary: i)
  case Nil
  then show ?case by simp
next
  case (Cons x xs)
  then show ?case by (cases i) auto
qed

lemma set_dedup_by_subset: "set (dedup_by eq xs) \<subseteq> set xs"
  by (induction eq xs rule: dedup_by.induct) auto

lemma set_dedup [simp]: "set (dedup_by (=) xs) = set xs"
  by (induction "(=) :: 'a \<Rightarrow> 'a \<Rightarrow> bool" xs rule: dedup_by.induct) auto

lemma sorted_dedup: "sorted (xs :: 'a::linorder list) \<Longrightarrow> sorted (dedup_by (=) xs) \<and> distinct (dedup_by (=) xs)"
  by (induction "(=) :: 'a \<Rightarrow> 'a \<Rightarrow> bool" xs rule: dedup_by.induct) auto

subsection \<open>Reasoning about code that may panic\<close>

text \<open>
  \<open>runs t m P\<close>: if the computation \<open>m\<close> returns, its result satisfies \<open>P\<close>; and with the flag \<open>t\<close> it does
  return.  A lemma whose assumptions on the absence of panics are guarded by \<open>t\<close> covers both the total
  and the partial reading.
\<close>

definition runs :: "bool \<Rightarrow> 'a panicking \<Rightarrow> ('a \<Rightarrow> bool) \<Rightarrow> bool" where
  "runs t m P \<longleftrightarrow> (case m of None \<Rightarrow> \<not> t | Some x \<Rightarrow> P x)"

named_theorems runs_intros \<open>rules for one construct of code that may panic\<close>

lemma runs_Some [simp]: "runs t (Some x) P \<longleftrightarrow> P x"
  by (simp add: runs_def)

lemma runs_None [simp]: "runs t None P \<longleftrightarrow> \<not> t"
  by (simp add: runs_def)

lemma runs_total: "runs True m P \<longleftrightarrow> (\<exists>x. m = Some x \<and> P x)"
  by (cases m) simp_all

lemma runs_partial: "runs False m P \<longleftrightarrow> (\<forall>x. m = Some x \<longrightarrow> P x)"
  by (cases m) simp_all

lemma runs_pure: "m = Some x \<Longrightarrow> P x \<Longrightarrow> runs t m P"
  by simp

lemma runs_bind [runs_intros]:
  "runs t m P \<Longrightarrow> (\<And>x. P x \<Longrightarrow> runs t (f x) Q) \<Longrightarrow> runs t (m \<bind> f) Q"
  by (cases m) simp_all

lemma runs_bind_eq:
  "runs t m P \<Longrightarrow> (\<And>x. m = Some x \<Longrightarrow> P x \<Longrightarrow> runs t (f x) Q) \<Longrightarrow> runs t (m \<bind> f) Q"
  by (cases m) simp_all

lemma runs_mono: "runs t m P \<Longrightarrow> (\<And>x. P x \<Longrightarrow> Q x) \<Longrightarrow> runs t m Q"
  by (cases m) simp_all

lemma runs_conj: "runs t m P \<Longrightarrow> runs t m Q \<Longrightarrow> runs t m (\<lambda>x. P x \<and> Q x)"
  by (cases m) simp_all

lemma runs_if [runs_intros]: "(c \<Longrightarrow> runs t a P) \<Longrightarrow> (\<not> c \<Longrightarrow> runs t b P) \<Longrightarrow> runs t (if c then a else b) P"
  by simp

lemma runs_case_option [runs_intros]:
  "(x = None \<Longrightarrow> runs t a P) \<Longrightarrow> (\<And>y. x = Some y \<Longrightarrow> runs t (f y) P) \<Longrightarrow>
   runs t (case x of None \<Rightarrow> a | Some y \<Rightarrow> f y) P"
  by (cases x) simp_all

lemma runs_case_sum [runs_intros]:
  "(\<And>a. x = Inl a \<Longrightarrow> runs t (f a) P) \<Longrightarrow> (\<And>b. x = Inr b \<Longrightarrow> runs t (g b) P) \<Longrightarrow>
   runs t (case x of Inl a \<Rightarrow> f a | Inr b \<Rightarrow> g b) P"
  by (cases x) simp_all

lemma runs_case_prod [runs_intros]: "(\<And>a b. x = (a, b) \<Longrightarrow> runs t (f a b) P) \<Longrightarrow> runs t (case x of (a, b) \<Rightarrow> f a b) P"
  by (cases x) simp

lemma runs_Let [runs_intros]: "(\<And>x. x = e \<Longrightarrow> runs t (f x) P) \<Longrightarrow> runs t (let x = e in f x) P"
  by simp

lemma runs_map_option: "runs t m (\<lambda>x. P (f x)) \<Longrightarrow> runs t (map_option f m) P"
  by (cases m) simp_all

lemma runs_foldM:
  assumes "I s" and "\<And>x s. x \<in> set xs \<Longrightarrow> I s \<Longrightarrow> runs t (f x s) I"
  shows "runs t (foldM f xs s) I"
  using assms by (induction xs arbitrary: s) (auto intro!: runs_bind)

text \<open>A loop whose body moves along a reflexive and transitive relation does so.\<close>

lemma runs_foldM_rel:
  assumes "R s s" and "\<And>a b c. R a b \<Longrightarrow> R b c \<Longrightarrow> R a c"
    and "\<And>x s'. x \<in> set xs \<Longrightarrow> R s s' \<Longrightarrow> runs t (f x s') (R s')"
  shows "runs t (foldM f xs s) (R s)"
  using assms(1) by (rule runs_foldM) (blast intro: runs_mono assms(2,3))

text \<open>What each step establishes, and later steps keep, holds at the end for every element.\<close>

lemma runs_foldM_all:
  assumes "R s s" and "\<And>a b c. R a b \<Longrightarrow> R b c \<Longrightarrow> R a c"
    and "\<And>x s'. x \<in> set xs \<Longrightarrow> R s s' \<Longrightarrow> runs t (f x s') (\<lambda>s''. R s' s'' \<and> Q x s'')"
    and "\<And>x a b. x \<in> set xs \<Longrightarrow> Q x a \<Longrightarrow> R a b \<Longrightarrow> Q x b"
  shows "runs t (foldM f xs s) (\<lambda>s'. R s s' \<and> (\<forall>x \<in> set xs. Q x s'))"
proof -
  have "runs t (foldM f ys s0) (\<lambda>s'. R s s' \<and> (\<forall>x \<in> set zs \<union> set ys. Q x s'))"
    if "R s s0" "\<forall>x \<in> set zs. Q x s0" "set zs \<union> set ys \<subseteq> set xs" for ys zs s0
    using that
  proof (induction ys arbitrary: zs s0)
    case (Cons y ys)
    then have "runs t (f y s0) (\<lambda>s''. R s0 s'' \<and> Q y s'')" using assms(3) by simp
    then have "runs t (f y s0 \<bind> foldM f ys) (\<lambda>s'. R s s' \<and> (\<forall>x \<in> set (y # zs) \<union> set ys. Q x s'))"
    proof (rule runs_bind)
      fix s1 assume s1: "R s0 s1 \<and> Q y s1"
      have "R s s1" using assms(2) Cons.prems(1) s1 by blast
      moreover have "\<forall>x \<in> set (y # zs). Q x s1" 
      proof
        fix x assume "x \<in> set (y # zs)"
        then consider "x = y" | "x \<in> set zs" "x \<in> set xs" using Cons.prems(3) by auto
        then show "Q x s1" using s1 assms(4) [of x s0 s1] Cons.prems(2) by cases auto
      qed
      ultimately show "runs t (foldM f ys s1) (\<lambda>s'. R s s' \<and> (\<forall>x \<in> set (y # zs) \<union> set ys. Q x s'))"
        using Cons.prems(3) by (intro Cons.IH) auto
    qed
    then show ?case by (auto intro: runs_mono)
  qed simp
  from this [of s "[]" xs] assms(1) show ?thesis by simp
qed

lemma runs_mapM:
  assumes "\<And>x. x \<in> set xs \<Longrightarrow> runs t (f x) (Q x)"
  shows "runs t (mapM f xs) (list_all2 Q xs)"
  using assms by (induction xs) (auto intro!: runs_bind)

lemma runs_mapM_all: "(\<And>x. x \<in> set xs \<Longrightarrow> runs t (f x) P) \<Longrightarrow> runs t (mapM f xs) (\<lambda>ys. \<forall>y \<in> set ys. P y)"
  by (induction xs) (auto intro!: runs_bind)

lemma runs_map_accumM:
  assumes "I [] s" and "\<And>x ys s. x \<in> set xs \<Longrightarrow> I ys s \<Longrightarrow> runs t (f x s) (\<lambda>(y, s'). I (ys @ [y]) s')"
  shows "runs t (map_accumM f xs s) (\<lambda>(ys, s'). I ys s')"
proof -
  have "runs t (map_accumM f xs s) (\<lambda>(ys, s'). I (zs @ ys) s')" if "I zs s" for zs
    using assms(2) that
  proof (induction xs arbitrary: s zs)
    case (Cons x xs)
    have "runs t (f x s) (\<lambda>(y, s'). I (zs @ [y]) s')" using Cons.prems by auto
    moreover have "runs t (map_accumM f xs s') (\<lambda>(ys, s''). I (zs @ y # ys) s'')" if "I (zs @ [y]) s'" for y s'
      using Cons.IH [of "zs @ [y]" s'] Cons.prems that by auto
    ultimately show ?case
      unfolding map_accumM.simps by (elim runs_bind) (fastforce elim!: runs_bind)
  qed simp
  from this [of "[]"] assms(1) show ?thesis by simp
qed

lemma runs_filterM:
  assumes "\<And>x. x \<in> set xs \<Longrightarrow> runs t (p x) (\<lambda>_. True)"
  shows "runs t (filterM p xs) (\<lambda>ys. set ys \<subseteq> set xs)"
  using assms by (induction xs) (auto intro!: runs_bind)

lemma runs_anyM: "(\<And>x. x \<in> set xs \<Longrightarrow> runs t (p x) (\<lambda>_. True)) \<Longrightarrow> runs t (anyM p xs) (\<lambda>_. True)"
  by (induction xs) (auto intro!: runs_bind)

lemma runs_allM: "(\<And>x. x \<in> set xs \<Longrightarrow> runs t (p x) (\<lambda>_. True)) \<Longrightarrow> runs t (allM p xs) (\<lambda>_. True)"
  by (induction xs) (auto intro!: runs_bind)

lemma runs_findM:
  "(\<And>x. x \<in> set xs \<Longrightarrow> runs t (p x) (\<lambda>_. True)) \<Longrightarrow> runs t (findM p xs) (\<lambda>r. \<forall>x. r = Some x \<longrightarrow> x \<in> set xs)"
proof (induction xs)
  case (Cons x xs)
  then have "runs t (findM p xs) (\<lambda>r. \<forall>y. r = Some y \<longrightarrow> y \<in> set (x # xs))" by (auto intro: runs_mono)
  with Cons.prems show ?case by (auto intro!: runs_bind)
qed simp

lemma runs_find_mapM:
  "(\<And>x. x \<in> set xs \<Longrightarrow> runs t (f x) (\<lambda>r. \<forall>y. r = Some y \<longrightarrow> Q y)) \<Longrightarrow>
   runs t (find_mapM f xs) (\<lambda>r. \<forall>y. r = Some y \<longrightarrow> Q y)"
proof (induction xs)
  case (Cons x xs)
  then show ?case by (auto intro!: runs_bind [where P = "\<lambda>r. \<forall>y. r = Some y \<longrightarrow> Q y"] split: option.split)
qed simp

subsection \<open>Grouping a sorted list by key\<close>

text \<open>The members of each key, in the order of the first occurrences.\<close>

definition group_by_key :: "('a \<Rightarrow> 'k) \<Rightarrow> 'a list \<Rightarrow> 'a list list" where
  "group_by_key f xs = map (\<lambda>k. filter (\<lambda>x. f x = k) xs) (remdups_adj (map f xs))"

lemma sorted_remdups_adj_Cons:
  "sorted (k # ks) \<Longrightarrow> remdups_adj (k # ks) = k # filter (\<lambda>l. l \<noteq> k) (remdups_adj (ks :: 'k::linorder list))"
proof (induction ks)
  case (Cons l ks)
  show ?case
  proof (cases "l = k")
    case True
    with Cons show ?thesis by simp
  next
    case False
    with Cons.prems have "\<forall>m \<in> set (l # ks). k < m" by auto
    then have "filter (\<lambda>m. m \<noteq> k) (remdups_adj (l # ks)) = remdups_adj (l # ks)"
      by (intro filter_True) auto
    with False show ?thesis by simp
  qed
qed simp

lemma group_by_key_Cons:
  assumes "sorted (map f (x # xs))"
  shows "group_by_key f (x # xs) =
    filter (\<lambda>y. f y = f x) (x # xs) # group_by_key f (filter (\<lambda>y. f y \<noteq> (f x :: 'k::linorder)) xs)"
proof -
  have s: "sorted (f x # map f xs)" using assms by simp
  have ks: "remdups_adj (map f (filter (\<lambda>y. f y \<noteq> f x) xs)) = filter (\<lambda>l. l \<noteq> f x) (remdups_adj (map f xs))"
    using s
  proof (induction xs)
    case (Cons y ys)
    then have IH: "remdups_adj (map f (filter (\<lambda>y. f y \<noteq> f x) ys)) = filter (\<lambda>l. l \<noteq> f x) (remdups_adj (map f ys))"
      by auto
    show ?case
    proof (cases "f y = f x")
      case True
      with Cons.prems IH show ?thesis using sorted_remdups_adj_Cons [of "f y" "map f ys"] by simp
    next
      case False
      with Cons.prems have "\<forall>z \<in> set (y # ys). f z \<noteq> f x" by auto
      then have "filter (\<lambda>y. f y \<noteq> f x) (y # ys) = y # ys"
        "filter (\<lambda>l. l \<noteq> f x) (remdups_adj (map f (y # ys))) = remdups_adj (map f (y # ys))"
        by (intro filter_True; auto)+
      then show ?thesis by simp
    qed
  qed simp
  have "map (\<lambda>k. filter (\<lambda>y. f y = k) (x # xs)) (filter (\<lambda>l. l \<noteq> f x) (remdups_adj (map f xs)))
      = map (\<lambda>k. filter (\<lambda>y. f y = k) (filter (\<lambda>y. f y \<noteq> f x) xs)) (filter (\<lambda>l. l \<noteq> f x) (remdups_adj (map f xs)))"
    by (intro map_cong refl) (auto intro!: filter_cong)
  then show ?thesis
    unfolding group_by_key_def ks using sorted_remdups_adj_Cons [OF s] by simp
qed

lemma group_by_key_Nil [simp]: "group_by_key f [] = []"
  by (simp add: group_by_key_def)

text \<open>Nothing is lost and nothing is duplicated.\<close>

lemma concat_group_by_key:
  "sorted (map f xs) \<Longrightarrow> concat (group_by_key f xs) = (xs :: 'a list)" for f :: "'a \<Rightarrow> 'k::linorder"
proof (induction "length xs" arbitrary: xs rule: less_induct)
  case less
  show ?case
  proof (cases xs)
    case (Cons x ys)
    have s: "sorted (map f (filter (\<lambda>y. f y \<noteq> f x) ys))"
      using less.prems Cons by (simp add: sorted_filter)
    have "concat (group_by_key f (filter (\<lambda>y. f y \<noteq> f x) ys)) = filter (\<lambda>y. f y \<noteq> f x) ys"
      using less.hyps [OF _ s] Cons by (simp add: le_imp_less_Suc)
    moreover have "sorted (f x # map f ys) \<Longrightarrow> filter (\<lambda>y. f y = f x) ys @ filter (\<lambda>y. f y \<noteq> f x) ys = ys"
    proof (induction ys)
      case (Cons y ys)
      show ?case
      proof (cases "f y = f x")
        case True
        with Cons show ?thesis by auto
      next
        case False
        with Cons.prems have "\<forall>z \<in> set ys. f z \<noteq> f x" by auto
        with False show ?thesis by (simp add: filter_False)
      qed
    qed simp
    ultimately show ?thesis
      using less.prems Cons group_by_key_Cons [of f x ys] by simp
  qed simp
qed

lemma group_by_key_groups:
  "g \<in> set (group_by_key f xs) \<Longrightarrow> \<exists>k \<in> set (map f xs). g = filter (\<lambda>x. f x = k) xs"
  by (auto simp: group_by_key_def)

lemma foldM_map_cong: "(\<And>x s. x \<in> set xs \<Longrightarrow> f (g x) s = h x s) \<Longrightarrow> foldM f (map g xs) s = foldM h xs s"
  by (induction xs arbitrary: s) auto

lemma filter_key_Cons:
  assumes "k \<in> set (map f xs)"
  obtains x ys where "filter (\<lambda>x. f x = k) xs = x # ys" and "f x = k"
proof (cases "filter (\<lambda>x. f x = k) xs")
  case Nil
  with assms show thesis by (auto simp: filter_empty_conv)
next
  case (Cons x ys)
  then have "x \<in> set (filter (\<lambda>x. f x = k) xs)" by simp
  then have "f x = k" by (simp only: set_filter mem_Collect_eq)
  then show thesis by (rule that [OF Cons])
qed

lemma distinct_remdups_adj_sorted: "sorted (xs :: 'a::linorder list) \<Longrightarrow> distinct (remdups_adj xs)"
  by (induction xs) (auto simp: sorted_remdups_adj_Cons simp del: remdups_adj.simps(3))

end
