(* ===== verification/Collections.thy ===== *)
theory Collections
  imports Prelude
begin

text \<open>
  The containers the program uses, and the contracts its components rely on.

  \<^item> \<open>partition_point\<close>: the standard library's binary search over a slice.
  \<^item> \<open>btree_map\<close>, \<open>btree_set\<close>: \<open>std::collections::BTreeMap\<close> and \<open>BTreeSet\<close>, as the ascending
    sequence of their entries; \<open>range(lo..hi)\<close> is half open.
  \<^item> \<open>index set\<close>: a set that remembers insertion order and gives each element its position
    (\<open>IndexSet\<close>), as the distinct list of its elements.

  The locale \<open>interner\<close> is the contract of interning: every component that hands out small ids
  for values (strings, federated strings, field types, wrapper types) interprets it.  The locale
  \<open>ordered_map\<close> is the contract of an ordered map.
\<close>

subsection \<open>Binary search\<close>

text \<open>
  \<open>slice::partition_point\<close>: the loop of \<open>slice::binary_search_by\<close> with a comparison that
  answers \<open>Less\<close> where the predicate holds and \<open>Greater\<close> where it does not.
\<close>

function partition_point_loop :: "('a \<Rightarrow> bool) \<Rightarrow> 'a list \<Rightarrow> nat \<Rightarrow> nat \<Rightarrow> nat" where
  "partition_point_loop p xs left right =
     (if left < right
      then let mid = left + (right - left) div 2
           in if p (xs ! mid) then partition_point_loop p xs (mid + 1) right
              else partition_point_loop p xs left mid
      else left)"
  by pat_completeness auto
termination
  by (relation "measure (\<lambda>(p, xs, left, right). right - left)") (auto simp: Let_def)

declare partition_point_loop.simps [simp del]

definition partition_point :: "('a \<Rightarrow> bool) \<Rightarrow> 'a list \<Rightarrow> nat" where
  "partition_point p xs = partition_point_loop p xs 0 (length xs)"

text \<open>A slice is partitioned when all elements that satisfy the predicate come first.\<close>

definition partitioned :: "('a \<Rightarrow> bool) \<Rightarrow> 'a list \<Rightarrow> bool" where
  "partitioned p xs \<longleftrightarrow> (\<forall>x \<in> set (dropWhile p xs). \<not> p x)"

lemma partitioned_Nil [simp]: "partitioned p []"
  by (simp add: partitioned_def)

lemma partitioned_Cons [simp]:
  "partitioned p (x # xs) \<longleftrightarrow> (if p x then partitioned p xs else (\<forall>y \<in> set xs. \<not> p y))"
  by (simp add: partitioned_def)

lemma partitioned_nth:
  "partitioned p xs \<Longrightarrow> i < length xs \<Longrightarrow> p (xs ! i) \<longleftrightarrow> i < length (takeWhile p xs)"
proof (induction xs arbitrary: i)
  case (Cons x xs)
  then show ?case by (cases i) (auto split: if_splits)
qed simp

lemma partition_point_loop_correct:
  assumes "partitioned p xs" and "left \<le> length (takeWhile p xs)" and "length (takeWhile p xs) \<le> right"
    and "right \<le> length xs"
  shows "partition_point_loop p xs left right = length (takeWhile p xs)"
  using assms
proof (induction p xs left right rule: partition_point_loop.induct)
  case (1 p xs left right)
  define mid where "mid = left + (right - left) div 2"
  show ?case
  proof (cases "left < right")
    case True
    then have mid: "mid < right" "left \<le> mid" by (auto simp: mid_def)
    have nth: "p (xs ! mid) \<longleftrightarrow> mid < length (takeWhile p xs)"
      using "1.prems" mid by (intro partitioned_nth) auto
    show ?thesis
    proof (cases "p (xs ! mid)")
      case True
      then have "partition_point_loop p xs left right = partition_point_loop p xs (mid + 1) right"
        using \<open>left < right\<close> by (subst partition_point_loop.simps) (simp add: Let_def mid_def)
      also have "\<dots> = length (takeWhile p xs)"
        using True nth "1.prems" by (intro "1.IH"(1) [OF \<open>left < right\<close> mid_def]) auto
      finally show ?thesis .
    next
      case False
      then have "partition_point_loop p xs left right = partition_point_loop p xs left mid"
        using \<open>left < right\<close> by (subst partition_point_loop.simps) (simp add: Let_def mid_def)
      also have "\<dots> = length (takeWhile p xs)"
        using False nth mid "1.prems" by (intro "1.IH"(2) [OF \<open>left < right\<close> mid_def]) auto
      finally show ?thesis .
    qed
  next
    case False
    with "1.prems" show ?thesis by (subst partition_point_loop.simps) simp
  qed
qed

lemma partition_point_takeWhile:
  "partitioned p xs \<Longrightarrow> partition_point p xs = length (takeWhile p xs)"
  unfolding partition_point_def
  by (rule partition_point_loop_correct) (auto simp: length_takeWhile_le)

lemma partitioned_sorted_less:
  "sorted (map f xs) \<Longrightarrow> partitioned (\<lambda>x. f x < (k :: 'k::linorder)) xs"
  by (induction xs) (auto dest: order.strict_trans1)

lemma partitioned_sorted_eq:
  "sorted (map f xs) \<Longrightarrow> \<forall>x \<in> set xs. (k :: 'k::linorder) \<le> f x \<Longrightarrow> partitioned (\<lambda>x. f x = k) xs"
  by (induction xs) (auto dest: antisym)

text \<open>Elements of a sorted slice with a given key: found by binary search and \<open>take_while\<close>.\<close>

lemma partition_point_key_slice:
  assumes "sorted (map f xs)"
  shows "takeWhile (\<lambda>x. f x = (k :: 'k::linorder)) (drop (partition_point (\<lambda>x. f x < k) xs) xs)
       = filter (\<lambda>x. f x = k) xs"
proof -
  have "partition_point (\<lambda>x. f x < k) xs = length (takeWhile (\<lambda>x. f x < k) xs)"
    using assms by (intro partition_point_takeWhile partitioned_sorted_less)
  then have "drop (partition_point (\<lambda>x. f x < k) xs) xs = dropWhile (\<lambda>x. f x < k) xs"
    by (simp add: dropWhile_eq_drop)
  moreover have "takeWhile (\<lambda>x. f x = k) (dropWhile (\<lambda>x. f x < k) xs) = filter (\<lambda>x. f x = k) xs"
    using assms
  proof (induction xs)
    case (Cons x xs)
    show ?case
    proof (cases "f x < k")
      case True
      with Cons show ?thesis by auto
    next
      case False
      show ?thesis
      proof (cases "f x = k")
        case True
        have "dropWhile (\<lambda>x. f x < k) xs = xs"
          using Cons.prems True by (cases xs) auto
        with Cons True show ?thesis by auto
      next
        case False
        with \<open>\<not> f x < k\<close> have "k < f x" by auto
        with Cons.prems have "\<forall>y \<in> set xs. f y \<noteq> k" by auto
        with False \<open>\<not> f x < k\<close> show ?thesis by auto
      qed
    qed
  qed simp
  ultimately show ?thesis by simp
qed

text \<open>The same search, giving the indices of the elements.\<close>

lemma partition_point_key_indices:
  fixes k :: "'k::linorder"
  assumes "sorted (map f xs)" and start: "start = partition_point (\<lambda>x. f x < k) xs"
  shows "map (\<lambda>(i, _). start + i) (enumerate 0 (takeWhile (\<lambda>x. f x = k) (drop start xs)))
       = filter (\<lambda>i. f (xs ! i) = k) [0..<length xs]"
proof -
  define m where "m = length (takeWhile (\<lambda>x. f x = k) (drop start xs))"
  have start': "start = length (takeWhile (\<lambda>x. f x < k) xs)"
    unfolding start using assms(1) by (intro partition_point_takeWhile partitioned_sorted_less)
  have le: "start + m \<le> length xs"
    using length_takeWhile_le [of "\<lambda>x. f x = k" "drop start xs"] length_takeWhile_le [of "\<lambda>x. f x < k" xs]
    by (simp add: m_def start')
  have mono: "i \<le> j \<Longrightarrow> j < length xs \<Longrightarrow> f (xs ! i) \<le> f (xs ! j)" for i j
    using sorted_nth_mono [OF assms(1), of i j] by simp
  have P: "f (xs ! i) = k \<longleftrightarrow> start \<le> i \<and> i < start + m" if i: "i < length xs" for i
  proof -
    consider "i < start" | "start \<le> i" "i < start + m" | "start + m \<le> i" by linarith
    then show ?thesis
    proof cases
      case 1
      then have "f (xs ! i) < k"
        using takeWhile_nth [of i "\<lambda>x. f x < k" xs] nth_mem [of i "takeWhile (\<lambda>x. f x < k) xs"]
        by (auto simp: start' dest: set_takeWhileD)
      with 1 show ?thesis by auto
    next
      case 2
      then have "i - start < m" by simp
      then have "f (drop start xs ! (i - start)) = k"
        using takeWhile_nth [of "i - start" "\<lambda>x. f x = k" "drop start xs"]
          nth_mem [of "i - start" "takeWhile (\<lambda>x. f x = k) (drop start xs)"]
        by (auto simp: m_def dest: set_takeWhileD)
      with 2 le show ?thesis by simp
    next
      case 3
      then have lt: "start + m < length xs" using i by simp
      have "f (drop start xs ! m) \<noteq> k"
        using nth_length_takeWhile [of "\<lambda>x. f x = k" "drop start xs"] lt by (simp add: m_def)
      moreover have "\<not> f (xs ! start) < k"
        using nth_length_takeWhile [of "\<lambda>x. f x < k" xs] lt by (simp add: start')
      ultimately have "k < f (xs ! (start + m))"
        using mono [of start "start + m"] lt by auto
      then show ?thesis using mono [OF 3 i] 3 by auto
    qed
  qed
  have fst: "map (\<lambda>(i, _). start + i) e = map (\<lambda>i. start + i) (map fst e)" for e :: "(nat \<times> 'b) list"
    by (simp add: comp_def split_beta')
  have "map (\<lambda>(i, _). start + i) (enumerate 0 (takeWhile (\<lambda>x. f x = k) (drop start xs))) = map (\<lambda>i. start + i) [0..<m]"
    unfolding fst by (simp only: map_fst_enumerate m_def add_0)
  also have "\<dots> = [start..<start + m]" using map_add_upt [of start m] by (simp add: add.commute)
  also have "\<dots> = filter (\<lambda>i. start \<le> i \<and> i < start + m) [0..<length xs]"
  proof -
    obtain r where r: "length xs = start + m + r" using le le_Suc_ex by blast
    have "[0..<length xs] = [0..<start] @ [start..<start + m] @ [start + m..<length xs]"
      unfolding r using upt_add_eq_append [of 0 start m] upt_add_eq_append [of 0 "start + m" r] by simp
    then show ?thesis by (simp add: filter_empty_conv filter_id_conv)
  qed
  also have "\<dots> = filter (\<lambda>i. f (xs ! i) = k) [0..<length xs]"
    by (rule filter_cong) (auto simp: P)
  finally show ?thesis .
qed

subsection \<open>Iterating over the groups of a sorted vector\<close>

text \<open>
  The loop \<open>while start < all.len() { let end = all[start..].partition_point(|x| key(x) == key(all[start])) + start;
  body(&all[start..end]); start = end; }\<close> that composition runs on vectors sorted by name.  It makes
  progress on every vector, and on a sorted one its body sees the groups of equal keys.
\<close>

lemma partition_point_loop_pos:
  "p (xs ! 0) \<Longrightarrow> left < right \<or> 0 < left \<Longrightarrow> 0 < partition_point_loop p xs left right"
proof (induction p xs left right rule: partition_point_loop.induct)
  case (1 p xs left right)
  define mid where "mid = left + (right - left) div 2"
  show ?case
  proof (cases "left < right")
    case True
    show ?thesis
    proof (cases "p (xs ! mid)")
      case p: True
      with True "1.IH"(1) [OF True mid_def] "1.prems"(1) show ?thesis
        by (subst partition_point_loop.simps) (simp add: Let_def mid_def)
    next
      case p: False
      with "1.prems"(1) have "mid \<noteq> 0" by (cases "mid = 0") auto
      moreover from this have "left < mid \<or> 0 < left" by (auto simp: mid_def)
      ultimately show ?thesis
        using True p "1.IH"(2) [OF True mid_def p "1.prems"(1)]
        by (subst partition_point_loop.simps) (simp add: Let_def mid_def)
    qed
  next
    case False
    with "1.prems" show ?thesis by (subst partition_point_loop.simps) simp
  qed
qed

lemma partition_point_pos: "xs \<noteq> [] \<Longrightarrow> p (xs ! 0) \<Longrightarrow> 0 < partition_point p xs"
  unfolding partition_point_def by (rule partition_point_loop_pos) auto

function group_slices :: "('a \<Rightarrow> 'k) \<Rightarrow> ('a list \<Rightarrow> 's \<Rightarrow> 's panicking) \<Rightarrow> 'a list \<Rightarrow> nat \<Rightarrow> 's \<Rightarrow> 's panicking" where
  "group_slices key body all start s =
     (if start < length all
      then let name = key (all ! start);
               group_end = partition_point (\<lambda>x. key x = name) (drop start all) + start
           in do { s' \<leftarrow> body (take (group_end - start) (drop start all)) s; group_slices key body all group_end s' }
      else Some s)"
  by pat_completeness auto
termination
proof (relation "measure (\<lambda>(key, body, all, start, s). length all - start)")
  fix key :: "'a \<Rightarrow> 'k" and body :: "'a list \<Rightarrow> 's \<Rightarrow> 's panicking" and all start s name group_end s'
  assume a: "start < length all" "name = key (all ! start)"
    "group_end = partition_point (\<lambda>x. key x = name) (drop start all) + start"
  have "0 < partition_point (\<lambda>x. key x = name) (drop start all)"
    using a(1,2) by (intro partition_point_pos) auto
  with a show "((key, body, all, group_end, s'), key, body, all, start, s) \<in> measure (\<lambda>(key, body, all, start, s). length all - start)"
    by auto
qed simp

declare group_slices.simps [simp del]

lemma sorted_takeWhile_key:
  "sorted (map f (x # xs)) \<Longrightarrow> takeWhile (\<lambda>y. f y = f x) xs = filter (\<lambda>y. f y = f x) xs
     \<and> dropWhile (\<lambda>y. f y = f x) xs = filter (\<lambda>y. f y \<noteq> (f x :: 'k::linorder)) xs"
proof (induction xs)
  case (Cons y ys)
  show ?case
  proof (cases "f y = f x")
    case True
    with Cons show ?thesis by auto
  next
    case False
    with Cons.prems have "\<forall>z \<in> set ys. f z \<noteq> f x" by auto
    with False show ?thesis by (auto simp: filter_empty_conv filter_id_conv)
  qed
qed simp

lemma group_slices_eq:
  assumes "sorted (map key all)"
  shows "group_slices key body all start s = foldM body (group_by_key key (drop start all)) s"
  using assms
proof (induction key body all start s rule: group_slices.induct)
  case (1 key body all start s)
  show ?case
  proof (cases "start < length all")
    case True
    define x where "x = all ! start"
    define xs where "xs = drop (start + 1) all"
    have d: "drop start all = x # xs" using True by (simp add: x_def xs_def Cons_nth_drop_Suc)
    have so: "sorted (map key (x # xs))"
      using "1.prems" sorted_wrt_drop [of "(\<le>)" "map key all" start] d by (simp add: drop_map)
    define e where "e = partition_point (\<lambda>y. key y = key x) (drop start all)"
    have "partitioned (\<lambda>y. key y = key x) (x # xs)"
      using so by (intro partitioned_sorted_eq [of key]) auto
    then have e: "e = 1 + length (takeWhile (\<lambda>y. key y = key x) xs)"
      unfolding e_def d by (simp add: partition_point_takeWhile)
    have tk: "take e (x # xs) = x # filter (\<lambda>y. key y = key x) xs"
      using sorted_takeWhile_key [OF so] takeWhile_eq_take [of "\<lambda>y. key y = key x" xs] by (simp add: e)
    have dr: "drop e (x # xs) = filter (\<lambda>y. key y \<noteq> key x) xs"
      unfolding e using conjunct2 [OF sorted_takeWhile_key [OF so], unfolded dropWhile_eq_drop] by simp
    have IH: "group_slices key body all (e + start) s' = foldM body (group_by_key key (drop (e + start) all)) s'"
      if "body (take e (drop start all)) s = Some s'" for s'
      using "1.IH" [OF True _ _ _ "1.prems", of "key x" "e + start"] that by (simp add: x_def e_def)
    have rest: "drop (e + start) all = filter (\<lambda>y. key y \<noteq> key x) xs" using dr d by (metis drop_drop)
    have step: "group_slices key body all start s =
        do { s' \<leftarrow> body (take e (drop start all)) s; group_slices key body all (e + start) s' }"
      using True by (subst group_slices.simps) (simp add: Let_def x_def e_def)
    show ?thesis
      using IH rest group_by_key_Cons [OF so] tk d by (cases "body (take e (drop start all)) s") (simp_all add: step)
  next
    case False
    then show ?thesis by (subst group_slices.simps) simp
  qed
qed

subsection \<open>Ordered maps and sets\<close>

type_synonym ('k, 'v) btree_map = "('k \<times> 'v) list"
type_synonym 'k btree_set = "'k list"

text \<open>\<open>BTreeMap::insert\<close>: a new entry goes to its place, an old one is replaced.\<close>

fun bt_insert :: "'k::linorder \<Rightarrow> 'v \<Rightarrow> ('k, 'v) btree_map \<Rightarrow> ('k, 'v) btree_map" where
  "bt_insert k v [] = [(k, v)]"
| "bt_insert k v (e # es) =
     (if k = fst e then (k, v) # es else if fst e < k then e # bt_insert k v es else (k, v) # e # es)"

abbreviation bt_get :: "('k, 'v) btree_map \<Rightarrow> 'k \<Rightarrow> 'v option" where
  "bt_get \<equiv> map_of"

text \<open>\<open>BTreeMap::range(lo..hi)\<close> and \<open>BTreeSet::range\<close>, with the half-open bounds of \<open>lo..hi\<close>.\<close>

definition bt_range :: "'k::linorder \<Rightarrow> 'k \<Rightarrow> ('k, 'v) btree_map \<Rightarrow> ('k, 'v) btree_map" where
  "bt_range lo hi m = filter (\<lambda>(k, _). lo \<le> k \<and> k < hi) m"

definition bs_range :: "'k::linorder \<Rightarrow> 'k \<Rightarrow> 'k btree_set \<Rightarrow> 'k btree_set" where
  "bs_range lo hi m = filter (\<lambda>k. lo \<le> k \<and> k < hi) m"

text \<open>\<open>BTreeSet::range(lo..)\<close>.\<close>

definition bs_range_from :: "'k::linorder \<Rightarrow> 'k btree_set \<Rightarrow> 'k btree_set" where
  "bs_range_from lo m = filter (\<lambda>k. lo \<le> k) m"

text \<open>\<open>BTreeSet::insert\<close>.\<close>

definition bs_insert :: "'k::linorder \<Rightarrow> 'k btree_set \<Rightarrow> 'k btree_set" where
  "bs_insert k m = insort_insert k m"

definition bt_wf :: "('k::linorder, 'v) btree_map \<Rightarrow> bool" where
  "bt_wf m \<longleftrightarrow> sorted_wrt (<) (map fst m)"

definition bs_wf :: "'k::linorder btree_set \<Rightarrow> bool" where
  "bs_wf m \<longleftrightarrow> sorted_wrt (<) m"

text \<open>The contract of an ordered map: lookup after insert, and iteration in ascending key order.\<close>

locale ordered_map =
  fixes insert_entry :: "'k::linorder \<Rightarrow> 'v \<Rightarrow> 'm \<Rightarrow> 'm"
    and get_entry :: "'m \<Rightarrow> 'k \<Rightarrow> 'v option"
    and entries :: "'m \<Rightarrow> ('k \<times> 'v) list"
    and invar :: "'m \<Rightarrow> bool"
  assumes invar_insert: "invar m \<Longrightarrow> invar (insert_entry k v m)"
    and get_insert: "get_entry (insert_entry k v m) = (get_entry m)(k \<mapsto> v)"
    and entries_ascending: "invar m \<Longrightarrow> sorted_wrt (<) (map fst (entries m))"
    and entries_get: "invar m \<Longrightarrow> (k, v) \<in> set (entries m) \<longleftrightarrow> get_entry m k = Some v"
begin

lemma get_insert_same: "get_entry (insert_entry k v m) k = Some v"
  by (simp add: get_insert)

lemma get_insert_other: "k \<noteq> k' \<Longrightarrow> get_entry (insert_entry k v m) k' = get_entry m k'"
  by (simp add: get_insert)

lemma entries_insert:
  "invar m \<Longrightarrow> set (entries (insert_entry k v m)) = insert (k, v) {e \<in> set (entries m). fst e \<noteq> k}"
  using entries_get [OF invar_insert] entries_get
  by (auto simp: get_insert split: if_splits)

lemma range_get:
  "invar m \<Longrightarrow> (k, v) \<in> set (filter (\<lambda>(k, _). lo \<le> k \<and> k < hi) (entries m))
     \<longleftrightarrow> lo \<le> k \<and> k < hi \<and> get_entry m k = Some v"
  using entries_get by auto

lemma entries_distinct: "invar m \<Longrightarrow> distinct (map fst (entries m))"
  using entries_ascending strict_sorted_iff by blast

end

lemma bt_insert_keys: "set (map fst (bt_insert k v m)) = insert k (set (map fst m))"
  by (induction m) auto

lemma bt_insert_wf: "bt_wf m \<Longrightarrow> bt_wf (bt_insert k v m)"
  unfolding bt_wf_def
proof (induction m)
  case (Cons e es)
  then show ?case
    using bt_insert_keys [of k v es] by (auto dest: order.strict_trans)
qed simp

lemma bt_insert_get: "bt_get (bt_insert k v m) = (bt_get m)(k \<mapsto> v)"
  by (induction m) (auto simp: fun_eq_iff)

lemma bt_wf_distinct: "bt_wf m \<Longrightarrow> distinct (map fst m)"
  by (simp add: bt_wf_def strict_sorted_iff)

lemma bt_wf_get: "bt_wf m \<Longrightarrow> (k, v) \<in> set m \<longleftrightarrow> bt_get m k = Some v"
  by (simp add: bt_wf_distinct)

interpretation btree: ordered_map bt_insert bt_get "\<lambda>m. m" bt_wf
  by unfold_locales (auto simp: bt_insert_wf bt_insert_get bt_wf_get, simp add: bt_wf_def)

lemma bt_wf_Nil [simp]: "bt_wf []"
  by (simp add: bt_wf_def)

lemma bt_range_wf: "bt_wf m \<Longrightarrow> bt_wf (bt_range lo hi m)"
  unfolding bt_wf_def bt_range_def by (induction m) auto

lemma bs_wf_Nil [simp]: "bs_wf []"
  by (simp add: bs_wf_def)

lemma bs_insert_wf: "bs_wf m \<Longrightarrow> bs_wf (bs_insert k m)"
  by (simp add: bs_wf_def bs_insert_def strict_sorted_iff sorted_insort_insert distinct_insort_insert)

lemma set_bs_insert [simp]: "set (bs_insert k m) = insert k (set m)"
  by (simp add: bs_insert_def set_insort_insert)

lemma set_fold_bs_insert: "set (fold bs_insert ks m) = set ks \<union> set m"
  by (induction ks arbitrary: m) auto

lemma fold_bs_insert:
  "bs_wf m \<Longrightarrow> bs_wf (fold bs_insert ks m) \<and> set (fold bs_insert ks m) = set ks \<union> set m"
  by (induction ks arbitrary: m) (auto simp: bs_insert_wf)

subsection \<open>Index sets and interning\<close>

text \<open>
  \<open>IndexSet::get_index_of\<close>, \<open>IndexSet::insert_full\<close> (the position of the element, which is appended
  if it is new) on the insertion-ordered elements; \<open>IndexSet::get_index\<close> is \<open>vec_index\<close>.
\<close>

definition get_index_of :: "'a list \<Rightarrow> 'a \<Rightarrow> nat option" where
  "get_index_of xs x = position (\<lambda>y. y = x) xs"

definition insert_full :: "'a list \<Rightarrow> 'a \<Rightarrow> nat \<times> 'a list" where
  "insert_full xs x = (case get_index_of xs x of Some i \<Rightarrow> (i, xs) | None \<Rightarrow> (length xs, xs @ [x]))"

text \<open>Interning a sequence of values, one after the other.\<close>

primrec intern_all :: "('s \<Rightarrow> 'a \<Rightarrow> nat \<times> 's) \<Rightarrow> 's \<Rightarrow> 'a list \<Rightarrow> nat list \<times> 's" where
  "intern_all f s [] = ([], s)"
| "intern_all f s (x # xs) = (case f s x of (i, s') \<Rightarrow> case intern_all f s' xs of (is, s'') \<Rightarrow> (i # is, s''))"

text \<open>
  The contract of an interner: an id resolves to the value it was issued for, also after later
  interning; one value has one id; a known value is not stored again.
\<close>

locale interner =
  fixes intern_value :: "'s \<Rightarrow> 'a \<Rightarrow> nat \<times> 's"
    and resolve_id :: "'s \<Rightarrow> nat \<Rightarrow> 'a option"
    and invar :: "'s \<Rightarrow> bool"
  assumes intern_invar: "invar s \<Longrightarrow> intern_value s x = (i, s') \<Longrightarrow> invar s'"
    and intern_resolve: "invar s \<Longrightarrow> intern_value s x = (i, s') \<Longrightarrow> resolve_id s' i = Some x"
    and intern_stable: "invar s \<Longrightarrow> intern_value s x = (i, s') \<Longrightarrow> resolve_id s j = Some y \<Longrightarrow> resolve_id s' j = Some y"
    and resolve_inj: "invar s \<Longrightarrow> resolve_id s i = Some x \<Longrightarrow> resolve_id s j = Some x \<Longrightarrow> i = j"
    and intern_known: "invar s \<Longrightarrow> resolve_id s i = Some x \<Longrightarrow> intern_value s x = (i, s)"
begin

lemma intern_idempotent:
  "invar s \<Longrightarrow> intern_value s x = (i, s') \<Longrightarrow> intern_value s' x = (i, s')"
  using intern_known intern_invar intern_resolve by blast

lemma intern_eq_iff:
  assumes "invar s" and "intern_value s x = (i, s')" and "intern_value s' y = (j, s'')"
  shows "i = j \<longleftrightarrow> x = y"
proof -
  have s': "invar s'" using assms(1,2) by (rule intern_invar)
  have x: "resolve_id s'' i = Some x"
    using s' assms(3) intern_resolve [OF assms(1,2)] by (rule intern_stable)
  have y: "resolve_id s'' j = Some y" using s' assms(3) by (rule intern_resolve)
  have s'': "invar s''" using s' assms(3) by (rule intern_invar)
  show ?thesis using x y resolve_inj [OF s''] by auto
qed

lemma intern_all_invar:
  "invar s \<Longrightarrow> intern_all intern_value s xs = (is, s') \<Longrightarrow> invar s'"
  by (induction xs arbitrary: s "is") (auto split: prod.splits dest: intern_invar)

lemma intern_all_stable:
  "invar s \<Longrightarrow> intern_all intern_value s xs = (is, s') \<Longrightarrow> resolve_id s j = Some y \<Longrightarrow> resolve_id s' j = Some y"
proof (induction xs arbitrary: s "is")
  case (Cons x xs)
  then show ?case by (auto split: prod.splits dest: intern_invar intern_stable)
qed simp

lemma intern_all_resolve:
  "invar s \<Longrightarrow> intern_all intern_value s xs = (is, s') \<Longrightarrow> map (resolve_id s') is = map Some xs"
proof (induction xs arbitrary: s "is")
  case (Cons x xs)
  obtain i t js where 1: "intern_value s x = (i, t)" "intern_all intern_value t xs = (js, s')" "is = i # js"
    using Cons.prems(2) by (auto split: prod.splits)
  have "invar t" using Cons.prems(1) 1(1) by (rule intern_invar)
  moreover have "resolve_id t i = Some x" using Cons.prems(1) 1(1) by (rule intern_resolve)
  ultimately show ?case
    using 1 Cons.IH intern_all_stable by auto
qed simp

end

lemma get_index_of_Some: "get_index_of xs x = Some i \<Longrightarrow> i < length xs \<and> xs ! i = x"
  by (auto simp: get_index_of_def dest: position_Some)

lemma get_index_of_None [simp]: "get_index_of xs x = None \<longleftrightarrow> x \<notin> set xs"
  by (auto simp: get_index_of_def)

lemma get_index_of_nth: "distinct xs \<Longrightarrow> i < length xs \<Longrightarrow> get_index_of xs (xs ! i) = Some i"
  by (simp add: get_index_of_def position_eq_distinct)

lemma insert_full_cases:
  obtains i where "get_index_of xs x = Some i" "insert_full xs x = (i, xs)" "i < length xs" "xs ! i = x"
  | "x \<notin> set xs" "insert_full xs x = (length xs, xs @ [x])"
  using get_index_of_Some [of xs x] by (cases "get_index_of xs x") (auto simp: insert_full_def)

interpretation index_set: interner insert_full vec_index distinct
proof unfold_locales
  fix s :: "'a list" and x y i j s'
  assume d: "distinct s"
  show "insert_full s x = (i, s') \<Longrightarrow> distinct s'"
    using d by (cases rule: insert_full_cases [of s x]) auto
  show "insert_full s x = (i, s') \<Longrightarrow> vec_index s' i = Some x"
    by (cases rule: insert_full_cases [of s x]) auto
  show "insert_full s x = (i, s') \<Longrightarrow> vec_index s j = Some y \<Longrightarrow> vec_index s' j = Some y"
    by (cases rule: insert_full_cases [of s x]) (auto intro: vec_index_append)
  show "vec_index s i = Some x \<Longrightarrow> vec_index s j = Some x \<Longrightarrow> i = j"
    using d by (auto simp: vec_index_eq_Some nth_eq_iff_index_eq)
  show "vec_index s i = Some x \<Longrightarrow> insert_full s x = (i, s)"
    using d by (auto simp: vec_index_eq_Some insert_full_def get_index_of_nth)
qed

lemma insert_full_length: "insert_full xs x = (i, xs') \<Longrightarrow> length xs \<le> length xs' \<and> i < length xs'"
  by (cases rule: insert_full_cases [of xs x]) auto

lemma insert_full_prefix: "insert_full xs x = (i, xs') \<Longrightarrow> \<exists>ys. xs' = xs @ ys"
  by (cases rule: insert_full_cases [of xs x]) auto

subsection \<open>Queues of fixed capacity\<close>

text \<open>
  The contract of a double-ended queue with a fixed capacity: \<open>push_back\<close> panics exactly when there
  is no room left, and both ends can be popped.
\<close>

locale bounded_deque =
  fixes push_back :: "'d \<Rightarrow> 'a \<Rightarrow> 'd panicking"
    and pop_back :: "'d \<Rightarrow> ('a option \<times> 'd) panicking"
    and pop_front :: "'d \<Rightarrow> 'a option \<times> 'd"
    and contents :: "'d \<Rightarrow> 'a list"
    and room :: "'d \<Rightarrow> nat"
    and invar :: "'d \<Rightarrow> bool"
  assumes push_back_room: "invar d \<Longrightarrow> 0 < room d \<Longrightarrow>
      \<exists>d'. push_back d x = Some d' \<and> invar d' \<and> contents d' = contents d @ [x] \<and> room d' = room d - 1"
    and push_back_full: "invar d \<Longrightarrow> room d = 0 \<Longrightarrow> push_back d x = None"
    and pop_back_empty: "invar d \<Longrightarrow> contents d = [] \<Longrightarrow> pop_back d = Some (None, d)"
    and pop_back_last: "invar d \<Longrightarrow> contents d = xs @ [x] \<Longrightarrow>
      \<exists>d'. pop_back d = Some (Some x, d') \<and> invar d' \<and> contents d' = xs \<and> room d' = room d + 1"
    and pop_front_empty: "invar d \<Longrightarrow> contents d = [] \<Longrightarrow> pop_front d = (None, d)"
    and pop_front_hd: "invar d \<Longrightarrow> contents d = x # xs \<Longrightarrow>
      \<exists>d'. pop_front d = (Some x, d') \<and> invar d' \<and> contents d' = xs \<and> room d' = room d"
begin

text \<open>Pushing a sequence appends it, if and only if there is room for all of it.\<close>

lemma push_all:
  "invar d \<Longrightarrow> length xs \<le> room d \<Longrightarrow>
   \<exists>d'. foldM (\<lambda>x d. push_back d x) xs d = Some d' \<and> invar d' \<and> contents d' = contents d @ xs
      \<and> room d' = room d - length xs"
proof (induction xs arbitrary: d)
  case (Cons x xs)
  then have "0 < room d" by auto
  then obtain d1 where d1: "push_back d x = Some d1" "invar d1" "contents d1 = contents d @ [x]" "room d1 = room d - 1"
    using push_back_room Cons.prems(1) by blast
  moreover have "length xs \<le> room d1" using d1(4) Cons.prems(2) by simp
  ultimately obtain d2 where "foldM (\<lambda>x d. push_back d x) xs d1 = Some d2" "invar d2"
    "contents d2 = contents d1 @ xs" "room d2 = room d1 - length xs"
    using Cons.IH by blast
  with d1 show ?case by auto
qed simp

lemma push_all_overflow:
  "invar d \<Longrightarrow> room d < length xs \<Longrightarrow> foldM (\<lambda>x d. push_back d x) xs d = None"
proof (induction xs arbitrary: d)
  case (Cons x xs)
  show ?case
  proof (cases "room d = 0")
    case True
    then show ?thesis using push_back_full Cons.prems(1) by simp
  next
    case False
    then obtain d1 where d1: "push_back d x = Some d1" "invar d1" "room d1 = room d - 1"
      using push_back_room Cons.prems(1) by blast
    moreover have "room d1 < length xs" using d1(3) False Cons.prems(2) by simp
    ultimately show ?thesis using Cons.IH by simp
  qed
qed simp

lemma push_pop:
  assumes "invar d" and "0 < room d"
  shows "\<exists>d' d''. push_back d x = Some d' \<and> pop_back d' = Some (Some x, d'') \<and> contents d'' = contents d"
proof -
  obtain d' where d': "push_back d x = Some d'" "invar d'" "contents d' = contents d @ [x]"
    using push_back_room [OF assms] by blast
  then show ?thesis using pop_back_last [OF d'(2,3)] by blast
qed

end

lemma sorted_map_fst: "sorted (xs :: ('a::linorder \<times> 'b::linorder) list) \<Longrightarrow> sorted (map fst xs)"
  by (induction xs) (auto simp: less_eq_prod_def)

lemma set_bt_insert_subset: "set (bt_insert k v m) \<subseteq> insert (k, v) (set m)"
  by (induction m) auto

subsection \<open>Searches with any predicate\<close>

text \<open>Whatever the predicate, the search stops between an element that satisfies it and one that does not.  The lemmas below
  use only this, so they do not depend on the order in which the search probes the slice.\<close>

lemma partition_point_loop_boundary:
  "left \<le> right \<Longrightarrow> right \<le> length xs \<Longrightarrow> (0 < left \<longrightarrow> p (xs ! (left - 1))) \<Longrightarrow> (right < length xs \<longrightarrow> \<not> p (xs ! right)) \<Longrightarrow>
   k = partition_point_loop p xs left right \<Longrightarrow> k \<le> length xs \<and> (0 < k \<longrightarrow> p (xs ! (k - 1))) \<and> (k < length xs \<longrightarrow> \<not> p (xs ! k))"
proof (induction p xs left right rule: partition_point_loop.induct)
  case (1 p xs left right)
  let ?m = "left + (right - left) div 2"
  show ?case
  proof (cases "left < right")
    case True
    then have m: "left \<le> ?m" "?m < right" by auto
    have k: "k = (if p (xs ! ?m) then partition_point_loop p xs (?m + 1) right else partition_point_loop p xs left ?m)"
      using "1.prems"(5) True by (subst (asm) partition_point_loop.simps) (simp add: Let_def)
    show ?thesis
    proof (cases "p (xs ! ?m)")
      case mid: True
      show ?thesis using "1.IH"(1) [OF True refl mid] "1.prems"(2,4) m k mid by simp
    next
      case mid: False
      show ?thesis using "1.IH"(2) [OF True refl mid] "1.prems"(2,3) m k mid by simp
    qed
  next
    case False
    then have "k = left" "left = right" using "1.prems"(1,5) by (subst (asm) partition_point_loop.simps; simp)+
    then show ?thesis using "1.prems" by simp
  qed
qed

lemma partition_point_boundary:
  "partition_point p xs \<le> length xs" "0 < partition_point p xs \<Longrightarrow> p (xs ! (partition_point p xs - 1))"
  "partition_point p xs < length xs \<Longrightarrow> \<not> p (xs ! partition_point p xs)"
  using partition_point_loop_boundary [of 0 "length xs" xs p "partition_point p xs"] by (simp_all add: partition_point_def)

text \<open>
  A lookup of the block \<open>b\<close> of elements that satisfy \<open>q\<close> with a predicate that fails from the block on.  The search
  does not go beyond the start of the block, and then the whole block is read or nothing.
\<close>

lemma partition_point_block:
  assumes p: "\<forall>x \<in> set (b @ c). \<not> p x" and q: "\<forall>x \<in> set b. q x" "\<forall>x \<in> set a. \<not> q x" "\<forall>x \<in> set c. \<not> q x"
  defines "k \<equiv> partition_point p (a @ b @ c)"
  shows "takeWhile q (drop k (a @ b @ c)) = (if k = length a then b else [])"
    and "\<forall>x \<in> set a. p x \<Longrightarrow> k = length a" and "a \<noteq> [] \<Longrightarrow> \<not> p (last a) \<Longrightarrow> k \<noteq> length a"
proof -
  let ?xs = "a @ b @ c"
  have len: "k \<le> length ?xs" and low: "0 < k \<Longrightarrow> p (?xs ! (k - 1))" and high: "k < length ?xs \<Longrightarrow> \<not> p (?xs ! k)"
    unfolding k_def by (fact partition_point_boundary)+
  have le: "k \<le> length a"
  proof (rule ccontr)
    assume gt: "\<not> k \<le> length a"
    then have "\<not> k - 1 < length a" by linarith
    then have "?xs ! (k - 1) = (b @ c) ! (k - 1 - length a)" by (simp only: nth_append if_False)
    moreover have "k - 1 - length a < length (b @ c)" using gt len by simp
    ultimately have "\<not> p (?xs ! (k - 1))" using p by (metis nth_mem)
    then show False using low gt by simp
  qed
  show "takeWhile q (drop k ?xs) = (if k = length a then b else [])"
  proof (cases "k = length a")
    case True
    have "takeWhile q c = []" using q(3) by (cases c) auto
    then show ?thesis using True q(1) by (simp add: takeWhile_append2)
  next
    case False
    then have lt: "k < length a" using le by simp
    then have "drop k ?xs = a ! k # drop (Suc k) a @ b @ c" by (simp add: Cons_nth_drop_Suc)
    then show ?thesis using False q(2) lt by simp
  qed
  show "k = length a" if "\<forall>x \<in> set a. p x"
  proof (rule ccontr)
    assume "k \<noteq> length a"
    then have "k < length a" using le by simp
    then show False using that high by (simp add: nth_append)
  qed
  show "k \<noteq> length a" if "a \<noteq> []" "\<not> p (last a)"
    using low that by (auto simp: nth_append last_conv_nth)
qed

lemma sorted_blocks:
  "sorted (map g xs) \<Longrightarrow> xs = filter (\<lambda>x. g x < k) xs @ filter (\<lambda>x. g x = k) xs @ filter (\<lambda>x. (k :: 'k::linorder) < g x) xs"
proof (induction xs)
  case (Cons x xs)
  consider "g x < k" | "g x = k" | "k < g x" by fastforce
  then show ?case
  proof cases
    case 1
    then show ?thesis using Cons by auto
  next
    case 2
    then have "filter (\<lambda>x. g x < k) xs = []" using Cons.prems by (auto simp: filter_empty_conv)
    then show ?thesis using Cons 2 by auto
  next
    case 3
    then have "filter (\<lambda>x. g x < k) xs = []" "filter (\<lambda>x. g x = k) xs = []" using Cons.prems by (auto simp: filter_empty_conv)
    then show ?thesis using Cons 3 by auto
  qed
qed simp

lemma sorted_le_last: "sorted (map g xs) \<Longrightarrow> x \<in> set xs \<Longrightarrow> g x \<le> (g (last xs) :: 'k::linorder)"
  by (induction xs) (auto split: if_splits)

end
