(* ===== verification/Subgraphs_Data.thy ===== *)
theory Subgraphs_Data
  imports Collections "HOL-Library.Word"
begin

text \<open>
  The data of the composition crate's store of subgraphs (\<open>src/engine/crates/composition/src/subgraphs.rs\<close>
  and \<open>subgraphs/*.rs\<close>) and its diagnostics (\<open>diagnostics.rs\<close>).

  Ids are indices (\<open>usize\<close>), modelled as \<open>nat\<close>; \<open>FieldId\<close> and \<open>ArgumentId\<close> carry the
  derived lexicographic order.  A \<open>BTreeMap\<close> is the list of its entries in ascending key order, a
  \<open>BTreeSet\<close> the list of its elements in ascending order, an \<open>IndexSet\<close> the list of its elements in
  insertion order; hash sets and hash maps, whose order is never observed, are sets and partial
  functions.  Strings are byte strings.  A \<open>Walker\<close> is an id with a reference to the store: here the
  functions on it take the store and the id.
\<close>

subsection \<open>Ids\<close>

type_synonym StringId = nat
type_synonym SubgraphId = nat
type_synonym DefinitionId = nat
type_synonym DirectiveSiteId = nat
type_synonym FieldTypeId = nat
type_synonym WrapperTypeId = nat
type_synonym KeyId = nat

datatype FieldId = FieldId (field_parent: DefinitionId) (field_name_id: StringId)

datatype ArgumentId = ArgumentId (argument_parent: DefinitionId) (argument_field: StringId) (argument_name_id: StringId)

fun field_key :: "FieldId \<Rightarrow> nat \<times> nat" where
  "field_key (FieldId d n) = (d, n)"

fun argument_key :: "ArgumentId \<Rightarrow> nat \<times> nat \<times> nat" where
  "argument_key (ArgumentId d f n) = (d, f, n)"

lemma field_key_inject: "field_key x = field_key y \<longleftrightarrow> x = y"
  by (cases x; cases y) simp

lemma argument_key_inject: "argument_key x = argument_key y \<longleftrightarrow> x = y"
  by (cases x; cases y) simp

instantiation FieldId :: linorder
begin

definition less_eq_FieldId :: "FieldId \<Rightarrow> FieldId \<Rightarrow> bool" where
  "less_eq_FieldId x y \<longleftrightarrow> field_key x \<le> field_key y"

definition less_FieldId :: "FieldId \<Rightarrow> FieldId \<Rightarrow> bool" where
  "less_FieldId x y \<longleftrightarrow> field_key x < field_key y"

instance
  by standard (auto simp: less_eq_FieldId_def less_FieldId_def field_key_inject [symmetric])

end

instantiation ArgumentId :: linorder
begin

definition less_eq_ArgumentId :: "ArgumentId \<Rightarrow> ArgumentId \<Rightarrow> bool" where
  "less_eq_ArgumentId x y \<longleftrightarrow> argument_key x \<le> argument_key y"

definition less_ArgumentId :: "ArgumentId \<Rightarrow> ArgumentId \<Rightarrow> bool" where
  "less_ArgumentId x y \<longleftrightarrow> argument_key x < argument_key y"

instance
  by standard (auto simp: less_eq_ArgumentId_def less_ArgumentId_def argument_key_inject [symmetric])

end

lemma FieldId_less_iff [simp]: "FieldId d n < FieldId e m \<longleftrightarrow> d < e \<or> d = e \<and> n < m"
  by (auto simp: less_FieldId_def)

lemma FieldId_le_iff [simp]: "FieldId d n \<le> FieldId e m \<longleftrightarrow> d < e \<or> d = e \<and> n \<le> m"
  by (auto simp: less_eq_FieldId_def)

lemma ArgumentId_less_iff [simp]:
  "ArgumentId d f n < ArgumentId e g m \<longleftrightarrow> d < e \<or> d = e \<and> (f < g \<or> f = g \<and> n < m)"
  by (auto simp: less_ArgumentId_def)

lemma ArgumentId_le_iff [simp]:
  "ArgumentId d f n \<le> ArgumentId e g m \<longleftrightarrow> d < e \<or> d = e \<and> (f < g \<or> f = g \<and> n \<le> m)"
  by (auto simp: less_eq_ArgumentId_def)

subsection \<open>Values\<close>

text \<open>An \<open>f64\<close> is its bit pattern; its equality is the one of IEEE 754: a NaN differs from everything,
  and the two zeros are equal.\<close>

type_synonym f64 = "64 word"

definition f64_is_nan :: "f64 \<Rightarrow> bool" where
  "f64_is_nan x \<longleftrightarrow> take_bit 11 (drop_bit 52 x) = 2047 \<and> take_bit 52 x \<noteq> 0"

definition f64_eq :: "f64 \<Rightarrow> f64 \<Rightarrow> bool" where
  "f64_eq x y \<longleftrightarrow> \<not> f64_is_nan x \<and> \<not> f64_is_nan y \<and> (x = y \<or> take_bit 63 x = 0 \<and> take_bit 63 y = 0)"

text \<open>\<open>Value\<close>; the integer of \<open>Value_Int\<close> is an \<open>i64\<close>.\<close>

datatype Value =
    Value_String StringId
  | Value_Int int
  | Value_Float f64
  | Value_Boolean bool
  | Value_Enum StringId
  | Value_Object "(StringId \<times> Value) list"
  | Value_List "Value list"
  | Value_Null

text \<open>The derived \<open>PartialEq\<close> of \<open>Value\<close>.\<close>

fun value_eq :: "Value \<Rightarrow> Value \<Rightarrow> bool"
  and value_eq_list :: "Value list \<Rightarrow> Value list \<Rightarrow> bool"
  and value_eq_fields :: "(StringId \<times> Value) list \<Rightarrow> (StringId \<times> Value) list \<Rightarrow> bool" where
  "value_eq (Value_String a) (Value_String b) \<longleftrightarrow> a = b"
| "value_eq (Value_Int a) (Value_Int b) \<longleftrightarrow> a = b"
| "value_eq (Value_Float a) (Value_Float b) \<longleftrightarrow> f64_eq a b"
| "value_eq (Value_Boolean a) (Value_Boolean b) \<longleftrightarrow> a = b"
| "value_eq (Value_Enum a) (Value_Enum b) \<longleftrightarrow> a = b"
| "value_eq (Value_Object a) (Value_Object b) \<longleftrightarrow> value_eq_fields a b"
| "value_eq (Value_List a) (Value_List b) \<longleftrightarrow> value_eq_list a b"
| "value_eq Value_Null Value_Null \<longleftrightarrow> True"
| "value_eq _ _ \<longleftrightarrow> False"
| "value_eq_list [] [] \<longleftrightarrow> True"
| "value_eq_list (x # xs) (y # ys) \<longleftrightarrow> value_eq x y \<and> value_eq_list xs ys"
| "value_eq_list _ _ \<longleftrightarrow> False"
| "value_eq_fields [] [] \<longleftrightarrow> True"
| "value_eq_fields ((k, x) # xs) ((l, y) # ys) \<longleftrightarrow> k = l \<and> value_eq x y \<and> value_eq_fields xs ys"
| "value_eq_fields _ _ \<longleftrightarrow> False"

type_synonym Arguments = "(StringId \<times> Value) list"

text \<open>\<open>Selection\<close> with its \<open>FieldSelection\<close>, of \<open>keys.rs\<close>.\<close>

datatype Selection =
    Selection_Field (selected_field: StringId) (selection_arguments: Arguments) (field_subselection: "Selection list")
  | InlineFragment (on_type: StringId) (fragment_subselection: "Selection list")

subsection \<open>Diagnostics\<close>

record Diagnostic =
  message :: string
  is_fatal :: bool

type_synonym Diagnostics = "Diagnostic list"

definition any_fatal :: "Diagnostics \<Rightarrow> bool" where
  "any_fatal ds \<longleftrightarrow> list_ex is_fatal ds"

definition clone_all_from :: "Diagnostics \<Rightarrow> Diagnostics \<Rightarrow> Diagnostics" where
  "clone_all_from ds other = ds @ other"

definition iter_messages :: "Diagnostics \<Rightarrow> string list" where
  "iter_messages ds = map message ds"

definition push_fatal :: "string \<Rightarrow> Diagnostics \<Rightarrow> Diagnostics" where
  "push_fatal m ds = ds @ [\<lparr>message = m, is_fatal = True\<rparr>]"

lemma any_fatal_push [simp]: "any_fatal (push_fatal m ds)"
  by (simp add: any_fatal_def push_fatal_def)

lemma any_fatal_append [simp]: "any_fatal (ds @ es) \<longleftrightarrow> any_fatal ds \<or> any_fatal es"
  by (simp add: any_fatal_def)

lemma any_fatal_Nil [simp]: "\<not> any_fatal []"
  by (simp add: any_fatal_def)

lemma any_fatal_Cons [simp]: "any_fatal (d # ds) \<longleftrightarrow> is_fatal d \<or> any_fatal ds"
  by (simp add: any_fatal_def)

subsection \<open>Parts of the store\<close>

datatype DefinitionKind = Object | Interface | Union | InputObject | Scalar | Enum

record Definition =
  d_subgraph_id :: SubgraphId
  d_name :: StringId
  d_kind :: DefinitionKind
  d_description :: "StringId option"
  d_directives :: DirectiveSiteId

record Definitions =
  ds_definitions :: "Definition list"
  ds_interface_impls :: "(StringId \<times> StringId) btree_set"
  ds_interface_definitions_to_subgraphs :: "(StringId \<times> StringId, SubgraphId list) btree_map"

record OverrideDirective =
  override_from :: StringId
  override_label :: "StringId option"

record AuthorizedDirective =
  auth_arguments :: "Selection list option"
  auth_fields :: "Selection list option"
  auth_node :: "Selection list option"
  auth_metadata :: "Value option"

record Deprecated =
  deprecated_reason :: "StringId option"

record Directives =
  site_id_counter :: nat
  dr_deprecated :: "(DirectiveSiteId, Deprecated) btree_map"
  dr_override :: "(DirectiveSiteId, OverrideDirective) btree_map"
  dr_provides :: "(DirectiveSiteId, Selection list) btree_map"
  dr_requires :: "(DirectiveSiteId, Selection list) btree_map"
  dr_authorized :: "(DirectiveSiteId, AuthorizedDirective) btree_map"
  dr_requires_scopes :: "(DirectiveSiteId \<times> StringId list) btree_set"
  dr_policies :: "(DirectiveSiteId \<times> StringId list) btree_set"
  dr_authenticated :: "DirectiveSiteId set"
  dr_inaccessible :: "DirectiveSiteId set"
  dr_shareable :: "DirectiveSiteId set"
  dr_external :: "DirectiveSiteId set"
  dr_interface_object :: "DirectiveSiteId set"
  dr_tags :: "(DirectiveSiteId \<times> StringId) btree_set"
  dr_composed_directives :: "(SubgraphId \<times> StringId) btree_set"
  dr_composed_directive_instances :: "(DirectiveSiteId \<times> StringId \<times> Arguments) list"

text \<open>The field \<open>Enums::values\<close> and the tuple struct \<open>Unions\<close>, by (union, member).\<close>

type_synonym Enums = "(DefinitionId \<times> StringId, DirectiveSiteId) btree_map"
type_synonym Unions = "(DefinitionId \<times> DefinitionId) btree_set"

record FieldTuple =
  ft_type :: FieldTypeId
  ft_description :: "StringId option"
  ft_directives :: DirectiveSiteId

record Fields =
  fs_field_arguments :: "(ArgumentId, FieldTuple) btree_map"
  fs_field_argument_defaults :: "ArgumentId \<rightharpoonup> Value"
  fs_input_field_default_values :: "FieldId \<rightharpoonup> Value"
  fs_definition_fields :: "(FieldId, FieldTuple) btree_map"

datatype WrapperTypeKind = List | NonNullList

record WrapperType =
  w_kind :: WrapperTypeKind
  w_outer :: "WrapperTypeId option"

record InnerFieldType =
  i_name :: StringId
  i_wrapper :: "WrapperTypeId option"
  i_is_required :: bool

record FieldTypes =
  inner_types :: "InnerFieldType list"
  wrappers :: "WrapperType list"

record Key =
  k_selection_set :: "Selection list"
  k_resolvable :: bool

record NestedKeyFields =
  nk_fields :: "FieldId set"
  nk_objects_with_nested_keys :: "DefinitionId set"

record Keys =
  ks_keys :: "(DefinitionId \<times> Key) list"
  ks_nested_key_fields :: NestedKeyFields

record Subgraph =
  s_name :: StringId
  s_url :: StringId
  s_query_type :: "DefinitionId option"
  s_mutation_type :: "DefinitionId option"
  s_subscription_type :: "DefinitionId option"

record Subgraphs =
  sg_strings :: "string list"
  sg_subgraphs :: "Subgraph list"
  sg_definitions :: Definitions
  sg_directives :: Directives
  sg_enums :: Enums
  sg_fields :: Fields
  sg_field_types :: FieldTypes
  sg_keys :: Keys
  sg_unions :: Unions
  sg_ingestion_diagnostics :: Diagnostics
  sg_definition_names :: "(StringId \<times> SubgraphId, DefinitionId) btree_map"

subsection \<open>Strings\<close>

text \<open>\<open>Strings::intern\<close>, \<open>Strings::resolve\<close>, \<open>Strings::lookup\<close>.\<close>

definition strings_intern :: "string list \<Rightarrow> string \<Rightarrow> StringId \<times> string list" where
  "strings_intern strs s =
     (case get_index_of strs s of Some idx \<Rightarrow> (idx, strs) | None \<Rightarrow> insert_full strs s)"

definition strings_resolve :: "string list \<Rightarrow> StringId \<Rightarrow> string panicking" where
  "strings_resolve strs i = vec_index strs i"

definition strings_lookup :: "string list \<Rightarrow> string \<Rightarrow> StringId option" where
  "strings_lookup strs s = get_index_of strs s"

lemma strings_intern_eq: "strings_intern = insert_full"
  by (auto simp: fun_eq_iff strings_intern_def insert_full_def simp del: get_index_of_None split: option.splits)

interpretation strings: interner strings_intern strings_resolve distinct
proof -
  have r: "strings_resolve = vec_index" by (auto simp: fun_eq_iff strings_resolve_def)
  show "interner strings_intern strings_resolve distinct"
    unfolding strings_intern_eq r by (rule index_set.interner_axioms)
qed

text \<open>\<open>subgraphs.strings.intern(..)\<close> and the walker's \<open>as_str\<close>.\<close>

definition intern :: "string \<Rightarrow> Subgraphs \<Rightarrow> StringId \<times> Subgraphs" where
  "intern s sg = (case strings_intern (sg_strings sg) s of (i, strs) \<Rightarrow> (i, sg\<lparr>sg_strings := strs\<rparr>))"

definition as_str :: "Subgraphs \<Rightarrow> StringId \<Rightarrow> string panicking" where
  "as_str sg i = strings_resolve (sg_strings sg) i"

text \<open>Interning an optional string, as every \<open>.map(|s| subgraphs.strings.intern(..))\<close> does.\<close>

fun intern_option :: "string option \<Rightarrow> Subgraphs \<Rightarrow> StringId option \<times> Subgraphs" where
  "intern_option None sg = (None, sg)"
| "intern_option (Some s) sg = (case intern s sg of (i, sg') \<Rightarrow> (Some i, sg'))"

subsection \<open>The empty store\<close>

definition BUILTIN_SCALARS :: "string list" where
  "BUILTIN_SCALARS = [''ID'', ''String'', ''Boolean'', ''Int'', ''Float'']"

definition subgraphs_default :: Subgraphs where
  "subgraphs_default =
    \<lparr>sg_strings = fold (\<lambda>scalar strs. snd (strings_intern strs scalar)) BUILTIN_SCALARS [],
     sg_subgraphs = [],
     sg_definitions = \<lparr>ds_definitions = [], ds_interface_impls = [], ds_interface_definitions_to_subgraphs = []\<rparr>,
     sg_directives =
       \<lparr>site_id_counter = 0, dr_deprecated = [], dr_override = [], dr_provides = [], dr_requires = [],
        dr_authorized = [], dr_requires_scopes = [], dr_policies = [], dr_authenticated = {},
        dr_inaccessible = {}, dr_shareable = {}, dr_external = {}, dr_interface_object = {}, dr_tags = [],
        dr_composed_directives = [], dr_composed_directive_instances = []\<rparr>,
     sg_enums = [],
     sg_fields = \<lparr>fs_field_arguments = [], fs_field_argument_defaults = Map.empty,
        fs_input_field_default_values = Map.empty, fs_definition_fields = []\<rparr>,
     sg_field_types = \<lparr>inner_types = [], wrappers = []\<rparr>,
     sg_keys = \<lparr>ks_keys = [], ks_nested_key_fields = \<lparr>nk_fields = {}, nk_objects_with_nested_keys = {}\<rparr>\<rparr>,
     sg_unions = [],
     sg_ingestion_diagnostics = [],
     sg_definition_names = []\<rparr>"

lemma subgraphs_default_strings: "sg_strings subgraphs_default = BUILTIN_SCALARS"
  by (simp add: subgraphs_default_def BUILTIN_SCALARS_def strings_intern_def insert_full_def get_index_of_def)

text \<open>\<open>iter_builtin_scalars\<close>: panics if a built-in scalar is not interned.\<close>

definition iter_builtin_scalars :: "Subgraphs \<Rightarrow> StringId list panicking" where
  "iter_builtin_scalars sg = mapM (strings_lookup (sg_strings sg)) BUILTIN_SCALARS"

end
