(* ===== verification/Field_Types.thy ===== *)
theory Field_Types
  imports Subgraphs_Data
begin

text \<open>
  Interned field types: \<open>src/engine/crates/composition/src/subgraphs/field_types.rs\<close>.

  A field type is stored as an innermost named type with its requiredness and a chain of list
  wrappers, each a pointer to the next one outwards.  \<open>iter_wrappers\<close> follows the chain; it would run
  forever on a cyclic one, so it is a partial function, shown total under the invariant
  \<open>field_types_wf\<close> that \<open>intern_field_type\<close> establishes and keeps.  The composition of two types is
  characterised over the types the ids denote (\<open>type_of\<close>).
\<close>

subsection \<open>Interning\<close>

text \<open>The type syntax of the parser: \<open>ast::Type\<close> and \<open>ast::BaseType\<close>, with the flag \<open>nullable\<close>.\<close>

datatype ast_Type =
    Type_Named string bool
  | Type_List ast_Type bool

text \<open>The loop of \<open>intern_field_type\<close> walks the syntax from the outermost list inwards.\<close>

fun intern_field_type_loop :: "ast_Type \<Rightarrow> WrapperTypeId option \<Rightarrow> Subgraphs \<Rightarrow> FieldTypeId \<times> Subgraphs" where
  "intern_field_type_loop (Type_List inner is_nullable) wrapper_type_id sg =
     (let wrapper = \<lparr>w_kind = (if is_nullable then List else NonNullList), w_outer = wrapper_type_id\<rparr>;
          (i, ws) = insert_full (wrappers (sg_field_types sg)) wrapper
      in intern_field_type_loop inner (Some i) (sg\<lparr>sg_field_types := (sg_field_types sg)\<lparr>wrappers := ws\<rparr>\<rparr>))"
| "intern_field_type_loop (Type_Named name is_nullable) wrapper_type_id sg =
     (let (n, sg1) = intern name sg;
          ty = \<lparr>i_name = n, i_wrapper = wrapper_type_id, i_is_required = \<not> is_nullable\<rparr>;
          (i, tys) = insert_full (inner_types (sg_field_types sg1)) ty
      in (i, sg1\<lparr>sg_field_types := (sg_field_types sg1)\<lparr>inner_types := tys\<rparr>\<rparr>))"

definition intern_field_type :: "ast_Type \<Rightarrow> Subgraphs \<Rightarrow> FieldTypeId \<times> Subgraphs" where
  "intern_field_type field_type sg = intern_field_type_loop field_type None sg"

subsection \<open>Field type walkers\<close>

definition inner_type :: "Subgraphs \<Rightarrow> FieldTypeId \<Rightarrow> InnerFieldType panicking" where
  "inner_type sg ty = vec_index (inner_types (sg_field_types sg)) ty"

text \<open>The iterator of \<open>iter_wrappers\<close>, drained.  \<open>IndexSet::get_index\<close> out of range ends the iteration.\<close>

partial_function (option) wrapper_chain :: "WrapperType list \<Rightarrow> WrapperTypeId option \<Rightarrow> WrapperTypeKind list option" where
  "wrapper_chain ws wrapper =
     (case wrapper of
        None \<Rightarrow> Some []
      | Some i \<Rightarrow>
          if i < length ws
          then do { ks \<leftarrow> wrapper_chain ws (w_outer (ws ! i)); Some (w_kind (ws ! i) # ks) }
          else Some [])"

declare wrapper_chain.simps [code]

definition iter_wrappers :: "Subgraphs \<Rightarrow> FieldTypeId \<Rightarrow> WrapperTypeKind list panicking" where
  "iter_wrappers sg ty = do {
     inner \<leftarrow> inner_type sg ty;
     wrapper_chain (wrappers (sg_field_types sg)) (i_wrapper inner) }"

definition inner_type_is_required :: "Subgraphs \<Rightarrow> FieldTypeId \<Rightarrow> bool panicking" where
  "inner_type_is_required sg ty = map_option i_is_required (inner_type sg ty)"

definition type_is_list :: "Subgraphs \<Rightarrow> FieldTypeId \<Rightarrow> bool panicking" where
  "type_is_list sg ty = map_option (\<lambda>ws. ws \<noteq> []) (iter_wrappers sg ty)"

definition type_name :: "Subgraphs \<Rightarrow> FieldTypeId \<Rightarrow> StringId panicking" where
  "type_name sg ty = map_option i_name (inner_type sg ty)"

definition type_is_required :: "Subgraphs \<Rightarrow> FieldTypeId \<Rightarrow> bool panicking" where
  "type_is_required sg ty = do {
     ws \<leftarrow> iter_wrappers sg ty;
     if ws = [] then inner_type_is_required sg ty
     else Some (case last ws of List \<Rightarrow> False | NonNullList \<Rightarrow> True) }"

definition type_definition :: "Subgraphs \<Rightarrow> FieldTypeId \<Rightarrow> SubgraphId \<Rightarrow> DefinitionId option panicking" where
  "type_definition sg ty subgraph = do {
     name \<leftarrow> type_name sg ty;
     Some (bt_get (sg_definition_names sg) (name, subgraph)) }"

definition type_display :: "Subgraphs \<Rightarrow> FieldTypeId \<Rightarrow> string panicking" where
  "type_display sg ty = do {
     name \<leftarrow> type_name sg ty;
     out \<leftarrow> as_str sg name;
     r \<leftarrow> inner_type_is_required sg ty;
     ws \<leftarrow> iter_wrappers sg ty;
     Some (fold (\<lambda>w out. case w of List \<Rightarrow> ''['' @ out @ '']'' | NonNullList \<Rightarrow> ''['' @ out @ '']!'') ws
             (if r then out @ ''!'' else out)) }"

subsection \<open>Composition of two types\<close>

text \<open>
  \<open>Zip\<close> over two borrowed iterators asks the first one before the second one, so it may consume an
  element of the first that it does not return; \<open>Peekable\<close> keeps at most one looked-up item.
\<close>

fun zip_next :: "'a list \<times> 'b list \<Rightarrow> ('a \<times> 'b) option \<times> ('a list \<times> 'b list)" where
  "zip_next ([], ys) = (None, ([], ys))"
| "zip_next (x # xs, []) = (None, (xs, []))"
| "zip_next (x # xs, y # ys) = (Some (x, y), (xs, ys))"

type_synonym ('a, 'b) peekable_zip = "('a \<times> 'b) option option \<times> ('a list \<times> 'b list)"

fun peek :: "('a, 'b) peekable_zip \<Rightarrow> ('a \<times> 'b) option \<times> ('a, 'b) peekable_zip" where
  "peek (Some r, it) = (r, (Some r, it))"
| "peek (None, it) = (case zip_next it of (r, it') \<Rightarrow> (r, (Some r, it')))"

fun peekable_next :: "('a, 'b) peekable_zip \<Rightarrow> ('a \<times> 'b) option \<times> ('a, 'b) peekable_zip" where
  "peekable_next (Some r, it) = (r, (None, it))"
| "peekable_next (None, it) = (case zip_next it of (r, it') \<Rightarrow> (r, (None, it')))"

text \<open>
  The \<open>while let\<close> loop: \<open>Some r\<close> when the body returns \<open>r\<close>, \<open>None\<close> when the loop ends without
  returning.
\<close>

fun remaining :: "('a, 'b) peekable_zip \<Rightarrow> nat" where
  "remaining (p, (xs, ys)) = length xs + (case p of Some (Some _) \<Rightarrow> 1 | _ \<Rightarrow> 0)"

lemma peek_remaining:
  "peekable_next z = (Some x, z') \<Longrightarrow> peek z' = (Some y, z'') \<Longrightarrow> remaining z'' < remaining z"
proof -
  assume a: "peekable_next z = (Some x, z')" "peek z' = (Some y, z'')"
  obtain p xs ys where z: "z = (p, (xs, ys))" by (cases z) auto
  show ?thesis
    using a by (cases p; cases xs; cases ys; cases "tl xs"; cases "tl ys") (auto simp: z)
qed

function compose_loop :: "(WrapperTypeKind, WrapperTypeKind) peekable_zip \<Rightarrow> bool option option" where
  "compose_loop z =
     (case peekable_next z of
        (None, _) \<Rightarrow> None
      | (Some (self_wrapper, other_wrapper), z') \<Rightarrow>
          (case peek z' of
             (None, (_, (self_wrappers, other_wrappers))) \<Rightarrow>
               Some (if self_wrappers \<noteq> [] \<or> other_wrappers \<noteq> [] then None
                     else Some (other_wrapper = NonNullList))
           | (Some _, z'') \<Rightarrow>
               if self_wrapper \<noteq> other_wrapper then Some None else compose_loop z''))"
  by pat_completeness auto
termination
  by (relation "measure remaining") (auto intro: peek_remaining [OF sym sym])

declare compose_loop.simps [simp del]

definition compose_types :: "Subgraphs \<Rightarrow> FieldTypeId \<Rightarrow> FieldTypeId \<Rightarrow> bool option panicking" where
  "compose_types sg self other =
     (if self = other then Some (Some True)
      else do {
        self_inner \<leftarrow> inner_type sg self;
        other_inner \<leftarrow> inner_type sg other;
        if i_name self_inner \<noteq> i_name other_inner then Some None
        else do {
          self_wrappers \<leftarrow> iter_wrappers sg self;
          other_wrappers \<leftarrow> iter_wrappers sg other;
          let (peeked, zipped_wrappers) = peek (None, (self_wrappers, other_wrappers));
          if peeked \<noteq> None \<and> i_is_required self_inner \<noteq> i_is_required other_inner then Some None
          else case compose_loop zipped_wrappers of
                 Some r \<Rightarrow> Some r
               | None \<Rightarrow> map_option Some (type_is_required sg other) } })"

definition compose_for_input :: "Subgraphs \<Rightarrow> FieldTypeId \<Rightarrow> FieldTypeId \<Rightarrow> FieldTypeId option panicking" where
  "compose_for_input sg self other =
     map_option (map_option (\<lambda>b. if b then other else self)) (compose_types sg self other)"

definition compose_for_output :: "Subgraphs \<Rightarrow> FieldTypeId \<Rightarrow> FieldTypeId \<Rightarrow> FieldTypeId option panicking" where
  "compose_for_output sg self other =
     map_option (map_option (\<lambda>b. if b then self else other)) (compose_types sg self other)"

subsection \<open>Wrapper chains\<close>

text \<open>Pointers go to earlier wrappers only, and no wrapper is stored twice.\<close>

definition pointer_ok :: "WrapperType list \<Rightarrow> WrapperTypeId option \<Rightarrow> bool" where
  "pointer_ok ws w \<longleftrightarrow> (case w of None \<Rightarrow> True | Some i \<Rightarrow> i < length ws)"

definition wrappers_wf :: "WrapperType list \<Rightarrow> bool" where
  "wrappers_wf ws \<longleftrightarrow> distinct ws \<and> (\<forall>i < length ws. pointer_ok (take i ws) (w_outer (ws ! i)))"

lemma pointer_ok_simps [simp]: "pointer_ok ws None" "pointer_ok ws (Some i) \<longleftrightarrow> i < length ws"
  by (simp_all add: pointer_ok_def)

lemma pointer_ok_append: "pointer_ok ws w \<Longrightarrow> pointer_ok (ws @ vs) w"
  by (cases w) simp_all

lemma wrapper_chain_None [simp]: "wrapper_chain ws None = Some []"
  by (simp add: wrapper_chain.simps)

lemma wrapper_chain_Some:
  "i < length ws \<Longrightarrow>
   wrapper_chain ws (Some i) = map_option ((#) (w_kind (ws ! i))) (wrapper_chain ws (w_outer (ws ! i)))"
  by (subst wrapper_chain.simps) (cases "wrapper_chain ws (w_outer (ws ! i))"; simp)

text \<open>Induction along the chain from a pointer.\<close>

lemma pointer_induct [consumes 2, case_names None Some]:
  assumes "wrappers_wf ws" and "pointer_ok ws w"
    and "P None"
    and "\<And>i. i < length ws \<Longrightarrow> pointer_ok ws (w_outer (ws ! i)) \<Longrightarrow> P (w_outer (ws ! i)) \<Longrightarrow> P (Some i)"
  shows "P w"
proof (cases w)
  case (Some i)
  have "i < length ws \<Longrightarrow> P (Some i)" for i
  proof (induction i rule: less_induct)
    case (less i)
    then have p: "pointer_ok (take i ws) (w_outer (ws ! i))" using assms(1) by (simp add: wrappers_wf_def)
    have "P (w_outer (ws ! i))"
    proof (cases "w_outer (ws ! i)")
      case (Some j)
      with p less show ?thesis by simp
    qed (simp add: assms(3))
    then show ?case using assms(4) [of i] less.prems p by (cases "w_outer (ws ! i)") auto
  qed
  with Some assms(2) show ?thesis by simp
qed (simp add: assms(3))

lemma wrapper_chain_total:
  "wrappers_wf ws \<Longrightarrow> pointer_ok ws w \<Longrightarrow> \<exists>ks. wrapper_chain ws w = Some ks"
  by (induction w rule: pointer_induct) (auto simp: wrapper_chain_Some)

lemma wrapper_chain_append:
  "wrappers_wf ws \<Longrightarrow> pointer_ok ws w \<Longrightarrow> wrapper_chain (ws @ vs) w = wrapper_chain ws w"
  by (induction w rule: pointer_induct) (auto simp: wrapper_chain_Some nth_append)

lemma wrapper_chain_Cons:
  "wrapper_chain ws w = Some (k # ks) \<Longrightarrow>
   \<exists>i < length ws. w = Some i \<and> w_kind (ws ! i) = k \<and> wrapper_chain ws (w_outer (ws ! i)) = Some ks"
proof (cases w)
  case (Some i)
  assume a: "wrapper_chain ws w = Some (k # ks)"
  then have "i < length ws" by (subst (asm) wrapper_chain.simps) (simp add: Some split: if_splits)
  with a Some show ?thesis by (auto simp: wrapper_chain_Some)
qed simp

lemma wrapper_chain_Nil: "pointer_ok ws w \<Longrightarrow> wrapper_chain ws w = Some [] \<Longrightarrow> w = None"
  by (cases w) (auto simp: wrapper_chain_Some)

lemma wrapper_chain_inj:
  assumes "wrappers_wf ws" and "pointer_ok ws v" and "pointer_ok ws w"
    and "wrapper_chain ws v = Some ks" and "wrapper_chain ws w = Some ks"
  shows "v = w"
  using assms
proof (induction ks arbitrary: v w)
  case Nil
  then show ?case using wrapper_chain_Nil by blast
next
  case (Cons k ks)
  have ok: "pointer_ok ws (w_outer (ws ! i))" if "i < length ws" for i
    using Cons.prems(1) that unfolding wrappers_wf_def by (cases "w_outer (ws ! i)") auto
  obtain i j where i: "i < length ws" "v = Some i" "w_kind (ws ! i) = k" "wrapper_chain ws (w_outer (ws ! i)) = Some ks"
    and j: "j < length ws" "w = Some j" "w_kind (ws ! j) = k" "wrapper_chain ws (w_outer (ws ! j)) = Some ks"
    using wrapper_chain_Cons [OF Cons.prems(4)] wrapper_chain_Cons [OF Cons.prems(5)] by blast
  have "w_outer (ws ! i) = w_outer (ws ! j)"
    using Cons.IH [OF Cons.prems(1) ok ok] i j by blast
  then have "ws ! i = ws ! j" using i(3) j(3) by simp
  then show ?case using Cons.prems(1) i(1,2) j(1,2) by (simp add: wrappers_wf_def nth_eq_iff_index_eq)
qed

lemma wrapper_chain_suffix:
  "wrapper_chain ws w = Some (ks1 @ ks2) \<Longrightarrow> pointer_ok ws w \<Longrightarrow> wrappers_wf ws \<Longrightarrow>
   \<exists>v. pointer_ok ws v \<and> wrapper_chain ws v = Some ks2"
proof (induction ks1 arbitrary: w)
  case (Cons k ks1)
  obtain i where i: "i < length ws" "wrapper_chain ws (w_outer (ws ! i)) = Some (ks1 @ ks2)"
    using wrapper_chain_Cons [of ws w k "ks1 @ ks2"] Cons.prems(1) by auto
  have "pointer_ok ws (w_outer (ws ! i))"
    using Cons.prems(3) i(1) unfolding wrappers_wf_def by (cases "w_outer (ws ! i)") auto
  then show ?case using Cons.IH [OF i(2)] Cons.prems(3) by blast
qed auto

lemma wrappers_wf_insert:
  assumes "wrappers_wf ws" and "pointer_ok ws (w_outer x)" and "insert_full ws x = (i, ws')"
  shows "wrappers_wf ws'" and "i < length ws'" and "\<exists>vs. ws' = ws @ vs"
    and "wrapper_chain ws' (Some i) = map_option ((#) (w_kind x)) (wrapper_chain ws (w_outer x))"
proof -
  show e: "\<exists>vs. ws' = ws @ vs" and l: "i < length ws'"
    using insert_full_prefix [OF assms(3)] insert_full_length [OF assms(3)] by simp_all
  show "wrappers_wf ws'"
    using assms by (cases rule: insert_full_cases [of ws x])
      (auto simp: wrappers_wf_def nth_append less_Suc_eq pointer_ok_def split: option.splits)
  have "vec_index ws' i = Some x"
    using assms(1,3) index_set.intern_resolve by (auto simp: wrappers_wf_def)
  then show "wrapper_chain ws' (Some i) = map_option ((#) (w_kind x)) (wrapper_chain ws (w_outer x))"
    using l e wrapper_chain_append [OF assms(1,2)] by (auto simp: wrapper_chain_Some vec_index_eq_Some)
qed

subsection \<open>The types that ids denote\<close>

definition inner_type_ok :: "string list \<Rightarrow> WrapperType list \<Rightarrow> InnerFieldType \<Rightarrow> bool" where
  "inner_type_ok strs ws ty \<longleftrightarrow> i_name ty < length strs \<and> pointer_ok ws (i_wrapper ty)"

definition field_types_wf :: "Subgraphs \<Rightarrow> bool" where
  "field_types_wf sg \<longleftrightarrow> distinct (sg_strings sg) \<and> wrappers_wf (wrappers (sg_field_types sg))
     \<and> distinct (inner_types (sg_field_types sg))
     \<and> (\<forall>ty \<in> set (inner_types (sg_field_types sg)). inner_type_ok (sg_strings sg) (wrappers (sg_field_types sg)) ty)"

fun wrap_type :: "WrapperTypeKind \<Rightarrow> ast_Type \<Rightarrow> ast_Type" where
  "wrap_type List t = Type_List t True"
| "wrap_type NonNullList t = Type_List t False"

text \<open>The type an id was issued for, read back from the tables.\<close>

definition type_syntax :: "Subgraphs \<Rightarrow> FieldTypeId \<Rightarrow> ast_Type option" where
  "type_syntax sg ty = do {
     inner \<leftarrow> inner_type sg ty;
     name \<leftarrow> as_str sg (i_name inner);
     ws \<leftarrow> wrapper_chain (wrappers (sg_field_types sg)) (i_wrapper inner);
     Some (fold wrap_type ws (Type_Named name (\<not> i_is_required inner))) }"

lemma wrap_type_eq: "wrap_type k t = wrap_type l u \<longleftrightarrow> k = l \<and> t = u"
  by (cases k; cases l) auto

lemma wrap_type_not_Named [simp]: "wrap_type k t \<noteq> Type_Named n b"
  by (cases k) auto

lemma fold_wrap_suffix:
  "fold wrap_type ks2 t = fold wrap_type ks (Type_Named n b) \<Longrightarrow>
   \<exists>ks1. ks = ks1 @ ks2 \<and> t = fold wrap_type ks1 (Type_Named n b)"
proof (induction ks2 arbitrary: ks rule: rev_induct)
  case (snoc k ks2)
  show ?case
  proof (cases ks rule: rev_cases)
    case Nil
    with snoc.prems show ?thesis by simp
  next
    case (snoc ks' l)
    with snoc.prems have "k = l" "fold wrap_type ks2 t = fold wrap_type ks' (Type_Named n b)"
      by (simp_all add: wrap_type_eq)
    with snoc.IH snoc show ?thesis by auto
  qed
qed auto

lemma fold_wrap_inject:
  "fold wrap_type ks (Type_Named n b) = fold wrap_type ls (Type_Named m c) \<longleftrightarrow> ks = ls \<and> n = m \<and> b = c"
proof
  assume a: "fold wrap_type ks (Type_Named n b) = fold wrap_type ls (Type_Named m c)"
  then obtain ks1 where "ls = ks1 @ ks" "Type_Named n b = fold wrap_type ks1 (Type_Named m c)"
    using fold_wrap_suffix by blast
  moreover from this(2) have "ks1 = []" by (cases ks1 rule: rev_cases) (auto simp: wrap_type_not_Named [symmetric])
  ultimately show "ks = ls \<and> n = m \<and> b = c" by simp
qed simp

lemma inner_type_ok_append:
  "inner_type_ok strs ws ty \<Longrightarrow> inner_type_ok (strs @ strs') (ws @ ws') ty"
  by (auto simp: inner_type_ok_def pointer_ok_append)

text \<open>The store after interning extends the store before it; nothing but the tables of strings, inner
  types and wrappers changes.\<close>

definition types_extend :: "Subgraphs \<Rightarrow> Subgraphs \<Rightarrow> bool" where
  "types_extend sg sg' \<longleftrightarrow> (\<exists>strs ws tys. sg' = sg\<lparr>sg_strings := sg_strings sg @ strs,
     sg_field_types := \<lparr>inner_types = inner_types (sg_field_types sg) @ tys, wrappers = wrappers (sg_field_types sg) @ ws\<rparr>\<rparr>)"

lemma types_extendI:
  "sg' = sg\<lparr>sg_strings := sg_strings sg @ strs, sg_field_types :=
     \<lparr>inner_types = inner_types (sg_field_types sg) @ tys, wrappers = wrappers (sg_field_types sg) @ ws\<rparr>\<rparr>
   \<Longrightarrow> types_extend sg sg'"
  unfolding types_extend_def by blast

lemma types_extend_refl: "types_extend sg sg"
  unfolding types_extend_def by (rule exI [of _ "[]"])+ simp

lemma types_extend_trans:
  assumes "types_extend a b" and "types_extend b c"
  shows "types_extend a c"
proof -
  from assms obtain s1 w1 t1 s2 w2 t2 where
    b: "b = a\<lparr>sg_strings := sg_strings a @ s1,
      sg_field_types := \<lparr>inner_types = inner_types (sg_field_types a) @ t1, wrappers = wrappers (sg_field_types a) @ w1\<rparr>\<rparr>"
    and c: "c = b\<lparr>sg_strings := sg_strings b @ s2,
      sg_field_types := \<lparr>inner_types = inner_types (sg_field_types b) @ t2, wrappers = wrappers (sg_field_types b) @ w2\<rparr>\<rparr>"
    unfolding types_extend_def by blast
  show ?thesis unfolding types_extend_def
    by (intro exI [of _ "s1 @ s2"] exI [of _ "w1 @ w2"] exI [of _ "t1 @ t2"]) (simp add: b c)
qed

lemma type_syntax_extend:
  assumes "types_extend sg sg'" and "field_types_wf sg" and "type_syntax sg ty = Some t"
  shows "type_syntax sg' ty = Some t"
proof -
  obtain inner name ws where t: "inner_type sg ty = Some inner" "as_str sg (i_name inner) = Some name"
    "wrapper_chain (wrappers (sg_field_types sg)) (i_wrapper inner) = Some ws"
    "t = fold wrap_type ws (Type_Named name (\<not> i_is_required inner))"
    using assms(3) by (auto simp: type_syntax_def split: Option.bind_splits)
  moreover have "pointer_ok (wrappers (sg_field_types sg)) (i_wrapper inner)"
    using t(1) assms(2) by (auto simp: inner_type_def field_types_wf_def inner_type_ok_def dest: vec_index_mem)
  ultimately show ?thesis
    using assms(1,2)
    by (auto simp: types_extend_def type_syntax_def inner_type_def as_str_def strings_resolve_def
        field_types_wf_def wrapper_chain_append vec_index_append)
qed

lemma type_syntax_inj:
  assumes wf: "field_types_wf sg" and "type_syntax sg i = Some t" and "type_syntax sg j = Some t"
  shows "i = j"
proof -
  have d: "\<exists>inner name ws. inner_type sg ty = Some inner \<and> as_str sg (i_name inner) = Some name
      \<and> wrapper_chain (wrappers (sg_field_types sg)) (i_wrapper inner) = Some ws
      \<and> pointer_ok (wrappers (sg_field_types sg)) (i_wrapper inner)
      \<and> t = fold wrap_type ws (Type_Named name (\<not> i_is_required inner))"
    if "type_syntax sg ty = Some t" for ty
    using that wf
    by (auto simp: type_syntax_def inner_type_def field_types_wf_def inner_type_ok_def
        split: Option.bind_splits dest: vec_index_mem)
  obtain a name ws b name' ws' where
    a: "inner_type sg i = Some a" "as_str sg (i_name a) = Some name"
      "wrapper_chain (wrappers (sg_field_types sg)) (i_wrapper a) = Some ws"
      "pointer_ok (wrappers (sg_field_types sg)) (i_wrapper a)"
      "t = fold wrap_type ws (Type_Named name (\<not> i_is_required a))"
    and b: "inner_type sg j = Some b" "as_str sg (i_name b) = Some name'"
      "wrapper_chain (wrappers (sg_field_types sg)) (i_wrapper b) = Some ws'"
      "pointer_ok (wrappers (sg_field_types sg)) (i_wrapper b)"
      "t = fold wrap_type ws' (Type_Named name' (\<not> i_is_required b))"
    using d [OF assms(2)] d [OF assms(3)] by blast
  have eq: "ws = ws'" "name = name'" "i_is_required a = i_is_required b"
    using a(5) b(5) by (auto simp: fold_wrap_inject)
  have "i_wrapper a = i_wrapper b"
    using wf a(3,4) b(3,4) eq(1) wrapper_chain_inj by (auto simp: field_types_wf_def)
  moreover have "i_name a = i_name b"
    using wf a(2) b(2) eq(2) strings.resolve_inj by (auto simp: field_types_wf_def as_str_def)
  ultimately have "a = b" using eq(3) by simp
  then show ?thesis
    using a(1) b(1) wf by (auto simp: inner_type_def field_types_wf_def vec_index_eq_Some nth_eq_iff_index_eq)
qed

lemma intern_extends: "intern s sg = (i, sg') \<Longrightarrow> \<exists>strs. sg' = sg\<lparr>sg_strings := sg_strings sg @ strs\<rparr>"
  using insert_full_prefix [of "sg_strings sg" s]
  by (fastforce simp: intern_def strings_intern_eq split: prod.splits)

lemma intern_as_str:
  "distinct (sg_strings sg) \<Longrightarrow> intern s sg = (i, sg') \<Longrightarrow> as_str sg' i = Some s \<and> distinct (sg_strings sg')"
  by (auto simp: intern_def as_str_def split: prod.splits dest: strings.intern_resolve strings.intern_invar)

lemma field_types_wf_intern:
  assumes "field_types_wf sg" and "intern s sg = (i, sg')"
  shows "field_types_wf sg'"
proof -
  obtain strs where sg': "sg' = sg\<lparr>sg_strings := sg_strings sg @ strs\<rparr>" using intern_extends [OF assms(2)] by blast
  moreover have "distinct (sg_strings sg')" using assms intern_as_str by (auto simp: field_types_wf_def)
  ultimately show ?thesis
    using assms(1) inner_type_ok_append [where ws' = "[]"] by (auto simp: field_types_wf_def)
qed

lemma intern_field_type_loop_ok:
  assumes "field_types_wf sg" and "pointer_ok (wrappers (sg_field_types sg)) w"
    and "wrapper_chain (wrappers (sg_field_types sg)) w = Some ks"
    and "intern_field_type_loop t w sg = (i, sg')"
  shows "field_types_wf sg' \<and> types_extend sg sg' \<and> type_syntax sg' i = Some (fold wrap_type ks t)"
  using assms
proof (induction t arbitrary: w ks sg)
  case (Type_List t b)
  define x where "x = \<lparr>w_kind = (if b then List else NonNullList), w_outer = w\<rparr>"
  obtain j ws where ins: "insert_full (wrappers (sg_field_types sg)) x = (j, ws)" by fastforce
  define sg1 where "sg1 = sg\<lparr>sg_field_types := (sg_field_types sg)\<lparr>wrappers := ws\<rparr>\<rparr>"
  have wf: "wrappers_wf (wrappers (sg_field_types sg))" using Type_List.prems(1) by (simp add: field_types_wf_def)
  have p: "pointer_ok (wrappers (sg_field_types sg)) (w_outer x)" using Type_List.prems(2) by (simp add: x_def)
  note w = wrappers_wf_insert [OF wf p ins]
  have ext: "types_extend sg sg1"
  proof -
    obtain vs where vs: "ws = wrappers (sg_field_types sg) @ vs" using w(3) by blast
    show ?thesis
      by (rule types_extendI [where strs = "[]" and tys = "[]" and ws = vs]) (simp add: sg1_def vs)
  qed
  have "field_types_wf sg1"
    using Type_List.prems(1) w(1,3) inner_type_ok_append [where strs' = "[]"]
    by (auto simp: field_types_wf_def sg1_def)
  moreover have "wrapper_chain (wrappers (sg_field_types sg1)) (Some j) = Some (w_kind x # ks)"
    using w(4) Type_List.prems(3) by (simp add: sg1_def x_def)
  moreover have "intern_field_type_loop t (Some j) sg1 = (i, sg')"
    using Type_List.prems(4) ins by (simp add: sg1_def x_def)
  ultimately have "field_types_wf sg' \<and> types_extend sg1 sg' \<and> type_syntax sg' i = Some (fold wrap_type (w_kind x # ks) t)"
    using w(2) by (intro Type_List.IH) (auto simp: sg1_def)
  then show ?case using types_extend_trans [OF ext] by (cases b) (auto simp: x_def)
next
  case (Type_Named name b)
  obtain n sg1 where n: "intern name sg = (n, sg1)" by fastforce
  define ty where "ty = \<lparr>i_name = n, i_wrapper = w, i_is_required = \<not> b\<rparr>"
  obtain strs where sg1: "sg1 = sg\<lparr>sg_strings := sg_strings sg @ strs\<rparr>" using intern_extends [OF n] by blast
  have as: "as_str sg1 n = Some name"
    using intern_as_str [OF _ n] Type_Named.prems(1) by (simp add: field_types_wf_def)
  obtain tys where ins: "insert_full (inner_types (sg_field_types sg1)) ty = (i, tys)"
    and sg': "sg' = sg1\<lparr>sg_field_types := (sg_field_types sg1)\<lparr>inner_types := tys\<rparr>\<rparr>"
    using Type_Named.prems(4) by (auto simp: n ty_def Let_def split: prod.splits)
  have wf1: "field_types_wf sg1" using field_types_wf_intern [OF Type_Named.prems(1) n] .
  have ty: "inner_type_ok (sg_strings sg1) (wrappers (sg_field_types sg1)) ty"
    using as Type_Named.prems(2)
    by (auto simp: inner_type_ok_def ty_def as_str_def strings_resolve_def vec_index_eq_Some sg1)
  have "field_types_wf sg'"
    using wf1 ty index_set.intern_invar [OF _ ins]
    by (cases rule: insert_full_cases [of "inner_types (sg_field_types sg1)" ty]) (auto simp: field_types_wf_def sg' ins)
  moreover have "types_extend sg sg'"
  proof -
    obtain ys where ys: "tys = inner_types (sg_field_types sg) @ ys"
      using insert_full_prefix [OF ins] by (auto simp: sg1)
    show ?thesis
      by (rule types_extendI [where strs = strs and tys = ys and ws = "[]"]) (simp add: sg' sg1 ys)
  qed
  moreover have "vec_index tys i = Some ty"
    using wf1 index_set.intern_resolve [OF _ ins] by (simp add: field_types_wf_def)
  then have "type_syntax sg' i = Some (fold wrap_type ks (Type_Named name b))"
    using as Type_Named.prems(3) by (simp add: type_syntax_def inner_type_def sg' as_str_def ty_def sg1)
  ultimately show ?case by blast
qed

lemma intern_field_type_loop_known:
  assumes wf: "field_types_wf sg" and i: "type_syntax sg i = Some u"
    and "pointer_ok (wrappers (sg_field_types sg)) w" and "wrapper_chain (wrappers (sg_field_types sg)) w = Some ks"
    and "fold wrap_type ks t = u"
  shows "intern_field_type_loop t w sg = (i, sg)"
proof -
  obtain inner name ws where u: "inner_type sg i = Some inner" "as_str sg (i_name inner) = Some name"
    "wrapper_chain (wrappers (sg_field_types sg)) (i_wrapper inner) = Some ws"
    "u = fold wrap_type ws (Type_Named name (\<not> i_is_required inner))"
    using i by (auto simp: type_syntax_def split: Option.bind_splits)
  have p: "pointer_ok (wrappers (sg_field_types sg)) (i_wrapper inner)"
    using wf u(1) by (auto simp: inner_type_def field_types_wf_def inner_type_ok_def dest: vec_index_mem)
  have wfw: "wrappers_wf (wrappers (sg_field_types sg))" using wf by (simp add: field_types_wf_def)
  show ?thesis using assms(3-5)
  proof (induction t arbitrary: w ks)
    case (Type_List t b)
    define k where "k = (if b then List else NonNullList)"
    have f: "fold wrap_type (k # ks) t = u" using Type_List.prems(3) by (cases b) (simp_all add: k_def)
    obtain ks1 where "ws = ks1 @ k # ks" using fold_wrap_suffix [OF f [unfolded u(4)]] by blast
    then obtain v where v: "pointer_ok (wrappers (sg_field_types sg)) v"
      "wrapper_chain (wrappers (sg_field_types sg)) v = Some (k # ks)"
      using wrapper_chain_suffix u(3) p wfw by blast
    obtain j where j: "j < length (wrappers (sg_field_types sg))" "v = Some j"
      "w_kind (wrappers (sg_field_types sg) ! j) = k"
      "wrapper_chain (wrappers (sg_field_types sg)) (w_outer (wrappers (sg_field_types sg) ! j)) = Some ks"
      using wrapper_chain_Cons [OF v(2)] by blast
    have "pointer_ok (wrappers (sg_field_types sg)) (w_outer (wrappers (sg_field_types sg) ! j))"
      using wfw j(1) unfolding wrappers_wf_def by (cases "w_outer (wrappers (sg_field_types sg) ! j)") auto
    then have "w_outer (wrappers (sg_field_types sg) ! j) = w"
      using wrapper_chain_inj [OF wfw] Type_List.prems(1,2) j(4) by blast
    then have "vec_index (wrappers (sg_field_types sg)) j = Some \<lparr>w_kind = k, w_outer = w\<rparr>"
      using j(1,3) by (simp add: vec_index_eq_Some)
    then have "insert_full (wrappers (sg_field_types sg)) \<lparr>w_kind = k, w_outer = w\<rparr> = (j, wrappers (sg_field_types sg))"
      using wfw by (auto simp: wrappers_wf_def intro: index_set.intern_known)
    then show ?case using Type_List.IH [of "Some j" "k # ks"] v j(2) f by (simp add: k_def)
  next
    case (Type_Named n b)
    have eq: "ks = ws" "n = name" "b = (\<not> i_is_required inner)"
      using Type_Named.prems(3) u(4) by (simp_all add: fold_wrap_inject)
    have "w = i_wrapper inner" using wrapper_chain_inj [OF wfw Type_Named.prems(1) p Type_Named.prems(2)] u(3) eq(1) by blast
    moreover have "intern name sg = (i_name inner, sg)"
      using wf u(2) strings.intern_known by (simp add: intern_def as_str_def field_types_wf_def)
    moreover have "insert_full (inner_types (sg_field_types sg)) inner = (i, inner_types (sg_field_types sg))"
      using wf u(1) by (auto simp: inner_type_def field_types_wf_def intro: index_set.intern_known)
    ultimately show ?case using eq by (cases inner) simp
  qed
qed

interpretation field_types: interner "\<lambda>sg t. intern_field_type t sg" type_syntax field_types_wf
proof unfold_locales
  fix sg t i sg' j u
  assume wf: "field_types_wf sg"
  have ok: "field_types_wf sg' \<and> types_extend sg sg' \<and> type_syntax sg' i = Some t" if "intern_field_type t sg = (i, sg')"
    using intern_field_type_loop_ok [of sg None "[]" t i sg'] wf that by (simp add: intern_field_type_def)
  show "intern_field_type t sg = (i, sg') \<Longrightarrow> field_types_wf sg'" using ok by blast
  show "intern_field_type t sg = (i, sg') \<Longrightarrow> type_syntax sg' i = Some t" using ok by blast
  show "intern_field_type t sg = (i, sg') \<Longrightarrow> type_syntax sg j = Some u \<Longrightarrow> type_syntax sg' j = Some u"
    using ok wf type_syntax_extend by blast
  show "type_syntax sg i = Some t \<Longrightarrow> type_syntax sg j = Some t \<Longrightarrow> i = j" using wf type_syntax_inj by blast
  show "type_syntax sg i = Some t \<Longrightarrow> intern_field_type t sg = (i, sg)"
    using intern_field_type_loop_known [OF wf] by (simp add: intern_field_type_def)
qed

lemma intern_field_type_extends:
  "field_types_wf sg \<Longrightarrow> intern_field_type t sg = (i, sg') \<Longrightarrow> types_extend sg sg'"
  using intern_field_type_loop_ok [of sg None "[]" t i sg'] by (simp add: intern_field_type_def)

subsection \<open>What composition of two types decides\<close>

text \<open>The result of the loop on two non-empty chains of wrappers.\<close>

fun wrappers_compose :: "WrapperTypeKind list \<Rightarrow> WrapperTypeKind list \<Rightarrow> bool option" where
  "wrappers_compose (x # xs) (y # ys) =
     (if ys = [] then if length xs \<le> 1 then Some (y = NonNullList) else None
      else if xs = [] \<or> x \<noteq> y then None else wrappers_compose xs ys)"
| "wrappers_compose _ _ = None"

lemma compose_loop_eq:
  "compose_loop (Some (Some (x, y)), (xs, ys)) = Some (wrappers_compose (x # xs) (y # ys))"
proof (induction xs arbitrary: x y ys)
  case Nil
  show ?case by (subst compose_loop.simps) (cases ys; simp)
next
  case (Cons a xs)
  show ?case
    by (subst compose_loop.simps) (cases ys; simp add: Cons.IH del: wrappers_compose.simps;
        simp add: wrappers_compose.simps(1))
qed

lemma compose_loop_end: "compose_loop (Some None, it) = None"
  by (subst compose_loop.simps) simp

lemma wrappers_compose_same_length:
  "length xs = length ys \<Longrightarrow> xs \<noteq> [] \<Longrightarrow>
   wrappers_compose xs ys = (if butlast xs = butlast ys then Some (last ys = NonNullList) else None)"
proof (induction xs ys rule: wrappers_compose.induct)
  case (1 x xs y ys)
  then show ?case by (cases xs; cases ys) auto
qed auto

text \<open>A type id read as its name, the requiredness of the innermost type and the wrappers.\<close>

definition type_shape :: "Subgraphs \<Rightarrow> FieldTypeId \<Rightarrow> (InnerFieldType \<times> WrapperTypeKind list) option" where
  "type_shape sg ty = do { inner \<leftarrow> inner_type sg ty; ws \<leftarrow> iter_wrappers sg ty; Some (inner, ws) }"

lemma type_shape_walkers:
  assumes "type_shape sg ty = Some (inner, ws)"
  shows "inner_type sg ty = Some inner" "iter_wrappers sg ty = Some ws"
    "type_name sg ty = Some (i_name inner)"
    "type_is_required sg ty = Some (if ws = [] then i_is_required inner else last ws = NonNullList)"
  using assms
  by (auto simp: type_shape_def type_name_def type_is_required_def inner_type_is_required_def
      split: Option.bind_splits WrapperTypeKind.splits)

lemma type_shape_syntax:
  assumes "type_syntax sg ty = Some t"
  obtains inner ws name where "type_shape sg ty = Some (inner, ws)" "as_str sg (i_name inner) = Some name"
    "t = fold wrap_type ws (Type_Named name (\<not> i_is_required inner))"
  using assms by (auto simp: type_syntax_def type_shape_def iter_wrappers_def split: Option.bind_splits)

lemma compose_types_shape:
  assumes "type_shape sg i = Some (a, ws)" and "type_shape sg j = Some (b, vs)"
  shows "compose_types sg i j =
    Some (if i = j then Some True
          else if i_name a \<noteq> i_name b then None
          else if ws = [] \<or> vs = [] then Some (if vs = [] then i_is_required b else last vs = NonNullList)
          else if i_is_required a \<noteq> i_is_required b then None
          else wrappers_compose ws vs)"
  using type_shape_walkers [OF assms(1)] type_shape_walkers [OF assms(2)]
  by (cases ws; cases vs) (auto simp: compose_types_def compose_loop_eq compose_loop_end simp del: wrappers_compose.simps)

subsection \<open>Properties\<close>

fun strip_outer :: "ast_Type \<Rightarrow> ast_Type" where
  "strip_outer (Type_Named n b) = Type_Named n True"
| "strip_outer (Type_List t b) = Type_List t True"

fun is_nullable_type :: "ast_Type \<Rightarrow> bool" where
  "is_nullable_type (Type_Named n b) = b"
| "is_nullable_type (Type_List t b) = b"

fun set_nullable :: "bool \<Rightarrow> ast_Type \<Rightarrow> ast_Type" where
  "set_nullable b (Type_Named n _) = Type_Named n b"
| "set_nullable b (Type_List t _) = Type_List t b"

fun nesting :: "ast_Type \<Rightarrow> nat" where
  "nesting (Type_Named n b) = 0"
| "nesting (Type_List t b) = Suc (nesting t)"

fun innermost :: "ast_Type \<Rightarrow> string" where
  "innermost (Type_Named n b) = n"
| "innermost (Type_List t b) = innermost t"

lemma fold_wrap_snoc:
  "ws \<noteq> [] \<Longrightarrow> fold wrap_type ws t = Type_List (fold wrap_type (butlast ws) t) (last ws = List)"
  by (cases ws rule: rev_cases; cases "last ws") auto

lemma fold_wrap_views:
  "nesting (fold wrap_type ws (Type_Named n b)) = length ws"
  "innermost (fold wrap_type ws (Type_Named n b)) = n"
  "is_nullable_type (fold wrap_type ws (Type_Named n b)) = (if ws = [] then b else last ws = List)"
proof -
  have k: "nesting (wrap_type k t) = Suc (nesting t)" "innermost (wrap_type k t) = innermost t" for k t
    by (cases k; simp)+
  show "nesting (fold wrap_type ws (Type_Named n b)) = length ws"
    "innermost (fold wrap_type ws (Type_Named n b)) = n"
    by (induction ws rule: rev_induct) (simp_all add: k)
  show "is_nullable_type (fold wrap_type ws (Type_Named n b)) = (if ws = [] then b else last ws = List)"
    by (simp add: fold_wrap_snoc)
qed

lemma strip_outer_eq:
  "length ws = length vs \<Longrightarrow>
   strip_outer (fold wrap_type ws (Type_Named n b)) = strip_outer (fold wrap_type vs (Type_Named m c))
     \<longleftrightarrow> n = m \<and> (ws \<noteq> [] \<longrightarrow> b = c \<and> butlast ws = butlast vs)"
proof (cases "ws = []")
  case False
  moreover assume "length ws = length vs"
  ultimately have "vs \<noteq> []" by auto
  with False show ?thesis by (auto simp: fold_wrap_snoc fold_wrap_inject)
qed auto

lemma set_nullable_outer: "strip_outer t = strip_outer u \<Longrightarrow> is_nullable_type t = b \<Longrightarrow> set_nullable b u = t"
  by (cases t; cases u) auto

lemma not_List: "w \<noteq> List \<longleftrightarrow> w = NonNullList"
  by (cases w) auto

lemma compose_types_same_nesting:
  assumes wf: "field_types_wf sg" and i: "type_syntax sg i = Some t" and j: "type_syntax sg j = Some u"
    and n: "nesting t = nesting u"
  shows "\<exists>b. compose_types sg i j = Some (if strip_outer t = strip_outer u then Some b else None)
    \<and> (i \<noteq> j \<longrightarrow> b = (\<not> is_nullable_type u))"
proof -
  obtain a ws x where t: "type_shape sg i = Some (a, ws)" "as_str sg (i_name a) = Some x"
    "t = fold wrap_type ws (Type_Named x (\<not> i_is_required a))"
    by (rule type_shape_syntax [OF i])
  obtain b vs y where u: "type_shape sg j = Some (b, vs)" "as_str sg (i_name b) = Some y"
    "u = fold wrap_type vs (Type_Named y (\<not> i_is_required b))"
    by (rule type_shape_syntax [OF j])
  have len: "length ws = length vs" using n by (simp add: t(3) u(3) fold_wrap_views)
  have "i_name a = i_name b \<longleftrightarrow> x = y"
    using t(2) u(2) wf strings.resolve_inj by (auto simp: as_str_def field_types_wf_def)
  moreover have "compose_types sg i i = Some (Some True)" by (simp add: compose_types_def)
  ultimately show ?thesis
    using i j len wrappers_compose_same_length [OF len]
    by (cases "i = j")
      (auto simp: compose_types_shape [OF t(1) u(1)] t(3) u(3) strip_outer_eq [OF len] fold_wrap_views not_List)
qed

text \<open>C10. Field types are interned: interning two types one after the other gives the same id exactly when
  the types are equal, both ids denote the types they were issued for, and the second interning of a
  type leaves the store unchanged.\<close>

theorem intern_field_type_ids:
  assumes "field_types_wf sg"
    and "intern_field_type t sg = (i, sg1)" and "intern_field_type u sg1 = (j, sg2)"
  shows "(i = j \<longleftrightarrow> t = u) \<and> type_syntax sg2 i = Some t \<and> type_syntax sg2 j = Some u \<and> (t = u \<longrightarrow> sg2 = sg1)"
proof -
  have sg1: "field_types_wf sg1" "type_syntax sg1 i = Some t"
    using assms(1,2) by (rule field_types.intern_invar, rule field_types.intern_resolve)
  have "type_syntax sg2 i = Some t" using sg1(1) assms(3) sg1(2) by (rule field_types.intern_stable)
  moreover have "type_syntax sg2 j = Some u" using sg1(1) assms(3) by (rule field_types.intern_resolve)
  moreover have "t = u \<Longrightarrow> sg2 = sg1" using field_types.intern_idempotent [OF assms(1,2)] assms(3) by simp
  ultimately show ?thesis using field_types.intern_eq_iff [OF assms] by blast
qed

lemma field_types_wf_default: "field_types_wf subgraphs_default"
  by (simp add: field_types_wf_def wrappers_wf_def subgraphs_default_strings)
    (simp add: subgraphs_default_def BUILTIN_SCALARS_def)

text \<open>Two types interned in an empty store, for the concrete instances below.\<close>

lemma two_types_example:
  obtains sg i j where "field_types_wf sg" "type_syntax sg i = Some t" "type_syntax sg j = Some u"
proof -
  obtain i sg1 where 1: "intern_field_type t subgraphs_default = (i, sg1)" by fastforce
  obtain j sg2 where 2: "intern_field_type u sg1 = (j, sg2)" by fastforce
  have sg1: "field_types_wf sg1" "type_syntax sg1 i = Some t"
    using field_types_wf_default 1 by (rule field_types.intern_invar, rule field_types.intern_resolve)
  have "field_types_wf sg2" "type_syntax sg2 j = Some u"
    using sg1(1) 2 by (rule field_types.intern_invar, rule field_types.intern_resolve)
  moreover have "type_syntax sg2 i = Some t" using sg1(1) 2 sg1(2) by (rule field_types.intern_stable)
  ultimately show thesis using that by blast
qed

theorem intern_field_type_ids_witness:
  "\<exists>sg1 sg2 i j. intern_field_type (Type_Named ''ID'' False) subgraphs_default = (i, sg1)
     \<and> intern_field_type (Type_List (Type_Named ''ID'' False) True) sg1 = (j, sg2) \<and> i \<noteq> j"
proof -
  obtain i sg1 where 1: "intern_field_type (Type_Named ''ID'' False) subgraphs_default = (i, sg1)" by fastforce
  obtain j sg2 where 2: "intern_field_type (Type_List (Type_Named ''ID'' False) True) sg1 = (j, sg2)" by fastforce
  have "i \<noteq> j" using intern_field_type_ids [OF field_types_wf_default 1 2] by simp
  with 1 2 show ?thesis by blast
qed

text \<open>C9. Two field types with the same list nesting compose exactly when they are equal up to the
  nullability of the outermost type.  Composed for output the outermost type is nullable if either one
  is; composed for input it is nullable only if both are.\<close>

theorem compose_types_correct:
  assumes "field_types_wf sg" and "type_syntax sg i = Some t" and "type_syntax sg j = Some u"
    and "nesting t = nesting u"
  shows "if strip_outer t = strip_outer u
    then (\<exists>k. compose_for_output sg i j = Some (Some k)
            \<and> type_syntax sg k = Some (set_nullable (is_nullable_type t \<or> is_nullable_type u) t))
       \<and> (\<exists>k. compose_for_input sg i j = Some (Some k)
            \<and> type_syntax sg k = Some (set_nullable (is_nullable_type t \<and> is_nullable_type u) t))
    else compose_for_output sg i j = Some None \<and> compose_for_input sg i j = Some None"
proof -
  obtain b where "compose_types sg i j = Some (if strip_outer t = strip_outer u then Some b else None)"
    "i \<noteq> j \<longrightarrow> b = (\<not> is_nullable_type u)"
    using compose_types_same_nesting [OF assms] by blast
  moreover have "i = j \<Longrightarrow> t = u" using assms(2,3) by simp
  ultimately show ?thesis
    using assms(2,3) set_nullable_outer [of t t] set_nullable_outer [of u t]
    by (cases "i = j"; cases "is_nullable_type u") (auto simp: compose_for_output_def compose_for_input_def)
qed

theorem compose_types_correct_witness:
  "\<exists>sg i j k. type_syntax sg i = Some (Type_List (Type_Named ''ID'' False) False)
     \<and> type_syntax sg j = Some (Type_List (Type_Named ''ID'' False) True)
     \<and> compose_for_output sg i j = Some (Some k) \<and> type_syntax sg k = type_syntax sg j"
proof -
  obtain sg i j where "field_types_wf sg" "type_syntax sg i = Some (Type_List (Type_Named ''ID'' False) False)"
    "type_syntax sg j = Some (Type_List (Type_Named ''ID'' False) True)"
    by (rule two_types_example)
  moreover from compose_types_correct [OF this] obtain k where "compose_for_output sg i j = Some (Some k)"
    "type_syntax sg k = Some (Type_List (Type_Named ''ID'' False) True)" by auto
  ultimately have "type_syntax sg i = Some (Type_List (Type_Named ''ID'' False) False)
     \<and> type_syntax sg j = Some (Type_List (Type_Named ''ID'' False) True)
     \<and> compose_for_output sg i j = Some (Some k) \<and> type_syntax sg k = type_syntax sg j" by simp
  then show ?thesis by blast
qed

text \<open>C13. The check that both types have the same list nesting is incomplete.  A type without list wrappers
  composes with every list type around the same named type, and a type of two list levels composes with
  the type of one level if it is the one that \<open>compose\<close> is called on, but not the other way round.\<close>

theorem compose_types_nesting_mismatch:
  assumes "field_types_wf sg"
  shows "(type_syntax sg i = Some (Type_Named n b) \<and> type_syntax sg j = Some u \<and> innermost u = n \<longrightarrow>
      compose_for_output sg i j \<notin> {None, Some None} \<and> compose_for_output sg j i \<notin> {None, Some None})
    \<and> (type_syntax sg i = Some (Type_List (Type_List (Type_Named n b) c) d) \<and>
      type_syntax sg j = Some (Type_List (Type_Named n b) e) \<longrightarrow>
      compose_for_output sg i j \<notin> {None, Some None} \<and> compose_for_output sg j i = Some None)"
proof (intro conjI [of "_ \<longrightarrow> _"] impI)
  note wf = assms
  have names: "i_name x = i_name y" if "as_str sg (i_name x) = Some m" "as_str sg (i_name y) = Some m" for x y m
    using that wf strings.resolve_inj by (auto simp: as_str_def field_types_wf_def)
  {
    assume "type_syntax sg i = Some (Type_Named n b) \<and> type_syntax sg j = Some u \<and> innermost u = n"
    then have i: "type_syntax sg i = Some (Type_Named n b)" and j: "type_syntax sg j = Some u" and n: "innermost u = n"
      by simp_all
    obtain a ws x where t: "type_shape sg i = Some (a, ws)" "as_str sg (i_name a) = Some x"
      "Type_Named n b = fold wrap_type ws (Type_Named x (\<not> i_is_required a))"
      by (rule type_shape_syntax [OF i])
    obtain a' vs y where u: "type_shape sg j = Some (a', vs)" "as_str sg (i_name a') = Some y"
      "u = fold wrap_type vs (Type_Named y (\<not> i_is_required a'))"
      by (rule type_shape_syntax [OF j])
    have "length ws = 0" "x = n"
      using arg_cong [OF t(3), of nesting] arg_cong [OF t(3), of innermost] by (simp_all add: fold_wrap_views)
    then have "ws = []" "x = n" by simp_all
    moreover have "y = n" using n by (simp add: u(3) fold_wrap_views)
    ultimately show "compose_for_output sg i j \<notin> {None, Some None} \<and> compose_for_output sg j i \<notin> {None, Some None}"
      using names [of a n a'] t(2) u(2)
      by (auto simp: compose_for_output_def compose_types_shape [OF t(1) u(1)] compose_types_shape [OF u(1) t(1)])
  }
  assume "type_syntax sg i = Some (Type_List (Type_List (Type_Named n b) c) d) \<and>
    type_syntax sg j = Some (Type_List (Type_Named n b) e)"
  then have i: "type_syntax sg i = Some (Type_List (Type_List (Type_Named n b) c) d)"
    and j: "type_syntax sg j = Some (Type_List (Type_Named n b) e)" by simp_all
  obtain a ws x where t: "type_shape sg i = Some (a, ws)" "as_str sg (i_name a) = Some x"
    "Type_List (Type_List (Type_Named n b) c) d = fold wrap_type ws (Type_Named x (\<not> i_is_required a))"
    by (rule type_shape_syntax [OF i])
  obtain a' vs y where u: "type_shape sg j = Some (a', vs)" "as_str sg (i_name a') = Some y"
    "Type_List (Type_Named n b) e = fold wrap_type vs (Type_Named y (\<not> i_is_required a'))"
    by (rule type_shape_syntax [OF j])
  have "length ws = 2" "x = n" "length vs = 1" "y = n"
    using arg_cong [OF t(3), of nesting] arg_cong [OF t(3), of innermost]
      arg_cong [OF u(3), of nesting] arg_cong [OF u(3), of innermost]
    by (simp_all add: fold_wrap_views)
  moreover from this obtain k l m where "ws = [k, l]" "vs = [m]"
    by (auto simp: length_Suc_conv numeral_2_eq_2)
  moreover from this t(3) u(3) have "i_is_required a = i_is_required a'"
    by (cases k; cases l; cases m) auto
  moreover have "i \<noteq> j" using i j by auto
  ultimately show "compose_for_output sg i j \<notin> {None, Some None} \<and> compose_for_output sg j i = Some None"
    using names [of a n a'] t(2) u(2)
    by (auto simp: compose_for_output_def compose_types_shape [OF t(1) u(1)] compose_types_shape [OF u(1) t(1)])
qed

theorem compose_types_nesting_mismatch_witness:
  "\<exists>sg i j. type_syntax sg i = Some (Type_Named ''ID'' True) \<and> type_syntax sg j = Some (Type_List (Type_Named ''ID'' True) True)
     \<and> compose_for_output sg i j \<notin> {None, Some None}"
proof -
  obtain sg i j where "field_types_wf sg" "type_syntax sg i = Some (Type_Named ''ID'' True)"
    "type_syntax sg j = Some (Type_List (Type_Named ''ID'' True) True)"
    by (rule two_types_example)
  moreover from this have "compose_for_output sg i j \<notin> {None, Some None}"
    using compose_types_nesting_mismatch [of sg i "''ID''" True j "Type_List (Type_Named ''ID'' True) True"] by simp
  ultimately show ?thesis by blast
qed

end
