(* ===== verification/Subgraphs_Store.thy ===== *)
theory Subgraphs_Store
  imports Field_Types
begin

text \<open>
  The operations of the store of subgraphs: the \<open>push\<close>, \<open>insert\<close> and \<open>set\<close> methods of \<open>Subgraphs\<close> and
  the read-only walkers, of \<open>src/engine/crates/composition/src/subgraphs/*.rs\<close> and \<open>subgraphs.rs\<close>.
  Field types are in \<open>Field_Types\<close>, the operations that parse selections in \<open>Keys_Parsing\<close>.
\<close>

subsection \<open>Subgraphs (\<open>top.rs\<close>)\<close>

definition is_root_type :: "Subgraphs \<Rightarrow> SubgraphId \<Rightarrow> DefinitionId \<Rightarrow> bool panicking" where
  "is_root_type sg subgraph_idx definition = do {
     subgraph \<leftarrow> vec_index (sg_subgraphs sg) subgraph_idx;
     Some (s_query_type subgraph = Some definition \<or> s_mutation_type subgraph = Some definition
       \<or> s_subscription_type subgraph = Some definition) }"

definition iter_subgraphs :: "Subgraphs \<Rightarrow> (SubgraphId \<times> Subgraph) list" where
  "iter_subgraphs sg = enumerate 0 (sg_subgraphs sg)"

definition push_subgraph :: "string \<Rightarrow> string \<Rightarrow> Subgraphs \<Rightarrow> SubgraphId \<times> Subgraphs" where
  "push_subgraph name url sg =
     (let (n, sg1) = intern name sg;
          (u, sg2) = intern url sg1;
          subgraph = \<lparr>s_name = n, s_url = u, s_query_type = None, s_mutation_type = None, s_subscription_type = None\<rparr>;
          (i, subs) = push_return_idx (sg_subgraphs sg2) subgraph
      in (i, sg2\<lparr>sg_subgraphs := subs\<rparr>))"

text \<open>\<open>self.subgraphs[subgraph.0].field = Some(definition)\<close>, for the three root types.\<close>

definition set_query_type :: "SubgraphId \<Rightarrow> DefinitionId \<Rightarrow> Subgraphs \<Rightarrow> Subgraphs panicking" where
  "set_query_type subgraph query_type sg = do {
     s \<leftarrow> vec_index (sg_subgraphs sg) subgraph;
     Some (sg\<lparr>sg_subgraphs := (sg_subgraphs sg)[subgraph := s\<lparr>s_query_type := Some query_type\<rparr>]\<rparr>) }"

definition set_mutation_type :: "SubgraphId \<Rightarrow> DefinitionId \<Rightarrow> Subgraphs \<Rightarrow> Subgraphs panicking" where
  "set_mutation_type subgraph mutation_type sg = do {
     s \<leftarrow> vec_index (sg_subgraphs sg) subgraph;
     Some (sg\<lparr>sg_subgraphs := (sg_subgraphs sg)[subgraph := s\<lparr>s_mutation_type := Some mutation_type\<rparr>]\<rparr>) }"

definition set_subscription_type :: "SubgraphId \<Rightarrow> DefinitionId \<Rightarrow> Subgraphs \<Rightarrow> Subgraphs panicking" where
  "set_subscription_type subgraph subscription_type sg = do {
     s \<leftarrow> vec_index (sg_subgraphs sg) subgraph;
     Some (sg\<lparr>sg_subgraphs := (sg_subgraphs sg)[subgraph := s\<lparr>s_subscription_type := Some subscription_type\<rparr>]\<rparr>) }"

definition walk_subgraph :: "Subgraphs \<Rightarrow> SubgraphId \<Rightarrow> Subgraph panicking" where
  "walk_subgraph sg subgraph_id = vec_index (sg_subgraphs sg) subgraph_id"

definition push_ingestion_diagnostic :: "SubgraphId \<Rightarrow> string \<Rightarrow> Subgraphs \<Rightarrow> Subgraphs panicking" where
  "push_ingestion_diagnostic subgraph m sg = do {
     s \<leftarrow> walk_subgraph sg subgraph;
     name \<leftarrow> as_str sg (s_name s);
     Some (sg\<lparr>sg_ingestion_diagnostics := push_fatal (''['' @ name @ '']: '' @ m) (sg_ingestion_diagnostics sg)\<rparr>) }"

definition emit_ingestion_diagnostics :: "Subgraphs \<Rightarrow> Diagnostics \<Rightarrow> Diagnostics" where
  "emit_ingestion_diagnostics sg diagnostics = clone_all_from diagnostics (sg_ingestion_diagnostics sg)"

subsection \<open>Definitions (\<open>definitions.rs\<close>)\<close>

definition definition_by_name_id :: "Subgraphs \<Rightarrow> StringId \<Rightarrow> SubgraphId \<Rightarrow> DefinitionId option" where
  "definition_by_name_id sg name subgraph_id = bt_get (sg_definition_names sg) (name, subgraph_id)"

definition definition_by_name :: "string \<Rightarrow> SubgraphId \<Rightarrow> Subgraphs \<Rightarrow> (DefinitionId \<times> Subgraphs) panicking" where
  "definition_by_name name subgraph_id sg =
     (let (interned_name, sg1) = intern name sg
      in do { d \<leftarrow> definition_by_name_id sg1 interned_name subgraph_id; Some (d, sg1) })"

definition iter_definitions_with_name :: "Subgraphs \<Rightarrow> StringId \<Rightarrow> (SubgraphId \<times> DefinitionId) list" where
  "iter_definitions_with_name sg name =
     map (\<lambda>((_, subgraph_id), definition_id). (subgraph_id, definition_id))
       (bt_range (name, 0) (name, usize_MAX) (sg_definition_names sg))"

definition iter_interface_impls :: "Subgraphs \<Rightarrow> (StringId \<times> StringId) list" where
  "iter_interface_impls sg = ds_interface_impls (sg_definitions sg)"

text \<open>The first parameter is looked up as the first component of the key, the implemented interface.\<close>

definition subgraphs_implementing_interface :: "Subgraphs \<Rightarrow> StringId \<Rightarrow> StringId \<Rightarrow> SubgraphId list" where
  "subgraphs_implementing_interface sg a b =
     (case bt_get (ds_interface_definitions_to_subgraphs (sg_definitions sg)) (a, b) of
        None \<Rightarrow> [] | Some subgraphs \<Rightarrow> subgraphs)"

definition iter_implementers_for_interface :: "Subgraphs \<Rightarrow> StringId \<Rightarrow> StringId list" where
  "iter_implementers_for_interface sg interface_name =
     map snd (bs_range (interface_name, 0) (interface_name, usize_MAX) (ds_interface_impls (sg_definitions sg)))"

definition push_definition ::
  "SubgraphId \<Rightarrow> string \<Rightarrow> DefinitionKind \<Rightarrow> StringId option \<Rightarrow> DirectiveSiteId \<Rightarrow> Subgraphs \<Rightarrow> DefinitionId \<times> Subgraphs" where
  "push_definition subgraph_id name kind description directives sg =
     (let (n, sg1) = intern name sg;
          definition = \<lparr>d_subgraph_id = subgraph_id, d_name = n, d_kind = kind,
            d_description = description, d_directives = directives\<rparr>;
          (i, defs) = push_return_idx (ds_definitions (sg_definitions sg1)) definition
      in (i, sg1\<lparr>sg_definitions := (sg_definitions sg1)\<lparr>ds_definitions := defs\<rparr>,
               sg_definition_names := bt_insert (n, subgraph_id) i (sg_definition_names sg1)\<rparr>))"

definition walk_definition :: "Subgraphs \<Rightarrow> DefinitionId \<Rightarrow> Definition panicking" where
  "walk_definition sg d = vec_index (ds_definitions (sg_definitions sg)) d"

definition def_name :: "Subgraphs \<Rightarrow> DefinitionId \<Rightarrow> StringId panicking" where
  "def_name sg d = map_option d_name (walk_definition sg d)"

definition def_kind :: "Subgraphs \<Rightarrow> DefinitionId \<Rightarrow> DefinitionKind panicking" where
  "def_kind sg d = map_option d_kind (walk_definition sg d)"

definition def_description :: "Subgraphs \<Rightarrow> DefinitionId \<Rightarrow> StringId option panicking" where
  "def_description sg d = map_option d_description (walk_definition sg d)"

definition def_subgraph_id :: "Subgraphs \<Rightarrow> DefinitionId \<Rightarrow> SubgraphId panicking" where
  "def_subgraph_id sg d = map_option d_subgraph_id (walk_definition sg d)"

definition def_subgraph :: "Subgraphs \<Rightarrow> DefinitionId \<Rightarrow> Subgraph panicking" where
  "def_subgraph sg d = do { s \<leftarrow> def_subgraph_id sg d; walk_subgraph sg s }"

definition def_directives :: "Subgraphs \<Rightarrow> DefinitionId \<Rightarrow> DirectiveSiteId panicking" where
  "def_directives sg d = map_option d_directives (walk_definition sg d)"

definition push_interface_impl :: "DefinitionId \<Rightarrow> DefinitionId \<Rightarrow> Subgraphs \<Rightarrow> Subgraphs panicking" where
  "push_interface_impl implementer implemented_interface sg = do {
     implementer_name \<leftarrow> def_name sg implementer;
     implementee_name \<leftarrow> def_name sg implemented_interface;
     subgraph_id \<leftarrow> def_subgraph_id sg implementer;
     let key = (implementee_name, implementer_name);
     let ds = sg_definitions sg;
     let subs = ds_interface_definitions_to_subgraphs ds;
     let subs' = (case bt_get subs key of
         None \<Rightarrow> bt_insert key [subgraph_id] subs
       | Some entry \<Rightarrow> bt_insert key (entry @ [subgraph_id]) subs);
     Some (sg\<lparr>sg_definitions := ds\<lparr>ds_interface_impls := bs_insert key (ds_interface_impls ds),
       ds_interface_definitions_to_subgraphs := subs'\<rparr>\<rparr>) }"

text \<open>\<open>SubgraphWalker::definitions\<close>: binary search for the first definition of the subgraph.\<close>

definition subgraph_definitions :: "Subgraphs \<Rightarrow> SubgraphId \<Rightarrow> DefinitionId list" where
  "subgraph_definitions sg subgraph_id =
     (let definitions = ds_definitions (sg_definitions sg);
          start = partition_point (\<lambda>def. d_subgraph_id def < subgraph_id) definitions;
          subgraph_definitions = takeWhile (\<lambda>def. d_subgraph_id def = subgraph_id) (drop start definitions)
      in map (\<lambda>(idx, _). idx + start) (enumerate 0 subgraph_definitions))"

definition interface_implementers :: "Subgraphs \<Rightarrow> SubgraphId \<Rightarrow> StringId \<Rightarrow> DefinitionId list" where
  "interface_implementers sg subgraph_id interface_name =
     List.map_filter (\<lambda>(_, implementer). bt_get (sg_definition_names sg) (implementer, subgraph_id))
       (filter (\<lambda>(implementee, _). implementee = interface_name) (ds_interface_impls (sg_definitions sg)))"

text \<open>\<open>iter_definition_groups\<close>, with the closure's mutable state passed along.\<close>

fun definition_groups_loop ::
  "Subgraphs \<Rightarrow> (DefinitionId list \<Rightarrow> 's \<Rightarrow> 's panicking) \<Rightarrow> ((StringId \<times> SubgraphId) \<times> DefinitionId) list \<Rightarrow>
   StringId option \<Rightarrow> DefinitionId list \<Rightarrow> 's \<Rightarrow> 's panicking" where
  "definition_groups_loop sg compose_fn [] key buf s = compose_fn buf s"
| "definition_groups_loop sg compose_fn (((name, subgraph), definition) # es) key buf s = do {
     (key', buf', s') \<leftarrow>
       (if Some name \<noteq> key then do { s' \<leftarrow> compose_fn buf s; Some (Some name, [], s') } else Some (key, buf, s));
     root \<leftarrow> is_root_type sg subgraph definition;
     definition_groups_loop sg compose_fn es key' (if root then buf' else buf' @ [definition]) s' }"

definition iter_definition_groups ::
  "Subgraphs \<Rightarrow> (DefinitionId list \<Rightarrow> 's \<Rightarrow> 's panicking) \<Rightarrow> 's \<Rightarrow> 's panicking" where
  "iter_definition_groups sg compose_fn s =
     definition_groups_loop sg compose_fn (sg_definition_names sg) None [] s"

subsection \<open>Enum values and union members (\<open>enums.rs\<close>, \<open>unions.rs\<close>)\<close>

type_synonym EnumValue = "DefinitionId \<times> StringId \<times> DirectiveSiteId"

definition push_enum_value :: "DefinitionId \<Rightarrow> StringId \<Rightarrow> DirectiveSiteId \<Rightarrow> Subgraphs \<Rightarrow> Subgraphs" where
  "push_enum_value enum_id enum_value directives sg =
     sg\<lparr>sg_enums := bt_insert (enum_id, enum_value) directives (sg_enums sg)\<rparr>"

definition enum_value_by_name :: "Subgraphs \<Rightarrow> DefinitionId \<Rightarrow> StringId \<Rightarrow> EnumValue option" where
  "enum_value_by_name sg d name = map_option (\<lambda>directives. (d, name, directives)) (bt_get (sg_enums sg) (d, name))"

definition enum_values :: "Subgraphs \<Rightarrow> DefinitionId \<Rightarrow> EnumValue list" where
  "enum_values sg d =
     map (\<lambda>((enum_id, value_name), directives). (enum_id, value_name, directives))
       (bt_range (d, 0) (d, usize_MAX) (sg_enums sg))"

fun enum_value_name :: "EnumValue \<Rightarrow> StringId" where
  "enum_value_name (_, value_name, _) = value_name"

fun enum_value_directives :: "EnumValue \<Rightarrow> DirectiveSiteId" where
  "enum_value_directives (_, _, directives) = directives"

definition iter_union_members :: "Subgraphs \<Rightarrow> DefinitionId \<Rightarrow> DefinitionId list" where
  "iter_union_members sg union_id = map snd (bs_range (union_id, 0) (union_id, usize_MAX) (sg_unions sg))"

definition push_union_member :: "DefinitionId \<Rightarrow> DefinitionId \<Rightarrow> Subgraphs \<Rightarrow> Subgraphs" where
  "push_union_member un member sg = sg\<lparr>sg_unions := bs_insert (un, member) (sg_unions sg)\<rparr>"

subsection \<open>Directives (\<open>directives.rs\<close>)\<close>

definition insert_authenticated :: "DirectiveSiteId \<Rightarrow> Subgraphs \<Rightarrow> Subgraphs" where
  "insert_authenticated i sg =
     sg\<lparr>sg_directives := (sg_directives sg)\<lparr>dr_authenticated := insert i (dr_authenticated (sg_directives sg))\<rparr>\<rparr>"

definition insert_authorized :: "DirectiveSiteId \<Rightarrow> AuthorizedDirective \<Rightarrow> Subgraphs \<Rightarrow> Subgraphs" where
  "insert_authorized i directive sg =
     sg\<lparr>sg_directives := (sg_directives sg)\<lparr>dr_authorized := bt_insert i directive (dr_authorized (sg_directives sg))\<rparr>\<rparr>"

definition insert_composed_directive :: "SubgraphId \<Rightarrow> string \<Rightarrow> Subgraphs \<Rightarrow> Subgraphs" where
  "insert_composed_directive subgraph_id directive_name sg =
     (let (n, sg1) = intern directive_name sg
      in sg1\<lparr>sg_directives := (sg_directives sg1)
           \<lparr>dr_composed_directives := bs_insert (subgraph_id, n) (dr_composed_directives (sg_directives sg1))\<rparr>\<rparr>)"

definition insert_composed_directive_instance ::
  "DirectiveSiteId \<Rightarrow> string \<Rightarrow> Arguments \<Rightarrow> Subgraphs \<Rightarrow> Subgraphs" where
  "insert_composed_directive_instance i directive_name arguments sg =
     (let (n, sg1) = intern directive_name sg
      in sg1\<lparr>sg_directives := (sg_directives sg1)\<lparr>dr_composed_directive_instances :=
           dr_composed_directive_instances (sg_directives sg1) @ [(i, n, arguments)]\<rparr>\<rparr>)"

definition insert_deprecated :: "DirectiveSiteId \<Rightarrow> string option \<Rightarrow> Subgraphs \<Rightarrow> Subgraphs" where
  "insert_deprecated i reason sg =
     (let (r, sg1) = intern_option reason sg
      in sg1\<lparr>sg_directives := (sg_directives sg1)
           \<lparr>dr_deprecated := bt_insert i \<lparr>deprecated_reason = r\<rparr> (dr_deprecated (sg_directives sg1))\<rparr>\<rparr>)"

definition insert_policy :: "DirectiveSiteId \<Rightarrow> StringId list \<Rightarrow> Subgraphs \<Rightarrow> Subgraphs" where
  "insert_policy i policies sg =
     sg\<lparr>sg_directives := (sg_directives sg)\<lparr>dr_policies := bs_insert (i, policies) (dr_policies (sg_directives sg))\<rparr>\<rparr>"

definition append_required_scopes :: "DirectiveSiteId \<Rightarrow> StringId list \<Rightarrow> Subgraphs \<Rightarrow> Subgraphs" where
  "append_required_scopes i scopes sg =
     sg\<lparr>sg_directives := (sg_directives sg)
       \<lparr>dr_requires_scopes := bs_insert (i, scopes) (dr_requires_scopes (sg_directives sg))\<rparr>\<rparr>"

definition insert_tag :: "DirectiveSiteId \<Rightarrow> string \<Rightarrow> Subgraphs \<Rightarrow> Subgraphs" where
  "insert_tag i tag sg =
     (let (t, sg1) = intern tag sg
      in sg1\<lparr>sg_directives := (sg_directives sg1)\<lparr>dr_tags := bs_insert (i, t) (dr_tags (sg_directives sg1))\<rparr>\<rparr>)"

definition new_directive_site :: "Subgraphs \<Rightarrow> DirectiveSiteId \<times> Subgraphs" where
  "new_directive_site sg =
     (let i = site_id_counter (sg_directives sg)
      in (i, sg\<lparr>sg_directives := (sg_directives sg)\<lparr>site_id_counter := i + 1\<rparr>\<rparr>))"

definition set_external :: "DirectiveSiteId \<Rightarrow> Subgraphs \<Rightarrow> Subgraphs" where
  "set_external i sg =
     sg\<lparr>sg_directives := (sg_directives sg)\<lparr>dr_external := insert i (dr_external (sg_directives sg))\<rparr>\<rparr>"

definition set_inaccessible :: "DirectiveSiteId \<Rightarrow> Subgraphs \<Rightarrow> Subgraphs" where
  "set_inaccessible i sg =
     sg\<lparr>sg_directives := (sg_directives sg)\<lparr>dr_inaccessible := insert i (dr_inaccessible (sg_directives sg))\<rparr>\<rparr>"

definition set_interface_object :: "DirectiveSiteId \<Rightarrow> Subgraphs \<Rightarrow> Subgraphs" where
  "set_interface_object i sg =
     sg\<lparr>sg_directives := (sg_directives sg)\<lparr>dr_interface_object := insert i (dr_interface_object (sg_directives sg))\<rparr>\<rparr>"

definition set_override :: "DirectiveSiteId \<Rightarrow> OverrideDirective \<Rightarrow> Subgraphs \<Rightarrow> Subgraphs" where
  "set_override i directive sg =
     sg\<lparr>sg_directives := (sg_directives sg)\<lparr>dr_override := bt_insert i directive (dr_override (sg_directives sg))\<rparr>\<rparr>"

definition set_shareable :: "DirectiveSiteId \<Rightarrow> Subgraphs \<Rightarrow> Subgraphs" where
  "set_shareable i sg =
     sg\<lparr>sg_directives := (sg_directives sg)\<lparr>dr_shareable := insert i (dr_shareable (sg_directives sg))\<rparr>\<rparr>"

text \<open>The walker of a directive site.\<close>

definition authenticated :: "Subgraphs \<Rightarrow> DirectiveSiteId \<Rightarrow> bool" where
  "authenticated sg i \<longleftrightarrow> i \<in> dr_authenticated (sg_directives sg)"

definition authorized :: "Subgraphs \<Rightarrow> DirectiveSiteId \<Rightarrow> AuthorizedDirective option" where
  "authorized sg i = bt_get (dr_authorized (sg_directives sg)) i"

definition deprecated :: "Subgraphs \<Rightarrow> DirectiveSiteId \<Rightarrow> Deprecated option" where
  "deprecated sg i = bt_get (dr_deprecated (sg_directives sg)) i"

definition external :: "Subgraphs \<Rightarrow> DirectiveSiteId \<Rightarrow> bool" where
  "external sg i \<longleftrightarrow> i \<in> dr_external (sg_directives sg)"

definition inaccessible :: "Subgraphs \<Rightarrow> DirectiveSiteId \<Rightarrow> bool" where
  "inaccessible sg i \<longleftrightarrow> i \<in> dr_inaccessible (sg_directives sg)"

definition interface_object :: "Subgraphs \<Rightarrow> DirectiveSiteId \<Rightarrow> bool" where
  "interface_object sg i \<longleftrightarrow> i \<in> dr_interface_object (sg_directives sg)"

definition iter_composed_directives :: "Subgraphs \<Rightarrow> DirectiveSiteId \<Rightarrow> (StringId \<times> Arguments) list" where
  "iter_composed_directives sg i =
     (let instances = dr_composed_directive_instances (sg_directives sg);
          p = partition_point (\<lambda>(j, _, _). j < i) instances
      in map (\<lambda>(_, name, args). (name, args)) (takeWhile (\<lambda>(j, _, _). j = i) (drop p instances)))"

definition override_directive :: "Subgraphs \<Rightarrow> DirectiveSiteId \<Rightarrow> OverrideDirective option" where
  "override_directive sg i = bt_get (dr_override (sg_directives sg)) i"

definition policies :: "Subgraphs \<Rightarrow> DirectiveSiteId \<Rightarrow> StringId list list" where
  "policies sg i =
     map snd (takeWhile (\<lambda>(site, _). site = i) (bs_range_from (i, []) (dr_policies (sg_directives sg))))"

definition provides :: "Subgraphs \<Rightarrow> DirectiveSiteId \<Rightarrow> Selection list option" where
  "provides sg i = bt_get (dr_provides (sg_directives sg)) i"

definition requires :: "Subgraphs \<Rightarrow> DirectiveSiteId \<Rightarrow> Selection list option" where
  "requires sg i = bt_get (dr_requires (sg_directives sg)) i"

definition requires_scopes :: "Subgraphs \<Rightarrow> DirectiveSiteId \<Rightarrow> StringId list list" where
  "requires_scopes sg i =
     map snd (takeWhile (\<lambda>(site, _). site = i) (bs_range_from (i, []) (dr_requires_scopes (sg_directives sg))))"

definition shareable :: "Subgraphs \<Rightarrow> DirectiveSiteId \<Rightarrow> bool" where
  "shareable sg i \<longleftrightarrow> i \<in> dr_shareable (sg_directives sg)"

definition tags :: "Subgraphs \<Rightarrow> DirectiveSiteId \<Rightarrow> StringId list" where
  "tags sg i = map snd (bs_range (i, 0) (i, usize_MAX) (dr_tags (sg_directives sg)))"

subsection \<open>Fields and arguments (\<open>fields.rs\<close>)\<close>

type_synonym Field = "FieldId \<times> FieldTuple"
type_synonym FieldArgument = "ArgumentId \<times> FieldTuple"

record FieldIngest =
  fi_parent_definition_id :: DefinitionId
  fi_field_name :: string
  fi_field_type :: FieldTypeId
  fi_description :: "StringId option"
  fi_directives :: DirectiveSiteId
  fi_default :: "Value option"

definition iter_all_fields :: "Subgraphs \<Rightarrow> Field list" where
  "iter_all_fields sg = fs_definition_fields (sg_fields sg)"

definition push_field :: "FieldIngest \<Rightarrow> Subgraphs \<Rightarrow> FieldId \<times> Subgraphs" where
  "push_field f sg =
     (let (name, sg1) = intern (fi_field_name f) sg;
          fields = sg_fields sg1;
          field_id = FieldId (fi_parent_definition_id f) name;
          tuple = \<lparr>ft_type = fi_field_type f, ft_description = fi_description f, ft_directives = fi_directives f\<rparr>;
          fields1 = fields\<lparr>fs_definition_fields := bt_insert field_id tuple (fs_definition_fields fields)\<rparr>;
          fields2 = (case fi_default f of
              Some d \<Rightarrow> fields1\<lparr>fs_input_field_default_values := (fs_input_field_default_values fields1)(field_id \<mapsto> d)\<rparr>
            | None \<Rightarrow> fields1)
      in (field_id, sg1\<lparr>sg_fields := fields2\<rparr>))"

definition insert_field_argument ::
  "FieldId \<Rightarrow> StringId \<Rightarrow> FieldTypeId \<Rightarrow> DirectiveSiteId \<Rightarrow> StringId option \<Rightarrow> Value option \<Rightarrow> Subgraphs \<Rightarrow> Subgraphs" where
  "insert_field_argument field_id argument_name ty directives description dflt sg =
     (let argument_id = ArgumentId (field_parent field_id) (field_name_id field_id) argument_name;
          fields = sg_fields sg;
          tuple = \<lparr>ft_type = ty, ft_description = description, ft_directives = directives\<rparr>;
          fields1 = fields\<lparr>fs_field_arguments := bt_insert argument_id tuple (fs_field_arguments fields)\<rparr>;
          fields2 = (case dflt of
              Some d \<Rightarrow> fields1\<lparr>fs_field_argument_defaults := (fs_field_argument_defaults fields1)(argument_id \<mapsto> d)\<rparr>
            | None \<Rightarrow> fields1)
      in sg\<lparr>sg_fields := fields2\<rparr>)"

definition iter_all_field_arguments :: "Subgraphs \<Rightarrow> FieldArgument list" where
  "iter_all_field_arguments sg = fs_field_arguments (sg_fields sg)"

definition walk_field :: "Subgraphs \<Rightarrow> FieldId \<Rightarrow> Field panicking" where
  "walk_field sg field_id = map_option (\<lambda>tuple. (field_id, tuple)) (bt_get (fs_definition_fields (sg_fields sg)) field_id)"

definition field_arguments :: "Subgraphs \<Rightarrow> Field \<Rightarrow> FieldArgument list" where
  "field_arguments sg field =
     (case fst field of FieldId definition_id field_name \<Rightarrow>
        bt_range (ArgumentId definition_id field_name 0) (ArgumentId definition_id field_name usize_MAX)
          (fs_field_arguments (sg_fields sg)))"

definition argument_by_name :: "Subgraphs \<Rightarrow> Field \<Rightarrow> StringId \<Rightarrow> FieldArgument option" where
  "argument_by_name sg field name =
     (case fst field of FieldId definition_id field_name \<Rightarrow>
        let argument_id = ArgumentId definition_id field_name name
        in map_option (\<lambda>tuple. (argument_id, tuple)) (bt_get (fs_field_arguments (sg_fields sg)) argument_id))"

definition default_value :: "Subgraphs \<Rightarrow> Field \<Rightarrow> Value option" where
  "default_value sg field = fs_input_field_default_values (sg_fields sg) (fst field)"

definition field_description :: "Field \<Rightarrow> StringId option" where
  "field_description field = ft_description (snd field)"

definition field_directives :: "Field \<Rightarrow> DirectiveSiteId" where
  "field_directives field = ft_directives (snd field)"

definition parent_definition :: "Field \<Rightarrow> DefinitionId" where
  "parent_definition field = field_parent (fst field)"

definition field_name :: "Field \<Rightarrow> StringId" where
  "field_name field = field_name_id (fst field)"

definition field_type :: "Field \<Rightarrow> FieldTypeId" where
  "field_type field = ft_type (snd field)"

definition def_fields :: "Subgraphs \<Rightarrow> DefinitionId \<Rightarrow> Field list" where
  "def_fields sg d = bt_range (FieldId d 0) (FieldId d usize_MAX) (fs_definition_fields (sg_fields sg))"

definition find_field :: "Subgraphs \<Rightarrow> DefinitionId \<Rightarrow> StringId \<Rightarrow> Field option" where
  "find_field sg d name =
     (let field_id = FieldId d name
      in map_option (\<lambda>tuple. (field_id, tuple)) (bt_get (fs_definition_fields (sg_fields sg)) field_id))"

definition argument_field_walker :: "Subgraphs \<Rightarrow> FieldArgument \<Rightarrow> Field panicking" where
  "argument_field_walker sg a = walk_field sg (FieldId (argument_parent (fst a)) (argument_field (fst a)))"

definition argument_name :: "FieldArgument \<Rightarrow> StringId" where
  "argument_name a = argument_name_id (fst a)"

definition argument_type :: "FieldArgument \<Rightarrow> FieldTypeId" where
  "argument_type a = ft_type (snd a)"

definition argument_directives :: "FieldArgument \<Rightarrow> DirectiveSiteId" where
  "argument_directives a = ft_directives (snd a)"

definition argument_default :: "Subgraphs \<Rightarrow> FieldArgument \<Rightarrow> Value option" where
  "argument_default sg a = fs_field_argument_defaults (sg_fields sg) (fst a)"

subsection \<open>Keys (\<open>keys.rs\<close>)\<close>

definition push_key_selection :: "DefinitionId \<Rightarrow> Selection list \<Rightarrow> bool \<Rightarrow> Subgraphs \<Rightarrow> Subgraphs" where
  "push_key_selection object_id selection_set resolvable sg =
     sg\<lparr>sg_keys := (sg_keys sg)\<lparr>ks_keys := ks_keys (sg_keys sg) @
       [(object_id, \<lparr>k_selection_set = selection_set, k_resolvable = resolvable\<rparr>)]\<rparr>\<rparr>"

text \<open>\<open>with_nested_key_fields\<close>: the handler sees the store with the nested key fields taken out.\<close>

definition with_nested_key_fields ::
  "(Subgraphs \<Rightarrow> NestedKeyFields \<Rightarrow> NestedKeyFields panicking) \<Rightarrow> Subgraphs \<Rightarrow> Subgraphs panicking" where
  "with_nested_key_fields handler sg = do {
     let nested_key_fields = ks_nested_key_fields (sg_keys sg);
     let sg1 = sg\<lparr>sg_keys := (sg_keys sg)\<lparr>ks_nested_key_fields := \<lparr>nk_fields = {}, nk_objects_with_nested_keys = {}\<rparr>\<rparr>\<rparr>;
     nested_key_fields' \<leftarrow> handler sg1 nested_key_fields;
     Some (sg1\<lparr>sg_keys := (sg_keys sg1)\<lparr>ks_nested_key_fields := nested_key_fields'\<rparr>\<rparr>) }"

definition nested_key_fields_insert :: "Field \<Rightarrow> NestedKeyFields \<Rightarrow> NestedKeyFields" where
  "nested_key_fields_insert field nk =
     nk\<lparr>nk_fields := insert (fst field) (nk_fields nk),
        nk_objects_with_nested_keys := insert (parent_definition field) (nk_objects_with_nested_keys nk)\<rparr>"

definition walk_key :: "Subgraphs \<Rightarrow> KeyId \<Rightarrow> (DefinitionId \<times> Key) panicking" where
  "walk_key sg k = vec_index (ks_keys (sg_keys sg)) k"

definition key_fields :: "Subgraphs \<Rightarrow> KeyId \<Rightarrow> Selection list panicking" where
  "key_fields sg k = map_option (\<lambda>(_, key). k_selection_set key) (walk_key sg k)"

definition is_resolvable :: "Subgraphs \<Rightarrow> KeyId \<Rightarrow> bool panicking" where
  "is_resolvable sg k = map_option (\<lambda>(_, key). k_resolvable key) (walk_key sg k)"

definition key_parent_definition :: "Subgraphs \<Rightarrow> KeyId \<Rightarrow> DefinitionId panicking" where
  "key_parent_definition sg k = map_option fst (walk_key sg k)"

definition entity_keys :: "Subgraphs \<Rightarrow> DefinitionId \<Rightarrow> KeyId list" where
  "entity_keys sg d =
     (let keys = ks_keys (sg_keys sg);
          start = partition_point (\<lambda>(parent, _). parent < d) keys
      in map (\<lambda>(idx, _). start + idx) (enumerate 0 (takeWhile (\<lambda>(parent, _). parent = d) (drop start keys))))"

definition is_entity :: "Subgraphs \<Rightarrow> DefinitionId \<Rightarrow> bool" where
  "is_entity sg d \<longleftrightarrow> entity_keys sg d \<noteq> [] \<or> d \<in> nk_objects_with_nested_keys (ks_nested_key_fields (sg_keys sg))"

definition is_part_of_key :: "Subgraphs \<Rightarrow> Field \<Rightarrow> bool panicking" where
  "is_part_of_key sg field = do {
     fields \<leftarrow> mapM (key_fields sg) (entity_keys sg (parent_definition field));
     Some (list_ex (\<lambda>selection. case selection of Selection_Field f _ _ \<Rightarrow> f = field_name field | _ \<Rightarrow> False) (concat fields)
       \<or> fst field \<in> nk_fields (ks_nested_key_fields (sg_keys sg))) }"

end
