(* ===== verification/Subgraphs_Invariant.thy ===== *)
theory Subgraphs_Invariant
  imports Subgraphs_Store
begin

text \<open>
  The invariant of the store of subgraphs and its preservation by every operation.

  \<open>extends sg sg'\<close> says that the tables of \<open>sg'\<close> extend those of \<open>sg\<close>, so that every id keeps its
  meaning.  Each part of the store has a predicate relating it to the tables, monotone in \<open>extends\<close>;
  \<open>wf_store\<close> is their conjunction: ids are in range, ordered maps and sets are sorted, the index by
  name agrees with the definitions, definitions are sorted by subgraph and keys by definition (the
  binary searches rely on it).  \<open>store_bounded\<close> says that no table has more entries than a \<open>usize\<close>
  counts, which the ranges from \<open>MIN\<close> to \<open>MAX\<close> of the source rely on.
\<close>

subsection \<open>Extension of the tables\<close>

definition extends :: "Subgraphs \<Rightarrow> Subgraphs \<Rightarrow> bool" where
  "extends sg sg' \<longleftrightarrow> (\<exists>xs. sg_strings sg' = sg_strings sg @ xs)
     \<and> (\<exists>ds. ds_definitions (sg_definitions sg') = ds_definitions (sg_definitions sg) @ ds)
     \<and> site_id_counter (sg_directives sg) \<le> site_id_counter (sg_directives sg')
     \<and> length (inner_types (sg_field_types sg)) \<le> length (inner_types (sg_field_types sg'))
     \<and> length (sg_subgraphs sg) \<le> length (sg_subgraphs sg')"

lemma extends_refl [simp]: "extends sg sg"
  by (simp add: extends_def)

lemma extends_trans: "extends a b \<Longrightarrow> extends b c \<Longrightarrow> extends a c"
  by (auto simp: extends_def)

text \<open>Ids in range of the tables.\<close>

definition str_ok :: "Subgraphs \<Rightarrow> StringId \<Rightarrow> bool" where
  "str_ok sg s \<longleftrightarrow> s < length (sg_strings sg)"

definition def_ok :: "Subgraphs \<Rightarrow> DefinitionId \<Rightarrow> bool" where
  "def_ok sg d \<longleftrightarrow> d < length (ds_definitions (sg_definitions sg))"

definition site_ok :: "Subgraphs \<Rightarrow> DirectiveSiteId \<Rightarrow> bool" where
  "site_ok sg i \<longleftrightarrow> i < site_id_counter (sg_directives sg)"

definition type_ok :: "Subgraphs \<Rightarrow> FieldTypeId \<Rightarrow> bool" where
  "type_ok sg t \<longleftrightarrow> t < length (inner_types (sg_field_types sg))"

definition subgraph_ok :: "Subgraphs \<Rightarrow> SubgraphId \<Rightarrow> bool" where
  "subgraph_ok sg s \<longleftrightarrow> s < length (sg_subgraphs sg)"

fun value_ok :: "Subgraphs \<Rightarrow> Value \<Rightarrow> bool" where
  "value_ok sg (Value_String s) \<longleftrightarrow> str_ok sg s"
| "value_ok sg (Value_Enum s) \<longleftrightarrow> str_ok sg s"
| "value_ok sg (Value_Object fs) \<longleftrightarrow> (\<forall>(k, v) \<in> set fs. str_ok sg k \<and> value_ok sg v)"
| "value_ok sg (Value_List vs) \<longleftrightarrow> (\<forall>v \<in> set vs. value_ok sg v)"
| "value_ok sg _ \<longleftrightarrow> True"

definition arguments_ok :: "Subgraphs \<Rightarrow> Arguments \<Rightarrow> bool" where
  "arguments_ok sg args \<longleftrightarrow> (\<forall>(k, v) \<in> set args. str_ok sg k \<and> value_ok sg v)"

fun selection_ok :: "Subgraphs \<Rightarrow> Selection \<Rightarrow> bool" where
  "selection_ok sg (Selection_Field f args sel) \<longleftrightarrow>
     str_ok sg f \<and> arguments_ok sg args \<and> (\<forall>s \<in> set sel. selection_ok sg s)"
| "selection_ok sg (InlineFragment on sel) \<longleftrightarrow> str_ok sg on \<and> (\<forall>s \<in> set sel. selection_ok sg s)"

definition selections_ok :: "Subgraphs \<Rightarrow> Selection list \<Rightarrow> bool" where
  "selections_ok sg sel \<longleftrightarrow> (\<forall>s \<in> set sel. selection_ok sg s)"

definition opt_ok :: "('a \<Rightarrow> bool) \<Rightarrow> 'a option \<Rightarrow> bool" where
  "opt_ok p x \<longleftrightarrow> (case x of None \<Rightarrow> True | Some y \<Rightarrow> p y)"

lemma opt_ok_simps [simp]: "opt_ok p None" "opt_ok p (Some y) \<longleftrightarrow> p y"
  by (simp_all add: opt_ok_def)

named_theorems extends_mono \<open>predicates on ids that an extension of the tables keeps\<close>

lemma str_ok_mono [extends_mono]: "extends sg sg' \<Longrightarrow> str_ok sg s \<Longrightarrow> str_ok sg' s"
  by (auto simp: extends_def str_ok_def)

lemma def_ok_mono [extends_mono]: "extends sg sg' \<Longrightarrow> def_ok sg d \<Longrightarrow> def_ok sg' d"
  by (auto simp: extends_def def_ok_def)

lemma site_ok_mono [extends_mono]: "extends sg sg' \<Longrightarrow> site_ok sg i \<Longrightarrow> site_ok sg' i"
  by (auto simp: extends_def site_ok_def)

lemma type_ok_mono [extends_mono]: "extends sg sg' \<Longrightarrow> type_ok sg t \<Longrightarrow> type_ok sg' t"
  by (auto simp: extends_def type_ok_def)

lemma subgraph_ok_mono [extends_mono]: "extends sg sg' \<Longrightarrow> subgraph_ok sg s \<Longrightarrow> subgraph_ok sg' s"
  by (auto simp: extends_def subgraph_ok_def)

lemma opt_ok_mono: "(\<And>y. p y \<Longrightarrow> q y) \<Longrightarrow> opt_ok p x \<Longrightarrow> opt_ok q x"
  by (cases x) auto

lemma opt_str_ok_mono [extends_mono]: "extends sg sg' \<Longrightarrow> opt_ok (str_ok sg) x \<Longrightarrow> opt_ok (str_ok sg') x"
  by (rule opt_ok_mono) (rule str_ok_mono)

lemma opt_def_ok_mono [extends_mono]: "extends sg sg' \<Longrightarrow> opt_ok (def_ok sg) x \<Longrightarrow> opt_ok (def_ok sg') x"
  by (rule opt_ok_mono) (rule def_ok_mono)

lemma value_ok_mono [extends_mono]: "extends sg sg' \<Longrightarrow> value_ok sg v \<Longrightarrow> value_ok sg' v"
  by (induction v) (auto simp: str_ok_mono split_beta)

lemma arguments_ok_mono [extends_mono]: "extends sg sg' \<Longrightarrow> arguments_ok sg as \<Longrightarrow> arguments_ok sg' as"
  by (auto simp: arguments_ok_def intro: str_ok_mono value_ok_mono)

lemma selection_ok_mono [extends_mono]: "extends sg sg' \<Longrightarrow> selection_ok sg s \<Longrightarrow> selection_ok sg' s"
  by (induction s) (auto simp: str_ok_mono arguments_ok_mono)

lemma selections_ok_mono [extends_mono]: "extends sg sg' \<Longrightarrow> selections_ok sg s \<Longrightarrow> selections_ok sg' s"
  by (auto simp: selections_ok_def intro: selection_ok_mono)

lemma opt_value_ok_mono [extends_mono]: "extends sg sg' \<Longrightarrow> opt_ok (value_ok sg) x \<Longrightarrow> opt_ok (value_ok sg') x"
  by (rule opt_ok_mono) (rule value_ok_mono)

lemma opt_selections_ok_mono [extends_mono]:
  "extends sg sg' \<Longrightarrow> opt_ok (selections_ok sg) x \<Longrightarrow> opt_ok (selections_ok sg') x"
  by (rule opt_ok_mono) (rule selections_ok_mono)

subsection \<open>Well-formed parts\<close>

definition definition_ok :: "Subgraphs \<Rightarrow> Definition \<Rightarrow> bool" where
  "definition_ok sg d \<longleftrightarrow> subgraph_ok sg (d_subgraph_id d) \<and> str_ok sg (d_name d)
     \<and> opt_ok (str_ok sg) (d_description d) \<and> site_ok sg (d_directives d)"

definition definitions_ok :: "Subgraphs \<Rightarrow> Definitions \<Rightarrow> bool" where
  "definitions_ok sg ds \<longleftrightarrow> (\<forall>d \<in> set (ds_definitions ds). definition_ok sg d)
     \<and> sorted (map d_subgraph_id (ds_definitions ds))
     \<and> bs_wf (ds_interface_impls ds)
     \<and> (\<forall>(a, b) \<in> set (ds_interface_impls ds). str_ok sg a \<and> str_ok sg b)
     \<and> bt_wf (ds_interface_definitions_to_subgraphs ds)
     \<and> set (map fst (ds_interface_definitions_to_subgraphs ds)) = set (ds_interface_impls ds)
     \<and> (\<forall>(_, subs) \<in> set (ds_interface_definitions_to_subgraphs ds). \<forall>s \<in> set subs. subgraph_ok sg s)"

definition names_ok :: "Subgraphs \<Rightarrow> (StringId \<times> SubgraphId, DefinitionId) btree_map \<Rightarrow> bool" where
  "names_ok sg m \<longleftrightarrow> bt_wf m \<and> (\<forall>((n, s), d) \<in> set m.
     \<exists>x. vec_index (ds_definitions (sg_definitions sg)) d = Some x \<and> d_name x = n \<and> d_subgraph_id x = s)"

definition subgraph_record_ok :: "Subgraphs \<Rightarrow> Subgraph \<Rightarrow> bool" where
  "subgraph_record_ok sg s \<longleftrightarrow> str_ok sg (s_name s) \<and> str_ok sg (s_url s) \<and> opt_ok (def_ok sg) (s_query_type s)
     \<and> opt_ok (def_ok sg) (s_mutation_type s) \<and> opt_ok (def_ok sg) (s_subscription_type s)"

definition authorized_ok :: "Subgraphs \<Rightarrow> AuthorizedDirective \<Rightarrow> bool" where
  "authorized_ok sg a \<longleftrightarrow> opt_ok (selections_ok sg) (auth_arguments a) \<and> opt_ok (selections_ok sg) (auth_fields a)
     \<and> opt_ok (selections_ok sg) (auth_node a) \<and> opt_ok (value_ok sg) (auth_metadata a)"

definition entry_ok :: "('v \<Rightarrow> bool) \<Rightarrow> ('k::linorder, 'v) btree_map \<Rightarrow> bool" where
  "entry_ok p m \<longleftrightarrow> bt_wf m \<and> (\<forall>(_, v) \<in> set m. p v)"

definition site_strings_ok :: "Subgraphs \<Rightarrow> (DirectiveSiteId \<times> StringId list) btree_set \<Rightarrow> bool" where
  "site_strings_ok sg m \<longleftrightarrow> bs_wf m \<and> (\<forall>(_, ss) \<in> set m. \<forall>s \<in> set ss. str_ok sg s)"

definition directives_ok :: "Subgraphs \<Rightarrow> Directives \<Rightarrow> bool" where
  "directives_ok sg dr \<longleftrightarrow>
     entry_ok (\<lambda>d. opt_ok (str_ok sg) (deprecated_reason d)) (dr_deprecated dr)
     \<and> entry_ok (\<lambda>d. str_ok sg (override_from d) \<and> opt_ok (str_ok sg) (override_label d)) (dr_override dr)
     \<and> entry_ok (selections_ok sg) (dr_provides dr)
     \<and> entry_ok (selections_ok sg) (dr_requires dr)
     \<and> entry_ok (authorized_ok sg) (dr_authorized dr)
     \<and> site_strings_ok sg (dr_requires_scopes dr)
     \<and> site_strings_ok sg (dr_policies dr)
     \<and> bs_wf (dr_tags dr) \<and> (\<forall>(_, t) \<in> set (dr_tags dr). str_ok sg t)
     \<and> bs_wf (dr_composed_directives dr)
     \<and> (\<forall>(_, n, args) \<in> set (dr_composed_directive_instances dr). str_ok sg n \<and> arguments_ok sg args)"

definition enums_ok :: "Subgraphs \<Rightarrow> Enums \<Rightarrow> bool" where
  "enums_ok sg m \<longleftrightarrow> bt_wf m \<and> (\<forall>((d, v), i) \<in> set m. def_ok sg d \<and> str_ok sg v \<and> site_ok sg i)"

definition unions_ok :: "Subgraphs \<Rightarrow> Unions \<Rightarrow> bool" where
  "unions_ok sg m \<longleftrightarrow> bs_wf m \<and> (\<forall>(u, d) \<in> set m. def_ok sg u \<and> def_ok sg d)"

definition tuple_ok :: "Subgraphs \<Rightarrow> FieldTuple \<Rightarrow> bool" where
  "tuple_ok sg t \<longleftrightarrow> type_ok sg (ft_type t) \<and> opt_ok (str_ok sg) (ft_description t) \<and> site_ok sg (ft_directives t)"

definition fields_ok :: "Subgraphs \<Rightarrow> Fields \<Rightarrow> bool" where
  "fields_ok sg fs \<longleftrightarrow>
     bt_wf (fs_definition_fields fs)
     \<and> (\<forall>(f, t) \<in> set (fs_definition_fields fs). def_ok sg (field_parent f) \<and> str_ok sg (field_name_id f) \<and> tuple_ok sg t)
     \<and> bt_wf (fs_field_arguments fs)
     \<and> (\<forall>(a, t) \<in> set (fs_field_arguments fs). str_ok sg (argument_name_id a) \<and> tuple_ok sg t
          \<and> FieldId (argument_parent a) (argument_field a) \<in> set (map fst (fs_definition_fields fs)))
     \<and> (\<forall>f v. fs_input_field_default_values fs f = Some v \<longrightarrow> value_ok sg v)
     \<and> (\<forall>a v. fs_field_argument_defaults fs a = Some v \<longrightarrow> value_ok sg v)"

definition keys_ok :: "Subgraphs \<Rightarrow> Keys \<Rightarrow> bool" where
  "keys_ok sg ks \<longleftrightarrow> sorted (map fst (ks_keys ks))
     \<and> (\<forall>(d, k) \<in> set (ks_keys ks). def_ok sg d \<and> selections_ok sg (k_selection_set k))"

definition wf_store :: "Subgraphs \<Rightarrow> bool" where
  "wf_store sg \<longleftrightarrow> field_types_wf sg
     \<and> (\<forall>s \<in> set (sg_subgraphs sg). subgraph_record_ok sg s)
     \<and> definitions_ok sg (sg_definitions sg)
     \<and> names_ok sg (sg_definition_names sg)
     \<and> directives_ok sg (sg_directives sg)
     \<and> enums_ok sg (sg_enums sg)
     \<and> unions_ok sg (sg_unions sg)
     \<and> fields_ok sg (sg_fields sg)
     \<and> keys_ok sg (sg_keys sg)
     \<and> set BUILTIN_SCALARS \<subseteq> set (sg_strings sg)"

definition store_bounded :: "Subgraphs \<Rightarrow> bool" where
  "store_bounded sg \<longleftrightarrow> length (sg_strings sg) \<le> usize_MAX \<and> length (sg_subgraphs sg) \<le> usize_MAX
     \<and> length (ds_definitions (sg_definitions sg)) \<le> usize_MAX"
subsection \<open>Parts are kept by an extension\<close>

lemma definition_ok_mono [extends_mono]: "extends sg sg' \<Longrightarrow> definition_ok sg d \<Longrightarrow> definition_ok sg' d"
  by (auto simp: definition_ok_def intro: extends_mono)

lemma definitions_ok_mono [extends_mono]: "extends sg sg' \<Longrightarrow> definitions_ok sg ds \<Longrightarrow> definitions_ok sg' ds"
  unfolding definitions_ok_def by (fast intro: extends_mono)

lemma names_ok_mono [extends_mono]: "extends sg sg' \<Longrightarrow> names_ok sg m \<Longrightarrow> names_ok sg' m"
  unfolding names_ok_def by (fastforce simp: extends_def intro: vec_index_append)

lemma subgraph_record_ok_mono [extends_mono]:
  "extends sg sg' \<Longrightarrow> subgraph_record_ok sg s \<Longrightarrow> subgraph_record_ok sg' s"
  by (auto simp: subgraph_record_ok_def intro: extends_mono)

lemma authorized_ok_mono [extends_mono]: "extends sg sg' \<Longrightarrow> authorized_ok sg a \<Longrightarrow> authorized_ok sg' a"
  by (auto simp: authorized_ok_def intro: extends_mono)

lemma entry_ok_mono: "(\<And>v. p v \<Longrightarrow> q v) \<Longrightarrow> entry_ok p m \<Longrightarrow> entry_ok q m"
  by (auto simp: entry_ok_def)

lemma site_strings_ok_mono [extends_mono]: "extends sg sg' \<Longrightarrow> site_strings_ok sg m \<Longrightarrow> site_strings_ok sg' m"
  unfolding site_strings_ok_def by (fast intro: extends_mono)

lemma directives_ok_mono [extends_mono]:
  assumes "extends sg sg'" and "directives_ok sg dr"
  shows "directives_ok sg' dr"
proof -
  have "entry_ok p m \<Longrightarrow> (\<And>v. p v \<Longrightarrow> q v) \<Longrightarrow> entry_ok q m" for p q and m :: "(nat, 'v) btree_map"
    by (rule entry_ok_mono)
  then have
    "entry_ok (\<lambda>d. opt_ok (str_ok sg') (deprecated_reason d)) (dr_deprecated dr)"
    "entry_ok (\<lambda>d. str_ok sg' (override_from d) \<and> opt_ok (str_ok sg') (override_label d)) (dr_override dr)"
    "entry_ok (selections_ok sg') (dr_provides dr)" "entry_ok (selections_ok sg') (dr_requires dr)"
    "entry_ok (authorized_ok sg') (dr_authorized dr)"
    using assms by (auto simp: directives_ok_def entry_ok_def intro: extends_mono)
  moreover have "\<forall>(_, t) \<in> set (dr_tags dr). str_ok sg' t"
    "\<forall>(_, n, args) \<in> set (dr_composed_directive_instances dr). str_ok sg' n \<and> arguments_ok sg' args"
    using assms by (fastforce simp: directives_ok_def intro: extends_mono)+
  ultimately show ?thesis
    using assms by (simp add: directives_ok_def site_strings_ok_mono)
qed

lemma enums_ok_mono [extends_mono]: "extends sg sg' \<Longrightarrow> enums_ok sg m \<Longrightarrow> enums_ok sg' m"
  unfolding enums_ok_def by (fast intro: extends_mono)

lemma unions_ok_mono [extends_mono]: "extends sg sg' \<Longrightarrow> unions_ok sg m \<Longrightarrow> unions_ok sg' m"
  unfolding unions_ok_def by (fast intro: extends_mono)

lemma tuple_ok_mono [extends_mono]: "extends sg sg' \<Longrightarrow> tuple_ok sg t \<Longrightarrow> tuple_ok sg' t"
  by (auto simp: tuple_ok_def intro: extends_mono)

lemma fields_ok_mono [extends_mono]: "extends sg sg' \<Longrightarrow> fields_ok sg fs \<Longrightarrow> fields_ok sg' fs"
  unfolding fields_ok_def by (fast intro: extends_mono)

lemma keys_ok_mono [extends_mono]: "extends sg sg' \<Longrightarrow> keys_ok sg ks \<Longrightarrow> keys_ok sg' ks"
  unfolding keys_ok_def by (fast intro: extends_mono)

text \<open>The frame rule: an operation that extends the tables has to re-establish the parts it changes.\<close>

lemma wf_store_frame:
  assumes "wf_store sg" and "extends sg sg'"
    and "field_types_wf sg'"
    and "\<And>s. s \<in> set (sg_subgraphs sg') \<Longrightarrow> s \<in> set (sg_subgraphs sg) \<or> subgraph_record_ok sg' s"
    and "sg_definitions sg' = sg_definitions sg \<or> definitions_ok sg' (sg_definitions sg')"
    and "sg_definition_names sg' = sg_definition_names sg \<or> names_ok sg' (sg_definition_names sg')"
    and "sg_directives sg' = sg_directives sg \<or> directives_ok sg' (sg_directives sg')"
    and "sg_enums sg' = sg_enums sg \<or> enums_ok sg' (sg_enums sg')"
    and "sg_unions sg' = sg_unions sg \<or> unions_ok sg' (sg_unions sg')"
    and "sg_fields sg' = sg_fields sg \<or> fields_ok sg' (sg_fields sg')"
    and "sg_keys sg' = sg_keys sg \<or> keys_ok sg' (sg_keys sg')"
  shows "wf_store sg'"
proof -
  have "set BUILTIN_SCALARS \<subseteq> set (sg_strings sg')" using assms(1,2) by (auto simp: wf_store_def extends_def)
  moreover have "definitions_ok sg' (sg_definitions sg')" "names_ok sg' (sg_definition_names sg')"
    "directives_ok sg' (sg_directives sg')" "enums_ok sg' (sg_enums sg')" "unions_ok sg' (sg_unions sg')"
    "fields_ok sg' (sg_fields sg')" "keys_ok sg' (sg_keys sg')"
    using assms extends_mono [OF assms(2)] unfolding wf_store_def by metis+
  moreover have "\<forall>s \<in> set (sg_subgraphs sg'). subgraph_record_ok sg' s"
    using assms(1,2,4) subgraph_record_ok_mono unfolding wf_store_def by blast
  ultimately show ?thesis using assms(3) by (simp add: wf_store_def)
qed

text \<open>Field types depend on the strings only through their extension.\<close>

lemma field_types_wf_frame:
  "field_types_wf sg \<Longrightarrow> sg_strings sg' = sg_strings sg \<Longrightarrow> sg_field_types sg' = sg_field_types sg \<Longrightarrow> field_types_wf sg'"
  by (simp add: field_types_wf_def)

subsection \<open>Every operation keeps the invariant\<close>

definition wf_step :: "Subgraphs \<Rightarrow> Subgraphs \<Rightarrow> bool" where
  "wf_step sg sg' \<longleftrightarrow> wf_store sg' \<and> extends sg sg'"

lemma wf_step_trans: "wf_step a b \<Longrightarrow> wf_step b c \<Longrightarrow> wf_step a c"
  by (auto simp: wf_step_def intro: extends_trans)

lemma wf_step_refl: "wf_store sg \<Longrightarrow> wf_step sg sg"
  by (simp add: wf_step_def)

lemma wf_stepI:
  assumes "wf_store sg" and "extends sg sg'"
    and "field_types_wf sg' \<or> sg_strings sg' = sg_strings sg \<and> sg_field_types sg' = sg_field_types sg"
    and "\<And>s. s \<in> set (sg_subgraphs sg') \<Longrightarrow> s \<in> set (sg_subgraphs sg) \<or> subgraph_record_ok sg' s"
    and "sg_definitions sg' = sg_definitions sg \<or> definitions_ok sg' (sg_definitions sg')"
    and "sg_definition_names sg' = sg_definition_names sg \<or> names_ok sg' (sg_definition_names sg')"
    and "sg_directives sg' = sg_directives sg \<or> directives_ok sg' (sg_directives sg')"
    and "sg_enums sg' = sg_enums sg \<or> enums_ok sg' (sg_enums sg')"
    and "sg_unions sg' = sg_unions sg \<or> unions_ok sg' (sg_unions sg')"
    and "sg_fields sg' = sg_fields sg \<or> fields_ok sg' (sg_fields sg')"
    and "sg_keys sg' = sg_keys sg \<or> keys_ok sg' (sg_keys sg')"
  shows "wf_step sg sg'"
proof -
  have "field_types_wf sg" using assms(1) by (simp add: wf_store_def)
  then have "field_types_wf sg'" using assms(3) by (auto intro: field_types_wf_frame)
  then show ?thesis unfolding wf_step_def using assms(2) wf_store_frame [OF assms(1,2) _ assms(4-11)] by blast
qed

lemma intern_step:
  assumes "wf_store sg" and "intern s sg = (i, sg')"
  shows "wf_step sg sg'" and "as_str sg' i = Some s" and "str_ok sg' i"
proof -
  have ft: "field_types_wf sg" using assms(1) by (simp add: wf_store_def)
  obtain strs where sg': "sg' = sg\<lparr>sg_strings := sg_strings sg @ strs\<rparr>" using intern_extends [OF assms(2)] by blast
  have e: "extends sg sg'" by (simp add: extends_def sg')
  show "wf_step sg sg'"
    using field_types_wf_intern [OF ft assms(2)] by (intro wf_stepI [OF assms(1) e]) (simp_all add: sg')
  show a: "as_str sg' i = Some s" using intern_as_str assms ft by (auto simp: field_types_wf_def)
  then show "str_ok sg' i" by (auto simp: as_str_def strings_resolve_def vec_index_eq_Some str_ok_def)
qed

lemma intern_option_step:
  assumes "wf_store sg" and "intern_option s sg = (i, sg')"
  shows "wf_step sg sg'" and "opt_ok (str_ok sg') i"
  using assms intern_step by (cases s; auto simp: wf_step_refl split: prod.splits)+

lemma intern_field_type_step:
  assumes "wf_store sg" and "intern_field_type t sg = (i, sg')"
  shows "wf_step sg sg'" and "type_ok sg' i" and "type_syntax sg' i = Some t"
proof -
  have ft: "field_types_wf sg" using assms(1) by (simp add: wf_store_def)
  have ext: "types_extend sg sg'" using ft assms(2) by (rule intern_field_type_extends)
  have e: "extends sg sg'" using ext by (auto simp: extends_def types_extend_def)
  show "wf_step sg sg'"
    using field_types.intern_invar [OF ft assms(2)] ext
    by (intro wf_stepI [OF assms(1) e]) (auto simp: types_extend_def)
  show t: "type_syntax sg' i = Some t" using field_types.intern_resolve [OF ft assms(2)] .
  then show "type_ok sg' i"
    by (auto simp: type_syntax_def inner_type_def type_ok_def vec_index_eq_Some split: Option.bind_splits)
qed

lemma push_subgraph_step:
  assumes "wf_store sg" and "push_subgraph name url sg = (i, sg')"
  shows "wf_step sg sg'" and "i = length (sg_subgraphs sg)" and "subgraph_ok sg' i"
proof -
  obtain n sg1 u sg2 where 1: "intern name sg = (n, sg1)" and 2: "intern url sg1 = (u, sg2)" by fastforce
  note s1 = intern_step [OF assms(1) 1]
  have wf1: "wf_store sg1" using s1 by (simp add: wf_step_def)
  note s2 = intern_step [OF wf1 2]
  have len: "sg_subgraphs sg2 = sg_subgraphs sg" using intern_extends [OF 1] intern_extends [OF 2] by auto
  define s where "s = \<lparr>s_name = n, s_url = u, s_query_type = None, s_mutation_type = None, s_subscription_type = None\<rparr>"
  have sg': "sg' = sg2\<lparr>sg_subgraphs := sg_subgraphs sg @ [s]\<rparr>" and i: "i = length (sg_subgraphs sg)"
    using assms(2) by (simp_all add: push_subgraph_def 1 2 push_return_idx_def s_def len)
  have e: "extends sg2 sg'" by (simp add: extends_def sg' len)
  have "str_ok sg' n" "str_ok sg' u" using s1 s2 e by (auto simp: wf_step_def intro: extends_mono)
  then have "wf_step sg2 sg'"
    using s2(1) by (intro wf_stepI [OF _ e]) (auto simp: wf_step_def sg' s_def subgraph_record_ok_def len)
  then show "wf_step sg sg'"
    using s1(1) s2(1) wf_step_trans by blast
  show "i = length (sg_subgraphs sg)" by (rule i)
  then show "subgraph_ok sg' i" by (simp add: subgraph_ok_def sg')
qed

lemma set_root_types_step:
  assumes "wf_store sg" and "subgraph_ok sg s" and "def_ok sg d"
  shows "\<exists>sg'. set_query_type s d sg = Some sg' \<and> wf_step sg sg'"
    and "\<exists>sg'. set_mutation_type s d sg = Some sg' \<and> wf_step sg sg'"
    and "\<exists>sg'. set_subscription_type s d sg = Some sg' \<and> wf_step sg sg'"
proof -
  have x: "subgraph_record_ok sg (sg_subgraphs sg ! s)" "s < length (sg_subgraphs sg)"
    using assms by (auto simp: wf_store_def subgraph_ok_def)
  have step: "wf_step sg (sg\<lparr>sg_subgraphs := (sg_subgraphs sg)[s := y]\<rparr>)" if "subgraph_record_ok sg y" for y
  proof -
    have e: "extends sg (sg\<lparr>sg_subgraphs := (sg_subgraphs sg)[s := y]\<rparr>)" by (simp add: extends_def)
    have "subgraph_record_ok (sg\<lparr>sg_subgraphs := (sg_subgraphs sg)[s := y]\<rparr>) y" using subgraph_record_ok_mono [OF e that] .
    then show ?thesis
      using set_update_subset_insert [of "sg_subgraphs sg" s y] by (intro wf_stepI [OF assms(1) e]) auto
  qed
  show "\<exists>sg'. set_query_type s d sg = Some sg' \<and> wf_step sg sg'"
    "\<exists>sg'. set_mutation_type s d sg = Some sg' \<and> wf_step sg sg'"
    "\<exists>sg'. set_subscription_type s d sg = Some sg' \<and> wf_step sg sg'"
    using x assms(3)
    by (auto simp: set_query_type_def set_mutation_type_def set_subscription_type_def subgraph_record_ok_def intro!: step)
qed

lemma set_bt_insert: "set (bt_insert k v m) \<subseteq> insert (k, v) (set m)"
  by (induction m) auto

lemma entry_ok_insert: "entry_ok p m \<Longrightarrow> p v \<Longrightarrow> entry_ok p (bt_insert k v m)"
  using set_bt_insert [of k v m] by (fastforce simp: entry_ok_def bt_insert_wf)

lemma push_ingestion_diagnostic_step:
  assumes "wf_store sg" and "subgraph_ok sg s"
  shows "\<exists>sg'. push_ingestion_diagnostic s m sg = Some sg' \<and> wf_step sg sg'
    \<and> any_fatal (sg_ingestion_diagnostics sg')"
proof -
  have "subgraph_record_ok sg (sg_subgraphs sg ! s)" "s < length (sg_subgraphs sg)"
    using assms by (auto simp: wf_store_def subgraph_ok_def)
  then obtain name where "push_ingestion_diagnostic s m sg =
      Some (sg\<lparr>sg_ingestion_diagnostics := push_fatal (''['' @ name @ '']: '' @ m) (sg_ingestion_diagnostics sg)\<rparr>)"
    by (auto simp: push_ingestion_diagnostic_def walk_subgraph_def as_str_def strings_resolve_def
        subgraph_record_ok_def str_ok_def)
  moreover have "wf_step sg (sg\<lparr>sg_ingestion_diagnostics := ds\<rparr>)" for ds
    by (rule wf_stepI [OF assms(1)]) (simp_all add: extends_def)
  ultimately show ?thesis by auto
qed

lemma ball_bt_insert: "P (k, v) \<Longrightarrow> \<forall>e \<in> set m. P e \<Longrightarrow> \<forall>e \<in> set (bt_insert k v m). P e"
  using set_bt_insert [of k v m] by blast

lemma names_ok_insert:
  assumes "names_ok sg m" and "vec_index (ds_definitions (sg_definitions sg)) d = Some x"
  shows "names_ok sg (bt_insert (d_name x, d_subgraph_id x) d m)"
  using assms unfolding names_ok_def by (intro conjI bt_insert_wf ball_bt_insert) auto

lemma push_definition_step:
  assumes wf: "wf_store sg" and p: "push_definition s name kind descr site sg = (i, sg')"
    and s: "subgraph_ok sg s" and descr: "opt_ok (str_ok sg) descr" and site: "site_ok sg site"
    and sorted: "\<forall>d \<in> set (ds_definitions (sg_definitions sg)). d_subgraph_id d \<le> s"
  shows "wf_step sg sg'" and "i = length (ds_definitions (sg_definitions sg))" and "def_ok sg' i"
    and "\<exists>n. as_str sg' n = Some name \<and> definition_by_name_id sg' n s = Some i \<and>
      vec_index (ds_definitions (sg_definitions sg')) i = Some
        \<lparr>d_subgraph_id = s, d_name = n, d_kind = kind, d_description = descr, d_directives = site\<rparr>"
proof -
  obtain n sg1 where n: "intern name sg = (n, sg1)" by fastforce
  note s1 = intern_step [OF wf n]
  have same: "sg_definitions sg1 = sg_definitions sg" using intern_extends [OF n] by auto
  define x where "x = \<lparr>d_subgraph_id = s, d_name = n, d_kind = kind, d_description = descr, d_directives = site\<rparr>"
  define ds where "ds = (sg_definitions sg)\<lparr>ds_definitions := ds_definitions (sg_definitions sg) @ [x]\<rparr>"
  have i: "i = length (ds_definitions (sg_definitions sg))"
    and sg': "sg' = sg1\<lparr>sg_definitions := ds, sg_definition_names := bt_insert (n, s) i (sg_definition_names sg1)\<rparr>"
    using p by (auto simp: push_definition_def n push_return_idx_def x_def same ds_def)
  have e: "extends sg1 sg'" by (simp add: extends_def sg' ds_def same)
  have e': "extends sg sg'" using s1(1) e by (auto simp: wf_step_def intro: extends_trans)
  have "definition_ok sg' x"
    using s1(3) s descr site extends_mono [OF e] extends_mono [OF e'] by (simp add: definition_ok_def x_def)
  moreover have "definitions_ok sg' (sg_definitions sg)"
    using wf definitions_ok_mono [OF e'] by (simp add: wf_store_def)
  ultimately have d: "definitions_ok sg' ds"
    using sorted by (auto simp: definitions_ok_def ds_def sorted_append x_def)
  have "names_ok sg' (sg_definition_names sg1)"
    using s1(1) names_ok_mono [OF e] by (simp add: wf_step_def wf_store_def)
  then have m: "names_ok sg' (bt_insert (n, s) i (sg_definition_names sg1))"
    using names_ok_insert [of sg' _ i x] by (simp add: sg' ds_def i x_def)
  have "wf_step sg1 sg'"
    using s1(1) d m by (intro wf_stepI [OF _ e]) (simp_all add: wf_step_def, simp_all add: sg')
  then show "wf_step sg sg'" using s1(1) wf_step_trans by blast
  show "i = length (ds_definitions (sg_definitions sg))" by (rule i)
  show "def_ok sg' i" by (simp add: def_ok_def sg' ds_def i)
  show "\<exists>n. as_str sg' n = Some name \<and> definition_by_name_id sg' n s = Some i \<and>
      vec_index (ds_definitions (sg_definitions sg')) i = Some
        \<lparr>d_subgraph_id = s, d_name = n, d_kind = kind, d_description = descr, d_directives = site\<rparr>"
    using s1(2) by (intro exI [of _ n]) (simp add: sg' ds_def i x_def definition_by_name_id_def bt_insert_get as_str_def)
qed

lemma names_ok_get:
  "wf_store sg \<Longrightarrow> definition_by_name_id sg n s = Some d \<Longrightarrow>
   \<exists>x. walk_definition sg d = Some x \<and> d_name x = n \<and> d_subgraph_id x = s \<and> def_ok sg d"
  by (fastforce simp: wf_store_def names_ok_def definition_by_name_id_def bt_wf_get [symmetric] walk_definition_def
      def_ok_def vec_index_eq_Some)

lemma definition_by_name_step:
  assumes "wf_store sg" and "definition_by_name name s sg = Some (d, sg')"
  shows "wf_step sg sg'" and "def_ok sg' d"
proof -
  obtain n sg1 where n: "intern name sg = (n, sg1)" by fastforce
  with assms(2) have "sg' = sg1" "definition_by_name_id sg1 n s = Some d"
    by (auto simp: definition_by_name_def split: Option.bind_splits)
  with intern_step [OF assms(1) n] show "wf_step sg sg'" "def_ok sg' d"
    using names_ok_get by (auto simp: wf_step_def)
qed

lemma walk_definition_ok:
  "wf_store sg \<Longrightarrow> def_ok sg d \<Longrightarrow> \<exists>x. walk_definition sg d = Some x \<and> definition_ok sg x"
  by (auto simp: wf_store_def definitions_ok_def def_ok_def walk_definition_def)

lemma push_interface_impl_step:
  assumes wf: "wf_store sg" and "def_ok sg a" and "def_ok sg b"
  shows "\<exists>sg'. push_interface_impl a b sg = Some sg' \<and> wf_step sg sg'"
proof -
  obtain x y where x: "walk_definition sg a = Some x" "definition_ok sg x"
    and y: "walk_definition sg b = Some y" "definition_ok sg y"
    using walk_definition_ok [OF wf] assms(2,3) by blast
  define key where "key = (d_name y, d_name x)"
  define ds where "ds = sg_definitions sg"
  define subs where "subs = (case bt_get (ds_interface_definitions_to_subgraphs ds) key of
      None \<Rightarrow> [d_subgraph_id x] | Some entry \<Rightarrow> entry @ [d_subgraph_id x])"
  define sg' where "sg' = sg\<lparr>sg_definitions := ds\<lparr>ds_interface_impls := bs_insert key (ds_interface_impls ds),
       ds_interface_definitions_to_subgraphs := bt_insert key subs (ds_interface_definitions_to_subgraphs ds)\<rparr>\<rparr>"
  have r: "push_interface_impl a b sg = Some sg'"
    using x y by (auto simp: push_interface_impl_def def_name_def def_subgraph_id_def sg'_def key_def ds_def subs_def
        Let_def split: option.splits)
  have e: "extends sg sg'" by (simp add: extends_def sg'_def ds_def)
  have "definitions_ok sg' ds" using wf definitions_ok_mono [OF e] by (simp add: wf_store_def ds_def)
  moreover have "str_ok sg' (d_name x)" "str_ok sg' (d_name y)" "subgraph_ok sg' (d_subgraph_id x)"
    using x(2) y(2) extends_mono [OF e] by (auto simp: definition_ok_def)
  moreover have "\<forall>s \<in> set subs. subgraph_ok sg' s"
  proof (cases "bt_get (ds_interface_definitions_to_subgraphs ds) key")
    case (Some entry)
    then have "(key, entry) \<in> set (ds_interface_definitions_to_subgraphs ds)" by (rule map_of_SomeD)
    with calculation(1) have "\<forall>s \<in> set entry. subgraph_ok sg' s" by (auto simp: definitions_ok_def)
    with Some calculation show ?thesis by (simp add: subs_def)
  qed (use calculation in \<open>simp add: subs_def\<close>)
  moreover have "sg_definitions sg' = ds\<lparr>ds_interface_impls := bs_insert key (ds_interface_impls ds),
      ds_interface_definitions_to_subgraphs := bt_insert key subs (ds_interface_definitions_to_subgraphs ds)\<rparr>"
    by (simp add: sg'_def)
  moreover have "definitions_ok sg' ds \<Longrightarrow>
      set (map fst (bt_insert key subs (ds_interface_definitions_to_subgraphs ds))) = set (bs_insert key (ds_interface_impls ds))"
    unfolding bt_insert_keys by (simp add: definitions_ok_def)
  moreover have "definitions_ok sg' ds \<Longrightarrow> \<forall>s \<in> set subs. subgraph_ok sg' s \<Longrightarrow>
      \<forall>(_, subs) \<in> set (bt_insert key subs (ds_interface_definitions_to_subgraphs ds)). \<forall>s \<in> set subs. subgraph_ok sg' s"
    by (rule ball_bt_insert) (simp_all add: definitions_ok_def)
  ultimately have "definitions_ok sg' (sg_definitions sg')"
    unfolding definitions_ok_def by (simp add: bs_insert_wf bt_insert_wf key_def)
  then have "wf_step sg sg'" by (intro wf_stepI [OF wf e]) (simp_all, simp_all add: sg'_def)
  with r show ?thesis by blast
qed

lemma push_enum_value_step:
  assumes "wf_store sg" and "def_ok sg d" and "str_ok sg v" and "site_ok sg i"
  shows "wf_step sg (push_enum_value d v i sg)"
proof -
  let ?sg = "push_enum_value d v i sg"
  have e: "extends sg ?sg" by (simp add: extends_def push_enum_value_def)
  have "enums_ok sg (bt_insert (d, v) i (sg_enums sg))"
    using assms unfolding enums_ok_def wf_store_def by (intro conjI bt_insert_wf ball_bt_insert) auto
  then have "enums_ok ?sg (sg_enums ?sg)" using enums_ok_mono [OF e] by (simp add: push_enum_value_def)
  then show ?thesis by (intro wf_stepI [OF assms(1) e]) (simp_all, simp_all add: push_enum_value_def)
qed

lemma push_union_member_step:
  assumes "wf_store sg" and "def_ok sg u" and "def_ok sg d"
  shows "wf_step sg (push_union_member u d sg)"
proof -
  let ?sg = "push_union_member u d sg"
  have e: "extends sg ?sg" by (simp add: extends_def push_union_member_def)
  have "unions_ok sg (bs_insert (u, d) (sg_unions sg))"
    using assms by (auto simp: unions_ok_def wf_store_def bs_insert_wf)
  then have "unions_ok ?sg (sg_unions ?sg)" using unions_ok_mono [OF e] by (simp add: push_union_member_def)
  then show ?thesis by (intro wf_stepI [OF assms(1) e]) (simp_all, simp_all add: push_union_member_def)
qed

lemma directives_step:
  assumes "wf_store sg" and "site_id_counter (sg_directives sg) \<le> site_id_counter dr" and "directives_ok sg dr"
  shows "wf_step sg (sg\<lparr>sg_directives := dr\<rparr>)"
proof -
  have e: "extends sg (sg\<lparr>sg_directives := dr\<rparr>)" using assms(2) by (simp add: extends_def)
  show ?thesis using directives_ok_mono [OF e assms(3)] by (intro wf_stepI [OF assms(1) e]) simp_all
qed

lemma wf_store_directives: "wf_store sg \<Longrightarrow> directives_ok sg (sg_directives sg)"
  by (simp add: wf_store_def)

lemma flag_directives_step:
  assumes "wf_store sg"
  shows "wf_step sg (insert_authenticated i sg)" "wf_step sg (set_external i sg)" "wf_step sg (set_inaccessible i sg)"
    "wf_step sg (set_interface_object i sg)" "wf_step sg (set_shareable i sg)"
  unfolding insert_authenticated_def set_external_def set_inaccessible_def set_interface_object_def set_shareable_def
  using wf_store_directives [OF assms] by (auto intro!: directives_step [OF assms] simp: directives_ok_def)

lemma new_directive_site_step:
  assumes "wf_store sg" and "new_directive_site sg = (i, sg')"
  shows "wf_step sg sg'" and "site_ok sg' i" and "i = site_id_counter (sg_directives sg)"
proof -
  have sg': "sg' = sg\<lparr>sg_directives := (sg_directives sg)\<lparr>site_id_counter := i + 1\<rparr>\<rparr>"
    and i: "i = site_id_counter (sg_directives sg)"
    using assms(2) by (auto simp: new_directive_site_def Let_def)
  show "wf_step sg sg'"
    unfolding sg' using wf_store_directives [OF assms(1)]
    by (intro directives_step [OF assms(1)]) (simp_all add: i directives_ok_def)
  show "site_ok sg' i" by (simp add: site_ok_def sg')
  show "i = site_id_counter (sg_directives sg)" by (rule i)
qed

lemma insert_authorized_step:
  "wf_store sg \<Longrightarrow> authorized_ok sg a \<Longrightarrow> wf_step sg (insert_authorized i a sg)"
  unfolding insert_authorized_def using wf_store_directives [of sg]
  by (intro directives_step) (auto simp: directives_ok_def intro: entry_ok_insert)

lemma set_override_step:
  "wf_store sg \<Longrightarrow> str_ok sg (override_from d) \<Longrightarrow> opt_ok (str_ok sg) (override_label d) \<Longrightarrow> wf_step sg (set_override i d sg)"
  unfolding set_override_def using wf_store_directives [of sg]
  by (intro directives_step) (auto simp: directives_ok_def intro: entry_ok_insert)

lemma site_strings_step:
  assumes "wf_store sg" and "\<forall>s \<in> set ss. str_ok sg s"
  shows "wf_step sg (insert_policy i ss sg)" "wf_step sg (append_required_scopes i ss sg)"
  unfolding insert_policy_def append_required_scopes_def using assms(2) wf_store_directives [OF assms(1)]
  by (auto intro!: directives_step [OF assms(1)] simp: directives_ok_def site_strings_ok_def bs_insert_wf)

lemma insert_tag_step:
  assumes "wf_store sg"
  shows "wf_step sg (insert_tag i tag sg)"
proof -
  obtain t sg1 where t: "intern tag sg = (t, sg1)" by fastforce
  note s1 = intern_step [OF assms t]
  then have wf1: "wf_store sg1" by (simp add: wf_step_def)
  have "wf_step sg1 (insert_tag i tag sg)"
    unfolding insert_tag_def using s1(3) wf_store_directives [OF wf1]
    by (auto simp: t directives_ok_def bs_insert_wf intro!: directives_step [OF wf1])
  with s1(1) show ?thesis using wf_step_trans by blast
qed

lemma insert_composed_directive_step:
  assumes "wf_store sg"
  shows "wf_step sg (insert_composed_directive s name sg)"
proof -
  obtain t sg1 where t: "intern name sg = (t, sg1)" by fastforce
  note s1 = intern_step [OF assms t]
  then have wf1: "wf_store sg1" by (simp add: wf_step_def)
  have "wf_step sg1 (insert_composed_directive s name sg)"
    unfolding insert_composed_directive_def using wf_store_directives [OF wf1]
    by (auto simp: t directives_ok_def bs_insert_wf intro!: directives_step [OF wf1])
  with s1(1) show ?thesis using wf_step_trans by blast
qed

lemma insert_composed_directive_instance_step:
  assumes "wf_store sg" and "arguments_ok sg args"
  shows "wf_step sg (insert_composed_directive_instance i name args sg)"
proof -
  obtain t sg1 where t: "intern name sg = (t, sg1)" by fastforce
  note s1 = intern_step [OF assms(1) t]
  then have wf1: "wf_store sg1" and a: "arguments_ok sg1 args"
    using assms(2) arguments_ok_mono by (auto simp: wf_step_def)
  have "wf_step sg1 (insert_composed_directive_instance i name args sg)"
    unfolding insert_composed_directive_instance_def using wf_store_directives [OF wf1] s1(3) a
    by (auto simp: t directives_ok_def intro!: directives_step [OF wf1])
  with s1(1) show ?thesis using wf_step_trans by blast
qed

lemma insert_deprecated_step:
  assumes "wf_store sg"
  shows "wf_step sg (insert_deprecated i reason sg)"
proof -
  obtain t sg1 where t: "intern_option reason sg = (t, sg1)" by fastforce
  note s1 = intern_option_step [OF assms t]
  then have wf1: "wf_store sg1" by (simp add: wf_step_def)
  have "wf_step sg1 (insert_deprecated i reason sg)"
    unfolding insert_deprecated_def using wf_store_directives [OF wf1] s1(2)
    by (auto simp: t directives_ok_def intro!: directives_step [OF wf1] entry_ok_insert)
  with s1(1) show ?thesis using wf_step_trans by blast
qed

lemma fields_step:
  assumes "wf_store sg" and "fields_ok sg fs"
  shows "wf_step sg (sg\<lparr>sg_fields := fs\<rparr>)"
proof -
  have e: "extends sg (sg\<lparr>sg_fields := fs\<rparr>)" by (simp add: extends_def)
  show ?thesis using fields_ok_mono [OF e assms(2)] by (intro wf_stepI [OF assms(1) e]) simp_all
qed

lemma fields_ok_insert_field:
  assumes ok: "fields_ok sg fs" and "def_ok sg d" and "str_ok sg n" and "tuple_ok sg t"
  shows "fields_ok sg (fs\<lparr>fs_definition_fields := bt_insert (FieldId d n) t (fs_definition_fields fs)\<rparr>)"
proof -
  define m where "m = bt_insert (FieldId d n) t (fs_definition_fields fs)"
  have "\<forall>(f, t) \<in> set m. def_ok sg (field_parent f) \<and> str_ok sg (field_name_id f) \<and> tuple_ok sg t"
    unfolding m_def using assms by (intro ball_bt_insert) (simp_all add: fields_ok_def)
  moreover have "bt_wf m" using ok by (simp add: fields_ok_def bt_insert_wf m_def)
  moreover have sub: "set (map fst (fs_definition_fields fs)) \<subseteq> set (map fst m)"
    unfolding m_def bt_insert_keys by blast
  have "\<forall>(a, t) \<in> set (fs_field_arguments fs). str_ok sg (argument_name_id a) \<and> tuple_ok sg t
      \<and> FieldId (argument_parent a) (argument_field a) \<in> set (map fst m)"
    using ok sub unfolding fields_ok_def by blast
  ultimately show ?thesis using ok unfolding fields_ok_def m_def [symmetric] by simp
qed

lemma push_field_step:
  assumes wf: "wf_store sg" and p: "push_field f sg = (i, sg')"
    and d: "def_ok sg (fi_parent_definition_id f)" and "type_ok sg (fi_field_type f)"
    and "opt_ok (str_ok sg) (fi_description f)" and "site_ok sg (fi_directives f)" and "opt_ok (value_ok sg) (fi_default f)"
  shows "wf_step sg sg'" and "i \<in> set (map fst (fs_definition_fields (sg_fields sg')))"
    and "\<exists>n. i = FieldId (fi_parent_definition_id f) n \<and> as_str sg' n = Some (fi_field_name f)
      \<and> walk_field sg' i = Some (i, \<lparr>ft_type = fi_field_type f, ft_description = fi_description f, ft_directives = fi_directives f\<rparr>)"
proof -
  obtain n sg1 where n: "intern (fi_field_name f) sg = (n, sg1)" by fastforce
  note s1 = intern_step [OF wf n]
  then have wf1: "wf_store sg1" and e: "extends sg sg1" by (simp_all add: wf_step_def)
  define t where "t = \<lparr>ft_type = fi_field_type f, ft_description = fi_description f, ft_directives = fi_directives f\<rparr>"
  define fs where "fs = (sg_fields sg1)\<lparr>fs_definition_fields :=
      bt_insert (FieldId (fi_parent_definition_id f) n) t (fs_definition_fields (sg_fields sg1))\<rparr>"
  define fs' where "fs' = (case fi_default f of
      Some d \<Rightarrow> fs\<lparr>fs_input_field_default_values := (fs_input_field_default_values fs)(FieldId (fi_parent_definition_id f) n \<mapsto> d)\<rparr>
    | None \<Rightarrow> fs)"
  have i: "i = FieldId (fi_parent_definition_id f) n" and sg': "sg' = sg1\<lparr>sg_fields := fs'\<rparr>"
    using p by (cases "fi_default f"; auto simp: push_field_def n Let_def fs'_def fs_def t_def)+
  have "tuple_ok sg1 t" using assms(4-6) extends_mono [OF e] by (simp add: tuple_ok_def t_def)
  then have "fields_ok sg1 fs"
    using wf1 def_ok_mono [OF e d] s1(3) by (auto simp: fs_def wf_store_def intro: fields_ok_insert_field)
  then have "fields_ok sg1 fs'"
    using opt_value_ok_mono [OF e assms(7)] by (cases "fi_default f") (auto simp: fs'_def fields_ok_def)
  then have "wf_step sg1 sg'" unfolding sg' by (rule fields_step [OF wf1])
  with s1(1) show "wf_step sg sg'" using wf_step_trans by blast
  have fields: "fs_definition_fields fs' = bt_insert i t (fs_definition_fields (sg_fields sg1))"
    by (cases "fi_default f") (simp_all add: fs'_def fs_def i)
  show "i \<in> set (map fst (fs_definition_fields (sg_fields sg')))"
    using bt_insert_keys [of i t "fs_definition_fields (sg_fields sg1)"] by (simp add: sg' fields)
  show "\<exists>n. i = FieldId (fi_parent_definition_id f) n \<and> as_str sg' n = Some (fi_field_name f)
      \<and> walk_field sg' i = Some (i, \<lparr>ft_type = fi_field_type f, ft_description = fi_description f, ft_directives = fi_directives f\<rparr>)"
    using s1(2) by (intro exI [of _ n]) (simp add: i sg' as_str_def walk_field_def fields bt_insert_get t_def)
qed

lemma insert_field_argument_step:
  assumes wf: "wf_store sg" and f: "f \<in> set (map fst (fs_definition_fields (sg_fields sg)))" and "str_ok sg n"
    and "type_ok sg ty" and "site_ok sg site" and "opt_ok (str_ok sg) descr" and "opt_ok (value_ok sg) dflt"
  shows "wf_step sg (insert_field_argument f n ty site descr dflt sg)"
proof -
  define a where "a = ArgumentId (field_parent f) (field_name_id f) n"
  define t where "t = \<lparr>ft_type = ty, ft_description = descr, ft_directives = site\<rparr>"
  define fs where "fs = (sg_fields sg)\<lparr>fs_field_arguments := bt_insert a t (fs_field_arguments (sg_fields sg))\<rparr>"
  define fs' where "fs' = (case dflt of
      Some d \<Rightarrow> fs\<lparr>fs_field_argument_defaults := (fs_field_argument_defaults fs)(a \<mapsto> d)\<rparr> | None \<Rightarrow> fs)"
  have r: "insert_field_argument f n ty site descr dflt sg = sg\<lparr>sg_fields := fs'\<rparr>"
    by (cases dflt) (simp_all add: insert_field_argument_def Let_def fs'_def fs_def a_def t_def)
  have ok: "fields_ok sg (sg_fields sg)" using wf by (simp add: wf_store_def)
  have "tuple_ok sg t" using assms(4-6) by (simp add: tuple_ok_def t_def)
  moreover have "FieldId (field_parent f) (field_name_id f) = f" by (cases f) simp
  ultimately have "\<forall>(a, t) \<in> set (bt_insert a t (fs_field_arguments (sg_fields sg))).
      str_ok sg (argument_name_id a) \<and> tuple_ok sg t
      \<and> FieldId (argument_parent a) (argument_field a) \<in> set (map fst (fs_definition_fields (sg_fields sg)))"
    using ok f assms(3) by (intro ball_bt_insert) (simp_all add: fields_ok_def a_def)
  then have "fields_ok sg fs"
    using ok by (simp add: fields_ok_def fs_def bt_insert_wf)
  then have "fields_ok sg fs'" using assms(7) by (cases dflt) (auto simp: fs'_def fields_ok_def)
  then show ?thesis unfolding r by (rule fields_step [OF wf])
qed

lemma push_key_selection_step:
  assumes "wf_store sg" and "def_ok sg d" and "selections_ok sg sel" and "\<forall>(d', _) \<in> set (ks_keys (sg_keys sg)). d' \<le> d"
  shows "wf_step sg (push_key_selection d sel r sg)"
proof -
  let ?sg = "push_key_selection d sel r sg"
  have e: "extends sg ?sg" by (simp add: extends_def push_key_selection_def)
  have "keys_ok sg (sg_keys sg)" using assms(1) by (simp add: wf_store_def)
  then have "keys_ok sg (sg_keys ?sg)"
    using assms(2-4) by (auto simp: keys_ok_def push_key_selection_def sorted_append)
  then have "keys_ok ?sg (sg_keys ?sg)" using keys_ok_mono [OF e] by blast
  then show ?thesis by (intro wf_stepI [OF assms(1) e]) (simp_all, simp_all add: push_key_selection_def)
qed

lemma with_nested_key_fields_step:
  assumes "wf_store sg" and "with_nested_key_fields h sg = Some sg'"
  shows "wf_step sg sg'"
proof -
  obtain nk where sg': "sg' = sg\<lparr>sg_keys := (sg_keys sg)\<lparr>ks_nested_key_fields := nk\<rparr>\<rparr>"
    using assms(2) by (auto simp: with_nested_key_fields_def Let_def split: Option.bind_splits)
  have e: "extends sg sg'" by (simp add: extends_def sg')
  have "keys_ok sg (sg_keys sg)" using assms(1) by (simp add: wf_store_def)
  then have "keys_ok sg (sg_keys sg')" by (simp add: keys_ok_def sg')
  then have "keys_ok sg' (sg_keys sg')" using keys_ok_mono [OF e] by blast
  then show ?thesis by (intro wf_stepI [OF assms(1) e]) (simp_all, simp_all add: sg')
qed

lemma selection_directives_step:
  assumes "wf_store sg" and "selections_ok sg sel"
  shows "wf_step sg (sg\<lparr>sg_directives := (sg_directives sg)\<lparr>dr_provides := bt_insert i sel (dr_provides (sg_directives sg))\<rparr>\<rparr>)"
    and "wf_step sg (sg\<lparr>sg_directives := (sg_directives sg)\<lparr>dr_requires := bt_insert i sel (dr_requires (sg_directives sg))\<rparr>\<rparr>)"
  using wf_store_directives [OF assms(1)] assms(2)
  by (auto intro!: directives_step [OF assms(1)] entry_ok_insert simp: directives_ok_def)

lemma wf_store_default: "wf_store subgraphs_default"
  using field_types_wf_default
  by (simp add: wf_store_def subgraphs_default_strings, simp add: subgraphs_default_def definitions_ok_def names_ok_def
      directives_ok_def enums_ok_def unions_ok_def fields_ok_def keys_ok_def entry_ok_def site_strings_ok_def)

end
