(* ===== verification/Subgraphs_Lookup.thy ===== *)
theory Subgraphs_Lookup
  imports Subgraphs_Invariant
begin

text \<open>
  What the lookups of the store return, under its invariant: the range queries and the binary searches over the
  sorted tables are the filter of the whole table they stand for, the search for composed directives, whose table
  need not be sorted, finds all directives of a site or none, and \<open>iter_definition_groups\<close> calls its closure
  once with each group of definitions of the same name.
\<close>

subsection \<open>Range queries\<close>

lemma def_fields_filter:
  assumes "wf_store sg" and "store_bounded sg"
  shows "def_fields sg d = filter (\<lambda>f. parent_definition f = d) (iter_all_fields sg)"
proof -
  have "field_name_id f < usize_MAX" if "(f, t) \<in> set (fs_definition_fields (sg_fields sg))" for f t
    using that assms by (fastforce simp: wf_store_def fields_ok_def str_ok_def store_bounded_def)
  then show ?thesis
    unfolding def_fields_def iter_all_fields_def bt_range_def parent_definition_def
    by (intro filter_cong refl) (case_tac "fst x", fastforce)
qed

lemma field_arguments_filter:
  assumes "wf_store sg" and "store_bounded sg"
  shows "field_arguments sg (FieldId d n, t) =
    filter (\<lambda>a. argument_parent (fst a) = d \<and> argument_field (fst a) = n) (iter_all_field_arguments sg)"
proof -
  have "argument_name_id a < usize_MAX" if "(a, t) \<in> set (fs_field_arguments (sg_fields sg))" for a t
    using that assms by (fastforce simp: wf_store_def fields_ok_def str_ok_def store_bounded_def)
  then show ?thesis
    unfolding field_arguments_def iter_all_field_arguments_def bt_range_def
    by (simp, intro filter_cong refl) (case_tac "fst x", fastforce)
qed

lemma enum_values_filter:
  assumes "wf_store sg" and "store_bounded sg"
  shows "enum_values sg d = map (\<lambda>((e, v), i). (e, v, i)) (filter (\<lambda>((e, _), _). e = d) (sg_enums sg))"
proof -
  have "v < usize_MAX" if "((e, v), i) \<in> set (sg_enums sg)" for e v i
    using that assms by (fastforce simp: wf_store_def enums_ok_def str_ok_def store_bounded_def)
  then show ?thesis
    unfolding enum_values_def bt_range_def by (intro arg_cong [where f = "map _"] filter_cong refl) fastforce
qed

lemma bs_range_pair:
  assumes "\<And>b c. (b, c) \<in> set m \<Longrightarrow> c < hi"
  shows "bs_range (a, 0 :: nat) (a, hi) m = filter (\<lambda>(b, _). b = a) m"
  unfolding bs_range_def using assms by (intro filter_cong refl) fastforce

lemma iter_union_members_filter:
  assumes "wf_store sg" and "store_bounded sg"
  shows "iter_union_members sg u = map snd (filter (\<lambda>(v, _). v = u) (sg_unions sg))"
proof -
  have "d < usize_MAX" if "(v, d) \<in> set (sg_unions sg)" for v d
    using that assms by (fastforce simp: wf_store_def unions_ok_def def_ok_def store_bounded_def)
  then show ?thesis unfolding iter_union_members_def by (simp add: bs_range_pair)
qed

lemma tags_filter:
  assumes "wf_store sg" and "store_bounded sg"
  shows "tags sg i = map snd (filter (\<lambda>(j, _). j = i) (dr_tags (sg_directives sg)))"
proof -
  have "t < usize_MAX" if "(j, t) \<in> set (dr_tags (sg_directives sg))" for j t
    using that assms by (fastforce simp: wf_store_def directives_ok_def str_ok_def store_bounded_def)
  then show ?thesis unfolding tags_def by (simp add: bs_range_pair)
qed

lemma iter_implementers_filter:
  assumes "wf_store sg" and "store_bounded sg"
  shows "iter_implementers_for_interface sg n = map snd (filter (\<lambda>(i, _). i = n) (ds_interface_impls (sg_definitions sg)))"
proof -
  have "b < usize_MAX" if "(a, b) \<in> set (ds_interface_impls (sg_definitions sg))" for a b
    using that assms by (fastforce simp: wf_store_def definitions_ok_def str_ok_def store_bounded_def)
  then show ?thesis unfolding iter_implementers_for_interface_def by (simp add: bs_range_pair)
qed

lemma site_strings_filter:
  assumes "bs_wf m"
  shows "takeWhile (\<lambda>(site, _). site = i) (bs_range_from (i, []) m) = filter (\<lambda>(site, _). site = i) (m :: (nat \<times> nat list) btree_set)"
proof -
  have s: "sorted m" using assms by (simp add: bs_wf_def strict_sorted_iff)
  have "takeWhile (\<lambda>(site, _). site = i) (filter (\<lambda>k. (i, []) \<le> k) m) = filter (\<lambda>(site, _). site = i) m"
    using s
  proof (induction m)
    case (Cons x m)
    obtain a b where x: "x = (a, b)" by fastforce
    have fst: "\<forall>y \<in> set m. a \<le> fst y" using Cons.prems by (auto simp: x less_eq_prod_def)
    consider "a < i" | "a = i" | "i < a" by linarith
    then show ?case
    proof cases
      case 3
      then have "filter (\<lambda>(site, _). site = i) m = []" using fst by (auto simp: filter_empty_conv)
      with 3 show ?thesis by (simp add: x)
    qed (use Cons in \<open>simp_all add: x\<close>)
  qed simp
  then show ?thesis by (simp add: bs_range_from_def)
qed

lemma policies_scopes_filter:
  assumes "wf_store sg"
  shows "policies sg i = map snd (filter (\<lambda>(j, _). j = i) (dr_policies (sg_directives sg)))"
    and "requires_scopes sg i = map snd (filter (\<lambda>(j, _). j = i) (dr_requires_scopes (sg_directives sg)))"
  using assms by (simp_all add: policies_def requires_scopes_def site_strings_filter wf_store_def directives_ok_def site_strings_ok_def)

subsection \<open>Binary searches\<close>

lemma entity_keys_filter:
  assumes "wf_store sg"
  shows "entity_keys sg d = filter (\<lambda>k. fst (ks_keys (sg_keys sg) ! k) = d) [0..<length (ks_keys (sg_keys sg))]"
  using partition_point_key_indices [of fst "ks_keys (sg_keys sg)" _ d] assms
  by (simp add: entity_keys_def wf_store_def keys_ok_def split_beta' Let_def)

lemma subgraph_definitions_filter:
  assumes "wf_store sg"
  shows "subgraph_definitions sg s =
    filter (\<lambda>d. d_subgraph_id (ds_definitions (sg_definitions sg) ! d) = s) [0..<length (ds_definitions (sg_definitions sg))]"
  using partition_point_key_indices [of d_subgraph_id "ds_definitions (sg_definitions sg)" _ s] assms
  by (simp add: subgraph_definitions_def wf_store_def definitions_ok_def Let_def add.commute)

text \<open>
  The composed directives are appended in the order of ingestion, which is not always the order of the sites: the values of an
  enum are ingested before the directives of the enum itself.  The directives of a site are read completely or not at all.
\<close>

lemma composed_directives_block:
  assumes t: "dr_composed_directive_instances (sg_directives sg) = before @ own @ after"
    and own: "\<forall>e \<in> set own. fst e = i" and before: "\<forall>e \<in> set before. fst e \<noteq> i" and after: "\<forall>e \<in> set after. i < fst e"
  shows "iter_composed_directives sg i \<in> {map snd own, []}"
    and "\<forall>e \<in> set before. fst e < i \<Longrightarrow> iter_composed_directives sg i = map snd own"
    and "before \<noteq> [] \<Longrightarrow> i < fst (last before) \<Longrightarrow> iter_composed_directives sg i = []"
proof -
  let ?p = "\<lambda>(j, _, _). j < i" and ?q = "\<lambda>(j, _, _). j = i"
  define k where "k = partition_point ?p (before @ own @ after)"
  have p: "\<forall>x \<in> set (own @ after). \<not> ?p x" using own after by fastforce
  have q: "\<forall>x \<in> set own. ?q x" "\<forall>x \<in> set before. \<not> ?q x" "\<forall>x \<in> set after. \<not> ?q x" using own before after by fastforce+
  note block = partition_point_block [OF p q, folded k_def]
  have "iter_composed_directives sg i = map (\<lambda>(_, name, args). (name, args)) (takeWhile ?q (drop k (before @ own @ after)))"
    by (simp only: iter_composed_directives_def t Let_def k_def)
  then have eq: "iter_composed_directives sg i = (if k = length before then map snd own else [])"
    unfolding block(1) by (auto simp: case_prod_unfold)
  show "iter_composed_directives sg i \<in> {map snd own, []}" using eq by simp
  show "iter_composed_directives sg i = map snd own" if "\<forall>e \<in> set before. fst e < i"
    using that eq block(2) by fastforce
  show "iter_composed_directives sg i = []" if "before \<noteq> []" "i < fst (last before)"
    using that eq block(3) by (cases "last before") auto
qed

subsection \<open>Groups of definitions\<close>

text \<open>The groups \<open>compose_subgraphs\<close> is to see: the index entries grouped by name, root types left out.\<close>

definition root_entry :: "Subgraphs \<Rightarrow> (StringId \<times> SubgraphId) \<times> DefinitionId \<Rightarrow> bool" where
  "root_entry sg e \<longleftrightarrow> is_root_type sg (snd (fst e)) (snd e) = Some True"

definition definition_groups :: "Subgraphs \<Rightarrow> DefinitionId list list" where
  "definition_groups sg =
     map (\<lambda>g. map snd (filter (\<lambda>e. \<not> root_entry sg e) g)) (group_by_key (\<lambda>e. fst (fst e)) (sg_definition_names sg))"

abbreviation group_members :: "Subgraphs \<Rightarrow> ((StringId \<times> SubgraphId) \<times> DefinitionId) list \<Rightarrow> DefinitionId list" where
  "group_members sg es \<equiv> map snd (filter (\<lambda>e. \<not> root_entry sg e) es)"

lemma is_root_type_entry:
  assumes "wf_store sg" and "((n, s), d) \<in> set (sg_definition_names sg)"
  shows "is_root_type sg s d = Some (root_entry sg ((n, s), d))"
proof -
  have "\<exists>x. vec_index (ds_definitions (sg_definitions sg)) d = Some x \<and> d_subgraph_id x = s"
    using assms by (fastforce simp: wf_store_def names_ok_def)
  then have "s < length (sg_subgraphs sg)"
    using assms(1) by (auto simp: wf_store_def definitions_ok_def definition_ok_def subgraph_ok_def dest!: vec_index_mem)
  then show ?thesis by (auto simp: root_entry_def is_root_type_def)
qed

lemma definition_groups_loop_eq:
  assumes "\<forall>((n, s), d) \<in> set es. is_root_type sg s d = Some (root_entry sg ((n, s), d))"
    and "sorted (k # map (\<lambda>e. fst (fst e)) es)"
  shows "definition_groups_loop sg f es (Some k) buf s =
    foldM f ((buf @ group_members sg (filter (\<lambda>e. fst (fst e) = k) es))
      # map (group_members sg) (group_by_key (\<lambda>e. fst (fst e)) (filter (\<lambda>e. fst (fst e) \<noteq> k) es))) s"
  using assms
proof (induction es arbitrary: k buf s)
  case (Cons e es)
  obtain n t d where e: "e = ((n, t), d)" by (cases e) auto
  have r: "is_root_type sg t d = Some (root_entry sg e)" using Cons.prems(1) by (simp add: e)
  have IH: "definition_groups_loop sg f es (Some n) b s' =
      foldM f ((b @ group_members sg (filter (\<lambda>e. fst (fst e) = n) es))
        # map (group_members sg) (group_by_key (\<lambda>e. fst (fst e)) (filter (\<lambda>e. fst (fst e) \<noteq> n) es))) s'" for b s'
    using Cons by (simp add: e)
  show ?case
  proof (cases "n = k")
    case True
    with IH r show ?thesis by (simp add: e)
  next
    case False
    with Cons.prems(2) have gt: "\<forall>x \<in> set es. fst (fst x) \<noteq> k" by (auto simp: e)
    then have "filter (\<lambda>e. fst (fst e) = k) es = []" "filter (\<lambda>e. fst (fst e) \<noteq> k) es = es"
      by (auto simp: filter_empty_conv filter_id_conv)
    moreover have "sorted (map (\<lambda>e. fst (fst e)) (e # es))" using Cons.prems(2) by simp
    ultimately show ?thesis
      using False IH r group_by_key_Cons [of "\<lambda>e. fst (fst e)" e es] by (simp add: e)
  qed
qed simp

lemma bt_wf_sorted_fst: "bt_wf (m :: ('a::linorder \<times> 'b::linorder, 'v) btree_map) \<Longrightarrow> sorted (map (\<lambda>e. fst (fst e)) m)"
proof (induction m)
  case (Cons e m)
  then show ?case by (fastforce simp: bt_wf_def less_prod_def)
qed simp

lemma iter_definition_groups_eq:
  assumes wf: "wf_store sg"
  shows "iter_definition_groups sg f s = foldM f ([] # definition_groups sg) s"
proof (cases "sg_definition_names sg")
  case Nil
  then show ?thesis by (simp add: iter_definition_groups_def definition_groups_def)
next
  case (Cons e es)
  obtain n t d where e: "e = ((n, t), d)" by (cases e) auto
  have roots: "\<forall>((n, s), d) \<in> set (e # es). is_root_type sg s d = Some (root_entry sg ((n, s), d))"
    using is_root_type_entry [OF wf] unfolding Cons by auto
  have "sorted (map (\<lambda>e. fst (fst e)) (e # es))"
    using wf bt_wf_sorted_fst [of "sg_definition_names sg"] by (simp add: wf_store_def names_ok_def Cons)
  moreover from this have "sorted (n # map (\<lambda>e. fst (fst e)) es)" by (simp add: e)
  ultimately show ?thesis
    using definition_groups_loop_eq [of es sg n f] roots group_by_key_Cons [of "\<lambda>e. fst (fst e)" e es]
    by (simp add: iter_definition_groups_def definition_groups_def Cons e split: bind_splits)
qed

lemma concat_map_members: "concat (map (group_members sg) gs) = group_members sg (concat gs)"
  by (induction gs) auto

lemma concat_definition_groups:
  "wf_store sg \<Longrightarrow> concat (definition_groups sg) = group_members sg (sg_definition_names sg)"
  using bt_wf_sorted_fst [of "sg_definition_names sg"]
  by (simp add: definition_groups_def concat_map_members concat_group_by_key wf_store_def names_ok_def)

lemma definition_groups_member:
  assumes wf: "wf_store sg"
  shows "d \<in> set (concat (definition_groups sg)) \<longleftrightarrow>
    (\<exists>n u. def_name sg d = Some n \<and> def_subgraph_id sg d = Some u \<and> definition_by_name_id sg n u = Some d \<and> is_root_type sg u d = Some False)"
proof -
  have bt: "bt_wf (sg_definition_names sg)" and names: "\<And>n u. ((n, u), d) \<in> set (sg_definition_names sg) \<Longrightarrow> def_name sg d = Some n \<and> def_subgraph_id sg d = Some u"
    using wf by (fastforce simp: wf_store_def names_ok_def def_name_def def_subgraph_id_def walk_definition_def)+
  have root: "root_entry sg ((n, u), d) \<longleftrightarrow> is_root_type sg u d \<noteq> Some False" if "((n, u), d) \<in> set (sg_definition_names sg)" for n u
    using is_root_type_entry [OF wf that] by simp
  have "d \<in> set (concat (definition_groups sg)) \<longleftrightarrow> (\<exists>n u. ((n, u), d) \<in> set (sg_definition_names sg) \<and> is_root_type sg u d = Some False)"
    unfolding concat_definition_groups [OF wf] using root by force
  then show ?thesis using names by (auto simp: definition_by_name_id_def bt_wf_get [OF bt, symmetric])
qed

lemma definition_groups_distinct:
  assumes wf: "wf_store sg"
  shows "distinct (concat (definition_groups sg))"
proof -
  let ?m = "sg_definition_names sg"
  have bt: "bt_wf ?m" and key: "\<And>k d. (k, d) \<in> set ?m \<Longrightarrow> \<exists>x. vec_index (ds_definitions (sg_definitions sg)) d = Some x \<and> k = (d_name x, d_subgraph_id x)"
    using wf by (fastforce simp: wf_store_def names_ok_def)+
  have "inj_on snd (set ?m)"
  proof (rule inj_onI)
    fix e e' assume e: "e \<in> set ?m" "e' \<in> set ?m" "snd e = snd e'"
    obtain x x' where "vec_index (ds_definitions (sg_definitions sg)) (snd e) = Some x" "fst e = (d_name x, d_subgraph_id x)"
      "vec_index (ds_definitions (sg_definitions sg)) (snd e') = Some x'" "fst e' = (d_name x', d_subgraph_id x')"
      using key [of "fst e" "snd e"] key [of "fst e'" "snd e'"] e(1,2) by auto
    then show "e = e'" using e(3) by (simp add: prod_eq_iff)
  qed
  moreover have "distinct ?m" using bt by (simp add: bt_wf_def distinct_map strict_sorted_iff)
  ultimately have "distinct (map snd (filter (\<lambda>e. \<not> root_entry sg e) ?m))"
    by (simp add: distinct_map inj_on_subset)
  then show ?thesis by (simp only: concat_definition_groups [OF wf])
qed

lemma definition_groups_by_name:
  assumes wf: "wf_store sg" and g: "g \<in> set (definition_groups sg)" "d \<in> set g" and d': "d' \<in> set (concat (definition_groups sg))"
  shows "d' \<in> set g \<longleftrightarrow> def_name sg d' = def_name sg d"
proof -
  have name: "def_name sg d = Some n" if "((n, u), d) \<in> set (sg_definition_names sg)" for n u d
    using wf that by (fastforce simp: wf_store_def names_ok_def def_name_def walk_definition_def)
  obtain h where h: "h \<in> set (group_by_key (\<lambda>e. fst (fst e)) (sg_definition_names sg))" "g = group_members sg h"
    using g(1) by (auto simp: definition_groups_def)
  then obtain n where n: "h = filter (\<lambda>e. fst (fst e) = n) (sg_definition_names sg)" using group_by_key_groups by blast
  obtain n' u' where e': "((n', u'), d') \<in> set (sg_definition_names sg)" "\<not> root_entry sg ((n', u'), d')"
    using d' unfolding concat_definition_groups [OF wf] by auto
  have "def_name sg d = Some n" using g(2) name by (auto simp: h(2) n)
  moreover have "d' \<in> set g \<longleftrightarrow> n' = n"
  proof
    assume "d' \<in> set g"
    then obtain u where "((n, u), d') \<in> set (sg_definition_names sg)" by (auto simp: h(2) n)
    then show "n' = n" using name [OF e'(1)] name by fastforce
  next
    assume "n' = n"
    then show "d' \<in> set g" using e' by (force simp: h(2) n)
  qed
  ultimately show ?thesis using name [OF e'(1)] by simp
qed

subsection \<open>Walkers return on well-formed stores\<close>

lemma def_name_runs: "wf_store sg \<Longrightarrow> def_ok sg d \<Longrightarrow> runs t (def_name sg d) (str_ok sg)"
  using walk_definition_ok [of sg d] by (auto simp: def_name_def definition_ok_def)

lemma as_str_runs: "str_ok sg s \<Longrightarrow> runs t (as_str sg s) (\<lambda>_. True)"
  by (simp add: as_str_def strings_resolve_def str_ok_def)

lemma walk_field_ok:
  assumes "wf_store sg" and "f \<in> set (map fst (fs_definition_fields (sg_fields sg)))"
  shows "\<exists>tuple. walk_field sg f = Some (f, tuple) \<and> def_ok sg (field_parent f) \<and> str_ok sg (field_name_id f) \<and> tuple_ok sg tuple"
proof -
  obtain tuple where m: "(f, tuple) \<in> set (fs_definition_fields (sg_fields sg))" using assms(2) by auto
  then have "bt_get (fs_definition_fields (sg_fields sg)) f = Some tuple"
    using assms(1) by (simp add: wf_store_def fields_ok_def bt_wf_get)
  then show ?thesis
    using m assms(1) by (auto simp: walk_field_def wf_store_def fields_ok_def)
qed

lemma def_subgraph_id_runs: "wf_store sg \<Longrightarrow> def_ok sg d \<Longrightarrow> runs t (def_subgraph_id sg d) (subgraph_ok sg)"
  using walk_definition_ok [of sg d] by (auto simp: def_subgraph_id_def definition_ok_def)

lemma inner_type_runs: "wf_store sg \<Longrightarrow> type_ok sg ty \<Longrightarrow> runs t (inner_type sg ty) (\<lambda>i. str_ok sg (i_name i))"
  by (auto simp: inner_type_def type_ok_def wf_store_def field_types_wf_def inner_type_ok_def str_ok_def)

lemma type_name_runs: "wf_store sg \<Longrightarrow> type_ok sg ty \<Longrightarrow> runs t (type_name sg ty) (str_ok sg)"
  unfolding type_name_def by (rule runs_map_option) (rule inner_type_runs)

lemma type_definition_runs: "wf_store sg \<Longrightarrow> type_ok sg ty \<Longrightarrow> runs t (type_definition sg ty s) (opt_ok (def_ok sg))"
  unfolding type_definition_def
  by (rule runs_bind [OF type_name_runs])
    (auto simp: opt_ok_def definition_by_name_id_def dest!: names_ok_get [unfolded definition_by_name_id_def] split: option.splits)

lemma find_field_ok:
  assumes "wf_store sg" and "find_field sg d n = Some f"
  shows "fst f = FieldId d n \<and> f \<in> set (fs_definition_fields (sg_fields sg)) \<and> type_ok sg (field_type f)"
proof -
  obtain tuple where f: "f = (FieldId d n, tuple)" and "bt_get (fs_definition_fields (sg_fields sg)) (FieldId d n) = Some tuple"
    using assms(2) by (auto simp: find_field_def Let_def)
  then have "f \<in> set (fs_definition_fields (sg_fields sg))"
    using assms(1) by (simp add: wf_store_def fields_ok_def bt_wf_get)
  with f assms(1) show ?thesis by (auto simp: wf_store_def fields_ok_def field_type_def tuple_ok_def)
qed


text \<open>Fields and arguments of the store.\<close>

definition field_ok :: "Subgraphs \<Rightarrow> Field \<Rightarrow> bool" where
  "field_ok sg f \<longleftrightarrow> f \<in> set (fs_definition_fields (sg_fields sg))"

definition argument_ok :: "Subgraphs \<Rightarrow> FieldArgument \<Rightarrow> bool" where
  "argument_ok sg a \<longleftrightarrow> a \<in> set (fs_field_arguments (sg_fields sg))"

lemma field_parts_ok:
  assumes "wf_store sg" and "field_ok sg f"
  shows "def_ok sg (parent_definition f)" and "str_ok sg (field_name f)" and "type_ok sg (field_type f)"
    and "opt_ok (str_ok sg) (field_description f)" and "site_ok sg (field_directives f)"
    and "opt_ok (value_ok sg) (default_value sg f)"
proof -
  have ok: "fields_ok sg (sg_fields sg)" using assms(1) by (simp add: wf_store_def)
  obtain i tuple where f: "f = (i, tuple)" by fastforce
  then have "def_ok sg (field_parent i) \<and> str_ok sg (field_name_id i) \<and> tuple_ok sg tuple"
    using ok assms(2) unfolding fields_ok_def field_ok_def by blast
  then show "def_ok sg (parent_definition f)" "str_ok sg (field_name f)" "type_ok sg (field_type f)"
    "opt_ok (str_ok sg) (field_description f)" "site_ok sg (field_directives f)"
    by (simp_all add: f parent_definition_def field_name_def field_type_def field_description_def field_directives_def tuple_ok_def)
  show "opt_ok (value_ok sg) (default_value sg f)"
    using ok by (auto simp: fields_ok_def default_value_def opt_ok_def split: option.split)
qed

lemma argument_parts_ok:
  assumes "wf_store sg" and "argument_ok sg a"
  shows "str_ok sg (argument_name a)" and "type_ok sg (argument_type a)" and "site_ok sg (argument_directives a)"
    and "opt_ok (value_ok sg) (argument_default sg a)" and "\<exists>f. argument_field_walker sg a = Some f \<and> field_ok sg f"
proof -
  have ok: "fields_ok sg (sg_fields sg)" using assms(1) by (simp add: wf_store_def)
  obtain i tuple where a: "a = (i, tuple)" by fastforce
  then have i: "str_ok sg (argument_name_id i) \<and> tuple_ok sg tuple
      \<and> FieldId (argument_parent i) (argument_field i) \<in> set (map fst (fs_definition_fields (sg_fields sg)))"
    using ok assms(2) unfolding fields_ok_def argument_ok_def by blast
  then show "str_ok sg (argument_name a)" "type_ok sg (argument_type a)" "site_ok sg (argument_directives a)"
    by (simp_all add: a argument_name_def argument_type_def argument_directives_def tuple_ok_def)
  show "opt_ok (value_ok sg) (argument_default sg a)"
    using ok by (auto simp: fields_ok_def argument_default_def opt_ok_def split: option.split)
  obtain tuple' where "walk_field sg (FieldId (argument_parent i) (argument_field i)) = Some (FieldId (argument_parent i) (argument_field i), tuple')"
    using walk_field_ok [OF assms(1)] i by blast
  moreover from this have "(FieldId (argument_parent i) (argument_field i), tuple') \<in> set (fs_definition_fields (sg_fields sg))"
    using ok by (auto simp: walk_field_def fields_ok_def bt_wf_get)
  ultimately show "\<exists>f. argument_field_walker sg a = Some f \<and> field_ok sg f" by (simp add: argument_field_walker_def a field_ok_def)
qed

lemma def_fields_ok: "f \<in> set (def_fields sg d) \<Longrightarrow> field_ok sg f"
  by (auto simp: def_fields_def bt_range_def field_ok_def)

lemma field_arguments_ok: "a \<in> set (field_arguments sg f) \<Longrightarrow> argument_ok sg a"
  by (auto simp: field_arguments_def bt_range_def argument_ok_def split: FieldId.splits)

lemma def_kind_runs: "wf_store sg \<Longrightarrow> def_ok sg d \<Longrightarrow> runs t (def_kind sg d) (\<lambda>_. True)"
  using walk_definition_ok [of sg d] by (auto simp: def_kind_def)

lemma def_directives_runs: "wf_store sg \<Longrightarrow> def_ok sg d \<Longrightarrow> runs t (def_directives sg d) (site_ok sg)"
  using walk_definition_ok [of sg d] by (auto simp: def_directives_def definition_ok_def)

lemma def_description_runs: "wf_store sg \<Longrightarrow> def_ok sg d \<Longrightarrow> runs t (def_description sg d) (opt_ok (str_ok sg))"
  using walk_definition_ok [of sg d] by (auto simp: def_description_def definition_ok_def)

lemma walk_subgraph_runs: "wf_store sg \<Longrightarrow> subgraph_ok sg s \<Longrightarrow> runs t (walk_subgraph sg s) (subgraph_record_ok sg)"
  by (auto simp: wf_store_def walk_subgraph_def subgraph_ok_def)

lemma def_subgraph_runs: "wf_store sg \<Longrightarrow> def_ok sg d \<Longrightarrow> runs t (def_subgraph sg d) (subgraph_record_ok sg)"
  unfolding def_subgraph_def by (rule runs_bind [OF def_subgraph_id_runs]) (auto intro: walk_subgraph_runs)

lemma iter_wrappers_runs:
  assumes "wf_store sg" and "type_ok sg ty"
  shows "runs t (iter_wrappers sg ty) (\<lambda>_. True)"
proof -
  have "field_types_wf sg" using assms(1) by (simp add: wf_store_def)
  moreover obtain i where i: "inner_type sg ty = Some i" "i \<in> set (inner_types (sg_field_types sg))"
    using assms(2) by (auto simp: inner_type_def type_ok_def)
  ultimately have "\<exists>ws. wrapper_chain (wrappers (sg_field_types sg)) (i_wrapper i) = Some ws"
    using wrapper_chain_total by (auto simp: field_types_wf_def inner_type_ok_def)
  then show ?thesis by (auto simp: iter_wrappers_def i)
qed

lemma inner_type_is_required_runs: "wf_store sg \<Longrightarrow> type_ok sg ty \<Longrightarrow> runs t (inner_type_is_required sg ty) (\<lambda>_. True)"
  unfolding inner_type_is_required_def by (rule runs_map_option) (rule runs_mono [OF inner_type_runs], auto)

lemma type_is_required_runs: "wf_store sg \<Longrightarrow> type_ok sg ty \<Longrightarrow> runs t (type_is_required sg ty) (\<lambda>_. True)"
  unfolding type_is_required_def by (rule runs_bind [OF iter_wrappers_runs]) (auto intro!: runs_if inner_type_is_required_runs)

lemma type_is_list_runs: "wf_store sg \<Longrightarrow> type_ok sg ty \<Longrightarrow> runs t (type_is_list sg ty) (\<lambda>_. True)"
  unfolding type_is_list_def by (rule runs_map_option) (rule iter_wrappers_runs)

lemma type_display_runs: "wf_store sg \<Longrightarrow> type_ok sg ty \<Longrightarrow> runs t (type_display sg ty) (\<lambda>_. True)"
  unfolding type_display_def
  by (rule runs_bind [OF type_name_runs], assumption+, rule runs_bind [OF as_str_runs], assumption,
      rule runs_bind [OF inner_type_is_required_runs], assumption+, rule runs_bind [OF iter_wrappers_runs]) simp_all

lemma compose_types_runs:
  assumes "wf_store sg" and "type_ok sg a" and "type_ok sg b"
  shows "runs t (compose_types sg a b) (\<lambda>_. True)"
proof (cases "a = b")
  case False
  obtain x y where xy: "inner_type sg a = Some x" "inner_type sg b = Some y"
    using assms by (auto simp: inner_type_def type_ok_def)
  obtain ws vs where wv: "iter_wrappers sg a = Some ws" "iter_wrappers sg b = Some vs"
    using iter_wrappers_runs [OF assms(1,2), of True] iter_wrappers_runs [OF assms(1,3), of True] by (auto simp: runs_total)
  obtain r where "type_is_required sg b = Some r"
    using type_is_required_runs [of sg b True] assms by (auto simp: runs_total)
  then show ?thesis
    by (auto simp: compose_types_def False xy wv split: prod.split option.split)
qed (simp add: compose_types_def)

lemma compose_for_runs:
  assumes "wf_store sg" and "type_ok sg a" and "type_ok sg b"
  shows "runs t (compose_for_input sg a b) (opt_ok (type_ok sg))" and "runs t (compose_for_output sg a b) (opt_ok (type_ok sg))"
  using compose_types_runs [OF assms, of t] assms(2,3)
  by (cases "compose_types sg a b"; auto simp: compose_for_input_def compose_for_output_def opt_ok_def split: option.splits)+

end
