(* ===== verification/Wrapping.thy ===== *)
theory Wrapping
  imports Collections "HOL-Library.Word"
begin

text \<open>
  The crate \<open>engine/crates/wrapping\<close>: the list and non-null wrapping of a GraphQL type, packed into
  a \<open>u32\<close>.  Bit 31 says whether the innermost type is required, bits 26 to 30 and 21 to 25 are the
  start and the end of a window into bits 0 to 20, one bit for each list wrapping.

  The word is modelled as a 32-bit word with the masks and shifts of the source.  A failing
  \<open>assert!\<close> is a panic, and so is an arithmetic underflow; lemmas show that under the invariant
  \<open>wrapping_wf\<close> (which every operation keeps) no subtraction underflows, so a build without overflow
  checks behaves the same.  The abstraction is the structure the crate's documentation gives: the
  flag \<open>inner_is_required\<close> and the list of wrappings from innermost to outermost, read by
  \<open>wrappings\<close>; the operations implement a double-ended queue of capacity 21 on it (locale
  \<open>bounded_deque\<close>).
\<close>

unbundle bit_operations_syntax

type_synonym u32 = "32 word"
type_synonym Wrapping = u32

definition START_MASK :: u32 where
  "START_MASK = 0b01111100000000000000000000000000"

definition START_SHIFT :: nat where
  "START_SHIFT = 26"

definition END_MASK :: u32 where
  "END_MASK = 0b00000011111000000000000000000000"

definition END_SHIFT :: nat where
  "END_SHIFT = 21"

definition LIST_WRAPPINGS_MASK :: u32 where
  "LIST_WRAPPINGS_MASK = 0b00000000000111111111111111111111"

definition MAX_LIST_WRAPINGS :: u32 where
  "MAX_LIST_WRAPINGS = 21"

definition INNER_IS_REQUIRED_FLAG :: u32 where
  "INNER_IS_REQUIRED_FLAG = 0b10000000000000000000000000000000"

datatype ListWrapping = RequiredList | NullableList

definition inner_is_required :: "Wrapping \<Rightarrow> bool" where
  "inner_is_required w \<longleftrightarrow> w AND INNER_IS_REQUIRED_FLAG \<noteq> 0"

definition wstart :: "Wrapping \<Rightarrow> u32" where
  "wstart w = drop_bit START_SHIFT (w AND START_MASK)"

definition inc_start :: "Wrapping \<Rightarrow> Wrapping" where
  "inc_start w = (let start = wstart w + 1 in (w AND NOT START_MASK) OR push_bit START_SHIFT start)"

definition wend :: "Wrapping \<Rightarrow> u32" where
  "wend w = drop_bit END_SHIFT (w AND END_MASK)"

definition inc_end :: "Wrapping \<Rightarrow> Wrapping panicking" where
  "inc_end w =
     (let e = wend w + 1
      in if e < MAX_LIST_WRAPINGS + 1 then Some ((w AND NOT END_MASK) OR push_bit END_SHIFT e) else None)"

definition dec_end :: "Wrapping \<Rightarrow> Wrapping panicking" where
  "dec_end w =
     (if wend w = 0 then None
      else let e = wend w - 1 in Some ((w AND NOT END_MASK) OR push_bit END_SHIFT e))"

text \<open>The iterator: \<open>Iterator::next\<close>, \<open>ExactSizeIterator::len\<close>, \<open>DoubleEndedIterator::next_back\<close>.\<close>

definition wnext :: "Wrapping \<Rightarrow> ListWrapping option \<times> Wrapping" where
  "wnext w =
     (let start = wstart w
      in if start = wend w then (None, w)
         else let w' = inc_start w; bit_mask = push_bit (unat start) 1
              in if w' AND bit_mask \<noteq> 0 then (Some RequiredList, w') else (Some NullableList, w'))"

definition wlen :: "Wrapping \<Rightarrow> nat panicking" where
  "wlen w = (if wend w < wstart w then None else Some (unat (wend w - wstart w)))"

definition next_back :: "Wrapping \<Rightarrow> (ListWrapping option \<times> Wrapping) panicking" where
  "next_back w =
     (let e = wend w
      in if e = wstart w then Some (None, w)
         else do {
           w' \<leftarrow> dec_end w;
           let bit_mask = push_bit (unat (e - 1)) 1;
           Some (if w' AND bit_mask \<noteq> 0 then (Some RequiredList, w') else (Some NullableList, w')) })"

definition is_required :: "Wrapping \<Rightarrow> bool panicking" where
  "is_required w = do {
     (lw, _) \<leftarrow> next_back w;
     Some (case lw of Some lw \<Rightarrow> lw = RequiredList | None \<Rightarrow> inner_is_required w) }"

definition is_nullable :: "Wrapping \<Rightarrow> bool panicking" where
  "is_nullable w = map_option Not (is_required w)"

definition is_list :: "Wrapping \<Rightarrow> bool" where
  "is_list w \<longleftrightarrow> fst (wnext w) \<noteq> None"

definition nullable :: Wrapping where
  "nullable = 0"

definition required :: Wrapping where
  "required = INNER_IS_REQUIRED_FLAG"

definition new_wrapping :: "bool \<Rightarrow> Wrapping" where
  "new_wrapping r = (if r then required else nullable)"

definition wrapped_by_nullable_list :: "Wrapping \<Rightarrow> Wrapping panicking" where
  "wrapped_by_nullable_list w = do {
     let e = wend w;
     w' \<leftarrow> inc_end w;
     let bit_mask = push_bit (unat e) 1;
     Some (w' AND NOT bit_mask) }"

definition wrapped_by_required_list :: "Wrapping \<Rightarrow> Wrapping panicking" where
  "wrapped_by_required_list w = do {
     let e = wend w;
     w' \<leftarrow> inc_end w;
     let bit_mask = push_bit (unat e) 1;
     Some (w' OR bit_mask) }"

fun wrapped_by :: "Wrapping \<Rightarrow> ListWrapping \<Rightarrow> Wrapping panicking" where
  "wrapped_by w RequiredList = wrapped_by_required_list w"
| "wrapped_by w NullableList = wrapped_by_nullable_list w"

definition pop_list_wrapping :: "Wrapping \<Rightarrow> (ListWrapping option \<times> Wrapping) panicking" where
  "pop_list_wrapping w = next_back w"

subsection \<open>The fields of the word\<close>

lemma START_MASK_alt: "START_MASK = push_bit 26 (mask 5)"
  by (simp add: START_MASK_def mask_eq_exp_minus_1)

lemma END_MASK_alt: "END_MASK = push_bit 21 (mask 5)"
  by (simp add: END_MASK_def mask_eq_exp_minus_1)

lemma FLAG_alt: "INNER_IS_REQUIRED_FLAG = 2 ^ 31"
  by (simp add: INNER_IS_REQUIRED_FLAG_def)

lemmas field_defs = START_MASK_alt END_MASK_alt START_SHIFT_def END_SHIFT_def

lemma wstart_alt: "wstart w = take_bit 5 (drop_bit 26 w)"
  unfolding wstart_def field_defs by (rule bit_word_eqI) (auto simp: bit_simps)

lemma wend_alt: "wend w = take_bit 5 (drop_bit 21 w)"
  unfolding wend_def field_defs by (rule bit_word_eqI) (auto simp: bit_simps)

lemma inner_is_required_bit: "inner_is_required w \<longleftrightarrow> bit w 31"
  unfolding inner_is_required_def FLAG_alt by (simp only: and_exp_eq_0_iff_not_bit not_not)

lemma and_bit_mask: "(w AND push_bit n 1 \<noteq> 0) \<longleftrightarrow> bit (w :: u32) n"
  by (simp add: push_bit_of_1 and_exp_eq_0_iff_not_bit)

lemma bit_small: "(x :: u32) < 32 \<Longrightarrow> bit x n \<Longrightarrow> n < 5"
proof (rule ccontr)
  assume "x < 32" "bit x n" "\<not> n < 5"
  then have "take_bit 5 x = x"
    by (simp add: take_bit_eq_mod word_mod_less_divisor mod_word_less)
  then have "bit (take_bit 5 x) n" using \<open>bit x n\<close> by simp
  then show False using \<open>\<not> n < 5\<close> by (simp add: bit_simps)
qed

lemma wstart_small: "wstart w < 32"
  unfolding wstart_alt by (simp add: take_bit_eq_mod word_mod_less_divisor)

lemma wend_small: "wend w < 32"
  unfolding wend_alt by (simp add: take_bit_eq_mod word_mod_less_divisor)

text \<open>Writing the start or the end field reads back, and leaves every other bit alone.\<close>

lemma set_start:
  fixes x w :: u32
  assumes "x < 32"
  defines "w' \<equiv> (w AND NOT START_MASK) OR push_bit START_SHIFT x"
  shows "wstart w' = x" and "wend w' = wend w" and "n < 21 \<or> n = 31 \<Longrightarrow> bit w' n = bit w n"
proof -
  show "wstart w' = x"
    unfolding w'_def wstart_alt field_defs
    by (rule bit_word_eqI) (auto simp: bit_simps dest: bit_small [OF assms(1)])
  show "wend w' = wend w"
    unfolding w'_def wend_alt field_defs
    by (rule bit_word_eqI) (auto simp: bit_simps dest: bit_small [OF assms(1)])
  show "n < 21 \<or> n = 31 \<Longrightarrow> bit w' n = bit w n"
    unfolding w'_def field_defs by (auto simp: bit_simps dest: bit_small [OF assms(1)])
qed

lemma set_end:
  fixes x w :: u32
  assumes "x < 32"
  defines "w' \<equiv> (w AND NOT END_MASK) OR push_bit END_SHIFT x"
  shows "wend w' = x" and "wstart w' = wstart w" and "n < 21 \<or> n = 31 \<Longrightarrow> bit w' n = bit w n"
proof -
  show "wend w' = x"
    unfolding w'_def wend_alt field_defs
    by (rule bit_word_eqI) (auto simp: bit_simps dest: bit_small [OF assms(1)])
  show "wstart w' = wstart w"
    unfolding w'_def wstart_alt field_defs
    by (rule bit_word_eqI) (auto simp: bit_simps dest: bit_small [OF assms(1)])
  show "n < 21 \<or> n = 31 \<Longrightarrow> bit w' n = bit w n"
    unfolding w'_def field_defs by (auto simp: bit_simps dest: bit_small [OF assms(1)])
qed

text \<open>Writing one of the 21 wrapping bits leaves the other fields alone.\<close>

lemma set_list_bit:
  assumes "n < 21"
  shows "wstart (w OR push_bit n 1) = wstart w" and "wend (w OR push_bit n 1) = wend w"
    and "wstart (w AND NOT (push_bit n 1)) = wstart w" and "wend (w AND NOT (push_bit n 1)) = wend w"
    and "bit (w OR push_bit n 1) m \<longleftrightarrow> bit w m \<or> m = n"
    and "bit (w AND NOT (push_bit n 1)) m \<longleftrightarrow> bit w m \<and> m \<noteq> n"
  using assms unfolding wstart_alt wend_alt
  by (auto intro!: bit_word_eqI simp: bit_simps simp flip: push_bit_of_1 dest: bit_imp_le_length)

text \<open>Draining the iterator (\<open>for wrapping in self\<close>, \<open>list_wrappings().collect()\<close>).\<close>

lemma inc_start_fields: "wstart (inc_start w) = take_bit 5 (wstart w + 1)" "wend (inc_start w) = wend w"
  unfolding inc_start_def Let_def
  by (simp_all add: wstart_alt [of "(w AND _) OR _"] wend_alt field_defs)
    (auto intro!: bit_word_eqI simp: bit_simps)

lemma wnext_Some: "wnext w = (Some lw, w') \<Longrightarrow> w' = inc_start w \<and> wstart w \<noteq> wend w"
  by (auto simp: wnext_def Let_def split: if_splits)

lemma window_shrinks:
  "b < 32 \<Longrightarrow> a < 32 \<Longrightarrow> a \<noteq> b \<Longrightarrow> (a + 32 - (b + 1) mod 32) mod 32 < (a + 32 - b) mod (32 :: nat)"
  by (cases "b = 31"; cases "b < a") (auto simp: mod_if)

lemma wnext_measure:
  assumes "wnext w = (Some lw, w')"
  shows "(unat (wend w') + 32 - unat (wstart w')) mod 32 < (unat (wend w) + 32 - unat (wstart w)) mod 32"
proof -
  have w': "w' = inc_start w" and ne: "unat (wstart w) \<noteq> unat (wend w)"
    using wnext_Some [OF assms] by (simp_all add: word_unat_eq_iff)
  have small: "unat (wstart w) < 32" "unat (wend w) < 32"
    using wstart_small [of w] wend_small [of w] by (simp_all add: word_less_nat_alt)
  have "unat (wstart w') = (unat (wstart w) + 1) mod 32"
    using small(1) by (simp add: w' inc_start_fields unsigned_take_bit_eq unat_word_ariths take_bit_eq_mod)
  then show ?thesis
    using window_shrinks [OF small(1) small(2)] ne by (simp add: w' inc_start_fields)
qed

function collect_wrappings :: "Wrapping \<Rightarrow> ListWrapping list" where
  "collect_wrappings w =
     (case wnext w of (None, _) \<Rightarrow> [] | (Some lw, w') \<Rightarrow> lw # collect_wrappings w')"
  by pat_completeness auto
termination
  by (relation "measure (\<lambda>w. (unat (wend w) + 32 - unat (wstart w)) mod 32)")
    (auto simp del: One_nat_def intro: wnext_measure [OF sym])

declare collect_wrappings.simps [simp del]

text \<open>\<open>write_type_string\<close>, with a formatter that appends to a string and never fails.\<close>

definition write_type_string :: "Wrapping \<Rightarrow> string \<Rightarrow> string panicking" where
  "write_type_string w name = do {
     n \<leftarrow> wlen w;
     Some (replicate n CHR ''['' @ name @ (if inner_is_required w then ''!'' else [])
       @ concat (map (\<lambda>lw. case lw of RequiredList \<Rightarrow> '']!'' | NullableList \<Rightarrow> '']'') (collect_wrappings w))) }"

subsection \<open>Abstraction and invariant\<close>

definition wrapping_wf :: "Wrapping \<Rightarrow> bool" where
  "wrapping_wf w \<longleftrightarrow> wstart w \<le> wend w \<and> wend w \<le> MAX_LIST_WRAPINGS"

definition list_bit :: "Wrapping \<Rightarrow> nat \<Rightarrow> ListWrapping" where
  "list_bit w i = (if bit w i then RequiredList else NullableList)"

text \<open>The wrappings from innermost to outermost, as the documentation of the crate describes them.\<close>

definition wrappings :: "Wrapping \<Rightarrow> ListWrapping list" where
  "wrappings w = map (list_bit w) [unat (wstart w)..<unat (wend w)]"

text \<open>A word is given by its four fields.\<close>

lemma wrapping_eqI:
  assumes "wstart w' = wstart w" and "wend w' = wend w" and "\<And>i. i < 21 \<or> i = 31 \<Longrightarrow> bit w' i = bit w i"
  shows "w' = w"
proof (rule bit_word_eqI)
  fix i assume i: "i < LENGTH(32)"
  consider "i < 21 \<or> i = 31" | j where "i = 21 + j" "j < 5" | j where "i = 26 + j" "j < 5"
  proof -
    have "i < 21 \<or> i = 31 \<or> (\<exists>j < 5. i = 21 + j) \<or> (\<exists>j < 5. i = 26 + j)" using i by simp presburger
    then show ?thesis using that by blast
  qed
  then show "bit w' i = bit w i"
  proof cases
    case (2 j)
    then show ?thesis using arg_cong [OF assms(2), of "\<lambda>w. bit w j"] by (simp add: wend_alt bit_simps)
  next
    case (3 j)
    then show ?thesis using arg_cong [OF assms(1), of "\<lambda>w. bit w j"] by (simp add: wstart_alt bit_simps)
  qed (rule assms(3))
qed

definition wrapping_room :: "Wrapping \<Rightarrow> nat" where
  "wrapping_room w = 21 - unat (wend w)"

lemma wrapping_wf_unat:
  "wrapping_wf w \<longleftrightarrow> unat (wstart w) \<le> unat (wend w) \<and> unat (wend w) \<le> 21"
  by (simp add: wrapping_wf_def MAX_LIST_WRAPINGS_def word_le_nat_alt)

lemma list_bit_cong:
  fixes w w' :: Wrapping
  shows "(\<And>i. i < 21 \<Longrightarrow> bit w' i = bit w i) \<Longrightarrow> unat (wend w) \<le> 21 \<Longrightarrow> s \<ge> unat (wstart w) \<Longrightarrow>
    map (list_bit w') [s..<unat (wend w)] = map (list_bit w) [s..<unat (wend w)]"
  by (simp add: list_bit_def)

lemma inc_end_room:
  assumes "wrapping_wf w" and "0 < wrapping_room w"
  obtains w' where "inc_end w = Some w'" "unat (wend w') = unat (wend w) + 1" "wstart w' = wstart w"
    "\<And>n. n < 21 \<or> n = 31 \<Longrightarrow> bit w' n = bit w n"
proof -
  have u: "unat (wend w) < 21" using assms(2) by (simp add: wrapping_room_def)
  then have u1: "unat (wend w + 1) = unat (wend w) + 1" by (simp add: unat_word_ariths)
  then have "wend w + 1 < MAX_LIST_WRAPINGS + 1" "wend w + 1 < 32"
    using u by (simp_all add: word_less_nat_alt MAX_LIST_WRAPINGS_def)
  then show ?thesis
    using that [of "(w AND NOT END_MASK) OR push_bit END_SHIFT (wend w + 1)"] set_end [where x = "wend w + 1" and w = w] u1
    by (simp add: inc_end_def Let_def)
qed

lemma inc_end_full:
  assumes "wrapping_wf w" and "wrapping_room w = 0"
  shows "inc_end w = None"
proof -
  have "unat (wend w) = 21" using assms by (simp add: wrapping_wf_unat wrapping_room_def)
  then have "wend w = 21" by (simp add: word_unat_eq_iff)
  then show ?thesis by (simp add: inc_end_def MAX_LIST_WRAPINGS_def)
qed

lemma wrapped_by_room:
  assumes "wrapping_wf w" and "0 < wrapping_room w"
  shows "\<exists>w'. wrapped_by w lw = Some w' \<and> wrapping_wf w' \<and> wrappings w' = wrappings w @ [lw]
    \<and> wrapping_room w' = wrapping_room w - 1 \<and> inner_is_required w' = inner_is_required w
    \<and> wstart w' = wstart w \<and> (\<forall>i. i < 21 \<or> i = 31 \<longrightarrow> bit w' i = (if i = unat (wend w) then lw = RequiredList else bit w i))"
proof -
  obtain w1 where w1: "inc_end w = Some w1" "unat (wend w1) = unat (wend w) + 1" "wstart w1 = wstart w"
    "\<And>n. n < 21 \<or> n = 31 \<Longrightarrow> bit w1 n = bit w n"
    using inc_end_room [OF assms] by metis
  define n where "n = unat (wend w)"
  have n: "n < 21" "unat (wstart w) \<le> n"
    using assms by (auto simp: wrapping_wf_unat wrapping_room_def n_def)
  define w2 where "w2 = (case lw of RequiredList \<Rightarrow> w1 OR push_bit n 1 | NullableList \<Rightarrow> w1 AND NOT (push_bit n 1))"
  have w2: "wrapped_by w lw = Some w2"
    using w1(1) by (cases lw) (simp_all add: w2_def n_def wrapped_by_required_list_def wrapped_by_nullable_list_def)
  have fields: "wstart w2 = wstart w" "unat (wend w2) = n + 1"
    using w1(2,3) n set_list_bit [OF n(1), of w1] by (simp_all add: w2_def n_def split: ListWrapping.split)
  have bits: "bit w2 i = (if i = n then lw = RequiredList else bit w i)" if "i < 21 \<or> i = 31" for i
    using w1(4) [OF that] n(1) that set_list_bit(5,6) [OF n(1), of w1 i]
    by (auto simp: w2_def split: ListWrapping.split)
  have "wrappings w2 = map (list_bit w2) [unat (wstart w)..<n] @ [list_bit w2 n]"
    using n(2) by (simp add: wrappings_def fields)
  also have "map (list_bit w2) [unat (wstart w)..<n] = wrappings w"
    using n(1) by (simp add: wrappings_def n_def list_bit_def bits)
  also have "list_bit w2 n = lw"
    using n(1) by (cases lw) (simp_all add: list_bit_def bits)
  finally show ?thesis
    using w2 n bits by (auto simp add: fields wrapping_wf_unat wrapping_room_def n_def inner_is_required_bit)
qed

lemma wrapped_by_full:
  "wrapping_wf w \<Longrightarrow> wrapping_room w = 0 \<Longrightarrow> wrapped_by w lw = None"
  by (cases lw) (simp_all add: wrapped_by_required_list_def wrapped_by_nullable_list_def inc_end_full)

lemma wrappings_Nil_iff: "wrapping_wf w \<Longrightarrow> wrappings w = [] \<longleftrightarrow> wstart w = wend w"
  by (auto simp: wrappings_def wrapping_wf_unat word_unat_eq_iff)

lemma next_back_last:
  assumes "wrapping_wf w" and "wrappings w = lws @ [lw]"
  shows "\<exists>w'. next_back w = Some (Some lw, w') \<and> wrapping_wf w' \<and> wrappings w' = lws
    \<and> wrapping_room w' = wrapping_room w + 1 \<and> inner_is_required w' = inner_is_required w
    \<and> wstart w' = wstart w \<and> (\<forall>i. i < 21 \<or> i = 31 \<longrightarrow> bit w' i = bit w i)"
proof -
  have lt: "unat (wstart w) < unat (wend w)"
    using assms by (cases "unat (wstart w) < unat (wend w)") (auto simp: wrappings_def)
  have le: "unat (wend w) \<le> 21" using assms(1) by (simp add: wrapping_wf_unat)
  define n where "n = unat (wend w) - 1"
  have n: "unat (wend w) = n + 1" "n < 21" "unat (wstart w) \<le> n" using lt le by (auto simp: n_def)
  have un: "unat (wend w - 1) = n"
    using lt by (simp add: n_def unat_minus_one word_unat_eq_iff)
  have e0: "wend w \<noteq> 0" "wend w \<noteq> wstart w" using lt by auto
  define w1 where "w1 = (w AND NOT END_MASK) OR push_bit END_SHIFT (wend w - 1)"
  have small: "wend w - 1 < 32" using un n by (simp add: word_less_nat_alt)
  note w1 = set_end [where x = "wend w - 1" and w = w, OF small, folded w1_def]
  have "wrappings w = map (list_bit w) [unat (wstart w)..<n] @ [list_bit w n]"
    using n by (simp add: wrappings_def)
  with assms(2) have ls: "lws = map (list_bit w) [unat (wstart w)..<n]" "lw = list_bit w n" by auto
  have "next_back w = Some (Some lw, w1)"
    using e0 w1(3) [of n] n(2)
    by (simp add: next_back_def dec_end_def Let_def un and_exp_eq_0_iff_not_bit ls(2) list_bit_def w1_def)
  moreover have "wrappings w1 = lws"
    using n un w1 by (simp add: wrappings_def ls(1) list_bit_def)
  ultimately show ?thesis
    using n un w1 by (simp add: wrapping_wf_unat wrapping_room_def inner_is_required_bit)
qed

lemma wnext_hd:
  assumes "wrapping_wf w" and "wrappings w = lw # lws"
  shows "\<exists>w'. wnext w = (Some lw, w') \<and> wrapping_wf w' \<and> wrappings w' = lws
    \<and> wrapping_room w' = wrapping_room w \<and> inner_is_required w' = inner_is_required w"
proof -
  have lt: "unat (wstart w) < unat (wend w)"
    using assms by (cases "unat (wstart w) < unat (wend w)") (auto simp: wrappings_def)
  define n where "n = unat (wstart w)"
  have n: "n < unat (wend w)" "unat (wend w) \<le> 21" using lt assms(1) by (simp_all add: n_def wrapping_wf_unat)
  have un: "unat (wstart w + 1) = n + 1" using n by (simp add: n_def unat_word_ariths)
  define w1 where "w1 = inc_start w"
  have small: "wstart w + 1 < 32" using un n by (simp add: word_less_nat_alt)
  have w1_eq: "w1 = (w AND NOT START_MASK) OR push_bit START_SHIFT (wstart w + 1)"
    by (simp add: w1_def inc_start_def)
  note w1 = set_start [where x = "wstart w + 1" and w = w, OF small, folded w1_eq]
  have "wrappings w = list_bit w n # map (list_bit w) [n + 1..<unat (wend w)]"
    using n by (simp add: wrappings_def n_def upt_conv_Cons)
  with assms(2) have ls: "lw = list_bit w n" "lws = map (list_bit w) [n + 1..<unat (wend w)]" by auto
  have "wstart w \<noteq> wend w" using lt by auto
  then have "wnext w = (Some lw, w1)"
    using w1(3) [of n] n
    by (simp add: wnext_def Let_def and_exp_eq_0_iff_not_bit ls(1) list_bit_def w1_def n_def [symmetric])
  moreover have "wrappings w1 = lws"
    using n un w1 by (simp add: wrappings_def ls(2) list_bit_def)
  ultimately show ?thesis
    using n un w1 by (simp add: wrapping_wf_unat wrapping_room_def inner_is_required_bit)
qed

text \<open>The queue keeps the flag \<open>inner_is_required\<close>, whichever it is.\<close>

interpretation wrapping_deque: bounded_deque wrapped_by next_back wnext wrappings wrapping_room
  "\<lambda>w. wrapping_wf w \<and> inner_is_required w = r" for r
proof unfold_locales
  fix d x xs assume "wrapping_wf d \<and> inner_is_required d = r"
  then have d: "wrapping_wf d" and r: "inner_is_required d = r" by simp_all
  show "0 < wrapping_room d \<Longrightarrow> \<exists>d'. wrapped_by d x = Some d' \<and> (wrapping_wf d' \<and> inner_is_required d' = r) \<and>
      wrappings d' = wrappings d @ [x] \<and> wrapping_room d' = wrapping_room d - 1"
    using wrapped_by_room [OF d] r by blast
  show "wrapping_room d = 0 \<Longrightarrow> wrapped_by d x = None"
    using wrapped_by_full [OF d] .
  show "wrappings d = [] \<Longrightarrow> next_back d = Some (None, d)"
    using d by (simp add: wrappings_Nil_iff next_back_def)
  show "wrappings d = xs @ [x] \<Longrightarrow> \<exists>d'. next_back d = Some (Some x, d') \<and>
      (wrapping_wf d' \<and> inner_is_required d' = r) \<and> wrappings d' = xs \<and> wrapping_room d' = wrapping_room d + 1"
    using next_back_last [OF d] r by blast
  show "wrappings d = [] \<Longrightarrow> wnext d = (None, d)"
    using d by (simp add: wrappings_Nil_iff wnext_def)
  show "wrappings d = x # xs \<Longrightarrow> \<exists>d'. wnext d = (Some x, d') \<and>
      (wrapping_wf d' \<and> inner_is_required d' = r) \<and> wrappings d' = xs \<and> wrapping_room d' = wrapping_room d"
    using wnext_hd [OF d] r by blast
qed

lemma collect_wrappings_wf: "wrapping_wf w \<Longrightarrow> collect_wrappings w = wrappings w"
proof (induction "wrappings w" arbitrary: w)
  case Nil
  then show ?case by (simp add: collect_wrappings.simps [of w] wnext_def wrappings_Nil_iff [symmetric])
next
  case (Cons lw lws)
  then obtain w' where "wnext w = (Some lw, w')" "wrapping_wf w'" "wrappings w' = lws"
    using wnext_hd [of w lw lws] by auto
  then show ?case using Cons.hyps by (simp add: collect_wrappings.simps [of w])
qed

lemma wlen_wf: "wrapping_wf w \<Longrightarrow> wlen w = Some (length (wrappings w))"
  by (auto simp: wlen_def wrappings_def wrapping_wf_unat word_less_nat_alt unat_sub word_le_nat_alt)

lemma new_wrapping_fields: "wstart (new_wrapping r) = 0" "wend (new_wrapping r) = 0"
  by (simp_all add: new_wrapping_def nullable_def required_def wstart_def wend_def
      START_MASK_def END_MASK_def INNER_IS_REQUIRED_FLAG_def START_SHIFT_def END_SHIFT_def)

lemma new_wrapping_wf:
  "wrapping_wf (new_wrapping r)" "wrappings (new_wrapping r) = []" "wrapping_room (new_wrapping r) = 21"
  by (simp_all add: wrapping_wf_def wrappings_def wrapping_room_def new_wrapping_fields)

lemma new_wrapping_required: "inner_is_required (new_wrapping r) = r"
  by (simp add: new_wrapping_def nullable_def required_def inner_is_required_def INNER_IS_REQUIRED_FLAG_def)

lemma is_required_wf:
  "wrapping_wf w \<Longrightarrow> is_required w =
     Some (if wrappings w = [] then inner_is_required w else last (wrappings w) = RequiredList)"
proof (cases "wrappings w" rule: rev_cases)
  case Nil
  moreover assume "wrapping_wf w"
  ultimately show ?thesis by (simp add: is_required_def next_back_def wrappings_Nil_iff)
next
  case (snoc lws lw)
  moreover assume "wrapping_wf w"
  ultimately show ?thesis using next_back_last [of w lws lw] by (auto simp: is_required_def)
qed

text \<open>The type a wrapping denotes, written recursively: the reference for \<open>write_type_string\<close>.\<close>

fun type_string :: "bool \<Rightarrow> ListWrapping list \<Rightarrow> string \<Rightarrow> string" where
  "type_string r [] name = name @ (if r then ''!'' else [])"
| "type_string r (RequiredList # outer) name = type_string False outer (''['' @ type_string r [] name @ '']!'')"
| "type_string r (NullableList # outer) name = type_string False outer (''['' @ type_string r [] name @ '']'')"

lemma type_string_alt:
  "type_string r lws name = replicate (length lws) CHR ''['' @ name @ (if r then ''!'' else [])
     @ concat (map (\<lambda>lw. case lw of RequiredList \<Rightarrow> '']!'' | NullableList \<Rightarrow> '']'') lws)"
  by (induction r lws name rule: type_string.induct) (simp_all add: replicate_app_Cons_same)

subsection \<open>Properties\<close>

text \<open>C8. Wrapping a new type by a sequence of list wrappings panics exactly when there are more than 21
  of them, and otherwise gives a wrapping whose iterator yields that sequence, whose length is its
  length and whose \<open>inner_is_required\<close> flag is the initial one.\<close>

theorem wrapping_build:
  "case foldM (\<lambda>lw w. wrapped_by w lw) lws (new_wrapping r) of
     None \<Rightarrow> 21 < length lws
   | Some w \<Rightarrow> length lws \<le> 21 \<and> collect_wrappings w = lws \<and> wlen w = Some (length lws)
       \<and> inner_is_required w = r"
proof (cases "length lws \<le> 21")
  case True
  then obtain w where "foldM (\<lambda>lw w. wrapped_by w lw) lws (new_wrapping r) = Some w"
    "wrapping_wf w" "inner_is_required w = r" "wrappings w = lws"
    using wrapping_deque.push_all [of "new_wrapping r" r lws]
    by (auto simp: new_wrapping_wf new_wrapping_required)
  with True show ?thesis by (simp add: collect_wrappings_wf wlen_wf)
next
  case False
  then show ?thesis
    using wrapping_deque.push_all_overflow [of "new_wrapping r" r lws]
    by (simp add: new_wrapping_wf new_wrapping_required)
qed

text \<open>C11. While fewer than 21 wrappings have been pushed, wrapping by one more list makes the type
  required exactly when that list is required, and popping it gives the list back and restores the
  flag, the remaining list wrappings and the requiredness of the type.\<close>

theorem wrapping_push_pop:
  assumes "wrapping_wf w" and "0 < wrapping_room w"
  shows "\<exists>w' w''. wrapped_by w lw = Some w' \<and> is_required w' = Some (lw = RequiredList)
    \<and> pop_list_wrapping w' = Some (Some lw, w'') \<and> wrapping_wf w'' \<and> collect_wrappings w'' = collect_wrappings w
    \<and> inner_is_required w'' = inner_is_required w \<and> is_required w'' = is_required w"
proof -
  obtain w' where w': "wrapped_by w lw = Some w'" "wrapping_wf w'" "wrappings w' = wrappings w @ [lw]"
    "inner_is_required w' = inner_is_required w"
    using wrapped_by_room [OF assms] by blast
  obtain w'' where "next_back w' = Some (Some lw, w'')" "wrapping_wf w''" "wrappings w'' = wrappings w"
    "inner_is_required w'' = inner_is_required w'"
    using next_back_last [OF w'(2,3)] by blast
  with w' assms(1) show ?thesis
    by (intro exI [of _ w'] exI [of _ w'']) (simp add: pop_list_wrapping_def collect_wrappings_wf is_required_wf)
qed

theorem wrapping_push_pop_witness:
  "wrapping_wf required \<and> 0 < wrapping_room required \<and>
   (\<exists>w' w''. wrapped_by required NullableList = Some w' \<and> is_required w' = Some False
      \<and> pop_list_wrapping w' = Some (Some NullableList, w'') \<and> is_required w'' = Some True)"
proof -
  have r: "required = new_wrapping True" by (simp add: new_wrapping_def)
  have "wrapping_wf required" "0 < wrapping_room required" "is_required required = Some True"
    by (simp_all add: r new_wrapping_wf new_wrapping_required is_required_wf)
  then show ?thesis using wrapping_push_pop [of required NullableList] by auto
qed

text \<open>C12. \<open>write_type_string\<close> never panics on a well-formed wrapping and writes the GraphQL type, each list
  wrapping bracketing the type inside it and each required one followed by an exclamation mark.\<close>

theorem write_type_string_correct:
  assumes "wrapping_wf w"
  shows "write_type_string w name = Some (type_string (inner_is_required w) (collect_wrappings w) name)"
  using assms by (simp add: write_type_string_def type_string_alt wlen_wf collect_wrappings_wf)

theorem write_type_string_witness:
  "\<exists>w. wrapped_by required NullableList = Some w \<and> wrapping_wf w \<and> write_type_string w ''ID'' = Some ''[ID!]''"
proof -
  have r: "required = new_wrapping True" by (simp add: new_wrapping_def)
  obtain w where "wrapped_by required NullableList = Some w" "wrapping_wf w" "wrappings w = [NullableList]"
    "inner_is_required w"
    using wrapped_by_room [of required NullableList] by (auto simp: r new_wrapping_wf new_wrapping_required)
  then show ?thesis using write_type_string_correct [of w "''ID''"] by (simp add: collect_wrappings_wf)
qed

text \<open>C14. Equality of wrappings is equality of the packed words, and it is finer than equality of the
  structures they denote.  Wrapping by a list and popping it again always restores the flag and the list
  wrappings, but the popped list leaves its bit behind: the word is the same as before exactly when that bit
  already was the bit of the list.\<close>

theorem wrapping_equality_is_finer:
  assumes "wrapping_wf w" and "0 < wrapping_room w"
  shows "\<exists>w' w''. wrapped_by w lw = Some w' \<and> pop_list_wrapping w' = Some (Some lw, w'')
     \<and> inner_is_required w'' = inner_is_required w \<and> collect_wrappings w'' = collect_wrappings w
     \<and> (w'' = w \<longleftrightarrow> list_bit w (unat (wend w)) = lw)"
proof -
  obtain w' where w': "wrapped_by w lw = Some w'" "wrapping_wf w'" "wrappings w' = wrappings w @ [lw]" "wrapping_room w' = wrapping_room w - 1"
    "inner_is_required w' = inner_is_required w" "wstart w' = wstart w"
    "\<And>i. i < 21 \<or> i = 31 \<Longrightarrow> bit w' i = (if i = unat (wend w) then lw = RequiredList else bit w i)"
    using wrapped_by_room [OF assms] by blast
  obtain w'' where w'': "next_back w' = Some (Some lw, w'')" "wrapping_wf w''" "wrappings w'' = wrappings w" "wrapping_room w'' = wrapping_room w' + 1"
    "inner_is_required w'' = inner_is_required w'" "wstart w'' = wstart w'" "\<And>i. i < 21 \<or> i = 31 \<Longrightarrow> bit w'' i = bit w' i"
    using next_back_last [OF w'(2,3)] by blast
  have n: "unat (wend w) < 21" using assms(2) by (simp add: wrapping_room_def)
  have "unat (wend w'') = unat (wend w)"
    using assms w'(4) w''(2,4) by (simp add: wrapping_room_def wrapping_wf_unat)
  then have e: "wend w'' = wend w" by (simp add: word_unat_eq_iff)
  have bits: "bit w'' i = (if i = unat (wend w) then lw = RequiredList else bit w i)" if "i < 21 \<or> i = 31" for i
    using that w'(7) w''(7) by blast
  have "w'' = w \<longleftrightarrow> list_bit w (unat (wend w)) = lw"
  proof
    assume "w'' = w"
    then show "list_bit w (unat (wend w)) = lw" using bits [of "unat (wend w)"] n by (cases lw) (simp_all add: list_bit_def)
  next
    assume "list_bit w (unat (wend w)) = lw"
    then have "bit w'' i = bit w i" if "i < 21 \<or> i = 31" for i using bits [OF that] by (auto simp: list_bit_def split: if_splits)
    then show "w'' = w" using e w'(6) w''(6) by (simp add: wrapping_eqI)
  qed
  with w' w'' assms(1) show ?thesis
    by (intro exI [of _ w'] exI [of _ w'']) (simp add: pop_list_wrapping_def collect_wrappings_wf)
qed

theorem wrapping_equality_is_finer_witness:
  "\<exists>w w'. wrapped_by nullable RequiredList = Some w \<and> pop_list_wrapping w = Some (Some RequiredList, w')
     \<and> inner_is_required w' = inner_is_required nullable \<and> collect_wrappings w' = collect_wrappings nullable \<and> w' \<noteq> nullable"
proof -
  have n: "nullable = new_wrapping False" by (simp add: new_wrapping_def)
  have "wrapping_wf nullable" "0 < wrapping_room nullable" by (simp_all add: n new_wrapping_wf)
  moreover have "list_bit nullable (unat (wend nullable)) = NullableList" by (simp add: list_bit_def nullable_def)
  ultimately show ?thesis using wrapping_equality_is_finer [of nullable RequiredList] by fastforce
qed

end
