(* ===== verification/Federated_Graph.thy ===== *)
theory Federated_Graph
  imports Subgraphs_Data Wrapping
begin

text \<open>
  The federated graph that composition produces (\<open>src/engine/crates/federated-graph/src/federated_graph/v4.rs\<close>,
  with the parts shared with \<open>v2.rs\<close> and \<open>v1.rs\<close>): its data, the lookups in its sorted tables, and
  the labels of \<open>@override\<close>.
\<close>

subsection \<open>Data\<close>

type_synonym fed_StringId = nat
type_synonym ObjectId = nat
type_synonym InterfaceId = nat
type_synonym UnionId = nat
type_synonym InputObjectId = nat
type_synonym TypeDefinitionId = nat
type_synonym EnumValueId = nat
type_synonym fed_FieldId = nat
type_synonym DirectiveId = nat
type_synonym InputValueDefinitionId = nat
type_synonym AuthorizedDirectiveId = nat
type_synonym fed_SubgraphId = nat

text \<open>Ranges as \<open>(start, len)\<close>; \<open>Fields\<close> is the half-open range \<open>start..end\<close>.\<close>

type_synonym fed_Directives = "DirectiveId \<times> nat"
type_synonym InputValueDefinitions = "InputValueDefinitionId \<times> nat"
type_synonym fed_Fields = "fed_FieldId \<times> fed_FieldId"

definition NO_DIRECTIVES :: fed_Directives where
  "NO_DIRECTIVES = (0, 0)"

definition NO_INPUT_VALUE_DEFINITION :: InputValueDefinitions where
  "NO_INPUT_VALUE_DEFINITION = (0, 0)"

definition NO_FIELDS :: fed_Fields where
  "NO_FIELDS = (0, 0)"

datatype fed_Definition =
    Fed_Scalar TypeDefinitionId
  | Fed_Object ObjectId
  | Fed_Interface InterfaceId
  | Fed_Union UnionId
  | Fed_Enum TypeDefinitionId
  | Fed_InputObject InputObjectId

datatype TypeDefinitionKind = Kind_Object | Kind_Interface | Kind_Enum | Kind_Union | Kind_Scalar | Kind_InputObject

record TypeDefinitionRecord =
  td_name :: fed_StringId
  td_description :: "fed_StringId option"
  td_directives :: fed_Directives
  td_kind :: TypeDefinitionKind

record EnumValueRecord =
  ev_enum_id :: TypeDefinitionId
  ev_value :: fed_StringId
  ev_composed_directives :: fed_Directives
  ev_description :: "fed_StringId option"

datatype fed_Value =
    Fed_Null
  | Fed_String fed_StringId
  | Fed_Int int
  | Fed_Float f64
  | Fed_Boolean bool
  | Fed_UnboundEnumValue fed_StringId
  | Fed_EnumValue EnumValueId
  | Fed_ObjectValue "(fed_StringId \<times> fed_Value) list"
  | Fed_ListValue "fed_Value list"

datatype fed_Selection =
    Fed_Field fed_FieldId "(InputValueDefinitionId \<times> fed_Value) list" "fed_Selection list"
  | Fed_InlineFragment fed_Definition "fed_Selection list"

record fed_Key =
  fk_subgraph_id :: fed_SubgraphId
  fk_fields :: "fed_Selection list"
  fk_is_interface_object :: bool
  fk_resolvable :: bool

record fed_Object =
  fo_type_definition_id :: TypeDefinitionId
  fo_implements_interfaces :: "InterfaceId list"
  fo_join_implements :: "(fed_SubgraphId \<times> InterfaceId) list"
  fo_keys :: "fed_Key list"
  fo_fields :: fed_Fields

record fed_Interface =
  fi_type_definition_id :: TypeDefinitionId
  fi_implements_interfaces :: "InterfaceId list"
  fi_keys :: "fed_Key list"
  fi_fields :: fed_Fields
  fi_join_implements :: "(fed_SubgraphId \<times> InterfaceId) list"

record fed_Union =
  fu_name :: fed_StringId
  fu_members :: "ObjectId list"
  fu_join_members :: "(fed_SubgraphId \<times> ObjectId) btree_set"
  fu_composed_directives :: fed_Directives
  fu_description :: "fed_StringId option"

record fed_InputObject =
  fio_name :: fed_StringId
  fio_fields :: InputValueDefinitions
  fio_composed_directives :: fed_Directives
  fio_description :: "fed_StringId option"

datatype OverrideLabel = Percent nat | Unknown

datatype OverrideSource = Source_Subgraph fed_SubgraphId | Source_Missing fed_StringId

record Override =
  ov_graph :: fed_SubgraphId
  ov_from :: OverrideSource
  ov_label :: OverrideLabel

subsection \<open>Labels of \<open>@override\<close>\<close>

text \<open>\<open>u8::from_str\<close>: an optional plus sign and decimal digits, failing on overflow.\<close>

definition digit_of :: "char \<Rightarrow> nat option" where
  "digit_of c = (if 48 \<le> (of_char c :: nat) \<and> of_char c \<le> (57 :: nat) then Some (of_char c - 48) else None)"

fun u8_digits :: "nat \<Rightarrow> string \<Rightarrow> nat option" where
  "u8_digits acc [] = Some acc"
| "u8_digits acc (c # cs) =
     (case digit_of c of
        None \<Rightarrow> None
      | Some d \<Rightarrow> if acc * 10 + d < 256 then u8_digits (acc * 10 + d) cs else None)"

definition u8_from_str :: "string \<Rightarrow> nat option" where
  "u8_from_str s =
     (case s of
        [] \<Rightarrow> None
      | c # cs \<Rightarrow> if c = CHR ''+'' \<and> cs \<noteq> [] then u8_digits 0 cs else u8_digits 0 s)"

definition strip_prefix :: "string \<Rightarrow> string \<Rightarrow> string option" where
  "strip_prefix p s = (if take (length p) s = p then Some (drop (length p) s) else None)"

definition strip_suffix_char :: "char \<Rightarrow> string \<Rightarrow> string option" where
  "strip_suffix_char c s = (if s \<noteq> [] \<and> last s = c then Some (butlast s) else None)"

definition override_label_error :: string where
  "override_label_error = ''Expected a field of the format '' @ [CHR 0x22] @ ''percent(<number>)'' @ [CHR 0x22] @ '' ''"

definition override_label_from_str :: "string \<Rightarrow> string + OverrideLabel" where
  "override_label_from_str s =
     (case strip_prefix ''percent('' s \<bind> strip_suffix_char CHR '')'' \<bind> u8_from_str of
        Some percent \<Rightarrow> Inr (Percent percent)
      | None \<Rightarrow> Inl override_label_error)"

text \<open>\<open>Display\<close>: the decimal digits of the percentage.\<close>

definition digit_char :: "nat \<Rightarrow> char" where
  "digit_char d = char_of (48 + d)"

fun nat_to_string :: "nat \<Rightarrow> string" where
  "nat_to_string n = (if n < 10 then [digit_char n] else nat_to_string (n div 10) @ [digit_char (n mod 10)])"

declare nat_to_string.simps [simp del]

fun override_label_display :: "OverrideLabel \<Rightarrow> string" where
  "override_label_display (Percent percent) = ''percent('' @ nat_to_string percent @ '')''"
| "override_label_display Unknown = []"

fun as_percent :: "OverrideLabel \<Rightarrow> nat option" where
  "as_percent (Percent v) = Some v"
| "as_percent Unknown = None"

lemma digit_of_char: "d < 10 \<Longrightarrow> digit_of (digit_char d) = Some d"
  by (simp add: digit_of_def digit_char_def)

lemma u8_digits_append:
  "u8_digits acc (xs @ ys) = (case u8_digits acc xs of None \<Rightarrow> None | Some a \<Rightarrow> u8_digits a ys)"
  by (induction acc xs rule: u8_digits.induct) (auto split: option.splits)

lemma u8_digits_nat_to_string: "n < 256 \<Longrightarrow> u8_digits 0 (nat_to_string n) = Some n"
proof (induction n rule: nat_to_string.induct)
  case (1 n)
  show ?case
  proof (cases "n < 10")
    case True
    then show ?thesis by (simp add: nat_to_string.simps [of n] digit_of_char)
  next
    case False
    have "n div 10 * 10 + n mod 10 = n" by simp
    with False 1 show ?thesis
      by (simp add: nat_to_string.simps [of n] u8_digits_append digit_of_char)
  qed
qed

lemma nat_to_string_hd: "\<exists>c cs. nat_to_string n = c # cs \<and> digit_of c \<noteq> None"
proof (induction n rule: nat_to_string.induct)
  case (1 n)
  then show ?case by (cases "n < 10") (fastforce simp: nat_to_string.simps [of n] digit_of_char)+
qed

lemma u8_from_str_nat_to_string: "n < 256 \<Longrightarrow> u8_from_str (nat_to_string n) = Some n"
proof -
  assume "n < 256"
  obtain c cs where c: "nat_to_string n = c # cs" "digit_of c \<noteq> None" using nat_to_string_hd by blast
  then have "c \<noteq> CHR ''+''" by (auto simp: digit_of_def)
  with c(1) u8_digits_nat_to_string [OF \<open>n < 256\<close>] show ?thesis by (simp add: u8_from_str_def)
qed

lemma u8_digits_bound: "u8_digits acc s = Some n \<Longrightarrow> acc < 256 \<Longrightarrow> n < 256"
  by (induction acc s rule: u8_digits.induct) (auto split: option.splits if_splits)

text \<open>C15. The label of an \<open>@override\<close> directive can be read back: parsing the text of a percentage between
  0 and 255 gives that percentage, and parsing accepts only labels whose percentage fits a \<open>u8\<close>.\<close>

theorem override_label_roundtrip:
  "(percent < 256 \<longrightarrow> override_label_from_str (override_label_display (Percent percent)) = Inr (Percent percent))
   \<and> (\<forall>s l. override_label_from_str s = Inr l \<longrightarrow> (\<exists>n < 256. l = Percent n))"
proof (intro conjI allI impI)
  assume "percent < 256"
  then show "override_label_from_str (override_label_display (Percent percent)) = Inr (Percent percent)"
    by (simp add: override_label_from_str_def strip_prefix_def strip_suffix_char_def u8_from_str_nat_to_string)
next
  fix s l assume "override_label_from_str s = Inr l"
  then obtain t n where "u8_from_str t = Some n" "l = Percent n"
    by (auto simp: override_label_from_str_def bind_eq_Some_conv split: option.splits)
  moreover from this(1) obtain ds where "u8_digits 0 ds = Some n"
    by (auto simp: u8_from_str_def simp del: u8_digits.simps split: list.splits if_splits)
  ultimately show "\<exists>n < 256. l = Percent n" using u8_digits_bound [of 0 ds n] by simp
qed

theorem override_label_roundtrip_witness:
  "override_label_from_str ''percent(30)'' = Inr (Percent 30) \<and> as_percent (Percent 30) = Some 30"
proof -
  have "nat_to_string 30 = ''30''" by code_simp
  then show ?thesis using override_label_roundtrip [of 30] by simp
qed

end
