(* ===== verification/Compose_Context.thy ===== *)
theory Compose_Context
  imports Subgraphs_Lookup Federated_Graph
begin

text \<open>
  The intermediate representation that composition writes (\<open>src/engine/crates/composition/src/composition_ir.rs\<close>,
  \<open>composition_ir/directive.rs\<close>) and the context it is written through (\<open>compose/context.rs\<close>).

  The \<open>Context\<close> of the source holds a shared reference to the store of subgraphs, which is an extra
  argument here, a mutable reference to the diagnostics and the representation under construction.
  Operations that resolve ids of the store may panic; the others cannot.
\<close>

subsection \<open>The representation\<close>

datatype ir_Directive =
    Directive_Authenticated
  | Directive_Deprecated "fed_StringId option"
  | Directive_Inaccessible
  | Directive_Policy "fed_StringId list list"
  | Directive_RequiresScopes "fed_StringId list list"
  | Directive_Other fed_StringId "(fed_StringId \<times> Value) list"

text \<open>The derived \<open>PartialEq\<close> of \<open>ir::Directive\<close>.\<close>

fun directive_eq :: "ir_Directive \<Rightarrow> ir_Directive \<Rightarrow> bool" where
  "directive_eq (Directive_Other n xs) (Directive_Other m ys) \<longleftrightarrow> n = m \<and> value_eq_fields xs ys"
| "directive_eq (Directive_Other _ _) _ \<longleftrightarrow> False"
| "directive_eq d e \<longleftrightarrow> d = e"

record FieldIr =
  f_parent_definition :: fed_Definition
  f_field_name :: StringId
  f_field_type :: FieldTypeId
  f_arguments :: InputValueDefinitions
  f_resolvable_in :: "fed_SubgraphId list"
  f_provides :: "FieldId list"
  f_requires :: "FieldId list"
  f_authorized_directives :: "FieldId list"
  f_overrides :: "Override list"
  f_composed_directives :: fed_Directives
  f_description :: "fed_StringId option"

record InputValueDefinitionIr =
  iv_name :: fed_StringId
  iv_type :: FieldTypeId
  iv_directives :: fed_Directives
  iv_description :: "fed_StringId option"
  iv_default :: "Value option"

record KeyIr =
  key_parent :: fed_Definition
  key_id :: KeyId
  key_is_interface_object :: bool
  key_resolvable :: bool

record CompositionIr =
  ir_definitions_by_name :: "fed_StringId \<rightharpoonup> fed_Definition"
  ir_type_definitions :: "TypeDefinitionRecord list"
  ir_objects :: "fed_Object list"
  ir_interfaces :: "fed_Interface list"
  ir_unions :: "fed_Union list"
  ir_enum_values :: "EnumValueRecord list"
  ir_input_objects :: "fed_InputObject list"
  ir_directives :: "ir_Directive list"
  ir_input_value_definitions :: "InputValueDefinitionIr list"
  ir_query_type :: "ObjectId option"
  ir_mutation_type :: "ObjectId option"
  ir_subscription_type :: "ObjectId option"
  ir_strings :: "string list"
  ir_fields :: "FieldIr list"
  ir_union_members :: "(fed_StringId \<times> fed_StringId) btree_set"
  ir_union_join_members :: "(fed_StringId \<times> fed_StringId, SubgraphId list) btree_map"
  ir_keys :: "KeyIr list"
  ir_object_fields_from_entity_interfaces :: "(fed_StringId \<times> fed_FieldId) btree_set"
  ir_object_authorized_directives :: "(ObjectId \<times> DirectiveSiteId) list"
  ir_interface_authorized_directives :: "(InterfaceId \<times> DirectiveSiteId) list"

definition ir_default :: CompositionIr where
  "ir_default =
    \<lparr>ir_definitions_by_name = Map.empty, ir_type_definitions = [], ir_objects = [], ir_interfaces = [],
     ir_unions = [], ir_enum_values = [], ir_input_objects = [], ir_directives = [],
     ir_input_value_definitions = [], ir_query_type = None, ir_mutation_type = None,
     ir_subscription_type = None, ir_strings = [], ir_fields = [], ir_union_members = [],
     ir_union_join_members = [], ir_keys = [], ir_object_fields_from_entity_interfaces = [],
     ir_object_authorized_directives = [], ir_interface_authorized_directives = []\<rparr>"

text \<open>\<open>StringsIr::insert\<close>.\<close>

definition strings_ir_insert :: "string list \<Rightarrow> string \<Rightarrow> fed_StringId \<times> string list" where
  "strings_ir_insert strs s = (case get_index_of strs s of Some idx \<Rightarrow> (idx, strs) | None \<Rightarrow> insert_full strs s)"

definition into_federated_strings :: "string list \<Rightarrow> string list" where
  "into_federated_strings strs = strs"

lemma strings_ir_insert_eq: "strings_ir_insert = strings_intern"
  by (simp add: fun_eq_iff strings_ir_insert_def strings_intern_def)

interpretation strings_ir: interner strings_ir_insert strings_resolve distinct
  unfolding strings_ir_insert_eq by (rule strings.interner_axioms)

subsection \<open>The context\<close>

record Context =
  ctx_diagnostics :: Diagnostics
  ctx_ir :: CompositionIr

definition ctx_push_fatal :: "string \<Rightarrow> Context \<Rightarrow> Context" where
  "ctx_push_fatal m ctx = ctx\<lparr>ctx_diagnostics := push_fatal m (ctx_diagnostics ctx)\<rparr>"

definition ir_insert_str :: "string \<Rightarrow> Context \<Rightarrow> fed_StringId \<times> Context" where
  "ir_insert_str s ctx =
     (let (i, strs) = strings_ir_insert (ir_strings (ctx_ir ctx)) s
      in (i, ctx\<lparr>ctx_ir := (ctx_ir ctx)\<lparr>ir_strings := strs\<rparr>\<rparr>))"

text \<open>\<open>description.map(|description| self.ir.strings.insert(description))\<close>.\<close>

fun ir_insert_option :: "string option \<Rightarrow> Context \<Rightarrow> fed_StringId option \<times> Context" where
  "ir_insert_option None ctx = (None, ctx)"
| "ir_insert_option (Some s) ctx = (case ir_insert_str s ctx of (i, ctx') \<Rightarrow> (Some i, ctx'))"

definition insert_string :: "Subgraphs \<Rightarrow> StringId \<Rightarrow> Context \<Rightarrow> (fed_StringId \<times> Context) panicking" where
  "insert_string sg string_id ctx = do { s \<leftarrow> as_str sg string_id; Some (ir_insert_str s ctx) }"

text \<open>\<open>option.map(|s| ctx.insert_string(s.id))\<close>.\<close>

fun insert_string_option :: "Subgraphs \<Rightarrow> StringId option \<Rightarrow> Context \<Rightarrow> (fed_StringId option \<times> Context) panicking" where
  "insert_string_option sg None ctx = Some (None, ctx)"
| "insert_string_option sg (Some s) ctx = map_option (\<lambda>(i, ctx'). (Some i, ctx')) (insert_string sg s ctx)"

definition insert_static_str :: "string \<Rightarrow> Context \<Rightarrow> fed_StringId \<times> Context" where
  "insert_static_str s ctx = ir_insert_str s ctx"

definition insert_directive :: "ir_Directive \<Rightarrow> Context \<Rightarrow> DirectiveId \<times> Context" where
  "insert_directive directive ctx =
     (let (i, ds) = push_return_idx (ir_directives (ctx_ir ctx)) directive
      in (i, ctx\<lparr>ctx_ir := (ctx_ir ctx)\<lparr>ir_directives := ds\<rparr>\<rparr>))"

definition define_name :: "fed_StringId \<Rightarrow> fed_Definition \<Rightarrow> Context \<Rightarrow> Context" where
  "define_name name d ctx =
     ctx\<lparr>ctx_ir := (ctx_ir ctx)\<lparr>ir_definitions_by_name := (ir_definitions_by_name (ctx_ir ctx))(name \<mapsto> d)\<rparr>\<rparr>"

definition push_type_definition :: "TypeDefinitionRecord \<Rightarrow> Context \<Rightarrow> TypeDefinitionId \<times> Context" where
  "push_type_definition r ctx =
     (let (i, ts) = push_return_idx (ir_type_definitions (ctx_ir ctx)) r
      in (i, ctx\<lparr>ctx_ir := (ctx_ir ctx)\<lparr>ir_type_definitions := ts\<rparr>\<rparr>))"

definition insert_enum :: "string \<Rightarrow> string option \<Rightarrow> fed_Directives \<Rightarrow> Context \<Rightarrow> TypeDefinitionId \<times> Context" where
  "insert_enum enum_name description directives ctx =
     (let (name, ctx1) = ir_insert_str enum_name ctx;
          (descr, ctx2) = ir_insert_option description ctx1;
          (i, ctx3) = push_type_definition
            \<lparr>td_name = name, td_description = descr, td_directives = directives, td_kind = Kind_Enum\<rparr> ctx2
      in (i, define_name name (Fed_Enum i) ctx3))"

definition insert_enum_value ::
  "string \<Rightarrow> string option \<Rightarrow> fed_Directives \<Rightarrow> TypeDefinitionId \<Rightarrow> Context \<Rightarrow> EnumValueId \<times> Context" where
  "insert_enum_value value description composed_directives enum_id ctx =
     (let (v, ctx1) = ir_insert_str value ctx;
          (descr, ctx2) = ir_insert_option description ctx1;
          r = \<lparr>ev_enum_id = enum_id, ev_value = v, ev_composed_directives = composed_directives, ev_description = descr\<rparr>;
          (i, vs) = push_return_idx (ir_enum_values (ctx_ir ctx2)) r
      in (i, ctx2\<lparr>ctx_ir := (ctx_ir ctx2)\<lparr>ir_enum_values := vs\<rparr>\<rparr>))"

definition insert_field :: "FieldIr \<Rightarrow> Context \<Rightarrow> fed_FieldId \<times> Context" where
  "insert_field f ctx =
     (let (i, fs) = push_return_idx (ir_fields (ctx_ir ctx)) f
      in (i, ctx\<lparr>ctx_ir := (ctx_ir ctx)\<lparr>ir_fields := fs\<rparr>\<rparr>))"

definition insert_input_object ::
  "fed_StringId \<Rightarrow> string option \<Rightarrow> fed_Directives \<Rightarrow> InputValueDefinitions \<Rightarrow> Context \<Rightarrow> InputObjectId \<times> Context" where
  "insert_input_object name description composed_directives field_range ctx =
     (let (descr, ctx1) = ir_insert_option description ctx;
          obj = \<lparr>fio_name = name, fio_fields = field_range, fio_composed_directives = composed_directives, fio_description = descr\<rparr>;
          (i, os) = push_return_idx (ir_input_objects (ctx_ir ctx1)) obj
      in (i, define_name name (Fed_InputObject i) (ctx1\<lparr>ctx_ir := (ctx_ir ctx1)\<lparr>ir_input_objects := os\<rparr>\<rparr>)))"

definition insert_input_value_definition :: "InputValueDefinitionIr \<Rightarrow> Context \<Rightarrow> InputValueDefinitionId \<times> Context" where
  "insert_input_value_definition d ctx =
     (let (i, ds) = push_return_idx (ir_input_value_definitions (ctx_ir ctx)) d
      in (i, ctx\<lparr>ctx_ir := (ctx_ir ctx)\<lparr>ir_input_value_definitions := ds\<rparr>\<rparr>))"

definition insert_interface :: "fed_StringId \<Rightarrow> string option \<Rightarrow> fed_Directives \<Rightarrow> Context \<Rightarrow> InterfaceId \<times> Context" where
  "insert_interface name description composed_directives ctx =
     (let (descr, ctx1) = ir_insert_option description ctx;
          (type_definition_id, ctx2) = push_type_definition
            \<lparr>td_name = name, td_description = descr, td_directives = composed_directives, td_kind = Kind_Interface\<rparr> ctx1;
          interface = \<lparr>fi_type_definition_id = type_definition_id, fi_implements_interfaces = [], fi_keys = [],
            fi_fields = NO_FIELDS, fi_join_implements = []\<rparr>;
          (i, is) = push_return_idx (ir_interfaces (ctx_ir ctx2)) interface
      in (i, define_name name (Fed_Interface i) (ctx2\<lparr>ctx_ir := (ctx_ir ctx2)\<lparr>ir_interfaces := is\<rparr>\<rparr>)))"

definition push_key_ir :: "KeyIr \<Rightarrow> Context \<Rightarrow> Context" where
  "push_key_ir k ctx = ctx\<lparr>ctx_ir := (ctx_ir ctx)\<lparr>ir_keys := ir_keys (ctx_ir ctx) @ [k]\<rparr>\<rparr>"

definition insert_interface_resolvable_key :: "Subgraphs \<Rightarrow> InterfaceId \<Rightarrow> KeyId \<Rightarrow> bool \<Rightarrow> Context \<Rightarrow> Context panicking" where
  "insert_interface_resolvable_key sg i key is_interface_object ctx = do {
     r \<leftarrow> is_resolvable sg key;
     Some (push_key_ir \<lparr>key_parent = Fed_Interface i, key_id = key,
       key_is_interface_object = is_interface_object, key_resolvable = r\<rparr> ctx) }"

definition insert_object :: "Subgraphs \<Rightarrow> fed_StringId \<Rightarrow> StringId option \<Rightarrow> fed_Directives \<Rightarrow> Context \<Rightarrow> (ObjectId \<times> Context) panicking" where
  "insert_object sg name description composed_directives ctx = do {
     (descr, ctx1) \<leftarrow> insert_string_option sg description ctx;
     let (type_definition_id, ctx2) = push_type_definition
       \<lparr>td_name = name, td_description = descr, td_directives = composed_directives, td_kind = Kind_Object\<rparr> ctx1;
     let obj = \<lparr>fo_type_definition_id = type_definition_id, fo_implements_interfaces = [], fo_join_implements = [],
       fo_keys = [], fo_fields = NO_FIELDS\<rparr>;
     let (i, os) = push_return_idx (ir_objects (ctx_ir ctx2)) obj;
     Some (i, define_name name (Fed_Object i) (ctx2\<lparr>ctx_ir := (ctx_ir ctx2)\<lparr>ir_objects := os\<rparr>\<rparr>)) }"

definition insert_scalar :: "string \<Rightarrow> string option \<Rightarrow> fed_Directives \<Rightarrow> Context \<Rightarrow> Context" where
  "insert_scalar scalar_name description composed_directives ctx =
     (let (name, ctx1) = ir_insert_str scalar_name ctx;
          (descr, ctx2) = ir_insert_option description ctx1;
          (i, ctx3) = push_type_definition
            \<lparr>td_name = name, td_description = descr, td_directives = composed_directives, td_kind = Kind_Scalar\<rparr> ctx2
      in define_name name (Fed_Scalar i) ctx3)"

definition insert_union :: "Subgraphs \<Rightarrow> fed_StringId \<Rightarrow> fed_Directives \<Rightarrow> StringId option \<Rightarrow> Context \<Rightarrow> (UnionId \<times> Context) panicking" where
  "insert_union sg name composed_directives description ctx = do {
     (descr, ctx1) \<leftarrow> insert_string_option sg description ctx;
     let un = \<lparr>fu_name = name, fu_members = [], fu_join_members = [], fu_composed_directives = composed_directives,
       fu_description = descr\<rparr>;
     let (i, us) = push_return_idx (ir_unions (ctx_ir ctx1)) un;
     Some (i, define_name name (Fed_Union i) (ctx1\<lparr>ctx_ir := (ctx_ir ctx1)\<lparr>ir_unions := us\<rparr>\<rparr>)) }"

definition insert_union_member :: "SubgraphId \<Rightarrow> fed_StringId \<Rightarrow> fed_StringId \<Rightarrow> Context \<Rightarrow> Context" where
  "insert_union_member subgraph_id union_name member_name ctx =
     (let ir = ctx_ir ctx;
          key = (union_name, member_name);
          joins = ir_union_join_members ir;
          joins' = (case bt_get joins key of
              None \<Rightarrow> bt_insert key [subgraph_id] joins
            | Some entry \<Rightarrow> bt_insert key (entry @ [subgraph_id]) joins)
      in ctx\<lparr>ctx_ir := ir\<lparr>ir_union_members := bs_insert key (ir_union_members ir), ir_union_join_members := joins'\<rparr>\<rparr>)"

definition insert_key :: "Subgraphs \<Rightarrow> ObjectId \<Rightarrow> KeyId \<Rightarrow> Context \<Rightarrow> Context panicking" where
  "insert_key sg i key ctx = do {
     r \<leftarrow> is_resolvable sg key;
     Some (push_key_ir \<lparr>key_parent = Fed_Object i, key_id = key, key_is_interface_object = False, key_resolvable = r\<rparr> ctx) }"

definition insert_object_authorized :: "ObjectId \<Rightarrow> DirectiveSiteId \<Rightarrow> Context \<Rightarrow> Context" where
  "insert_object_authorized object_id authorized_directive ctx =
     ctx\<lparr>ctx_ir := (ctx_ir ctx)\<lparr>ir_object_authorized_directives :=
       ir_object_authorized_directives (ctx_ir ctx) @ [(object_id, authorized_directive)]\<rparr>\<rparr>"

definition insert_interface_authorized :: "InterfaceId \<Rightarrow> DirectiveSiteId \<Rightarrow> Context \<Rightarrow> Context" where
  "insert_interface_authorized interface_id authorized_directive ctx =
     ctx\<lparr>ctx_ir := (ctx_ir ctx)\<lparr>ir_interface_authorized_directives :=
       ir_interface_authorized_directives (ctx_ir ctx) @ [(interface_id, authorized_directive)]\<rparr>\<rparr>"

definition set_query :: "ObjectId \<Rightarrow> Context \<Rightarrow> Context" where
  "set_query i ctx = ctx\<lparr>ctx_ir := (ctx_ir ctx)\<lparr>ir_query_type := Some i\<rparr>\<rparr>"

definition set_mutation :: "ObjectId \<Rightarrow> Context \<Rightarrow> Context" where
  "set_mutation i ctx = ctx\<lparr>ctx_ir := (ctx_ir ctx)\<lparr>ir_mutation_type := Some i\<rparr>\<rparr>"

definition set_subscription :: "ObjectId \<Rightarrow> Context \<Rightarrow> Context" where
  "set_subscription i ctx = ctx\<lparr>ctx_ir := (ctx_ir ctx)\<lparr>ir_subscription_type := Some i\<rparr>\<rparr>"

definition insert_object_field_from_entity_interface :: "fed_StringId \<Rightarrow> fed_FieldId \<Rightarrow> Context \<Rightarrow> Context" where
  "insert_object_field_from_entity_interface object_name field_id ctx =
     ctx\<lparr>ctx_ir := (ctx_ir ctx)\<lparr>ir_object_fields_from_entity_interfaces :=
       bs_insert (object_name, field_id) (ir_object_fields_from_entity_interfaces (ctx_ir ctx))\<rparr>\<rparr>"

definition context_new :: "Subgraphs \<Rightarrow> Diagnostics \<Rightarrow> Context panicking" where
  "context_new sg diagnostics = do {
     scalars \<leftarrow> iter_builtin_scalars sg;
     foldM (\<lambda>builtin_scalar ctx. do {
         name \<leftarrow> as_str sg builtin_scalar;
         Some (insert_scalar name None NO_DIRECTIVES ctx) })
       scalars \<lparr>ctx_diagnostics = emit_ingestion_diagnostics sg diagnostics, ctx_ir = ir_default\<rparr> }"

definition into_ir :: "Context \<Rightarrow> CompositionIr" where
  "into_ir ctx = ctx_ir ctx"

end
