(* ===== verification/Graph_V4.thy ===== *)
theory Graph_V4
  imports Federated_Graph
begin

text \<open>
  The latest federated graph (\<open>src/engine/crates/federated-graph/src/federated_graph/v4.rs\<close> and \<open>v4/*.rs\<close>): the
  tables composition emits, the resolution of ids and ranges (indexing panics out of range), and the
  lookups in the tables that are sorted by id.
\<close>

subsection \<open>Data\<close>

record fed_Type =
  ty_wrapping :: Wrapping
  ty_definition :: fed_Definition

datatype fed_Directive =
    Fed_Authenticated
  | Fed_Deprecated "fed_StringId option"
  | Fed_Inaccessible
  | Fed_Policy "fed_StringId list list"
  | Fed_RequiresScopes "fed_StringId list list"
  | Fed_Other fed_StringId "(fed_StringId \<times> fed_Value) list"

type_synonym SelectionSet = "fed_Selection list"

datatype InputValueDefinitionSetItem =
  InputValueDefinitionSetItem (input_value_definition: InputValueDefinitionId) (ivd_subselection: "InputValueDefinitionSetItem list")

record fed_AuthorizedDirective =
  fa_fields :: "SelectionSet option"
  fa_node :: "SelectionSet option"
  fa_arguments :: "InputValueDefinitionSetItem list option"
  fa_metadata :: "fed_Value option"

record fed_InputValueDefinition =
  fiv_name :: fed_StringId
  fiv_type :: fed_Type
  fiv_directives :: fed_Directives
  fiv_description :: "fed_StringId option"
  fiv_default :: "fed_Value option"

record FieldProvides =
  fp_subgraph_id :: fed_SubgraphId
  fp_fields :: SelectionSet

record FieldRequires =
  fr_subgraph_id :: fed_SubgraphId
  fr_fields :: SelectionSet

record fed_Field =
  ff_name :: fed_StringId
  ff_type :: fed_Type
  ff_arguments :: InputValueDefinitions
  ff_resolvable_in :: "fed_SubgraphId list"
  ff_provides :: "FieldProvides list"
  ff_requires :: "FieldRequires list"
  ff_overrides :: "Override list"
  ff_composed_directives :: fed_Directives
  ff_description :: "fed_StringId option"

record fed_Subgraph =
  fs_name :: fed_StringId
  fs_url :: fed_StringId

record RootOperationTypes =
  root_query :: ObjectId
  root_mutation :: "ObjectId option"
  root_subscription :: "ObjectId option"

record FederatedGraph =
  fg_subgraphs :: "fed_Subgraph list"
  fg_root_operation_types :: RootOperationTypes
  fg_type_definitions :: "TypeDefinitionRecord list"
  fg_objects :: "fed_Object list"
  fg_interfaces :: "fed_Interface list"
  fg_fields :: "fed_Field list"
  fg_unions :: "fed_Union list"
  fg_input_objects :: "fed_InputObject list"
  fg_enum_values :: "EnumValueRecord list"
  fg_input_value_definitions :: "fed_InputValueDefinition list"
  fg_strings :: "string list"
  fg_directives :: "fed_Directive list"
  fg_authorized_directives :: "fed_AuthorizedDirective list"
  fg_field_authorized_directives :: "(fed_FieldId \<times> AuthorizedDirectiveId) list"
  fg_object_authorized_directives :: "(ObjectId \<times> AuthorizedDirectiveId) list"
  fg_interface_authorized_directives :: "(InterfaceId \<times> AuthorizedDirectiveId) list"

fun as_enum :: "fed_Definition \<Rightarrow> TypeDefinitionId option" where
  "as_enum (Fed_Enum v) = Some v"
| "as_enum _ = None"

fun kind_is_scalar :: "TypeDefinitionKind \<Rightarrow> bool" where
  "kind_is_scalar Kind_Scalar = True"
| "kind_is_scalar _ = False"

fun kind_is_enum :: "TypeDefinitionKind \<Rightarrow> bool" where
  "kind_is_enum Kind_Enum = True"
| "kind_is_enum _ = False"

fun value_is_list :: "fed_Value \<Rightarrow> bool" where
  "value_is_list (Fed_ListValue _) = True"
| "value_is_list _ = False"

fun value_is_null :: "fed_Value \<Rightarrow> bool" where
  "value_is_null Fed_Null = True"
| "value_is_null _ = False"

text \<open>The field of the introspection placeholders of the default graph.\<close>

definition default_field :: "fed_StringId \<Rightarrow> fed_Field" where
  "default_field name =
    \<lparr>ff_name = name, ff_type = \<lparr>ty_wrapping = nullable, ty_definition = Fed_Scalar 0\<rparr>, ff_arguments = NO_INPUT_VALUE_DEFINITION,
     ff_resolvable_in = [], ff_provides = [], ff_requires = [], ff_overrides = [], ff_composed_directives = NO_DIRECTIVES,
     ff_description = None\<rparr>"

definition federated_graph_default :: FederatedGraph where
  "federated_graph_default =
    \<lparr>fg_subgraphs = [],
     fg_root_operation_types = \<lparr>root_query = 0, root_mutation = None, root_subscription = None\<rparr>,
     fg_type_definitions = [\<lparr>td_name = 0, td_description = None, td_directives = NO_DIRECTIVES, td_kind = Kind_Object\<rparr>],
     fg_objects = [\<lparr>fo_type_definition_id = 0, fo_implements_interfaces = [], fo_join_implements = [], fo_keys = [], fo_fields = (0, 2)\<rparr>],
     fg_interfaces = [], fg_fields = [default_field 1, default_field 2], fg_unions = [], fg_input_objects = [],
     fg_enum_values = [], fg_input_value_definitions = [], fg_strings = [''Query'', ''__type'', ''__schema''],
     fg_directives = [], fg_authorized_directives = [], fg_field_authorized_directives = [],
     fg_object_authorized_directives = [], fg_interface_authorized_directives = []\<rparr>"

subsection \<open>Indexing\<close>

text \<open>\<open>&v[start..end]\<close>.\<close>

definition vec_slice :: "'a list \<Rightarrow> nat \<Rightarrow> nat \<Rightarrow> 'a list panicking" where
  "vec_slice xs a b = (if a \<le> b \<and> b \<le> length xs then Some (take (b - a) (drop a xs)) else None)"

definition graph_directives :: "FederatedGraph \<Rightarrow> fed_Directives \<Rightarrow> fed_Directive list panicking" where
  "graph_directives g r = vec_slice (fg_directives g) (fst r) (fst r + snd r)"

definition graph_input_values :: "FederatedGraph \<Rightarrow> InputValueDefinitions \<Rightarrow> fed_InputValueDefinition list panicking" where
  "graph_input_values g r = vec_slice (fg_input_value_definitions g) (fst r) (fst r + snd r)"

definition graph_fields :: "FederatedGraph \<Rightarrow> fed_Fields \<Rightarrow> fed_Field list panicking" where
  "graph_fields g r = vec_slice (fg_fields g) (fst r) (snd r)"

definition graph_str :: "FederatedGraph \<Rightarrow> fed_StringId \<Rightarrow> string panicking" where
  "graph_str g i = vec_index (fg_strings g) i"

text \<open>\<open>at(id).then(|x| x.type_definition_id)\<close> on objects and interfaces.\<close>

definition object_type_definition :: "FederatedGraph \<Rightarrow> ObjectId \<Rightarrow> TypeDefinitionRecord panicking" where
  "object_type_definition g i = do {
     obj \<leftarrow> vec_index (fg_objects g) i;
     vec_index (fg_type_definitions g) (fo_type_definition_id obj) }"

definition interface_type_definition :: "FederatedGraph \<Rightarrow> InterfaceId \<Rightarrow> TypeDefinitionRecord panicking" where
  "interface_type_definition g i = do {
     interface \<leftarrow> vec_index (fg_interfaces g) i;
     vec_index (fg_type_definitions g) (fi_type_definition_id interface) }"

fun definition_name_id :: "FederatedGraph \<Rightarrow> fed_Definition \<Rightarrow> fed_StringId panicking" where
  "definition_name_id g (Fed_Scalar i) = map_option td_name (vec_index (fg_type_definitions g) i)"
| "definition_name_id g (Fed_Object i) = map_option td_name (object_type_definition g i)"
| "definition_name_id g (Fed_Interface i) = map_option td_name (interface_type_definition g i)"
| "definition_name_id g (Fed_Union i) = map_option fu_name (vec_index (fg_unions g) i)"
| "definition_name_id g (Fed_Enum i) = map_option td_name (vec_index (fg_type_definitions g) i)"
| "definition_name_id g (Fed_InputObject i) = map_option fio_name (vec_index (fg_input_objects g) i)"

definition definition_name :: "FederatedGraph \<Rightarrow> fed_Definition \<Rightarrow> string panicking" where
  "definition_name g d = do { i \<leftarrow> definition_name_id g d; graph_str g i }"

subsection \<open>Iterators and lookups\<close>

definition iter_interfaces :: "FederatedGraph \<Rightarrow> (InterfaceId \<times> fed_Interface) list" where
  "iter_interfaces g = enumerate 0 (fg_interfaces g)"

definition iter_objects :: "FederatedGraph \<Rightarrow> (ObjectId \<times> fed_Object) list" where
  "iter_objects g = enumerate 0 (fg_objects g)"

definition iter_type_definitions :: "FederatedGraph \<Rightarrow> (TypeDefinitionId \<times> TypeDefinitionRecord) list" where
  "iter_type_definitions g = enumerate 0 (fg_type_definitions g)"

definition iter_enums :: "FederatedGraph \<Rightarrow> (TypeDefinitionId \<times> TypeDefinitionRecord) list" where
  "iter_enums g = filter (\<lambda>(_, r). kind_is_enum (td_kind r)) (iter_type_definitions g)"

definition iter_scalars :: "FederatedGraph \<Rightarrow> (TypeDefinitionId \<times> TypeDefinitionRecord) list" where
  "iter_scalars g = filter (\<lambda>(_, r). kind_is_scalar (td_kind r)) (iter_type_definitions g)"

text \<open>The entries of a list sorted by id: \<open>partition_point\<close>, then \<open>take_while\<close>.\<close>

definition sorted_entries :: "('a \<Rightarrow> nat) \<Rightarrow> 'a list \<Rightarrow> nat \<Rightarrow> (nat \<times> 'a) list" where
  "sorted_entries key xs i =
     (let start = partition_point (\<lambda>x. key x < i) xs
      in enumerate start (takeWhile (\<lambda>x. key x = i) (drop start xs)))"

definition object_authorized_directives :: "FederatedGraph \<Rightarrow> ObjectId \<Rightarrow> fed_AuthorizedDirective list panicking" where
  "object_authorized_directives g i =
     mapM (\<lambda>(_, _, a). vec_index (fg_authorized_directives g) a) (sorted_entries fst (fg_object_authorized_directives g) i)"

definition interface_authorized_directives :: "FederatedGraph \<Rightarrow> InterfaceId \<Rightarrow> fed_AuthorizedDirective list panicking" where
  "interface_authorized_directives g i =
     mapM (\<lambda>(_, _, a). vec_index (fg_authorized_directives g) a) (sorted_entries fst (fg_interface_authorized_directives g) i)"

definition iter_enum_values :: "FederatedGraph \<Rightarrow> TypeDefinitionId \<Rightarrow> (EnumValueId \<times> EnumValueRecord) list" where
  "iter_enum_values g enum_id = sorted_entries ev_enum_id (fg_enum_values g) enum_id"

definition enum_value_range :: "FederatedGraph \<Rightarrow> TypeDefinitionId \<Rightarrow> EnumValueId \<times> nat" where
  "enum_value_range g enum_id =
     (case iter_enum_values g enum_id of [] \<Rightarrow> (0, 0) | (start, _) # rest \<Rightarrow> (start, length rest + 1))"

definition find_enum_value_by_name_id :: "FederatedGraph \<Rightarrow> TypeDefinitionId \<Rightarrow> fed_StringId \<Rightarrow> (EnumValueId \<times> EnumValueRecord) option" where
  "find_enum_value_by_name_id g enum_id name_id = find (\<lambda>(_, v). ev_value v = name_id) (iter_enum_values g enum_id)"

definition find_enum_value_by_name :: "FederatedGraph \<Rightarrow> TypeDefinitionId \<Rightarrow> string \<Rightarrow> (EnumValueId \<times> EnumValueRecord) option panicking" where
  "find_enum_value_by_name g enum_id name =
     findM (\<lambda>(_, v). map_option (\<lambda>s. s = name) (graph_str g (ev_value v))) (iter_enum_values g enum_id)"

subsection \<open>Additions\<close>

definition graph_push_enum_value :: "EnumValueRecord \<Rightarrow> FederatedGraph \<Rightarrow> EnumValueId \<times> FederatedGraph" where
  "graph_push_enum_value v g = (length (fg_enum_values g), g\<lparr>fg_enum_values := fg_enum_values g @ [v]\<rparr>)"

definition graph_push_object :: "fed_Object \<Rightarrow> FederatedGraph \<Rightarrow> ObjectId \<times> FederatedGraph" where
  "graph_push_object x g = (length (fg_objects g), g\<lparr>fg_objects := fg_objects g @ [x]\<rparr>)"

definition graph_push_type_definition :: "TypeDefinitionRecord \<Rightarrow> FederatedGraph \<Rightarrow> TypeDefinitionId \<times> FederatedGraph" where
  "graph_push_type_definition x g = (length (fg_type_definitions g), g\<lparr>fg_type_definitions := fg_type_definitions g @ [x]\<rparr>)"

end
