(* ===== verification/Emit.thy ===== *)
theory Emit
  imports Compose_Context Graph_V4 "HOL-Library.Char_ord"
begin

text \<open>
  The emission of the federated graph from the intermediate representation:
  \<open>src/engine/crates/composition/src/emit_federated_graph.rs\<close> and \<open>emit_federated_graph/*.rs\<close>.  The context of the
  source borrows the store of subgraphs (an argument here) and owns the rest.  The maps are hash maps;
  indexing one with an absent key panics.
\<close>

subsection \<open>The context (\<open>context.rs\<close>, \<open>field_types_map.rs\<close>)\<close>

record EmitContext =
  e_out :: FederatedGraph
  e_field_types_map :: "FieldTypeId \<rightharpoonup> fed_Type"
  e_selection_map :: "fed_Definition \<times> fed_StringId \<rightharpoonup> fed_FieldId"
  e_definitions :: "fed_StringId \<rightharpoonup> fed_Definition"
  e_strings_ir :: "string list"

abbreviation update_out :: "(FederatedGraph \<Rightarrow> FederatedGraph) \<Rightarrow> EmitContext \<Rightarrow> EmitContext" where
  "update_out f ctx \<equiv> ctx\<lparr>e_out := f (e_out ctx)\<rparr>"

definition emit_insert_string :: "Subgraphs \<Rightarrow> StringId \<Rightarrow> EmitContext \<Rightarrow> (fed_StringId \<times> EmitContext) panicking" where
  "emit_insert_string sg s ctx = do {
     str \<leftarrow> as_str sg s;
     let (i, strs) = strings_ir_insert (e_strings_ir ctx) str;
     Some (i, ctx\<lparr>e_strings_ir := strs\<rparr>) }"

fun insert_value_with_type ::
  "Subgraphs \<Rightarrow> TypeDefinitionId option \<Rightarrow> Value \<Rightarrow> EmitContext \<Rightarrow> (fed_Value \<times> EmitContext) panicking"
  and insert_object_value ::
  "Subgraphs \<Rightarrow> TypeDefinitionId option \<Rightarrow> (StringId \<times> Value) list \<Rightarrow> EmitContext \<Rightarrow> ((fed_StringId \<times> fed_Value) list \<times> EmitContext) panicking"
  and insert_list_value ::
  "Subgraphs \<Rightarrow> TypeDefinitionId option \<Rightarrow> Value list \<Rightarrow> EmitContext \<Rightarrow> (fed_Value list \<times> EmitContext) panicking" where
  "insert_value_with_type sg enum_type Value_Null ctx = Some (Fed_Null, ctx)"
| "insert_value_with_type sg enum_type (Value_String v) ctx = do { (s, ctx1) \<leftarrow> emit_insert_string sg v ctx; Some (Fed_String s, ctx1) }"
| "insert_value_with_type sg enum_type (Value_Int v) ctx = Some (Fed_Int v, ctx)"
| "insert_value_with_type sg enum_type (Value_Float v) ctx = Some (Fed_Float v, ctx)"
| "insert_value_with_type sg enum_type (Value_Boolean v) ctx = Some (Fed_Boolean v, ctx)"
| "insert_value_with_type sg enum_type (Value_Enum v) ctx = do {
     (value_name, ctx1) \<leftarrow> emit_insert_string sg v ctx;
     Some (case enum_type \<bind> (\<lambda>enum_id. find_enum_value_by_name_id (e_out ctx1) enum_id value_name) of
             Some (i, _) \<Rightarrow> Fed_EnumValue i
           | None \<Rightarrow> Fed_UnboundEnumValue value_name, ctx1) }"
| "insert_value_with_type sg enum_type (Value_Object vs) ctx = do {
     (xs, ctx1) \<leftarrow> insert_object_value sg enum_type vs ctx; Some (Fed_ObjectValue xs, ctx1) }"
| "insert_value_with_type sg enum_type (Value_List vs) ctx = do {
     (xs, ctx1) \<leftarrow> insert_list_value sg enum_type vs ctx; Some (Fed_ListValue xs, ctx1) }"
| "insert_object_value sg enum_type [] ctx = Some ([], ctx)"
| "insert_object_value sg enum_type ((k, v) # rest) ctx = do {
     (key, ctx1) \<leftarrow> emit_insert_string sg k ctx;
     (x, ctx2) \<leftarrow> insert_value_with_type sg enum_type v ctx1;
     (xs, ctx3) \<leftarrow> insert_object_value sg enum_type rest ctx2;
     Some ((key, x) # xs, ctx3) }"
| "insert_list_value sg enum_type [] ctx = Some ([], ctx)"
| "insert_list_value sg enum_type (v # rest) ctx = do {
     (x, ctx1) \<leftarrow> insert_value_with_type sg enum_type v ctx;
     (xs, ctx2) \<leftarrow> insert_list_value sg enum_type rest ctx1;
     Some (x # xs, ctx2) }"

definition insert_value :: "Subgraphs \<Rightarrow> Value \<Rightarrow> EmitContext \<Rightarrow> (fed_Value \<times> EmitContext) panicking" where
  "insert_value sg v ctx = insert_value_with_type sg None v ctx"

definition insert_value_option ::
  "Subgraphs \<Rightarrow> Value option \<Rightarrow> TypeDefinitionId option \<Rightarrow> EmitContext \<Rightarrow> (fed_Value option \<times> EmitContext) panicking" where
  "insert_value_option sg v enum_type ctx =
     (case v of
        None \<Rightarrow> Some (None, ctx)
      | Some x \<Rightarrow> do { (y, ctx1) \<leftarrow> insert_value_with_type sg enum_type x ctx; Some (Some y, ctx1) })"

text \<open>The wrapping of a field type, from the innermost list outwards.\<close>

definition field_type_wrapping :: "bool \<Rightarrow> WrapperTypeKind list \<Rightarrow> Wrapping panicking" where
  "field_type_wrapping inner_required ws =
     foldM (\<lambda>wrapper wrapping. case wrapper of List \<Rightarrow> wrapped_by_nullable_list wrapping | NonNullList \<Rightarrow> wrapped_by_required_list wrapping)
       ws (new_wrapping inner_required)"

definition insert_field_type :: "Subgraphs \<Rightarrow> FieldTypeId \<Rightarrow> EmitContext \<Rightarrow> (fed_Type \<times> EmitContext) panicking" where
  "insert_field_type sg ty ctx = do {
     name_id \<leftarrow> type_name sg ty;
     (ty_name, ctx1) \<leftarrow> emit_insert_string sg name_id ctx;
     (case e_field_types_map ctx1 ty of
        Some t \<Rightarrow> Some (t, ctx1)
      | None \<Rightarrow> do {
          d \<leftarrow> e_definitions ctx1 ty_name;
          r \<leftarrow> inner_type_is_required sg ty;
          ws \<leftarrow> iter_wrappers sg ty;
          wrapping \<leftarrow> field_type_wrapping r ws;
          let t = \<lparr>ty_wrapping = wrapping, ty_definition = d\<rparr>;
          Some (t, ctx1\<lparr>e_field_types_map := (e_field_types_map ctx1)(ty \<mapsto> t)\<rparr>) }) }"

subsection \<open>Directives, subgraphs, input values\<close>

definition emit_directive :: "Subgraphs \<Rightarrow> ir_Directive \<Rightarrow> EmitContext \<Rightarrow> EmitContext panicking" where
  "emit_directive sg directive ctx = do {
     (converted, ctx1) \<leftarrow> (case directive of
         Directive_Authenticated \<Rightarrow> Some (Fed_Authenticated, ctx)
       | Directive_Deprecated reason \<Rightarrow> Some (Fed_Deprecated reason, ctx)
       | Directive_Inaccessible \<Rightarrow> Some (Fed_Inaccessible, ctx)
       | Directive_Policy ps \<Rightarrow> Some (Fed_Policy ps, ctx)
       | Directive_RequiresScopes ss \<Rightarrow> Some (Fed_RequiresScopes ss, ctx)
       | Directive_Other name arguments \<Rightarrow> do {
           (args, ctx') \<leftarrow> map_accumM (\<lambda>(name, v) ctx. do { (x, ctx') \<leftarrow> insert_value sg v ctx; Some ((name, x), ctx') }) arguments ctx;
           Some (Fed_Other name args, ctx') });
     Some (update_out (\<lambda>g. g\<lparr>fg_directives := fg_directives g @ [converted]\<rparr>) ctx1) }"

definition emit_directives :: "Subgraphs \<Rightarrow> ir_Directive list \<Rightarrow> EmitContext \<Rightarrow> EmitContext panicking" where
  "emit_directives sg directives ctx = foldM (emit_directive sg) directives ctx"

definition emit_subgraphs :: "Subgraphs \<Rightarrow> EmitContext \<Rightarrow> EmitContext panicking" where
  "emit_subgraphs sg ctx =
     foldM (\<lambda>(_, subgraph) ctx. do {
         (name, ctx1) \<leftarrow> emit_insert_string sg (s_name subgraph) ctx;
         (url, ctx2) \<leftarrow> emit_insert_string sg (s_url subgraph) ctx1;
         Some (update_out (\<lambda>g. g\<lparr>fg_subgraphs := fg_subgraphs g @ [\<lparr>fs_name = name, fs_url = url\<rparr>]\<rparr>) ctx2) })
       (iter_subgraphs sg) ctx"

definition emit_input_value_definitions :: "Subgraphs \<Rightarrow> InputValueDefinitionIr list \<Rightarrow> EmitContext \<Rightarrow> EmitContext panicking" where
  "emit_input_value_definitions sg input_value_definitions ctx = do {
     (xs, ctx1) \<leftarrow> map_accumM (\<lambda>iv ctx. do {
         (ty, ctx1) \<leftarrow> insert_field_type sg (iv_type iv) ctx;
         (dflt, ctx2) \<leftarrow> insert_value_option sg (iv_default iv) (as_enum (ty_definition ty)) ctx1;
         Some (\<lparr>fiv_name = iv_name iv, fiv_type = ty, fiv_directives = iv_directives iv,
                fiv_description = iv_description iv, fiv_default = dflt\<rparr>, ctx2) }) input_value_definitions ctx;
     Some (update_out (\<lambda>g. g\<lparr>fg_input_value_definitions := xs\<rparr>) ctx1) }"

subsection \<open>Interface implementations\<close>

text \<open>\<open>v[i]\<close> on the left of an assignment: the element is replaced, or the index is out of range.\<close>

definition vec_update :: "nat \<Rightarrow> ('a \<Rightarrow> 'a) \<Rightarrow> 'a list \<Rightarrow> 'a list panicking" where
  "vec_update i f xs = (if i < length xs then Some (xs[i := f (xs ! i)]) else None)"

definition update_object :: "ObjectId \<Rightarrow> (fed_Object \<Rightarrow> fed_Object) \<Rightarrow> EmitContext \<Rightarrow> EmitContext panicking" where
  "update_object i f ctx = do {
     xs \<leftarrow> vec_update i f (fg_objects (e_out ctx));
     Some (update_out (\<lambda>g. g\<lparr>fg_objects := xs\<rparr>) ctx) }"

definition update_interface :: "InterfaceId \<Rightarrow> (fed_Interface \<Rightarrow> fed_Interface) \<Rightarrow> EmitContext \<Rightarrow> EmitContext panicking" where
  "update_interface i f ctx = do {
     xs \<leftarrow> vec_update i f (fg_interfaces (e_out ctx));
     Some (update_out (\<lambda>g. g\<lparr>fg_interfaces := xs\<rparr>) ctx) }"

definition emit_interface_impl :: "Subgraphs \<Rightarrow> StringId \<times> StringId \<Rightarrow> EmitContext \<Rightarrow> EmitContext panicking" where
  "emit_interface_impl sg = (\<lambda>(implementee_name, implementer_name) ctx. do {
     (implementer, ctx1) \<leftarrow> emit_insert_string sg implementer_name ctx;
     (implementee_id, ctx2) \<leftarrow> emit_insert_string sg implementee_name ctx1;
     d \<leftarrow> e_definitions ctx2 implementee_id;
     (case d of
        Fed_Interface implementee \<Rightarrow> do {
          let joins = map (\<lambda>s. (s, implementee)) (subgraphs_implementing_interface sg implementee_name implementer_name);
          i \<leftarrow> e_definitions ctx2 implementer;
          (case i of
             Fed_Object object_id \<Rightarrow> update_object object_id (\<lambda>obj. obj\<lparr>
                 fo_implements_interfaces := fo_implements_interfaces obj @ [implementee],
                 fo_join_implements := fo_join_implements obj @ joins\<rparr>) ctx2
           | Fed_Interface interface_id \<Rightarrow> update_interface interface_id (\<lambda>interface. interface\<lparr>
                 fi_implements_interfaces := fi_implements_interfaces interface @ [implementee],
                 fi_join_implements := fi_join_implements interface @ joins\<rparr>) ctx2
           | _ \<Rightarrow> None) }
      | _ \<Rightarrow> Some ctx2) })"

definition emit_interface_impls :: "Subgraphs \<Rightarrow> EmitContext \<Rightarrow> EmitContext panicking" where
  "emit_interface_impls sg ctx = foldM (emit_interface_impl sg) (iter_interface_impls sg) ctx"

subsection \<open>Selections\<close>

definition attach_arguments ::
  "Subgraphs \<Rightarrow> InputValueDefinitions \<Rightarrow> Arguments \<Rightarrow> EmitContext \<Rightarrow> ((InputValueDefinitionId \<times> fed_Value) list \<times> EmitContext) panicking" where
  "attach_arguments sg args_range arguments ctx =
     map_accumM (\<lambda>(name, v) ctx. do {
         (arg_name, ctx1) \<leftarrow> emit_insert_string sg name ctx;
         candidates \<leftarrow> graph_input_values (e_out ctx1) args_range;
         idx \<leftarrow> position (\<lambda>arg. fiv_name arg = arg_name) candidates;
         let argument = fst args_range + idx;
         d \<leftarrow> vec_index (fg_input_value_definitions (e_out ctx1)) argument;
         (x, ctx2) \<leftarrow> insert_value_with_type sg (as_enum (ty_definition (fiv_type d))) v ctx1;
         Some ((argument, x), ctx2) }) arguments ctx"

fun attach_selection :: "Subgraphs \<Rightarrow> fed_Definition \<Rightarrow> Selection list \<Rightarrow> EmitContext \<Rightarrow> (SelectionSet \<times> EmitContext) panicking" where
  "attach_selection sg target [] ctx = Some ([], ctx)"
| "attach_selection sg target (Selection_Field name arguments subselection # rest) ctx = do {
     (selection_field, ctx1) \<leftarrow> emit_insert_string sg name ctx;
     field \<leftarrow> e_selection_map ctx1 (target, selection_field);
     f \<leftarrow> vec_index (fg_fields (e_out ctx1)) field;
     (args, ctx2) \<leftarrow> attach_arguments sg (ff_arguments f) arguments ctx1;
     (sub, ctx3) \<leftarrow> attach_selection sg (ty_definition (ff_type f)) subselection ctx2;
     (sels, ctx4) \<leftarrow> attach_selection sg target rest ctx3;
     Some (Fed_Field field args sub # sels, ctx4) }"
| "attach_selection sg target (InlineFragment on subselection # rest) ctx = do {
     (on_name, ctx1) \<leftarrow> emit_insert_string sg on ctx;
     d \<leftarrow> e_definitions ctx1 on_name;
     (sub, ctx2) \<leftarrow> attach_selection sg d subselection ctx1;
     (sels, ctx3) \<leftarrow> attach_selection sg target rest ctx2;
     Some (Fed_InlineFragment d sub # sels, ctx3) }"

definition attach_selection_option ::
  "Subgraphs \<Rightarrow> fed_Definition \<Rightarrow> Selection list option \<Rightarrow> EmitContext \<Rightarrow> (SelectionSet option \<times> EmitContext) panicking" where
  "attach_selection_option sg target selection ctx =
     (case selection of
        None \<Rightarrow> Some (None, ctx)
      | Some s \<Rightarrow> do { (x, ctx1) \<leftarrow> attach_selection sg target s ctx; Some (Some x, ctx1) })"

text \<open>A name that is not a field of the input object is dropped, an inline fragment as well.\<close>

fun attach_selection_on_input_object ::
  "Subgraphs \<Rightarrow> InputObjectId \<Rightarrow> Selection list \<Rightarrow> EmitContext \<Rightarrow> (InputValueDefinitionSetItem list \<times> EmitContext) panicking" where
  "attach_selection_on_input_object sg input_object_id [] ctx = Some ([], ctx)"
| "attach_selection_on_input_object sg input_object_id (InlineFragment on subselection # rest) ctx =
     attach_selection_on_input_object sg input_object_id rest ctx"
| "attach_selection_on_input_object sg input_object_id (Selection_Field name arguments subselection # rest) ctx = do {
     (f_name, ctx1) \<leftarrow> emit_insert_string sg name ctx;
     input_object \<leftarrow> vec_index (fg_input_objects (e_out ctx1)) input_object_id;
     candidates \<leftarrow> graph_input_values (e_out ctx1) (fio_fields input_object);
     (case position (\<lambda>f. fiv_name f = f_name) candidates of
        None \<Rightarrow> attach_selection_on_input_object sg input_object_id rest ctx1
      | Some idx \<Rightarrow> do {
          let field_id = fst (fio_fields input_object) + idx;
          d \<leftarrow> vec_index (fg_input_value_definitions (e_out ctx1)) field_id;
          (sub, ctx2) \<leftarrow> (case ty_definition (fiv_type d) of
             Fed_InputObject i \<Rightarrow> attach_selection_on_input_object sg i subselection ctx1
           | _ \<Rightarrow> Some ([], ctx1));
          (items, ctx3) \<leftarrow> attach_selection_on_input_object sg input_object_id rest ctx2;
          Some (InputValueDefinitionSetItem field_id sub # items, ctx3) }) }"

fun attach_argument_selection ::
  "Subgraphs \<Rightarrow> fed_FieldId \<Rightarrow> Selection list \<Rightarrow> EmitContext \<Rightarrow> (InputValueDefinitionSetItem list \<times> EmitContext) panicking" where
  "attach_argument_selection sg field_id [] ctx = Some ([], ctx)"
| "attach_argument_selection sg field_id (InlineFragment on subselection # rest) ctx =
     attach_argument_selection sg field_id rest ctx"
| "attach_argument_selection sg field_id (Selection_Field name arguments subselection # rest) ctx = do {
     (selection_field, ctx1) \<leftarrow> emit_insert_string sg name ctx;
     f \<leftarrow> vec_index (fg_fields (e_out ctx1)) field_id;
     candidates \<leftarrow> graph_input_values (e_out ctx1) (ff_arguments f);
     idx \<leftarrow> position (\<lambda>arg. fiv_name arg = selection_field) candidates;
     let argument_id = fst (ff_arguments f) + idx;
     d \<leftarrow> vec_index (fg_input_value_definitions (e_out ctx1)) argument_id;
     (sub, ctx2) \<leftarrow> (case ty_definition (fiv_type d) of
        Fed_InputObject i \<Rightarrow> attach_selection_on_input_object sg i subselection ctx1
      | _ \<Rightarrow> Some ([], ctx1));
     (items, ctx3) \<leftarrow> attach_argument_selection sg field_id rest ctx2;
     Some (InputValueDefinitionSetItem argument_id sub # items, ctx3) }"

subsection \<open>Fields\<close>

text \<open>The \<open>@provides\<close>, \<open>@requires\<close> and \<open>@authorized\<close> that wait until every field has its id.\<close>

record AuthorizedField =
  af_parent :: fed_Definition
  af_field_id :: fed_FieldId
  af_output :: fed_Definition
  af_directive :: AuthorizedDirective

record DelayedSelections =
  del_provides :: "(fed_FieldId \<times> fed_SubgraphId \<times> fed_Definition \<times> Selection list) list"
  del_requires :: "(fed_FieldId \<times> fed_SubgraphId \<times> fed_Definition \<times> Selection list) list"
  del_authorized :: "AuthorizedField list"

definition field_subgraph_id :: "Subgraphs \<Rightarrow> Field \<Rightarrow> SubgraphId panicking" where
  "field_subgraph_id sg field = def_subgraph_id sg (parent_definition field)"

definition collect_provides ::
  "Subgraphs \<Rightarrow> fed_FieldId \<Rightarrow> FieldId list \<Rightarrow> DelayedSelections \<times> EmitContext \<Rightarrow> (DelayedSelections \<times> EmitContext) panicking" where
  "collect_provides sg field_id ids s =
     foldM (\<lambda>id (del, ctx). do {
         field \<leftarrow> walk_field sg id;
         (case provides sg (field_directives field) of
            None \<Rightarrow> Some (del, ctx)
          | Some selection \<Rightarrow> do {
              name_id \<leftarrow> type_name sg (field_type field);
              (field_type_name, ctx1) \<leftarrow> emit_insert_string sg name_id ctx;
              subgraph_id \<leftarrow> field_subgraph_id sg field;
              d \<leftarrow> e_definitions ctx1 field_type_name;
              Some (del\<lparr>del_provides := del_provides del @ [(field_id, subgraph_id, d, selection)]\<rparr>, ctx1) }) })
       ids s"

definition collect_requires ::
  "Subgraphs \<Rightarrow> fed_FieldId \<Rightarrow> fed_Definition \<Rightarrow> FieldId list \<Rightarrow> DelayedSelections \<Rightarrow> DelayedSelections panicking" where
  "collect_requires sg field_id d ids del =
     foldM (\<lambda>id del. do {
         field \<leftarrow> walk_field sg id;
         (case requires sg (field_directives field) of
            None \<Rightarrow> Some del
          | Some selection \<Rightarrow> do {
              subgraph_id \<leftarrow> field_subgraph_id sg field;
              Some (del\<lparr>del_requires := del_requires del @ [(field_id, subgraph_id, d, selection)]\<rparr>) }) })
       ids del"

definition collect_authorized ::
  "Subgraphs \<Rightarrow> fed_FieldId \<Rightarrow> fed_Definition \<Rightarrow> fed_Definition \<Rightarrow> FieldId list \<Rightarrow> DelayedSelections \<Rightarrow> DelayedSelections panicking" where
  "collect_authorized sg field_id parent output_definition ids del =
     foldM (\<lambda>id del. do {
         field \<leftarrow> walk_field sg id;
         Some (case authorized sg (field_directives field) of
            None \<Rightarrow> del
          | Some directive \<Rightarrow> del\<lparr>del_authorized := del_authorized del @
              [\<lparr>af_parent = parent, af_field_id = field_id, af_output = output_definition, af_directive = directive\<rparr>]\<rparr>) })
       ids del"

definition emit_field ::
  "Subgraphs \<Rightarrow> fed_Definition \<Rightarrow> FieldIr \<Rightarrow> DelayedSelections \<times> EmitContext \<Rightarrow> (DelayedSelections \<times> EmitContext) panicking" where
  "emit_field sg d f = (\<lambda>(del, ctx). do {
     (ty, ctx1) \<leftarrow> insert_field_type sg (f_field_type f) ctx;
     (name, ctx2) \<leftarrow> emit_insert_string sg (f_field_name f) ctx1;
     let field = \<lparr>ff_name = name, ff_type = ty, ff_arguments = f_arguments f, ff_resolvable_in = f_resolvable_in f,
                  ff_provides = [], ff_requires = [], ff_overrides = f_overrides f,
                  ff_composed_directives = f_composed_directives f, ff_description = f_description f\<rparr>;
     let (field_id, fs) = push_return_idx (fg_fields (e_out ctx2)) field;
     let ctx3 = update_out (\<lambda>g. g\<lparr>fg_fields := fs\<rparr>) ctx2;
     (del1, ctx4) \<leftarrow> collect_provides sg field_id (f_provides f) (del, ctx3);
     del2 \<leftarrow> collect_requires sg field_id d (f_requires f) del1;
     del3 \<leftarrow> collect_authorized sg field_id d (ty_definition ty) (f_authorized_directives f) del2;
     Some (del3, ctx4\<lparr>e_selection_map := (e_selection_map ctx4)((d, name) \<mapsto> field_id)\<rparr>) })"

text \<open>
  \<open>fields.sort_by\<close> on the names, a stable sort.  Here the names are read first; the loop after the sort
  reads every one of them, so that a name out of range panics either way.
\<close>

definition sort_by_name :: "Subgraphs \<Rightarrow> FieldIr list \<Rightarrow> FieldIr list panicking" where
  "sort_by_name sg fs = do {
     names \<leftarrow> mapM (\<lambda>f. as_str sg (f_field_name f)) fs;
     Some (map snd (sort_key fst (zip names fs))) }"

definition entity_interface_fields ::
  "FieldIr list \<Rightarrow> (fed_StringId \<times> fed_FieldId) btree_set \<Rightarrow> fed_Definition \<Rightarrow> EmitContext \<Rightarrow> FieldIr list panicking" where
  "entity_interface_fields all_fields from_entity d ctx =
     (case d of
        Fed_Object i \<Rightarrow> do {
          td \<leftarrow> object_type_definition (e_out ctx) i;
          mapM (\<lambda>(_, field_id). vec_index all_fields field_id)
            (bs_range (td_name td, 0) (td_name td, usize_MAX) from_entity) }
      | _ \<Rightarrow> Some [])"

definition introspection_field :: "fed_Definition \<Rightarrow> fed_StringId \<Rightarrow> fed_Field" where
  "introspection_field d name =
    \<lparr>ff_name = name, ff_type = \<lparr>ty_wrapping = new_wrapping False, ty_definition = d\<rparr>, ff_arguments = NO_INPUT_VALUE_DEFINITION,
     ff_resolvable_in = [], ff_provides = [], ff_requires = [], ff_overrides = [], ff_composed_directives = NO_DIRECTIVES,
     ff_description = None\<rparr>"

text \<open>
  The range of the group.  \<open>start_field_id\<close> and \<open>end_field_id\<close> are the ids of the first and the last pushed
  field, so that the range is between the lengths of the table before and after the loop.
\<close>

definition group_fields :: "nat \<Rightarrow> nat \<Rightarrow> fed_Fields" where
  "group_fields start_len end_len = (if start_len < end_len then (start_len, end_len) else NO_FIELDS)"

definition set_group_fields ::
  "fed_StringId \<Rightarrow> fed_StringId \<Rightarrow> fed_Definition \<Rightarrow> fed_Fields \<Rightarrow> EmitContext \<Rightarrow> EmitContext panicking" where
  "set_group_fields schema_name type_field_name d fs ctx =
     (case d of
        Fed_Object i \<Rightarrow>
          if i = root_query (fg_root_operation_types (e_out ctx))
          then update_object i (\<lambda>obj. obj\<lparr>fo_fields := (fst fs, snd fs + 2)\<rparr>)
                 (update_out (\<lambda>g. g\<lparr>fg_fields := fg_fields g @ map (introspection_field d) [schema_name, type_field_name]\<rparr>) ctx)
          else update_object i (\<lambda>obj. obj\<lparr>fo_fields := fs\<rparr>) ctx
      | Fed_Interface i \<Rightarrow> update_interface i (\<lambda>interface. interface\<lparr>fi_fields := fs\<rparr>) ctx
      | _ \<Rightarrow> None)"

definition emit_field_group ::
  "Subgraphs \<Rightarrow> FieldIr list \<Rightarrow> (fed_StringId \<times> fed_FieldId) btree_set \<Rightarrow> fed_StringId \<Rightarrow> fed_StringId \<Rightarrow>
   FieldIr list \<Rightarrow> DelayedSelections \<times> EmitContext \<Rightarrow> (DelayedSelections \<times> EmitContext) panicking" where
  "emit_field_group sg all_fields from_entity schema_name type_field_name group_list = (\<lambda>(del, ctx). do {
     d \<leftarrow> map_option f_parent_definition (vec_index group_list 0);
     more \<leftarrow> entity_interface_fields all_fields from_entity d ctx;
     sorted_fields \<leftarrow> sort_by_name sg (group_list @ more);
     (del1, ctx1) \<leftarrow> foldM (emit_field sg d) sorted_fields (del, ctx);
     let fs = group_fields (length (fg_fields (e_out ctx))) (length (fg_fields (e_out ctx1)));
     ctx2 \<leftarrow> set_group_fields schema_name type_field_name d fs ctx1;
     Some (del1, ctx2) })"

definition emit_for_each_field_group :: "FieldIr list \<Rightarrow> (FieldIr list \<Rightarrow> 's \<Rightarrow> 's panicking) \<Rightarrow> 's \<Rightarrow> 's panicking" where
  "emit_for_each_field_group fs f s = group_slices f_parent_definition f fs 0 s"

definition update_field :: "fed_FieldId \<Rightarrow> (fed_Field \<Rightarrow> fed_Field) \<Rightarrow> EmitContext \<Rightarrow> EmitContext panicking" where
  "update_field i f ctx = do {
     xs \<leftarrow> vec_update i f (fg_fields (e_out ctx));
     Some (update_out (\<lambda>g. g\<lparr>fg_fields := xs\<rparr>) ctx) }"

definition emit_provides :: "Subgraphs \<Rightarrow> fed_FieldId \<times> fed_SubgraphId \<times> fed_Definition \<times> Selection list \<Rightarrow> EmitContext \<Rightarrow> EmitContext panicking" where
  "emit_provides sg = (\<lambda>(field_id, subgraph_id, d, selection) ctx. do {
     (fs, ctx1) \<leftarrow> attach_selection sg d selection ctx;
     update_field field_id (\<lambda>f. f\<lparr>ff_provides := ff_provides f @ [\<lparr>fp_subgraph_id = subgraph_id, fp_fields = fs\<rparr>]\<rparr>) ctx1 })"

definition emit_requires :: "Subgraphs \<Rightarrow> fed_FieldId \<times> fed_SubgraphId \<times> fed_Definition \<times> Selection list \<Rightarrow> EmitContext \<Rightarrow> EmitContext panicking" where
  "emit_requires sg = (\<lambda>(field_id, subgraph_id, d, selection) ctx. do {
     (fs, ctx1) \<leftarrow> attach_selection sg d selection ctx;
     update_field field_id (\<lambda>f. f\<lparr>ff_requires := ff_requires f @ [\<lparr>fr_subgraph_id = subgraph_id, fr_fields = fs\<rparr>]\<rparr>) ctx1 })"

definition push_authorized_directive :: "fed_AuthorizedDirective \<Rightarrow> EmitContext \<Rightarrow> AuthorizedDirectiveId \<times> EmitContext" where
  "push_authorized_directive a ctx =
     (let (i, xs) = push_return_idx (fg_authorized_directives (e_out ctx)) a
      in (i, update_out (\<lambda>g. g\<lparr>fg_authorized_directives := xs\<rparr>) ctx))"

definition emit_field_authorized :: "Subgraphs \<Rightarrow> AuthorizedField \<Rightarrow> EmitContext \<Rightarrow> EmitContext panicking" where
  "emit_field_authorized sg a ctx = do {
     (fs, ctx1) \<leftarrow> attach_selection_option sg (af_parent a) (auth_fields (af_directive a)) ctx;
     (node, ctx2) \<leftarrow> attach_selection_option sg (af_output a) (auth_node (af_directive a)) ctx1;
     (metadata, ctx3) \<leftarrow> insert_value_option sg (auth_metadata (af_directive a)) None ctx2;
     (arguments, ctx4) \<leftarrow> (case auth_arguments (af_directive a) of
         None \<Rightarrow> Some (None, ctx3)
       | Some args \<Rightarrow> do { (x, ctx') \<leftarrow> attach_argument_selection sg (af_field_id a) args ctx3; Some (Some x, ctx') });
     let (idx, ctx5) = push_authorized_directive
           \<lparr>fa_fields = fs, fa_node = node, fa_arguments = arguments, fa_metadata = metadata\<rparr> ctx4;
     Some (update_out (\<lambda>g. g\<lparr>fg_field_authorized_directives := fg_field_authorized_directives g @ [(af_field_id a, idx)]\<rparr>) ctx5) }"

definition emit_fields ::
  "Subgraphs \<Rightarrow> FieldIr list \<Rightarrow> (fed_StringId \<times> fed_FieldId) btree_set \<Rightarrow> fed_StringId \<Rightarrow> fed_StringId \<Rightarrow>
   EmitContext \<Rightarrow> EmitContext panicking" where
  "emit_fields sg fs from_entity schema_name type_field_name ctx = do {
     (del, ctx1) \<leftarrow> emit_for_each_field_group fs (emit_field_group sg fs from_entity schema_name type_field_name)
        (\<lparr>del_provides = [], del_requires = [], del_authorized = []\<rparr>, ctx);
     ctx2 \<leftarrow> foldM (emit_provides sg) (del_provides del) ctx1;
     ctx3 \<leftarrow> foldM (emit_requires sg) (del_requires del) ctx2;
     foldM (emit_field_authorized sg) (del_authorized del) ctx3 }"

subsection \<open>Union members, keys, authorizations\<close>

text \<open>\<open>Itertools::chunk_by\<close>: the maximal runs of consecutive elements with the same key.\<close>

function chunk_by :: "('a \<Rightarrow> 'k) \<Rightarrow> 'a list \<Rightarrow> 'a list list" where
  "chunk_by key [] = []"
| "chunk_by key (x # xs) =
     (x # takeWhile (\<lambda>y. key y = key x) xs) # chunk_by key (dropWhile (\<lambda>y. key y = key x) xs)"
  by pat_completeness auto
termination
  by (relation "measure (\<lambda>(_, xs). length xs)") (auto simp: length_dropWhile_le less_Suc_eq_le)

definition emit_union_member ::
  "(fed_StringId \<times> fed_StringId, SubgraphId list) btree_map \<Rightarrow> UnionId \<Rightarrow> fed_StringId \<times> fed_StringId \<Rightarrow> EmitContext \<Rightarrow> EmitContext panicking" where
  "emit_union_member join_members union_id = (\<lambda>(union_name, member) ctx. do {
     d \<leftarrow> e_definitions ctx member;
     (case d of
        Fed_Object object_id \<Rightarrow> do {
          let joins = (case map_of join_members (union_name, member) of None \<Rightarrow> [] | Some ids \<Rightarrow> ids);
          xs \<leftarrow> vec_update union_id (\<lambda>u. u\<lparr>
              fu_members := fu_members u @ [object_id],
              fu_join_members := fold (\<lambda>s. bs_insert (s, object_id)) joins (fu_join_members u)\<rparr>) (fg_unions (e_out ctx));
          Some (update_out (\<lambda>g. g\<lparr>fg_unions := xs\<rparr>) ctx) }
      | _ \<Rightarrow> Some ctx) })"

definition emit_union_members ::
  "(fed_StringId \<times> fed_StringId) btree_set \<Rightarrow> (fed_StringId \<times> fed_StringId, SubgraphId list) btree_map \<Rightarrow>
   EmitContext \<Rightarrow> EmitContext panicking" where
  "emit_union_members members join_members ctx =
     foldM (\<lambda>chunk ctx. do {
         (union_name, _) \<leftarrow> vec_index chunk 0;
         d \<leftarrow> e_definitions ctx union_name;
         (case d of
            Fed_Union union_id \<Rightarrow> do {
              _ \<leftarrow> vec_index (fg_unions (e_out ctx)) union_id;
              foldM (emit_union_member join_members union_id) chunk ctx }
          | _ \<Rightarrow> Some ctx) })
       (chunk_by fst members) ctx"

definition emit_key :: "Subgraphs \<Rightarrow> KeyIr \<Rightarrow> EmitContext \<Rightarrow> EmitContext panicking" where
  "emit_key sg k ctx = do {
     selection \<leftarrow> key_fields sg (key_id k);
     (fs, ctx1) \<leftarrow> attach_selection sg (key_parent k) selection ctx;
     parent \<leftarrow> key_parent_definition sg (key_id k);
     subgraph_id \<leftarrow> def_subgraph_id sg parent;
     let key = \<lparr>fk_subgraph_id = subgraph_id, fk_fields = fs,
                fk_is_interface_object = key_is_interface_object k, fk_resolvable = key_resolvable k\<rparr>;
     (case key_parent k of
        Fed_Object i \<Rightarrow> update_object i (\<lambda>obj. obj\<lparr>fo_keys := fo_keys obj @ [key]\<rparr>) ctx1
      | Fed_Interface i \<Rightarrow> update_interface i (\<lambda>interface. interface\<lparr>fi_keys := fi_keys interface @ [key]\<rparr>) ctx1
      | _ \<Rightarrow> None) }"

definition emit_keys :: "Subgraphs \<Rightarrow> KeyIr list \<Rightarrow> EmitContext \<Rightarrow> EmitContext panicking" where
  "emit_keys sg ks ctx = foldM (emit_key sg) ks ctx"

definition emit_definition_authorized ::
  "Subgraphs \<Rightarrow> fed_Definition \<Rightarrow> DirectiveSiteId \<Rightarrow> EmitContext \<Rightarrow> (AuthorizedDirectiveId \<times> EmitContext) panicking" where
  "emit_definition_authorized sg target site ctx = do {
     a \<leftarrow> authorized sg site;
     (metadata, ctx1) \<leftarrow> insert_value_option sg (auth_metadata a) None ctx;
     (fs, ctx2) \<leftarrow> attach_selection_option sg target (auth_fields a) ctx1;
     Some (push_authorized_directive \<lparr>fa_fields = fs, fa_node = None, fa_arguments = None, fa_metadata = metadata\<rparr> ctx2) }"

definition emit_authorized_directives :: "Subgraphs \<Rightarrow> CompositionIr \<Rightarrow> EmitContext \<Rightarrow> EmitContext panicking" where
  "emit_authorized_directives sg ir ctx = do {
     ctx1 \<leftarrow> foldM (\<lambda>(object_id, site) ctx. do {
         (idx, ctx') \<leftarrow> emit_definition_authorized sg (Fed_Object object_id) site ctx;
         Some (update_out (\<lambda>g. g\<lparr>fg_object_authorized_directives := fg_object_authorized_directives g @ [(object_id, idx)]\<rparr>) ctx') })
       (ir_object_authorized_directives ir) ctx;
     foldM (\<lambda>(interface_id, site) ctx. do {
         (idx, ctx') \<leftarrow> emit_definition_authorized sg (Fed_Interface interface_id) site ctx;
         Some (update_out (\<lambda>g. g\<lparr>fg_interface_authorized_directives := fg_interface_authorized_directives g @ [(interface_id, idx)]\<rparr>) ctx') })
       (ir_interface_authorized_directives ir) ctx1 }"

subsection \<open>The whole emission\<close>

text \<open>
  The graph that is given to \<open>render_federated_sdl\<close>.  Dropping the context moves the strings into it.
\<close>

definition emit_initial_graph :: "CompositionIr \<Rightarrow> ObjectId \<Rightarrow> FederatedGraph" where
  "emit_initial_graph ir query =
    \<lparr>fg_subgraphs = [],
     fg_root_operation_types = \<lparr>root_query = query, root_mutation = ir_mutation_type ir, root_subscription = ir_subscription_type ir\<rparr>,
     fg_type_definitions = ir_type_definitions ir, fg_objects = ir_objects ir, fg_interfaces = ir_interfaces ir,
     fg_fields = [], fg_unions = ir_unions ir, fg_input_objects = ir_input_objects ir, fg_enum_values = ir_enum_values ir,
     fg_input_value_definitions = [], fg_strings = [], fg_directives = [], fg_authorized_directives = [],
     fg_field_authorized_directives = [], fg_object_authorized_directives = [], fg_interface_authorized_directives = []\<rparr>"

definition emit_context_new :: "CompositionIr \<Rightarrow> string list \<Rightarrow> FederatedGraph \<Rightarrow> EmitContext" where
  "emit_context_new ir strs out =
    \<lparr>e_out = out, e_field_types_map = Map.empty, e_selection_map = Map.empty,
     e_definitions = ir_definitions_by_name ir, e_strings_ir = strs\<rparr>"

definition emit_federated_graph :: "Subgraphs \<Rightarrow> CompositionIr \<Rightarrow> FederatedGraph panicking" where
  "emit_federated_graph sg ir = do {
     let (schema_name, strs1) = strings_ir_insert (ir_strings ir) ''__schema'';
     let (type_field_name, strs2) = strings_ir_insert strs1 ''__type'';
     query \<leftarrow> ir_query_type ir;
     let ctx = emit_context_new ir strs2 (emit_initial_graph ir query);
     ctx1 \<leftarrow> emit_directives sg (ir_directives ir) ctx;
     ctx2 \<leftarrow> emit_subgraphs sg ctx1;
     ctx3 \<leftarrow> emit_interface_impls sg ctx2;
     ctx4 \<leftarrow> emit_input_value_definitions sg (ir_input_value_definitions ir) ctx3;
     ctx5 \<leftarrow> emit_fields sg (ir_fields ir) (ir_object_fields_from_entity_interfaces ir) schema_name type_field_name ctx4;
     ctx6 \<leftarrow> emit_union_members (ir_union_members ir) (ir_union_join_members ir) ctx5;
     ctx7 \<leftarrow> emit_keys sg (ir_keys ir) ctx6;
     ctx8 \<leftarrow> emit_authorized_directives sg ir ctx7;
     Some ((e_out ctx8)\<lparr>fg_strings := into_federated_strings (e_strings_ir ctx8)\<rparr>) }"

end
