(* ===== verification/Compose_Fields.thy ===== *)
theory Compose_Fields
  imports Compose_Directives
begin

text \<open>
  Composition of fields, of input objects and of interfaces:
  \<open>src/engine/crates/composition/src/compose/fields.rs\<close>, \<open>input_object.rs\<close>, \<open>interface.rs\<close>.
\<close>

subsection \<open>Names for messages\<close>

text \<open>The chains \<open>d.name().as_str()\<close>, \<open>d.subgraph().name().as_str()\<close>, \<open>f.name().as_str()\<close>.\<close>

definition def_name_str :: "Subgraphs \<Rightarrow> DefinitionId \<Rightarrow> string panicking" where
  "def_name_str sg d = do { n \<leftarrow> def_name sg d; as_str sg n }"

definition def_subgraph_name :: "Subgraphs \<Rightarrow> DefinitionId \<Rightarrow> string panicking" where
  "def_subgraph_name sg d = do { s \<leftarrow> def_subgraph sg d; as_str sg (s_name s) }"

definition field_name_str :: "Subgraphs \<Rightarrow> Field \<Rightarrow> string panicking" where
  "field_name_str sg f = as_str sg (field_name f)"

text \<open>\<open>definitions.iter().find_map(|def| def.description())\<close>.\<close>

definition find_description :: "Subgraphs \<Rightarrow> DefinitionId list \<Rightarrow> StringId option panicking" where
  "find_description sg definitions = find_mapM (def_description sg) definitions"

subsection \<open>Groups of fields (\<open>fields.rs\<close>)\<close>

definition all_fields_by_name :: "Subgraphs \<Rightarrow> DefinitionId list \<Rightarrow> (StringId \<times> Field) list" where
  "all_fields_by_name sg definitions =
     sort_key fst (concat (map (\<lambda>def. map (\<lambda>field. (field_name field, field)) (def_fields sg def)) definitions))"

definition for_each_field_group ::
  "Subgraphs \<Rightarrow> DefinitionId list \<Rightarrow> (Field list \<Rightarrow> 's \<Rightarrow> 's panicking) \<Rightarrow> 's \<Rightarrow> 's panicking" where
  "for_each_field_group sg definitions compose_fn s =
     group_slices fst (\<lambda>fields s. compose_fn (map snd fields) s) (all_fields_by_name sg definitions) 0 s"

text \<open>The \<open>try_fold\<close> over the types: the two conflicting items, or the composed type.\<close>

fun fold_types ::
  "(FieldTypeId \<Rightarrow> FieldTypeId \<Rightarrow> FieldTypeId option panicking) \<Rightarrow> ('f \<Rightarrow> FieldTypeId) \<Rightarrow> 'f \<Rightarrow> FieldTypeId \<Rightarrow> 'f list \<Rightarrow>
   ('f \<times> 'f + FieldTypeId) panicking" where
  "fold_types compose_fn ty_of a_field a_type [] = Some (Inr a_type)"
| "fold_types compose_fn ty_of a_field a_type (b_field # rest) = do {
     r \<leftarrow> compose_fn a_type (ty_of b_field);
     (case r of Some ty \<Rightarrow> fold_types compose_fn ty_of a_field ty rest | None \<Rightarrow> Some (Inl (a_field, b_field))) }"

definition conflicting_types_message :: "Subgraphs \<Rightarrow> Field \<Rightarrow> Field \<Rightarrow> Field \<Rightarrow> string panicking" where
  "conflicting_types_message sg first a_field b_field = do {
     parent \<leftarrow> def_name_str sg (parent_definition first);
     name \<leftarrow> field_name_str sg first;
     a_type \<leftarrow> type_display sg (field_type a_field);
     a_subgraph \<leftarrow> def_subgraph_name sg (parent_definition a_field);
     b_type \<leftarrow> type_display sg (field_type b_field);
     b_subgraph \<leftarrow> def_subgraph_name sg (parent_definition b_field);
     Some (''The '' @ parent @ ''.'' @ name @ '' field has conflicting types in different subgraphs: ''
       @ a_type @ '' in '' @ a_subgraph @ '' but '' @ b_type @ '' in '' @ b_subgraph) }"

definition compose_field_types ::
  "Subgraphs \<Rightarrow> (FieldTypeId \<Rightarrow> FieldTypeId \<Rightarrow> FieldTypeId option panicking) \<Rightarrow> Field list \<Rightarrow> Context \<Rightarrow>
   (FieldTypeId option \<times> Context) panicking" where
  "compose_field_types sg compose_fn field_list ctx =
     (case field_list of
        [] \<Rightarrow> Some (None, ctx)
      | first # rest \<Rightarrow> do {
          r \<leftarrow> fold_types compose_fn field_type first (field_type first) rest;
          (case r of
             Inr ty \<Rightarrow> Some (Some ty, ctx)
           | Inl (a_field, b_field) \<Rightarrow> do {
               m \<leftarrow> conflicting_types_message sg first a_field b_field;
               Some (None, ctx_push_fatal m ctx) }) })"

definition compose_input_field_types :: "Subgraphs \<Rightarrow> Field list \<Rightarrow> Context \<Rightarrow> (FieldTypeId option \<times> Context) panicking" where
  "compose_input_field_types sg field_list ctx = compose_field_types sg (compose_for_input sg) field_list ctx"

definition compose_output_field_types :: "Subgraphs \<Rightarrow> Field list \<Rightarrow> Context \<Rightarrow> (FieldTypeId option \<times> Context) panicking" where
  "compose_output_field_types sg field_list ctx = compose_field_types sg (compose_for_output sg) field_list ctx"

definition argument_parent_definition :: "Subgraphs \<Rightarrow> FieldArgument \<Rightarrow> DefinitionId panicking" where
  "argument_parent_definition sg a = map_option parent_definition (argument_field_walker sg a)"

definition argument_subgraph_name :: "Subgraphs \<Rightarrow> FieldArgument \<Rightarrow> string panicking" where
  "argument_subgraph_name sg a = do { d \<leftarrow> argument_parent_definition sg a; def_subgraph_name sg d }"

definition conflicting_argument_message ::
  "Subgraphs \<Rightarrow> StringId \<Rightarrow> StringId \<Rightarrow> FieldArgument \<Rightarrow> FieldArgument \<Rightarrow> string panicking" where
  "conflicting_argument_message sg parent_definition_name fname a_arg b_arg = do {
     parent \<leftarrow> as_str sg parent_definition_name;
     name \<leftarrow> as_str sg fname;
     arg \<leftarrow> as_str sg (argument_name a_arg);
     a_type \<leftarrow> type_display sg (argument_type a_arg);
     a_subgraph \<leftarrow> argument_subgraph_name sg a_arg;
     b_type \<leftarrow> type_display sg (argument_type b_arg);
     b_subgraph \<leftarrow> argument_subgraph_name sg b_arg;
     Some (''The '' @ parent @ ''.'' @ name @ ''('' @ arg @ '':) argument has conflicting types in different subgraphs: ''
       @ a_type @ '' in '' @ a_subgraph @ '' but '' @ b_type @ '' in '' @ b_subgraph) }"

definition compose_argument_types ::
  "Subgraphs \<Rightarrow> StringId \<Rightarrow> StringId \<Rightarrow> FieldArgument list \<Rightarrow> Context \<Rightarrow> (FieldTypeId option \<times> Context) panicking" where
  "compose_argument_types sg parent_definition_name fname arguments ctx =
     (case arguments of
        [] \<Rightarrow> Some (None, ctx)
      | first # rest \<Rightarrow> do {
          r \<leftarrow> fold_types (compose_for_input sg) argument_type first (argument_type first) rest;
          (case r of
             Inr ty \<Rightarrow> Some (Some ty, ctx)
           | Inl (a_arg, b_arg) \<Rightarrow> do {
               m \<leftarrow> conflicting_argument_message sg parent_definition_name fname a_arg b_arg;
               Some (None, ctx_push_fatal m ctx) }) })"

subsection \<open>Input objects (\<open>input_object.rs\<close>)\<close>

text \<open>The counters \<open>fields_range\<close> and \<open>ids\<close>: \<open>Some((_start, len))\<close> is incremented, \<open>None\<close> starts at the new id.\<close>

fun count_id :: "nat \<Rightarrow> (nat \<times> nat) option \<Rightarrow> (nat \<times> nat) option" where
  "count_id i None = Some (i, 1)"
| "count_id i (Some (start, len)) = Some (start, len + 1)"

text \<open>
  The set \<open>intersection\<close>: names of the first item's children that all the others have.  The slice
  \<open>items[1..]\<close> panics on an empty slice, which is never evaluated if the first item has no children.
\<close>

definition slice_from_1 :: "'a list \<Rightarrow> 'a list panicking" where
  "slice_from_1 xs = (if xs = [] then None else Some (tl xs))"

definition intersection_of :: "StringId list \<Rightarrow> ('a \<Rightarrow> StringId \<Rightarrow> bool) \<Rightarrow> 'a list \<Rightarrow> StringId set panicking" where
  "intersection_of names has items =
     map_option set (filterM (\<lambda>name. map_option (list_all (\<lambda>item. has item name)) (slice_from_1 items)) names)"

definition required_field_message :: "Subgraphs \<Rightarrow> DefinitionId \<Rightarrow> Field \<Rightarrow> string panicking" where
  "required_field_message sg first required_field = do {
     input_type_name \<leftarrow> def_name_str sg first;
     name \<leftarrow> field_name_str sg required_field;
     bad_subgraph \<leftarrow> def_subgraph_name sg (parent_definition required_field);
     Some (''The '' @ input_type_name @ ''.'' @ name @ '' field is not defined in all subgraphs, but it is required in '' @ bad_subgraph) }"

definition merge_input_field ::
  "Subgraphs \<Rightarrow> DefinitionId \<Rightarrow> StringId set \<Rightarrow> (StringId \<times> Field) list \<Rightarrow> (nat \<times> nat) option \<times> Context \<Rightarrow>
   ((nat \<times> nat) option \<times> Context) panicking" where
  "merge_input_field sg first intersection grp = (\<lambda>(fields_range, ctx). do {
     (fname, _) \<leftarrow> vec_index grp 0;
     if fname \<notin> intersection then do {
       required \<leftarrow> findM (\<lambda>(_, field). type_is_required sg (field_type field)) grp;
       (case required of
          Some (_, required_field) \<Rightarrow> do {
            m \<leftarrow> required_field_message sg first required_field;
            Some (fields_range, ctx_push_fatal m ctx) }
        | None \<Rightarrow> Some (fields_range, ctx)) }
     else do {
       (composed_directives, ctx1) \<leftarrow> collect_composed_directives sg (map (\<lambda>(_, field). field_directives field) grp) ctx;
       (description, ctx2) \<leftarrow> insert_string_option sg (find_map (\<lambda>(_, field). field_description field) grp) ctx1;
       (ty, ctx3) \<leftarrow> compose_input_field_types sg (map snd grp) ctx2;
       (case ty of
          None \<Rightarrow> Some (fields_range, ctx3)
        | Some fty \<Rightarrow> do {
            (name, ctx4) \<leftarrow> insert_string sg fname ctx3;
            let (i, ctx5) = insert_input_value_definition
              \<lparr>iv_name = name, iv_type = fty, iv_directives = composed_directives, iv_description = description,
               iv_default = find_map (\<lambda>(_, field). default_value sg field) grp\<rparr> ctx4;
            Some (count_id i fields_range, ctx5) }) } })"

definition merge_input_object_definitions ::
  "Subgraphs \<Rightarrow> DefinitionId \<Rightarrow> DefinitionId list \<Rightarrow> Context \<Rightarrow> Context panicking" where
  "merge_input_object_definitions sg first definitions ctx = do {
     description_id \<leftarrow> find_description sg definitions;
     description \<leftarrow> mapM_option (as_str sg) description_id;
     sites \<leftarrow> mapM (def_directives sg) definitions;
     (composed_directives, ctx1) \<leftarrow> collect_composed_directives sg sites ctx;
     first_name \<leftarrow> def_name sg first;
     (input_object_name, ctx2) \<leftarrow> insert_string sg first_name ctx1;
     intersection \<leftarrow> intersection_of (map field_name (def_fields sg first))
       (\<lambda>def name. find_field sg def name \<noteq> None) definitions;
     (fields_range, ctx3) \<leftarrow> group_slices fst (merge_input_field sg first intersection)
       (all_fields_by_name sg definitions) 0 (None, ctx2);
     let field_range = (case fields_range of Some r \<Rightarrow> r | None \<Rightarrow> NO_INPUT_VALUE_DEFINITION);
     Some (snd (insert_input_object input_object_name description composed_directives field_range ctx3)) }"

subsection \<open>Interfaces (\<open>interface.rs\<close>)\<close>

definition shareable_interface_field_message :: "Subgraphs \<Rightarrow> DefinitionId \<Rightarrow> Field \<Rightarrow> string panicking" where
  "shareable_interface_field_message sg first field = do {
     parent \<leftarrow> def_name_str sg first;
     name \<leftarrow> field_name_str sg field;
     Some (''The field '' @ parent @ ''.'' @ name @ '' is marked as shareable but this is not allowed on interfaces.'') }"

definition merge_interface_field ::
  "Subgraphs \<Rightarrow> DefinitionId \<Rightarrow> InterfaceId \<Rightarrow> (StringId \<times> Field) list \<Rightarrow> Context \<Rightarrow> Context panicking" where
  "merge_interface_field sg first interface_id grp ctx = do {
     (_, field) \<leftarrow> vec_index grp 0;
     (description, ctx1) \<leftarrow> insert_string_option sg (field_description field) ctx;
     ctx2 \<leftarrow> (if list_ex (\<lambda>(_, f). shareable sg (field_directives f)) grp
              then do { m \<leftarrow> shareable_interface_field_message sg first field; Some (ctx_push_fatal m ctx1) }
              else Some ctx1);
     (composed_directives, ctx3) \<leftarrow> collect_composed_directives sg (map (\<lambda>(_, f). field_directives f) grp) ctx2;
     (ty, ctx4) \<leftarrow> compose_output_field_types sg (map snd grp) ctx3;
     (case ty of
        None \<Rightarrow> Some ctx4
      | Some fty \<Rightarrow>
          Some (snd (insert_field
            \<lparr>f_parent_definition = Fed_Interface interface_id, f_field_name = field_name field,
             f_field_type = fty, f_arguments = NO_INPUT_VALUE_DEFINITION, f_resolvable_in = [],
             f_provides = [], f_requires = [],
             f_authorized_directives =
               map (\<lambda>(_, f). fst f) (filter (\<lambda>(_, f). authorized sg (field_directives f) \<noteq> None) grp),
             f_overrides = [], f_composed_directives = composed_directives, f_description = description\<rparr> ctx4))) }"

definition missing_implementation_message :: "Subgraphs \<Rightarrow> StringId \<Rightarrow> StringId \<Rightarrow> StringId \<Rightarrow> string panicking" where
  "missing_implementation_message sg interface_name name implementer_name = do {
     i \<leftarrow> as_str sg interface_name;
     f \<leftarrow> as_str sg name;
     o' \<leftarrow> as_str sg implementer_name;
     Some (''The `'' @ i @ ''.'' @ f @ ''` field is not implemented by `'' @ o' @ ''`, but it should be.'') }"

definition check_implementers :: "Subgraphs \<Rightarrow> StringId \<Rightarrow> StringId list \<Rightarrow> Context \<Rightarrow> Context panicking" where
  "check_implementers sg interface_name field_names ctx =
     foldM (\<lambda>implementer_name ctx.
       foldM (\<lambda>name ctx.
         if \<not> list_ex (\<lambda>(_, def). find_field sg def name \<noteq> None) (iter_definitions_with_name sg implementer_name)
         then do { m \<leftarrow> missing_implementation_message sg interface_name name implementer_name; Some (ctx_push_fatal m ctx) }
         else Some ctx) field_names ctx)
       (iter_implementers_for_interface sg interface_name) ctx"

definition insert_interface_authorizations :: "Subgraphs \<Rightarrow> InterfaceId \<Rightarrow> DirectiveSiteId list \<Rightarrow> Context \<Rightarrow> Context" where
  "insert_interface_authorizations sg interface_id sites ctx =
     fold (insert_interface_authorized interface_id) (filter (\<lambda>site. authorized sg site \<noteq> None) sites) ctx"

definition merge_interface_definitions ::
  "Subgraphs \<Rightarrow> DefinitionId \<Rightarrow> DefinitionId list \<Rightarrow> Context \<Rightarrow> Context panicking" where
  "merge_interface_definitions sg first definitions ctx = do {
     sites \<leftarrow> mapM (def_directives sg) definitions;
     (composed_directives, ctx1) \<leftarrow> collect_composed_directives sg sites ctx;
     description_id \<leftarrow> find_description sg definitions;
     description \<leftarrow> mapM_option (as_str sg) description_id;
     first_name \<leftarrow> def_name sg first;
     (interface_name, ctx2) \<leftarrow> insert_string sg first_name ctx1;
     let (interface_id, ctx3) = insert_interface interface_name description composed_directives ctx2;
     let ctx4 = insert_interface_authorizations sg interface_id sites ctx3;
     let all_fields = all_fields_by_name sg definitions;
     ctx5 \<leftarrow> group_slices fst (merge_interface_field sg first interface_id) all_fields 0 ctx4;
     check_implementers sg first_name (map fst (dedup_by (\<lambda>a b. fst a = fst b) all_fields)) ctx5 }"

end
