(* ===== verification/Compose_Enums.thy ===== *)
theory Compose_Enums
  imports Compose_Fields
begin

text \<open>
  Composition of enums and scalars: \<open>src/engine/crates/composition/src/compose/enums.rs\<close>, \<open>scalar.rs\<close>.
  An enum used only in inputs gets the values common to all subgraphs, one used only in outputs gets
  the values of any subgraph, one used in both must have the same values everywhere, and an unused one
  is left out.
\<close>

subsection \<open>Where an enum is used\<close>

definition enum_is_used_in_input :: "StringId \<Rightarrow> Subgraphs \<Rightarrow> bool panicking" where
  "enum_is_used_in_input enum_name sg = do {
     in_field_arguments \<leftarrow> anyM (\<lambda>arg. map_option (\<lambda>n. n = enum_name) (type_name sg (argument_type arg))) (iter_all_field_arguments sg);
     if in_field_arguments then Some True
     else anyM (\<lambda>field. do {
         kind \<leftarrow> def_kind sg (parent_definition field);
         if kind = InputObject then map_option (\<lambda>n. n = enum_name) (type_name sg (field_type field)) else Some False })
       (iter_all_fields sg) }"

definition enum_is_used_in_return_position :: "StringId \<Rightarrow> Subgraphs \<Rightarrow> bool panicking" where
  "enum_is_used_in_return_position enum_name sg =
     anyM (\<lambda>field. do {
         kind \<leftarrow> def_kind sg (parent_definition field);
         if kind = Object \<or> kind = Interface then map_option (\<lambda>n. n = enum_name) (type_name sg (field_type field)) else Some False })
       (iter_all_fields sg)"

subsection \<open>Merging the values\<close>

text \<open>The tail of a loop over values: collect the directives at the sites and insert the value.\<close>

definition insert_merged_value ::
  "Subgraphs \<Rightarrow> TypeDefinitionId \<Rightarrow> DirectiveSiteId list \<Rightarrow> StringId \<Rightarrow> Context \<Rightarrow> Context panicking" where
  "insert_merged_value sg enum_id sites value ctx = do {
     (composed_directives, ctx1) \<leftarrow> collect_composed_directives sg sites ctx;
     v \<leftarrow> as_str sg value;
     Some (snd (insert_enum_value v None composed_directives enum_id ctx1)) }"

definition value_sites :: "Subgraphs \<Rightarrow> DefinitionId list \<Rightarrow> StringId \<Rightarrow> DirectiveSiteId list" where
  "value_sites sg definitions value =
     map enum_value_directives (List.map_filter (\<lambda>enm. enum_value_by_name sg enm value) definitions)"

definition value_names :: "Subgraphs \<Rightarrow> DefinitionId \<Rightarrow> StringId list" where
  "value_names sg d = map enum_value_name (enum_values sg d)"

definition merge_intersection ::
  "Subgraphs \<Rightarrow> DefinitionId \<Rightarrow> DefinitionId list \<Rightarrow> TypeDefinitionId \<Rightarrow> Context \<Rightarrow> Context panicking" where
  "merge_intersection sg first definitions enum_id ctx = do {
     let intersection = fold (\<lambda>definition intersection.
         let scratch = set (value_names sg definition) in filter (\<lambda>elem. elem \<in> scratch) intersection)
       definitions (value_names sg first);
     ctx1 \<leftarrow> (if intersection = []
              then do { name \<leftarrow> def_name_str sg first;
                        Some (ctx_push_fatal (''Values for enum '' @ name @ '' are empty (intersection)'') ctx) }
              else Some ctx);
     foldM (\<lambda>value. insert_merged_value sg enum_id (value_sites sg definitions value) value) intersection ctx1 }"

definition merge_union ::
  "Subgraphs \<Rightarrow> DefinitionId list \<Rightarrow> TypeDefinitionId \<Rightarrow> Context \<Rightarrow> Context panicking" where
  "merge_union sg definitions enum_id ctx = do {
     let all_values = sort (concat (map (\<lambda>def. map (\<lambda>value. (enum_value_name value, enum_value_directives value)) (enum_values sg def)) definitions));
     group_slices fst (\<lambda>grp ctx. do {
         (name, _) \<leftarrow> vec_index grp 0;
         insert_merged_value sg enum_id (map snd grp) name ctx }) all_values 0 ctx }"

fun is_slice_match :: "'a list \<Rightarrow> nat \<Rightarrow> 'a list \<Rightarrow> bool panicking" where
  "is_slice_match slc idx [] = Some (idx = length slc)"
| "is_slice_match slc idx (item # items) = do {
     x \<leftarrow> vec_index slc idx;
     if x \<noteq> item then Some False else is_slice_match slc (idx + 1) items }"

definition merge_exactly_matching ::
  "Subgraphs \<Rightarrow> DefinitionId \<Rightarrow> DefinitionId list \<Rightarrow> TypeDefinitionId \<Rightarrow> Context \<Rightarrow> Context panicking" where
  "merge_exactly_matching sg first definitions enum_id ctx = do {
     let expected = value_names sg first;
     all_match \<leftarrow> allM (\<lambda>definition. is_slice_match expected 0 (value_names sg definition)) definitions;
     if \<not> all_match then do {
       name \<leftarrow> def_name_str sg first;
       Some (ctx_push_fatal (''The enum '' @ name @ '' should match exactly in all subgraphs, but it does not'') ctx) }
     else foldM (\<lambda>value. insert_merged_value sg enum_id (value_sites sg definitions value) value) expected ctx }"

definition merge_enum_definitions ::
  "Subgraphs \<Rightarrow> DefinitionId \<Rightarrow> DefinitionId list \<Rightarrow> Context \<Rightarrow> Context panicking" where
  "merge_enum_definitions sg first definitions ctx = do {
     enum_name \<leftarrow> def_name sg first;
     sites \<leftarrow> mapM (def_directives sg) definitions;
     (composed_directives, ctx1) \<leftarrow> collect_composed_directives sg sites ctx;
     description_id \<leftarrow> find_description sg definitions;
     description \<leftarrow> mapM_option (as_str sg) description_id;
     in_input \<leftarrow> enum_is_used_in_input enum_name sg;
     in_output \<leftarrow> enum_is_used_in_return_position enum_name sg;
     (if \<not> in_input \<and> \<not> in_output then Some ctx1
      else do {
        name \<leftarrow> as_str sg enum_name;
        let (enum_id, ctx2) = insert_enum name description composed_directives ctx1;
        if in_input \<and> in_output then merge_exactly_matching sg first definitions enum_id ctx2
        else if in_input then merge_intersection sg first definitions enum_id ctx2
        else merge_union sg definitions enum_id ctx2 }) }"

subsection \<open>Scalars\<close>

definition merge_scalar_definitions ::
  "Subgraphs \<Rightarrow> DefinitionId \<Rightarrow> DefinitionId list \<Rightarrow> Context \<Rightarrow> Context panicking" where
  "merge_scalar_definitions sg first definitions ctx = do {
     sites \<leftarrow> mapM (def_directives sg) definitions;
     (directives, ctx1) \<leftarrow> collect_composed_directives sg sites ctx;
     description_id \<leftarrow> find_description sg definitions;
     description \<leftarrow> mapM_option (as_str sg) description_id;
     name \<leftarrow> def_name_str sg first;
     Some (insert_scalar name description directives ctx1) }"

end
