(* ===== verification/Compose_Object.thy ===== *)
theory Compose_Object
  imports Compose_Fields
begin

text \<open>
  Composition of the fields of objects, their arguments and overrides:
  \<open>src/engine/crates/composition/src/compose/object.rs\<close>.
\<close>

subsection \<open>Arguments\<close>

definition incompatible_defaults_message :: "Subgraphs \<Rightarrow> FieldArgument \<Rightarrow> FieldArgument \<Rightarrow> string panicking" where
  "incompatible_defaults_message sg argument other_argument = do {
     d \<leftarrow> argument_parent_definition sg argument;
     ty \<leftarrow> def_name_str sg d;
     field \<leftarrow> argument_field_walker sg argument;
     fname \<leftarrow> field_name_str sg field;
     arg \<leftarrow> as_str sg (argument_name argument);
     first_subgraph \<leftarrow> argument_subgraph_name sg other_argument;
     second_subgraph \<leftarrow> argument_subgraph_name sg argument;
     Some (''The argument '' @ ty @ ''.'' @ fname @ ''.'' @ arg @ '' has incompatible defaults in subgraphs ''
       @ [CHR 0x22] @ first_subgraph @ [CHR 0x22] @ '' and '' @ [CHR 0x22] @ second_subgraph @ [CHR 0x22]) }"

fun defaults_loop ::
  "Subgraphs \<Rightarrow> FieldArgument list \<Rightarrow> (Value \<times> FieldArgument) option \<Rightarrow> Context \<Rightarrow> ((Value \<times> FieldArgument) option \<times> Context) panicking" where
  "defaults_loop sg [] dflt ctx = Some (dflt, ctx)"
| "defaults_loop sg (argument # arguments) dflt ctx =
     (case argument_default sg argument of
        None \<Rightarrow> defaults_loop sg arguments dflt ctx
      | Some v \<Rightarrow>
          (case dflt of
             None \<Rightarrow> defaults_loop sg arguments (Some (v, argument)) ctx
           | Some (d, other_argument) \<Rightarrow>
               if value_eq d v then defaults_loop sg arguments dflt ctx
               else do {
                 m \<leftarrow> incompatible_defaults_message sg argument other_argument;
                 defaults_loop sg arguments dflt (ctx_push_fatal m ctx) }))"

definition compose_field_argument_defaults ::
  "Subgraphs \<Rightarrow> (StringId \<times> FieldArgument) list \<Rightarrow> Context \<Rightarrow> (Value option \<times> Context) panicking" where
  "compose_field_argument_defaults sg arguments ctx = do {
     (dflt, ctx') \<leftarrow> defaults_loop sg (map snd arguments) None ctx;
     Some (map_option fst dflt, ctx') }"

definition required_argument_not_in_intersection_error ::
  "Subgraphs \<Rightarrow> Field list \<Rightarrow> FieldArgument \<Rightarrow> StringId \<Rightarrow> StringId \<Rightarrow> StringId \<Rightarrow> Context \<Rightarrow> Context panicking" where
  "required_argument_not_in_intersection_error sg field_list required_arg parent_definition_name fname arg_name ctx = do {
     subgraph_where_required \<leftarrow> argument_subgraph_name sg required_arg;
     subgraphs_where_missing \<leftarrow> mapM (\<lambda>field. def_subgraph_name sg (parent_definition field))
       (filter (\<lambda>field. argument_by_name sg field arg_name = None) field_list);
     parent \<leftarrow> as_str sg parent_definition_name;
     name \<leftarrow> as_str sg fname;
     arg \<leftarrow> as_str sg arg_name;
     Some (ctx_push_fatal (''The argument `'' @ parent @ ''.'' @ name @ ''('' @ arg @ '':)` is required in ''
       @ subgraph_where_required @ '' but missing in '' @ join_with '', '' subgraphs_where_missing @ ''.'') ctx) }"

text \<open>\<open>arg.type().definition(subgraph).map(|def| def.directives().inaccessible()).unwrap_or(false)\<close>.\<close>

definition type_is_inaccessible :: "Subgraphs \<Rightarrow> FieldTypeId \<Rightarrow> SubgraphId \<Rightarrow> bool panicking" where
  "type_is_inaccessible sg ty subgraph = do {
     d \<leftarrow> type_definition sg ty subgraph;
     (case d of
        None \<Rightarrow> Some False
      | Some def \<Rightarrow> map_option (inaccessible sg) (def_directives sg def)) }"

definition inaccessible_argument_message :: "Subgraphs \<Rightarrow> StringId \<Rightarrow> StringId \<Rightarrow> StringId \<Rightarrow> string panicking" where
  "inaccessible_argument_message sg parent_definition_name fname arg_name = do {
     parent \<leftarrow> as_str sg parent_definition_name;
     name \<leftarrow> as_str sg fname;
     arg \<leftarrow> as_str sg arg_name;
     Some (''The argument `'' @ parent @ ''.'' @ name @ ''('' @ arg
       @ '':)` is of an @inaccessible type, but is itself not marked as @inaccessible.'') }"

definition merge_argument ::
  "Subgraphs \<Rightarrow> Field list \<Rightarrow> StringId \<Rightarrow> StringId \<Rightarrow> StringId set \<Rightarrow> (StringId \<times> FieldArgument) list \<Rightarrow>
   (nat \<times> nat) option \<times> Context \<Rightarrow> ((nat \<times> nat) option \<times> Context) panicking" where
  "merge_argument sg field_list parent_definition_name fname intersection arguments = (\<lambda>(ids, ctx). do {
     (arg_name, _) \<leftarrow> vec_index arguments 0;
     (dflt, ctx1) \<leftarrow> compose_field_argument_defaults sg arguments ctx;
     if arg_name \<notin> intersection then do {
       required \<leftarrow> findM (\<lambda>(_, arg). type_is_required sg (argument_type arg)) arguments;
       (case required of
          Some (_, required_arg) \<Rightarrow> do {
            ctx2 \<leftarrow> required_argument_not_in_intersection_error sg field_list required_arg parent_definition_name fname arg_name ctx1;
            Some (ids, ctx2) }
        | None \<Rightarrow> Some (ids, ctx1)) }
     else do {
       (composed_directives, ctx2) \<leftarrow> collect_composed_directives sg (map (\<lambda>(_, arg). argument_directives arg) arguments) ctx1;
       (ty, ctx3) \<leftarrow> compose_argument_types sg parent_definition_name fname (map snd arguments) ctx2;
       (case ty of
          None \<Rightarrow> Some (ids, ctx3)
        | Some arg_type \<Rightarrow> do {
            type_inaccessible \<leftarrow> anyM (\<lambda>(_, arg). do {
                d \<leftarrow> argument_parent_definition sg arg;
                s \<leftarrow> def_subgraph_id sg d;
                type_is_inaccessible sg (argument_type arg) s }) arguments;
            ctx4 \<leftarrow> (if type_inaccessible \<and> \<not> list_ex (\<lambda>(_, arg). inaccessible sg (argument_directives arg)) arguments
                     then do { m \<leftarrow> inaccessible_argument_message sg parent_definition_name fname arg_name; Some (ctx_push_fatal m ctx3) }
                     else Some ctx3);
            (name, ctx5) \<leftarrow> insert_string sg arg_name ctx4;
            let (i, ctx6) = insert_input_value_definition
              \<lparr>iv_name = name, iv_type = arg_type, iv_directives = composed_directives, iv_description = None, iv_default = dflt\<rparr> ctx5;
            Some (count_id i ids, ctx6) }) } })"

definition all_arguments_by_name :: "Subgraphs \<Rightarrow> Field list \<Rightarrow> (StringId \<times> FieldArgument) list" where
  "all_arguments_by_name sg field_list =
     sort_key fst (map (\<lambda>arg. (argument_name arg, arg)) (concat (map (field_arguments sg) field_list)))"

definition merge_field_arguments :: "Subgraphs \<Rightarrow> Field \<Rightarrow> Field list \<Rightarrow> Context \<Rightarrow> (InputValueDefinitions \<times> Context) panicking" where
  "merge_field_arguments sg first field_list ctx = do {
     parent_definition_name \<leftarrow> def_name sg (parent_definition first);
     let fname = field_name first;
     intersection \<leftarrow> intersection_of (map argument_name (field_arguments sg first))
       (\<lambda>field name. argument_by_name sg field name \<noteq> None) field_list;
     (ids, ctx') \<leftarrow> group_slices fst (merge_argument sg field_list parent_definition_name fname intersection)
       (all_arguments_by_name sg field_list) 0 (None, ctx);
     Some (case ids of Some r \<Rightarrow> r | None \<Rightarrow> NO_INPUT_VALUE_DEFINITION, ctx') }"

subsection \<open>Overrides\<close>

definition same_override_message :: "Subgraphs \<Rightarrow> StringId \<Rightarrow> Field \<Rightarrow> string panicking" where
  "same_override_message sg from field = do {
     source \<leftarrow> as_str sg from;
     parent \<leftarrow> def_name_str sg (parent_definition field);
     name \<leftarrow> field_name_str sg field;
     Some (''Source and destination subgraphs '' @ [CHR 0x22] @ source @ [CHR 0x22]
       @ '' are the same for overridden field '' @ [CHR 0x22] @ parent @ ''.'' @ name @ [CHR 0x22]) }"

definition double_override_message :: "Subgraphs \<Rightarrow> Field \<Rightarrow> Field \<Rightarrow> string panicking" where
  "double_override_message sg override_source field = do {
     parent \<leftarrow> def_name_str sg (parent_definition override_source);
     name \<leftarrow> field_name_str sg override_source;
     source \<leftarrow> def_subgraph_name sg (parent_definition override_source);
     target \<leftarrow> def_subgraph_name sg (parent_definition field);
     Some (''Field '' @ [CHR 0x22] @ parent @ ''.'' @ name @ [CHR 0x22] @ '' on subgraph '' @ [CHR 0x22] @ source @ [CHR 0x22]
       @ '' is also marked with directive @override in subgraph '' @ [CHR 0x22] @ target @ [CHR 0x22]
       @ ''. Only one @override directive is allowed per field.'') }"

text \<open>\<open>label.and_then(|label| ...parse().ok()).unwrap_or_default()\<close>.\<close>

definition override_label_of :: "Subgraphs \<Rightarrow> StringId option \<Rightarrow> OverrideLabel panicking" where
  "override_label_of sg label =
     (case label of
        None \<Rightarrow> Some Unknown
      | Some l \<Rightarrow> do {
          s \<leftarrow> as_str sg l;
          Some (case override_label_from_str s of Inr label \<Rightarrow> label | Inl _ \<Rightarrow> Unknown) })"

definition override_source_of :: "Subgraphs \<Rightarrow> StringId \<Rightarrow> Context \<Rightarrow> (OverrideSource \<times> Context) panicking" where
  "override_source_of sg from ctx =
     (case position (\<lambda>(_, subgraph). s_name subgraph = from) (iter_subgraphs sg) of
        Some idx \<Rightarrow> Some (Source_Subgraph idx, ctx)
      | None \<Rightarrow> map_option (\<lambda>(i, ctx'). (Source_Missing i, ctx')) (insert_string sg from ctx))"

definition collect_override ::
  "Subgraphs \<Rightarrow> Field list \<Rightarrow> Field \<times> OverrideDirective \<Rightarrow> Override list \<times> Context \<Rightarrow> (Override list \<times> Context) panicking" where
  "collect_override sg field_list = (\<lambda>(field, directive) (overrides, ctx). do {
     field_subgraph \<leftarrow> def_subgraph sg (parent_definition field);
     if override_from directive = s_name field_subgraph then do {
       m \<leftarrow> same_override_message sg (override_from directive) field;
       Some (overrides, ctx_push_fatal m ctx) }
     else do {
       source \<leftarrow> findM (\<lambda>f. map_option (\<lambda>s. s_name s = override_from directive) (def_subgraph sg (parent_definition f))) field_list;
       ctx1 \<leftarrow> (case source of
           Some override_source \<Rightarrow>
             if override_directive sg (field_directives override_source) \<noteq> None
             then do { m \<leftarrow> double_override_message sg override_source field; Some (ctx_push_fatal m ctx) }
             else Some ctx
         | None \<Rightarrow> Some ctx);
       graph \<leftarrow> def_subgraph_id sg (parent_definition field);
       label \<leftarrow> override_label_of sg (override_label directive);
       (from, ctx2) \<leftarrow> override_source_of sg (override_from directive) ctx1;
       Some (overrides @ [\<lparr>ov_graph = graph, ov_from = from, ov_label = label\<rparr>], ctx2) } })"

definition collect_overrides :: "Subgraphs \<Rightarrow> Field list \<Rightarrow> Context \<Rightarrow> (Override list \<times> Context) panicking" where
  "collect_overrides sg field_list ctx =
     foldM (collect_override sg field_list)
       (List.map_filter (\<lambda>f. map_option (Pair f) (override_directive sg (field_directives f))) field_list) ([], ctx)"

subsection \<open>Fields\<close>

definition resolvable_in :: "Subgraphs \<Rightarrow> Field list \<Rightarrow> bool \<Rightarrow> fed_SubgraphId list panicking" where
  "resolvable_in sg field_list object_is_shareable =
     (if object_is_shareable \<or> list_ex (\<lambda>f. override_directive sg (field_directives f) \<noteq> None) field_list then Some []
      else do {
        resolvable \<leftarrow> filterM (\<lambda>field.
            if external sg (field_directives field) then Some False
            else map_option Not (is_part_of_key sg field)) field_list;
        mapM (\<lambda>field. def_subgraph_id sg (parent_definition field)) resolvable })"

definition counts_as_definition :: "Subgraphs \<Rightarrow> Field \<Rightarrow> bool panicking" where
  "counts_as_definition sg f =
     (let d = field_directives f
      in if shareable sg d \<or> external sg d then Some False
         else do {
           part_of_key \<leftarrow> is_part_of_key sg f;
           Some (\<not> (part_of_key \<or> override_directive sg d \<noteq> None)) })"

definition duplicate_field_message :: "Subgraphs \<Rightarrow> Field \<Rightarrow> Field \<Rightarrow> string panicking" where
  "duplicate_field_message sg first second = do {
     name \<leftarrow> field_name_str sg first;
     parent \<leftarrow> def_name_str sg (parent_definition first);
     first_subgraph \<leftarrow> def_subgraph_name sg (parent_definition first);
     second_subgraph \<leftarrow> def_subgraph_name sg (parent_definition second);
     Some (''The field `'' @ name @ ''` on `'' @ parent @ ''` is defined in two subgraphs (`'' @ first_subgraph
       @ ''` and `'' @ second_subgraph @ ''`).'') }"

definition inaccessible_field_message :: "Subgraphs \<Rightarrow> Field \<Rightarrow> Field list \<Rightarrow> string panicking" where
  "inaccessible_field_message sg first field_list = do {
     parent \<leftarrow> def_name_str sg (parent_definition first);
     name \<leftarrow> field_name_str sg first;
     non_marked_subgraphs \<leftarrow> mapM (\<lambda>f. def_subgraph_name sg (parent_definition f))
       (filter (\<lambda>f. \<not> inaccessible sg (field_directives f)) field_list);
     Some (''The field `'' @ parent @ ''.'' @ name
       @ ''` is of an @inaccessible type, but is itself not marked as @inaccessible in subgraphs ''
       @ join_with '', '' non_marked_subgraphs) }"

text \<open>Ids of the fields with a given directive: \<open>fields.iter().filter(..).map(|f| f.id.0).collect()\<close>.\<close>

definition fields_with :: "(DirectiveSiteId \<Rightarrow> bool) \<Rightarrow> Field list \<Rightarrow> FieldId list" where
  "fields_with p field_list = map fst (filter (\<lambda>f. p (field_directives f)) field_list)"

definition check_single_definition :: "Subgraphs \<Rightarrow> bool \<Rightarrow> Field \<Rightarrow> Field list \<Rightarrow> Context \<Rightarrow> Context panicking" where
  "check_single_definition sg object_is_shareable first field_list ctx =
     (if object_is_shareable then Some ctx
      else do {
        defining \<leftarrow> filterM (counts_as_definition sg) field_list;
        if length defining > 1 then do {
          second \<leftarrow> vec_index field_list 1;
          m \<leftarrow> duplicate_field_message sg first second;
          Some (ctx_push_fatal m ctx) }
        else Some ctx })"

definition check_inaccessible_type :: "Subgraphs \<Rightarrow> Field \<Rightarrow> Field list \<Rightarrow> Context \<Rightarrow> Context panicking" where
  "check_inaccessible_type sg first field_list ctx = do {
     unmarked \<leftarrow> anyM (\<lambda>field.
         if inaccessible sg (field_directives field) then Some False
         else do { s \<leftarrow> def_subgraph_id sg (parent_definition field); type_is_inaccessible sg (field_type field) s }) field_list;
     if unmarked then do { m \<leftarrow> inaccessible_field_message sg first field_list; Some (ctx_push_fatal m ctx) }
     else Some ctx }"

definition compose_object_fields ::
  "Subgraphs \<Rightarrow> ObjectId \<Rightarrow> bool \<Rightarrow> Field \<Rightarrow> Field list \<Rightarrow> Context \<Rightarrow> Context panicking" where
  "compose_object_fields sg parent_object object_is_shareable first field_list ctx = do {
     ctx1 \<leftarrow> check_single_definition sg object_is_shareable first field_list ctx;
     ctx2 \<leftarrow> check_inaccessible_type sg first field_list ctx1;
     (arguments, ctx3) \<leftarrow> merge_field_arguments sg first field_list ctx2;
     resolvable \<leftarrow> resolvable_in sg field_list object_is_shareable;
     (overrides, ctx4) \<leftarrow> collect_overrides sg field_list ctx3;
     (description, ctx5) \<leftarrow> insert_string_option sg (find_map field_description field_list) ctx4;
     (composed_directives, ctx6) \<leftarrow> collect_composed_directives sg (map field_directives field_list) ctx5;
     (ty, ctx7) \<leftarrow> compose_output_field_types sg field_list ctx6;
     (case ty of
        None \<Rightarrow> Some ctx7
      | Some fty \<Rightarrow>
          Some (snd (insert_field
            \<lparr>f_parent_definition = Fed_Object parent_object, f_field_name = field_name first, f_field_type = fty,
             f_arguments = arguments, f_resolvable_in = resolvable,
             f_provides = fields_with (\<lambda>d. provides sg d \<noteq> None) field_list,
             f_requires = fields_with (\<lambda>d. requires sg d \<noteq> None) field_list,
             f_authorized_directives = fields_with (\<lambda>d. authorized sg d \<noteq> None) field_list,
             f_overrides = overrides, f_composed_directives = composed_directives, f_description = description\<rparr> ctx7))) }"

definition missing_shareable_field_message :: "Subgraphs \<Rightarrow> DefinitionId \<Rightarrow> StringId \<Rightarrow> string panicking" where
  "missing_shareable_field_message sg definition fname = do {
     subgraph \<leftarrow> def_subgraph_name sg definition;
     parent \<leftarrow> def_name_str sg definition;
     name \<leftarrow> as_str sg fname;
     Some (''['' @ subgraph @ ''] The shareable object `'' @ parent @ ''` is missing the `'' @ name
       @ ''` field defined in other subgraphs.'') }"

definition validate_shareable_object_fields_match :: "Subgraphs \<Rightarrow> DefinitionId list \<Rightarrow> Context \<Rightarrow> Context panicking" where
  "validate_shareable_object_fields_match sg definitions ctx = do {
     let field_list = concat (map (def_fields sg) definitions);
     let all_fields = fold bs_insert (map field_name field_list) [];
     let inaccessible_fields = fold bs_insert
       (map field_name (filter (\<lambda>field. inaccessible sg (field_directives field)) field_list)) [];
     let difference = filter (\<lambda>name. name \<notin> set inaccessible_fields) all_fields;
     foldM (\<lambda>definition ctx.
         foldM (\<lambda>name ctx.
             if find_field sg definition name = None
             then do { m \<leftarrow> missing_shareable_field_message sg definition name; Some (ctx_push_fatal m ctx) }
             else Some ctx) difference ctx) definitions ctx }"

end
