(* ===== verification/Compose_Entity.thy ===== *)
theory Compose_Entity
  imports Compose_Object
begin

text \<open>
  Composition of entity interfaces: \<open>src/engine/crates/composition/src/compose/entity_interface.rs\<close>.
\<close>

text \<open>The derived \<open>PartialEq\<close> of \<open>Selection\<close>.\<close>

fun selection_eq :: "Selection \<Rightarrow> Selection \<Rightarrow> bool"
  and selections_eq :: "Selection list \<Rightarrow> Selection list \<Rightarrow> bool" where
  "selection_eq (Selection_Field f args sel) (Selection_Field f' args' sel') \<longleftrightarrow>
     f = f' \<and> value_eq_fields args args' \<and> selections_eq sel sel'"
| "selection_eq (InlineFragment on sel) (InlineFragment on' sel') \<longleftrightarrow> on = on' \<and> selections_eq sel sel'"
| "selection_eq _ _ \<longleftrightarrow> False"
| "selections_eq [] [] \<longleftrightarrow> True"
| "selections_eq (x # xs) (y # ys) \<longleftrightarrow> selection_eq x y \<and> selections_eq xs ys"
| "selections_eq _ _ \<longleftrightarrow> False"

definition translate_arguments :: "Subgraphs \<Rightarrow> Field \<Rightarrow> Context \<Rightarrow> (InputValueDefinitions \<times> Context) panicking" where
  "translate_arguments sg field ctx = do {
     (ids, ctx') \<leftarrow> foldM (\<lambda>arg (ids, ctx). do {
         (directives, ctx1) \<leftarrow> collect_composed_directives sg [argument_directives arg] ctx;
         (name, ctx2) \<leftarrow> insert_string sg (argument_name arg) ctx1;
         let (i, ctx3) = insert_input_value_definition
           \<lparr>iv_name = name, iv_type = argument_type arg, iv_directives = directives, iv_description = None,
            iv_default = argument_default sg arg\<rparr> ctx2;
         Some (count_id i ids, ctx3) }) (field_arguments sg field) (None, ctx);
     Some (case ids of Some r \<Rightarrow> r | None \<Rightarrow> NO_INPUT_VALUE_DEFINITION, ctx') }"

text \<open>\<open>interface.subgraph().interface_implementers(name).map(|def| def.name().id).collect::<BTreeSet<_>>()\<close>.\<close>

definition implementer_names :: "Subgraphs \<Rightarrow> StringId \<Rightarrow> DefinitionId \<Rightarrow> StringId list panicking" where
  "implementer_names sg interface_name interface = do {
     _ \<leftarrow> def_subgraph sg interface;
     s \<leftarrow> def_subgraph_id sg interface;
     mapM (def_name sg) (interface_implementers sg s interface_name) }"

definition missing_implementers_message ::
  "Subgraphs \<Rightarrow> DefinitionId \<Rightarrow> StringId \<Rightarrow> StringId list \<Rightarrow> string panicking" where
  "missing_implementers_message sg interface interface_name missing = do {
     subgraph \<leftarrow> def_subgraph_name sg interface;
     name \<leftarrow> as_str sg interface_name;
     names \<leftarrow> mapM (as_str sg) missing;
     Some (''['' @ subgraph @ '']: Interface type '' @ [CHR 0x22] @ name @ [CHR 0x22]
       @ '' has a resolvable key in subgraph '' @ [CHR 0x22] @ subgraph @ [CHR 0x22]
       @ '' but that subgraph is missing some of the supergraph implementation types of '' @ [CHR 0x22] @ name @ [CHR 0x22]
       @ ''. Subgraph '' @ [CHR 0x22] @ subgraph @ [CHR 0x22] @ '' should define types '' @ join_with '', '' names @ ''.'') }"

definition interface_object_on_interface_message :: "Subgraphs \<Rightarrow> DefinitionId \<Rightarrow> StringId \<Rightarrow> string panicking" where
  "interface_object_on_interface_message sg interface interface_name = do {
     subgraph \<leftarrow> def_subgraph_name sg interface;
     name \<leftarrow> as_str sg interface_name;
     Some (''['' @ subgraph @ ''] The @interfaceObject directive is not valid on interfaces (on `'' @ name @ ''`).'') }"

definition check_interface :: "Subgraphs \<Rightarrow> StringId \<Rightarrow> StringId btree_set \<Rightarrow> DefinitionId \<Rightarrow> Context \<Rightarrow> Context panicking" where
  "check_interface sg interface_name all_implementers interface ctx = do {
     names \<leftarrow> implementer_names sg interface_name interface;
     let implementers = fold bs_insert names [];
     ctx1 \<leftarrow> (if implementers \<noteq> all_implementers then do {
           m \<leftarrow> missing_implementers_message sg interface interface_name
             (filter (\<lambda>i. i \<notin> set implementers) all_implementers);
           Some (ctx_push_fatal m ctx) }
         else Some ctx);
     site \<leftarrow> def_directives sg interface;
     if interface_object sg site then do {
       m \<leftarrow> interface_object_on_interface_message sg interface interface_name;
       Some (ctx_push_fatal m ctx1) }
     else Some ctx1 }"

definition check_all_interfaces :: "Subgraphs \<Rightarrow> StringId \<Rightarrow> DefinitionId list \<Rightarrow> Context \<Rightarrow> Context panicking" where
  "check_all_interfaces sg interface_name interface_defs ctx =
     (if length interface_defs > 1 then do {
        names \<leftarrow> mapM (implementer_names sg interface_name) interface_defs;
        foldM (check_interface sg interface_name (fold bs_insert (concat names) [])) interface_defs ctx }
      else Some ctx)"

text \<open>The closures passed to \<open>fields.entry(..).or_insert_with(..)\<close>, and the entry itself.\<close>

definition interface_field_ir :: "Subgraphs \<Rightarrow> InterfaceId \<Rightarrow> DefinitionId \<Rightarrow> Field \<Rightarrow> Context \<Rightarrow> (FieldIr \<times> Context) panicking" where
  "interface_field_ir sg interface_id interface_def field ctx = do {
     (arguments, ctx1) \<leftarrow> translate_arguments sg field ctx;
     part_of_key \<leftarrow> is_part_of_key sg field;
     s \<leftarrow> def_subgraph_id sg interface_def;
     (composed_directives, ctx2) \<leftarrow> collect_composed_directives sg [field_directives field] ctx1;
     (description, ctx3) \<leftarrow> insert_string_option sg (field_description field) ctx2;
     Some (\<lparr>f_parent_definition = Fed_Interface interface_id, f_field_name = field_name field,
        f_field_type = field_type field, f_arguments = arguments,
        f_resolvable_in = (if part_of_key then [] else [s]), f_provides = [], f_requires = [],
        f_authorized_directives = (if authorized sg (field_directives field) \<noteq> None then [fst field] else []),
        f_overrides = [], f_composed_directives = composed_directives, f_description = description\<rparr>, ctx3) }"

definition object_field_ir :: "Subgraphs \<Rightarrow> InterfaceId \<Rightarrow> DefinitionId \<Rightarrow> Field \<Rightarrow> Context \<Rightarrow> (FieldIr \<times> Context) panicking" where
  "object_field_ir sg interface_id definition field ctx = do {
     (overrides, ctx1) \<leftarrow> collect_overrides sg [field] ctx;
     (composed_directives, ctx2) \<leftarrow> collect_composed_directives sg [field_directives field] ctx1;
     (description, ctx3) \<leftarrow> insert_string_option sg (field_description field) ctx2;
     (arguments, ctx4) \<leftarrow> translate_arguments sg field ctx3;
     s \<leftarrow> def_subgraph_id sg definition;
     Some (\<lparr>f_parent_definition = Fed_Interface interface_id, f_field_name = field_name field,
        f_field_type = field_type field, f_arguments = arguments, f_resolvable_in = [s],
        f_provides = (if provides sg (field_directives field) \<noteq> None then [fst field] else []),
        f_requires = (if requires sg (field_directives field) \<noteq> None then [fst field] else []),
        f_authorized_directives = (if authorized sg (field_directives field) \<noteq> None then [fst field] else []),
        f_overrides = overrides, f_composed_directives = composed_directives, f_description = description\<rparr>, ctx4) }"

definition entry_or_insert_with ::
  "(Field \<Rightarrow> Context \<Rightarrow> (FieldIr \<times> Context) panicking) \<Rightarrow> Field \<Rightarrow> (StringId, FieldIr) btree_map \<times> Context \<Rightarrow>
   ((StringId, FieldIr) btree_map \<times> Context) panicking" where
  "entry_or_insert_with f field = (\<lambda>(m, ctx).
     if bt_get m (field_name field) \<noteq> None then Some (m, ctx)
     else do { (ir, ctx') \<leftarrow> f field ctx; Some (bt_insert (field_name field) ir m, ctx') })"

definition first_entity_key :: "Subgraphs \<Rightarrow> DefinitionId \<Rightarrow> KeyId option" where
  "first_entity_key sg d = (case entity_keys sg d of [] \<Rightarrow> None | k # _ \<Rightarrow> Some k)"

definition same_key :: "Subgraphs \<Rightarrow> KeyId \<Rightarrow> KeyId \<Rightarrow> bool panicking" where
  "same_key sg a b = do { x \<leftarrow> key_fields sg a; y \<leftarrow> key_fields sg b; Some (selections_eq x y) }"

definition missing_interface_object_message :: "Subgraphs \<Rightarrow> DefinitionId \<Rightarrow> string panicking" where
  "missing_interface_object_message sg definition = do {
     name \<leftarrow> def_name_str sg definition;
     subgraph \<leftarrow> def_subgraph_name sg definition;
     Some (''`'' @ name @ ''` is an entity interface but the object type `'' @ name
       @ ''` is missing the @interfaceObject directive in the `'' @ subgraph @ ''` subgraph.'') }"

definition missing_key_message :: "Subgraphs \<Rightarrow> DefinitionId \<Rightarrow> DefinitionId \<Rightarrow> string panicking" where
  "missing_key_message sg first definition = do {
     name \<leftarrow> def_name_str sg first;
     subgraph \<leftarrow> def_subgraph_name sg definition;
     Some (''The object type `'' @ name @ ''` is annotated with @interfaceObject but missing a key in the `''
       @ subgraph @ ''` subgraph.'') }"

definition different_key_message :: "Subgraphs \<Rightarrow> DefinitionId \<Rightarrow> DefinitionId \<Rightarrow> string panicking" where
  "different_key_message sg definition interface_def = do {
     subgraph \<leftarrow> def_subgraph_name sg definition;
     name \<leftarrow> def_name_str sg definition;
     interface \<leftarrow> def_name_str sg interface_def;
     Some (''['' @ subgraph @ ''] The object type `'' @ name
       @ ''` is annotated with @interfaceObject but has a different key than the entity interface `'' @ interface @ ''`.'') }"

definition check_object_key :: "Subgraphs \<Rightarrow> DefinitionId \<Rightarrow> DefinitionId \<Rightarrow> KeyId \<Rightarrow> DefinitionId \<Rightarrow> Context \<Rightarrow> Context panicking" where
  "check_object_key sg first interface_def expected_key definition ctx =
     (case first_entity_key sg definition of
        None \<Rightarrow> do { m \<leftarrow> missing_key_message sg first definition; Some (ctx_push_fatal m ctx) }
      | Some key \<Rightarrow> do {
          same \<leftarrow> same_key sg key expected_key;
          if same then Some ctx
          else do { m \<leftarrow> different_key_message sg definition interface_def; Some (ctx_push_fatal m ctx) } })"

definition merge_interface_object ::
  "Subgraphs \<Rightarrow> DefinitionId \<Rightarrow> DefinitionId \<Rightarrow> InterfaceId \<Rightarrow> KeyId \<Rightarrow> DefinitionId \<Rightarrow>
   (StringId, FieldIr) btree_map \<times> Context \<Rightarrow> ((StringId, FieldIr) btree_map \<times> Context) panicking" where
  "merge_interface_object sg first interface_def interface_id expected_key definition = (\<lambda>(m, ctx). do {
     site \<leftarrow> def_directives sg definition;
     ctx1 \<leftarrow> (if \<not> interface_object sg site
              then do { msg \<leftarrow> missing_interface_object_message sg definition; Some (ctx_push_fatal msg ctx) }
              else Some ctx);
     ctx2 \<leftarrow> check_object_key sg first interface_def expected_key definition ctx1;
     resolvable_keys \<leftarrow> filterM (is_resolvable sg) (entity_keys sg definition);
     ctx3 \<leftarrow> foldM (\<lambda>entity_key ctx. insert_interface_resolvable_key sg interface_id entity_key True ctx) resolvable_keys ctx2;
     foldM (entry_or_insert_with (object_field_ir sg interface_id definition)) (def_fields sg definition) (m, ctx3) })"

definition implementer_key_message :: "Subgraphs \<Rightarrow> DefinitionId \<Rightarrow> DefinitionId \<Rightarrow> string panicking" where
  "implementer_key_message sg obj first = do {
     subgraph \<leftarrow> def_subgraph_name sg obj;
     name \<leftarrow> def_name_str sg obj;
     interface \<leftarrow> def_name_str sg first;
     Some (''['' @ subgraph @ ''] The object type `'' @ name @ ''` implements the entity interface `'' @ interface
       @ ''` but does not have the same key. The key must match exactly.'') }"

definition implementer_missing_key_message :: "Subgraphs \<Rightarrow> DefinitionId \<Rightarrow> string panicking" where
  "implementer_missing_key_message sg obj = do {
     subgraph \<leftarrow> def_subgraph_name sg obj;
     name \<leftarrow> def_name_str sg obj;
     Some (''['' @ subgraph @ ''] The object type `'' @ name @ ''` is annotated with @interfaceObject but missing a key.'') }"

definition contribute_fields ::
  "Subgraphs \<Rightarrow> DefinitionId \<Rightarrow> KeyId \<Rightarrow> (StringId \<times> fed_FieldId) list \<Rightarrow> DefinitionId \<Rightarrow> Context \<Rightarrow> Context panicking" where
  "contribute_fields sg first expected_key field_ids obj ctx = do {
     ctx1 \<leftarrow> (case first_entity_key sg obj of
         None \<Rightarrow> do { m \<leftarrow> implementer_missing_key_message sg obj; Some (ctx_push_fatal m ctx) }
       | Some key \<Rightarrow> do {
           same \<leftarrow> same_key sg key expected_key;
           if same then Some ctx
           else do { m \<leftarrow> implementer_key_message sg obj first; Some (ctx_push_fatal m ctx) } });
     obj_name_id \<leftarrow> def_name sg obj;
     (object_name, ctx2) \<leftarrow> insert_string sg obj_name_id ctx1;
     Some (fold (\<lambda>(_, field_id). insert_object_field_from_entity_interface object_name field_id)
       (filter (\<lambda>(name, _). find_field sg obj name = None) field_ids) ctx2) }"

definition not_an_interface_message :: "Subgraphs \<Rightarrow> DefinitionId \<Rightarrow> string panicking" where
  "not_an_interface_message sg first = do {
     name \<leftarrow> def_name_str sg first;
     Some (''The entity interface `'' @ name @ ''` is not defined as an interface in any subgraph.'') }"

definition interface_missing_key_message :: "Subgraphs \<Rightarrow> DefinitionId \<Rightarrow> DefinitionId \<Rightarrow> string panicking" where
  "interface_missing_key_message sg first interface_def = do {
     name \<leftarrow> def_name_str sg first;
     subgraph \<leftarrow> def_subgraph_name sg interface_def;
     Some (''The entity interface `'' @ name @ ''` is missing a key in the `'' @ subgraph @ ''` subgraph.'') }"

text \<open>The part after the key of the interface is known.\<close>

definition merge_entity_interface_objects ::
  "Subgraphs \<Rightarrow> DefinitionId \<Rightarrow> DefinitionId list \<Rightarrow> DefinitionId \<Rightarrow> InterfaceId \<Rightarrow> KeyId \<Rightarrow>
   (StringId, FieldIr) btree_map \<times> Context \<Rightarrow> Context panicking" where
  "merge_entity_interface_objects sg first definitions interface_def interface_id expected_key = (\<lambda>(m, ctx). do {
     ctx1 \<leftarrow> insert_interface_resolvable_key sg interface_id expected_key False ctx;
     objects \<leftarrow> filterM (\<lambda>def. map_option (\<lambda>k. k = Object) (def_kind sg def)) definitions;
     (m', ctx2) \<leftarrow> foldM (merge_interface_object sg first interface_def interface_id expected_key) objects (m, ctx1);
     (field_ids, ctx3) \<leftarrow> map_accumM (\<lambda>(name, field) ctx. case insert_field field ctx of (i, ctx') \<Rightarrow> Some ((name, i), ctx')) m' ctx2;
     s \<leftarrow> def_subgraph_id sg interface_def;
     _ \<leftarrow> walk_subgraph sg s;
     name \<leftarrow> def_name sg first;
     foldM (contribute_fields sg first expected_key field_ids) (interface_implementers sg s name) ctx3 })"

definition merge_entity_interface_definitions ::
  "Subgraphs \<Rightarrow> DefinitionId \<Rightarrow> DefinitionId list \<Rightarrow> Context \<Rightarrow> Context panicking" where
  "merge_entity_interface_definitions sg first definitions ctx = do {
     name_id \<leftarrow> def_name sg first;
     sites \<leftarrow> mapM (def_directives sg) definitions;
     (composed_directives, ctx1) \<leftarrow> collect_composed_directives sg sites ctx;
     interface_defs \<leftarrow> filterM (\<lambda>def. map_option (\<lambda>k. k = Interface) (def_kind sg def)) definitions;
     (case interface_defs of
        [] \<Rightarrow> do { m \<leftarrow> not_an_interface_message sg first; Some (ctx_push_fatal m ctx1) }
      | interface_def # _ \<Rightarrow> do {
          ctx2 \<leftarrow> check_all_interfaces sg name_id interface_defs ctx1;
          description_id \<leftarrow> def_description sg interface_def;
          description \<leftarrow> mapM_option (as_str sg) description_id;
          (interface_name, ctx3) \<leftarrow> insert_string sg name_id ctx2;
          let (interface_id, ctx4) = insert_interface interface_name description composed_directives ctx3;
          let ctx5 = insert_interface_authorizations sg interface_id sites ctx4;
          (m, ctx6) \<leftarrow> foldM (entry_or_insert_with (interface_field_ir sg interface_id interface_def))
            (def_fields sg interface_def) ([], ctx5);
          (case first_entity_key sg interface_def of
             None \<Rightarrow> do { msg \<leftarrow> interface_missing_key_message sg first interface_def; Some (ctx_push_fatal msg ctx6) }
           | Some expected_key \<Rightarrow>
               merge_entity_interface_objects sg first definitions interface_def interface_id expected_key (m, ctx6)) }) }"

end
