(* ===== verification/Compose.thy ===== *)
theory Compose
  imports Compose_Enums Compose_Entity
begin

text \<open>
  Composition of all the definitions and of the root types:
  \<open>src/engine/crates/composition/src/compose.rs\<close>, \<open>compose/roots.rs\<close>.
\<close>

subsection \<open>Objects and unions\<close>

fun kind_debug :: "DefinitionKind \<Rightarrow> string" where
  "kind_debug Object = ''Object''"
| "kind_debug Interface = ''Interface''"
| "kind_debug Union = ''Union''"
| "kind_debug InputObject = ''InputObject''"
| "kind_debug Scalar = ''Scalar''"
| "kind_debug Enum = ''Enum''"

definition incompatible_kinds_message :: "Subgraphs \<Rightarrow> DefinitionId \<Rightarrow> DefinitionId \<Rightarrow> string panicking" where
  "incompatible_kinds_message sg first incompatible = do {
     first_kind \<leftarrow> def_kind sg first;
     second_kind \<leftarrow> def_kind sg incompatible;
     name \<leftarrow> def_name_str sg first;
     first_subgraph \<leftarrow> def_subgraph_name sg first;
     second_subgraph \<leftarrow> def_subgraph_name sg incompatible;
     Some (''Cannot merge '' @ kind_debug first_kind @ '' with '' @ kind_debug second_kind @ '' (`'' @ name @ ''` in `''
       @ first_subgraph @ ''` and `'' @ second_subgraph @ ''`)'') }"

definition entity_mismatch_message :: "Subgraphs \<Rightarrow> DefinitionId \<Rightarrow> DefinitionId list \<Rightarrow> string panicking" where
  "entity_mismatch_message sg first definitions = do {
     name \<leftarrow> def_name_str sg first;
     entity_subgraphs \<leftarrow> mapM (def_subgraph_name sg) (filter (is_entity sg) definitions);
     non_entity_subgraphs \<leftarrow> mapM (def_subgraph_name sg) (filter (\<lambda>d. \<not> is_entity sg d) definitions);
     Some (''The `'' @ name @ ''` object is an entity in subgraphs '' @ join_with '', '' entity_subgraphs
       @ '' but not in subgraphs '' @ join_with '', '' non_entity_subgraphs @ ''.'') }"

definition merge_object_definitions ::
  "Subgraphs \<Rightarrow> DefinitionId \<Rightarrow> DefinitionId list \<Rightarrow> Context \<Rightarrow> Context panicking" where
  "merge_object_definitions sg first definitions ctx = do {
     sites \<leftarrow> mapM (def_directives sg) definitions;
     let is_shareable = list_ex (shareable sg) sites;
     incompatible \<leftarrow> findM (\<lambda>d. map_option (\<lambda>k. k \<noteq> Object) (def_kind sg d)) definitions;
     (case incompatible of
        Some d \<Rightarrow> do { m \<leftarrow> incompatible_kinds_message sg first d; Some (ctx_push_fatal m ctx) }
      | None \<Rightarrow> do {
          ctx1 \<leftarrow> (if list_ex (\<lambda>d. is_entity sg d \<noteq> is_entity sg first) definitions
                   then do { m \<leftarrow> entity_mismatch_message sg first definitions; Some (ctx_push_fatal m ctx) }
                   else Some ctx);
          description \<leftarrow> find_description sg definitions;
          (composed_directives, ctx2) \<leftarrow> collect_composed_directives sg sites ctx1;
          first_name \<leftarrow> def_name sg first;
          (object_name, ctx3) \<leftarrow> insert_string sg first_name ctx2;
          (object_id, ctx4) \<leftarrow> insert_object sg object_name description composed_directives ctx3;
          ctx5 \<leftarrow> foldM (insert_key sg object_id) (concat (map (entity_keys sg) definitions)) ctx4;
          let ctx6 = fold (insert_object_authorized object_id) (filter (\<lambda>site. authorized sg site \<noteq> None) sites) ctx5;
          ctx7 \<leftarrow> (if is_shareable then validate_shareable_object_fields_match sg definitions ctx6 else Some ctx6);
          for_each_field_group sg definitions (\<lambda>field_list ctx.
              case field_list of
                [] \<Rightarrow> Some ctx
              | first # _ \<Rightarrow> compose_object_fields sg object_id is_shareable first field_list ctx) ctx7 }) }"

definition merge_union_definitions ::
  "Subgraphs \<Rightarrow> DefinitionId \<Rightarrow> DefinitionId list \<Rightarrow> Context \<Rightarrow> Context panicking" where
  "merge_union_definitions sg first_union definitions ctx = do {
     first_name \<leftarrow> def_name sg first_union;
     (union_name, ctx1) \<leftarrow> insert_string sg first_name ctx;
     description \<leftarrow> find_description sg definitions;
     sites \<leftarrow> mapM (def_directives sg) definitions;
     (directives, ctx2) \<leftarrow> collect_composed_directives sg sites ctx1;
     (_, ctx3) \<leftarrow> insert_union sg union_name directives description ctx2;
     foldM (\<lambda>member ctx. do {
         name \<leftarrow> def_name sg member;
         (member_name, ctx') \<leftarrow> insert_string sg name ctx;
         s \<leftarrow> def_subgraph_id sg member;
         Some (insert_union_member s union_name member_name ctx') })
       (concat (map (iter_union_members sg) definitions)) ctx3 }"

subsection \<open>Root types\<close>

definition merge_fields :: "Subgraphs \<Rightarrow> string \<Rightarrow> DefinitionId list \<Rightarrow> Context \<Rightarrow> (ObjectId option \<times> Context) panicking" where
  "merge_fields sg root definitions ctx =
     (if definitions = [] then Some (None, ctx)
      else do {
        let (ty_name, ctx1) = insert_static_str root ctx;
        sites \<leftarrow> mapM (def_directives sg) definitions;
        (directives, ctx2) \<leftarrow> collect_composed_directives sg sites ctx1;
        (object_id, ctx3) \<leftarrow> insert_object sg ty_name None directives ctx2;
        ctx4 \<leftarrow> for_each_field_group sg definitions (\<lambda>field_list ctx.
            case field_list of
              [] \<Rightarrow> Some ctx
            | first # _ \<Rightarrow> compose_object_fields sg object_id False first field_list ctx) ctx3;
        Some (Some object_id, ctx4) })"

definition merge_root_fields :: "Subgraphs \<Rightarrow> Context \<Rightarrow> Context panicking" where
  "merge_root_fields sg ctx = do {
     let query_types = List.map_filter (\<lambda>(_, s). s_query_type s) (iter_subgraphs sg);
     let mutation_types = List.map_filter (\<lambda>(_, s). s_mutation_type s) (iter_subgraphs sg);
     let subscription_types = List.map_filter (\<lambda>(_, s). s_subscription_type s) (iter_subgraphs sg);
     (query, ctx1) \<leftarrow> merge_fields sg ''Query'' query_types ctx;
     (case query of
        None \<Rightarrow> Some (ctx_push_fatal ''The root `Query` object is not defined in any subgraph.'' ctx1)
      | Some query_id \<Rightarrow> do {
          (mutation, ctx2) \<leftarrow> merge_fields sg ''Mutation'' mutation_types (set_query query_id ctx1);
          let ctx3 = (case mutation of Some i \<Rightarrow> set_mutation i ctx2 | None \<Rightarrow> ctx2);
          (subscription, ctx4) \<leftarrow> merge_fields sg ''Subscription'' subscription_types ctx3;
          Some (case subscription of Some i \<Rightarrow> set_subscription i ctx4 | None \<Rightarrow> ctx4) }) }"

subsection \<open>All definitions\<close>

definition compose_group :: "Subgraphs \<Rightarrow> DefinitionId list \<Rightarrow> Context \<Rightarrow> Context panicking" where
  "compose_group sg definitions ctx =
     (case definitions of
        [] \<Rightarrow> Some ctx
      | first # _ \<Rightarrow> do {
          site \<leftarrow> def_directives sg first;
          kind \<leftarrow> def_kind sg first;
          if interface_object sg site \<or> kind = Interface \<and> entity_keys sg first \<noteq> []
          then merge_entity_interface_definitions sg first definitions ctx
          else (case kind of
              Object \<Rightarrow> merge_object_definitions sg first definitions ctx
            | Union \<Rightarrow> merge_union_definitions sg first definitions ctx
            | InputObject \<Rightarrow> merge_input_object_definitions sg first definitions ctx
            | Interface \<Rightarrow> merge_interface_definitions sg first definitions ctx
            | Scalar \<Rightarrow> merge_scalar_definitions sg first definitions ctx
            | Enum \<Rightarrow> merge_enum_definitions sg first definitions ctx) })"

definition compose_subgraphs :: "Subgraphs \<Rightarrow> Context \<Rightarrow> Context panicking" where
  "compose_subgraphs sg ctx = do {
     ctx' \<leftarrow> iter_definition_groups sg (compose_group sg) ctx;
     merge_root_fields sg ctx' }"

end
