(* ===== verification/Compose_Invariant.thy ===== *)
theory Compose_Invariant
  imports Compose "HOL-Library.Sublist"
begin

text \<open>
  Composition keeps the invariant of the intermediate representation: every id it stores points into
  the table it refers to, the directives and arguments of an item are ranges of their tables, the
  strings are distinct, the values of an enum lie together.  Each lemma is stated with \<open>runs t\<close>, so that
  it also shows that the operation returns where it cannot panic.
\<close>

subsection \<open>The invariant\<close>

definition range_in :: "nat \<times> nat \<Rightarrow> 'a list \<Rightarrow> bool" where
  "range_in r xs \<longleftrightarrow> fst r + snd r \<le> length xs"

definition fstr_ok :: "CompositionIr \<Rightarrow> fed_StringId \<Rightarrow> bool" where
  "fstr_ok ir s \<longleftrightarrow> s < length (ir_strings ir)"

definition dirs_ok :: "CompositionIr \<Rightarrow> fed_Directives \<Rightarrow> bool" where
  "dirs_ok ir r \<longleftrightarrow> range_in r (ir_directives ir)"

definition args_ok :: "CompositionIr \<Rightarrow> InputValueDefinitions \<Rightarrow> bool" where
  "args_ok ir r \<longleftrightarrow> range_in r (ir_input_value_definitions ir)"

definition typedef_ok :: "CompositionIr \<Rightarrow> TypeDefinitionKind \<Rightarrow> TypeDefinitionId \<Rightarrow> bool" where
  "typedef_ok ir k i \<longleftrightarrow> (\<exists>r. vec_index (ir_type_definitions ir) i = Some r \<and> td_kind r = k)"

fun fdef_ok :: "CompositionIr \<Rightarrow> fed_Definition \<Rightarrow> bool" where
  "fdef_ok ir (Fed_Scalar i) \<longleftrightarrow> typedef_ok ir Kind_Scalar i"
| "fdef_ok ir (Fed_Object i) \<longleftrightarrow> i < length (ir_objects ir)"
| "fdef_ok ir (Fed_Interface i) \<longleftrightarrow> i < length (ir_interfaces ir)"
| "fdef_ok ir (Fed_Union i) \<longleftrightarrow> i < length (ir_unions ir)"
| "fdef_ok ir (Fed_Enum i) \<longleftrightarrow> typedef_ok ir Kind_Enum i"
| "fdef_ok ir (Fed_InputObject i) \<longleftrightarrow> i < length (ir_input_objects ir)"

fun ir_directive_ok :: "Subgraphs \<Rightarrow> CompositionIr \<Rightarrow> ir_Directive \<Rightarrow> bool" where
  "ir_directive_ok sg ir (Directive_Deprecated r) \<longleftrightarrow> opt_ok (fstr_ok ir) r"
| "ir_directive_ok sg ir (Directive_Policy ps) \<longleftrightarrow> (\<forall>p \<in> set ps. \<forall>s \<in> set p. fstr_ok ir s)"
| "ir_directive_ok sg ir (Directive_RequiresScopes ps) \<longleftrightarrow> (\<forall>p \<in> set ps. \<forall>s \<in> set p. fstr_ok ir s)"
| "ir_directive_ok sg ir (Directive_Other n args) \<longleftrightarrow> fstr_ok ir n \<and> (\<forall>(k, v) \<in> set args. fstr_ok ir k \<and> value_ok sg v)"
| "ir_directive_ok sg ir _ \<longleftrightarrow> True"

definition field_id_ok :: "Subgraphs \<Rightarrow> FieldId \<Rightarrow> bool" where
  "field_id_ok sg f \<longleftrightarrow> f \<in> set (map fst (fs_definition_fields (sg_fields sg)))"

fun source_ok :: "Subgraphs \<Rightarrow> CompositionIr \<Rightarrow> OverrideSource \<Rightarrow> bool" where
  "source_ok sg ir (Source_Subgraph s) \<longleftrightarrow> subgraph_ok sg s"
| "source_ok sg ir (Source_Missing s) \<longleftrightarrow> fstr_ok ir s"

definition override_ok :: "Subgraphs \<Rightarrow> CompositionIr \<Rightarrow> Override \<Rightarrow> bool" where
  "override_ok sg ir ov \<longleftrightarrow> subgraph_ok sg (ov_graph ov) \<and> source_ok sg ir (ov_from ov)"

text \<open>Fields and keys belong to objects and interfaces.\<close>

fun has_fields :: "fed_Definition \<Rightarrow> bool" where
  "has_fields (Fed_Object _) \<longleftrightarrow> True"
| "has_fields (Fed_Interface _) \<longleftrightarrow> True"
| "has_fields _ \<longleftrightarrow> False"

definition field_ir_ok :: "Subgraphs \<Rightarrow> CompositionIr \<Rightarrow> FieldIr \<Rightarrow> bool" where
  "field_ir_ok sg ir f \<longleftrightarrow> fdef_ok ir (f_parent_definition f) \<and> has_fields (f_parent_definition f) \<and> str_ok sg (f_field_name f) \<and> type_ok sg (f_field_type f)
     \<and> args_ok ir (f_arguments f) \<and> (\<forall>s \<in> set (f_resolvable_in f). subgraph_ok sg s)
     \<and> (\<forall>x \<in> set (f_provides f) \<union> set (f_requires f) \<union> set (f_authorized_directives f). field_id_ok sg x)
     \<and> (\<forall>ov \<in> set (f_overrides f). override_ok sg ir ov) \<and> dirs_ok ir (f_composed_directives f)
     \<and> opt_ok (fstr_ok ir) (f_description f)"

definition key_ok :: "Subgraphs \<Rightarrow> KeyId \<Rightarrow> bool" where
  "key_ok sg k \<longleftrightarrow> k < length (ks_keys (sg_keys sg))"

text \<open>Everything the tables of a representation hold, as one predicate.\<close>

datatype ir_item =
    Item_Name fed_StringId fed_Definition
  | Item_Type TypeDefinitionRecord
  | Item_Object fed_Object
  | Item_Interface fed_Interface
  | Item_Union fed_Union
  | Item_EnumValue EnumValueRecord
  | Item_InputObject fed_InputObject
  | Item_Directive ir_Directive
  | Item_InputValue InputValueDefinitionIr
  | Item_Root ObjectId
  | Item_Field FieldIr
  | Item_Member fed_StringId fed_StringId
  | Item_Join fed_StringId fed_StringId "SubgraphId list"
  | Item_Key KeyIr
  | Item_EntityField fed_StringId fed_FieldId
  | Item_ObjectAuthorized ObjectId DirectiveSiteId
  | Item_InterfaceAuthorized InterfaceId DirectiveSiteId

fun holds :: "CompositionIr \<Rightarrow> ir_item \<Rightarrow> bool" where
  "holds ir (Item_Name n d) \<longleftrightarrow> ir_definitions_by_name ir n = Some d"
| "holds ir (Item_Type r) \<longleftrightarrow> r \<in> set (ir_type_definitions ir)"
| "holds ir (Item_Object x) \<longleftrightarrow> x \<in> set (ir_objects ir)"
| "holds ir (Item_Interface x) \<longleftrightarrow> x \<in> set (ir_interfaces ir)"
| "holds ir (Item_Union x) \<longleftrightarrow> x \<in> set (ir_unions ir)"
| "holds ir (Item_EnumValue x) \<longleftrightarrow> x \<in> set (ir_enum_values ir)"
| "holds ir (Item_InputObject x) \<longleftrightarrow> x \<in> set (ir_input_objects ir)"
| "holds ir (Item_Directive x) \<longleftrightarrow> x \<in> set (ir_directives ir)"
| "holds ir (Item_InputValue x) \<longleftrightarrow> x \<in> set (ir_input_value_definitions ir)"
| "holds ir (Item_Root i) \<longleftrightarrow> Some i \<in> {ir_query_type ir, ir_mutation_type ir, ir_subscription_type ir}"
| "holds ir (Item_Field x) \<longleftrightarrow> x \<in> set (ir_fields ir)"
| "holds ir (Item_Member a b) \<longleftrightarrow> (a, b) \<in> set (ir_union_members ir)"
| "holds ir (Item_Join a b ss) \<longleftrightarrow> ((a, b), ss) \<in> set (ir_union_join_members ir)"
| "holds ir (Item_Key k) \<longleftrightarrow> k \<in> set (ir_keys ir)"
| "holds ir (Item_EntityField n f) \<longleftrightarrow> (n, f) \<in> set (ir_object_fields_from_entity_interfaces ir)"
| "holds ir (Item_ObjectAuthorized i site) \<longleftrightarrow> (i, site) \<in> set (ir_object_authorized_directives ir)"
| "holds ir (Item_InterfaceAuthorized i site) \<longleftrightarrow> (i, site) \<in> set (ir_interface_authorized_directives ir)"

fun item_ok :: "Subgraphs \<Rightarrow> CompositionIr \<Rightarrow> ir_item \<Rightarrow> bool" where
  "item_ok sg ir (Item_Name n d) \<longleftrightarrow> fstr_ok ir n \<and> fdef_ok ir d"
| "item_ok sg ir (Item_Type r) \<longleftrightarrow> fstr_ok ir (td_name r) \<and> opt_ok (fstr_ok ir) (td_description r) \<and> dirs_ok ir (td_directives r)"
| "item_ok sg ir (Item_Object x) \<longleftrightarrow> typedef_ok ir Kind_Object (fo_type_definition_id x) \<and> fo_fields x = NO_FIELDS
     \<and> fo_implements_interfaces x = [] \<and> fo_join_implements x = [] \<and> fo_keys x = []"
| "item_ok sg ir (Item_Interface x) \<longleftrightarrow> typedef_ok ir Kind_Interface (fi_type_definition_id x) \<and> fi_fields x = NO_FIELDS
     \<and> fi_implements_interfaces x = [] \<and> fi_join_implements x = [] \<and> fi_keys x = []"
| "item_ok sg ir (Item_Union x) \<longleftrightarrow> fstr_ok ir (fu_name x) \<and> dirs_ok ir (fu_composed_directives x) \<and> opt_ok (fstr_ok ir) (fu_description x)
     \<and> fu_members x = [] \<and> fu_join_members x = []"
| "item_ok sg ir (Item_EnumValue x) \<longleftrightarrow> typedef_ok ir Kind_Enum (ev_enum_id x) \<and> fstr_ok ir (ev_value x)
     \<and> dirs_ok ir (ev_composed_directives x) \<and> opt_ok (fstr_ok ir) (ev_description x)"
| "item_ok sg ir (Item_InputObject x) \<longleftrightarrow> fstr_ok ir (fio_name x) \<and> args_ok ir (fio_fields x)
     \<and> dirs_ok ir (fio_composed_directives x) \<and> opt_ok (fstr_ok ir) (fio_description x)"
| "item_ok sg ir (Item_Directive x) \<longleftrightarrow> ir_directive_ok sg ir x"
| "item_ok sg ir (Item_InputValue x) \<longleftrightarrow> fstr_ok ir (iv_name x) \<and> type_ok sg (iv_type x) \<and> dirs_ok ir (iv_directives x)
     \<and> opt_ok (fstr_ok ir) (iv_description x) \<and> opt_ok (value_ok sg) (iv_default x)"
| "item_ok sg ir (Item_Root i) \<longleftrightarrow> fdef_ok ir (Fed_Object i)"
| "item_ok sg ir (Item_Field x) \<longleftrightarrow> field_ir_ok sg ir x"
| "item_ok sg ir (Item_Member a b) \<longleftrightarrow> fstr_ok ir a \<and> fstr_ok ir b"
| "item_ok sg ir (Item_Join a b ss) \<longleftrightarrow> (a, b) \<in> set (ir_union_members ir) \<and> (\<forall>s \<in> set ss. subgraph_ok sg s)"
| "item_ok sg ir (Item_Key k) \<longleftrightarrow> fdef_ok ir (key_parent k) \<and> has_fields (key_parent k) \<and> key_ok sg (key_id k)"
| "item_ok sg ir (Item_EntityField n f) \<longleftrightarrow> fstr_ok ir n \<and> f < length (ir_fields ir)"
| "item_ok sg ir (Item_ObjectAuthorized i site) \<longleftrightarrow> fdef_ok ir (Fed_Object i) \<and> authorized sg site \<noteq> None"
| "item_ok sg ir (Item_InterfaceAuthorized i site) \<longleftrightarrow> fdef_ok ir (Fed_Interface i) \<and> authorized sg site \<noteq> None"

definition ir_wf :: "Subgraphs \<Rightarrow> CompositionIr \<Rightarrow> bool" where
  "ir_wf sg ir \<longleftrightarrow> (\<forall>x. holds ir x \<longrightarrow> item_ok sg ir x) \<and> distinct (ir_strings ir)
     \<and> sorted (map ev_enum_id (ir_enum_values ir)) \<and> bs_wf (ir_union_members ir) \<and> bt_wf (ir_union_join_members ir)"

subsection \<open>Steps\<close>

text \<open>The tables grow at the end, and a query type is not lost.\<close>

definition ir_extends :: "CompositionIr \<Rightarrow> CompositionIr \<Rightarrow> bool" where
  "ir_extends ir ir' \<longleftrightarrow> prefix (ir_strings ir) (ir_strings ir') \<and> prefix (ir_directives ir) (ir_directives ir')
     \<and> prefix (ir_input_value_definitions ir) (ir_input_value_definitions ir') \<and> prefix (ir_type_definitions ir) (ir_type_definitions ir')
     \<and> prefix (ir_objects ir) (ir_objects ir') \<and> prefix (ir_interfaces ir) (ir_interfaces ir') \<and> prefix (ir_unions ir) (ir_unions ir')
     \<and> prefix (ir_input_objects ir) (ir_input_objects ir') \<and> prefix (ir_fields ir) (ir_fields ir')
     \<and> prefix (ir_enum_values ir) (ir_enum_values ir') \<and> prefix (ir_keys ir) (ir_keys ir')
     \<and> set (ir_union_members ir) \<subseteq> set (ir_union_members ir') \<and> (ir_query_type ir \<noteq> None \<longrightarrow> ir_query_type ir' \<noteq> None)"

lemma ir_extends_refl [simp]: "ir_extends ir ir"
  by (simp add: ir_extends_def)

lemma ir_extends_trans: "ir_extends a b \<Longrightarrow> ir_extends b c \<Longrightarrow> ir_extends a c"
  unfolding ir_extends_def by (meson prefix_order.trans subset_trans)

lemma ir_extends_lengths:
  assumes "ir_extends ir ir'"
  shows "length (ir_strings ir) \<le> length (ir_strings ir')" "length (ir_directives ir) \<le> length (ir_directives ir')"
    "length (ir_input_value_definitions ir) \<le> length (ir_input_value_definitions ir')" "length (ir_objects ir) \<le> length (ir_objects ir')"
    "length (ir_interfaces ir) \<le> length (ir_interfaces ir')" "length (ir_unions ir) \<le> length (ir_unions ir')"
    "length (ir_input_objects ir) \<le> length (ir_input_objects ir')" "length (ir_fields ir) \<le> length (ir_fields ir')"
    "set (ir_union_members ir) \<subseteq> set (ir_union_members ir')"
  using assms unfolding ir_extends_def by (blast dest: prefix_length_le)+

named_theorems ir_mono

lemma fstr_ok_mono [ir_mono]: "ir_extends ir ir' \<Longrightarrow> fstr_ok ir s \<Longrightarrow> fstr_ok ir' s"
  by (auto simp: fstr_ok_def dest: ir_extends_lengths(1))

lemma opt_fstr_ok_mono [ir_mono]: "ir_extends ir ir' \<Longrightarrow> opt_ok (fstr_ok ir) s \<Longrightarrow> opt_ok (fstr_ok ir') s"
  by (cases s) (auto intro: fstr_ok_mono)

lemma dirs_ok_mono [ir_mono]: "ir_extends ir ir' \<Longrightarrow> dirs_ok ir r \<Longrightarrow> dirs_ok ir' r"
  by (auto simp: dirs_ok_def range_in_def dest: ir_extends_lengths(2))

lemma args_ok_mono [ir_mono]: "ir_extends ir ir' \<Longrightarrow> args_ok ir r \<Longrightarrow> args_ok ir' r"
  by (auto simp: args_ok_def range_in_def dest: ir_extends_lengths(3))

lemma typedef_ok_mono [ir_mono]: "ir_extends ir ir' \<Longrightarrow> typedef_ok ir k i \<Longrightarrow> typedef_ok ir' k i"
  by (auto simp: typedef_ok_def ir_extends_def prefix_def vec_index_append)

lemma fdef_ok_mono [ir_mono]: "ir_extends ir ir' \<Longrightarrow> fdef_ok ir d \<Longrightarrow> fdef_ok ir' d"
proof -
  assume e: "ir_extends ir ir'"
  note l = ir_extends_lengths [OF e]
  show "fdef_ok ir d \<Longrightarrow> fdef_ok ir' d"
    using l(4-7) by (cases d) (auto intro: typedef_ok_mono [OF e])
qed

lemma members_mono [ir_mono]: "ir_extends ir ir' \<Longrightarrow> m \<in> set (ir_union_members ir) \<Longrightarrow> m \<in> set (ir_union_members ir')"
  using ir_extends_lengths(9) by blast

lemma field_count_mono [ir_mono]: "ir_extends ir ir' \<Longrightarrow> i < length (ir_fields ir) \<Longrightarrow> i < length (ir_fields ir')"
  using ir_extends_lengths(8) [of ir ir'] by simp

lemma ir_directive_ok_mono [ir_mono]: "ir_extends ir ir' \<Longrightarrow> ir_directive_ok sg ir d \<Longrightarrow> ir_directive_ok sg ir' d"
  using fstr_ok_mono [of ir ir'] opt_fstr_ok_mono [of ir ir'] by (cases d) fastforce+

lemma override_ok_mono [ir_mono]: "ir_extends ir ir' \<Longrightarrow> override_ok sg ir ov \<Longrightarrow> override_ok sg ir' ov"
  using fstr_ok_mono [of ir ir'] by (cases "ov_from ov") (auto simp: override_ok_def)

lemma field_ir_ok_mono [ir_mono]: "ir_extends ir ir' \<Longrightarrow> field_ir_ok sg ir f \<Longrightarrow> field_ir_ok sg ir' f"
  unfolding field_ir_ok_def by (blast intro: ir_mono)

lemma item_ok_mono: "ir_extends ir ir' \<Longrightarrow> item_ok sg ir x \<Longrightarrow> item_ok sg ir' x"
  by (cases x; simp only: item_ok.simps; blast intro: ir_mono)

lemma ir_wf_step:
  assumes "ir_wf sg ir" and "ir_extends ir ir'" and "\<And>x. holds ir' x \<Longrightarrow> holds ir x \<or> x \<in> new" and "\<forall>x \<in> new. item_ok sg ir' x"
    and "distinct (ir_strings ir')" and "sorted (map ev_enum_id (ir_enum_values ir'))"
    and "bs_wf (ir_union_members ir')" and "bt_wf (ir_union_join_members ir')"
  shows "ir_wf sg ir'"
  using assms item_ok_mono [OF assms(2)] unfolding ir_wf_def by blast

text \<open>A step of composition, one that leaves all tables but the strings and the directives as they are,
  and one that only adds strings.  Diagnostics are only added.\<close>

definition ctx_step :: "Subgraphs \<Rightarrow> Context \<Rightarrow> Context \<Rightarrow> bool" where
  "ctx_step sg ctx ctx' \<longleftrightarrow> ir_wf sg (ctx_ir ctx') \<and> ir_extends (ctx_ir ctx) (ctx_ir ctx')
     \<and> prefix (ctx_diagnostics ctx) (ctx_diagnostics ctx')"

definition tables :: "CompositionIr \<Rightarrow> CompositionIr" where
  "tables ir = ir\<lparr>ir_strings := [], ir_directives := []\<rparr>"

definition dir_step :: "Subgraphs \<Rightarrow> Context \<Rightarrow> Context \<Rightarrow> bool" where
  "dir_step sg ctx ctx' \<longleftrightarrow> ctx_step sg ctx ctx' \<and> tables (ctx_ir ctx') = tables (ctx_ir ctx)"

definition str_step :: "Subgraphs \<Rightarrow> Context \<Rightarrow> Context \<Rightarrow> bool" where
  "str_step sg ctx ctx' \<longleftrightarrow> dir_step sg ctx ctx' \<and> ir_directives (ctx_ir ctx') = ir_directives (ctx_ir ctx)"

lemma ctx_step_refl: "ir_wf sg (ctx_ir ctx) \<Longrightarrow> ctx_step sg ctx ctx"
  by (simp add: ctx_step_def)

lemma dir_step_refl: "ir_wf sg (ctx_ir ctx) \<Longrightarrow> dir_step sg ctx ctx"
  by (simp add: ctx_step_refl dir_step_def)

lemma str_step_refl: "ir_wf sg (ctx_ir ctx) \<Longrightarrow> str_step sg ctx ctx"
  by (simp add: dir_step_refl str_step_def)

lemma ctx_step_trans: "ctx_step sg a b \<Longrightarrow> ctx_step sg b c \<Longrightarrow> ctx_step sg a c"
  unfolding ctx_step_def by (blast intro: ir_extends_trans prefix_order.trans)

lemma dir_step_trans: "dir_step sg a b \<Longrightarrow> dir_step sg b c \<Longrightarrow> dir_step sg a c"
  unfolding dir_step_def by (simp, blast intro: ctx_step_trans)

lemma str_step_trans: "str_step sg a b \<Longrightarrow> str_step sg b c \<Longrightarrow> str_step sg a c"
  unfolding str_step_def by (simp, blast intro: dir_step_trans)

lemma dir_step_ctx: "dir_step sg a b \<Longrightarrow> ctx_step sg a b"
  by (simp add: dir_step_def)

lemma str_step_dir: "str_step sg a b \<Longrightarrow> dir_step sg a b"
  by (simp add: str_step_def)

lemmas str_step_ctx = dir_step_ctx [OF str_step_dir]

lemma ctx_step_wf: "ctx_step sg a b \<Longrightarrow> ir_wf sg (ctx_ir b)"
  by (simp add: ctx_step_def)

lemma ctx_step_extends: "ctx_step sg a b \<Longrightarrow> ir_extends (ctx_ir a) (ctx_ir b)"
  by (simp add: ctx_step_def)

lemmas dir_step_wf = ctx_step_wf [OF dir_step_ctx]
lemmas str_step_wf = ctx_step_wf [OF str_step_ctx]
lemmas dir_step_extends = ctx_step_extends [OF dir_step_ctx]
lemmas str_step_extends = ctx_step_extends [OF str_step_ctx]

lemma tables_eq:
  assumes "tables ir' = tables ir"
  shows "ir_input_value_definitions ir' = ir_input_value_definitions ir" "ir_type_definitions ir' = ir_type_definitions ir"
    "ir_enum_values ir' = ir_enum_values ir" "ir_fields ir' = ir_fields ir" "ir_objects ir' = ir_objects ir"
    "ir_query_type ir' = ir_query_type ir"
  using arg_cong [OF assms, of ir_input_value_definitions] arg_cong [OF assms, of ir_type_definitions]
    arg_cong [OF assms, of ir_enum_values] arg_cong [OF assms, of ir_fields] arg_cong [OF assms, of ir_objects]
    arg_cong [OF assms, of ir_query_type]
  by (simp_all add: tables_def)

lemma ctx_push_fatal_step: "ir_wf sg (ctx_ir ctx) \<Longrightarrow> str_step sg ctx (ctx_push_fatal m ctx)"
  by (simp add: str_step_def dir_step_def ctx_step_def ctx_push_fatal_def push_fatal_def)

subsection \<open>Strings\<close>

lemma ir_insert_str_step:
  assumes wf: "ir_wf sg (ctx_ir ctx)" and i: "ir_insert_str s ctx = (i, ctx')"
  shows "str_step sg ctx ctx' \<and> fstr_ok (ctx_ir ctx') i \<and> strings_resolve (ir_strings (ctx_ir ctx')) i = Some s"
proof -
  let ?ir = "ctx_ir ctx"
  obtain strs where strs: "strings_ir_insert (ir_strings ?ir) s = (i, strs)" and ctx': "ctx' = ctx\<lparr>ctx_ir := ?ir\<lparr>ir_strings := strs\<rparr>\<rparr>"
    using i by (auto simp: ir_insert_str_def split: prod.splits)
  have d: "distinct (ir_strings ?ir)" using wf by (simp add: ir_wf_def)
  note r = strings_ir.intern_invar [OF d strs] strings_ir.intern_resolve [OF d strs]
  have "\<exists>ys. strs = ir_strings ?ir @ ys"
    using strs insert_full_prefix by (fastforce simp: strings_ir_insert_def split: option.splits)
  then have e: "ir_extends ?ir (ctx_ir ctx')" by (auto simp: ir_extends_def ctx')
  have "ir_wf sg (ctx_ir ctx')"
  proof (rule ir_wf_step [OF wf e])
    show "holds (ctx_ir ctx') x \<Longrightarrow> holds ?ir x \<or> x \<in> {}" for x by (cases x) (simp_all add: ctx')
  qed (use wf r in \<open>simp_all add: ctx' ir_wf_def\<close>)
  then show ?thesis
    using e r by (auto simp: str_step_def dir_step_def ctx_step_def tables_def ctx' fstr_ok_def strings_resolve_def vec_index_eq_Some
        push_fatal_def)
qed

lemma ir_insert_option_step:
  "ir_wf sg (ctx_ir ctx) \<Longrightarrow> ir_insert_option s ctx = (i, ctx') \<Longrightarrow> str_step sg ctx ctx' \<and> opt_ok (fstr_ok (ctx_ir ctx')) i"
  by (cases s) (auto simp: str_step_refl dest!: ir_insert_str_step split: prod.splits)

lemma insert_string_runs:
  assumes "ir_wf sg (ctx_ir ctx)" and "str_ok sg s"
  shows "runs t (insert_string sg s ctx) (\<lambda>(i, ctx'). str_step sg ctx ctx' \<and> fstr_ok (ctx_ir ctx') i)"
  unfolding insert_string_def
  by (rule runs_bind [OF as_str_runs [OF assms(2)]]) (use ir_insert_str_step [OF assms(1)] in \<open>auto split: prod.split\<close>)

lemma insert_string_option_runs:
  assumes "ir_wf sg (ctx_ir ctx)" and "opt_ok (str_ok sg) s"
  shows "runs t (insert_string_option sg s ctx) (\<lambda>(i, ctx'). str_step sg ctx ctx' \<and> opt_ok (fstr_ok (ctx_ir ctx')) i)"
proof (cases s)
  case (Some n)
  with assms have "runs t (insert_string sg n ctx) (\<lambda>(i, ctx'). str_step sg ctx ctx' \<and> fstr_ok (ctx_ir ctx') i)"
    by (intro insert_string_runs) simp_all
  then show ?thesis by (cases "insert_string sg n ctx") (auto simp: Some)
qed (simp add: str_step_refl assms)

text \<open>Results of a sequence of insertions stay valid while the tables grow.\<close>

lemma map_accumM_str_runs:
  assumes wf: "ir_wf sg (ctx_ir ctx)"
    and step: "\<And>x ctx. x \<in> set xs \<Longrightarrow> ir_wf sg (ctx_ir ctx) \<Longrightarrow> runs t (f x ctx) (\<lambda>(y, ctx'). str_step sg ctx ctx' \<and> P (ctx_ir ctx') y)"
    and mono: "\<And>ir ir' y. ir_extends ir ir' \<Longrightarrow> P ir y \<Longrightarrow> P ir' y"
  shows "runs t (map_accumM f xs ctx) (\<lambda>(ys, ctx'). str_step sg ctx ctx' \<and> (\<forall>y \<in> set ys. P (ctx_ir ctx') y))"
proof (rule runs_map_accumM [where I = "\<lambda>ys ctx'. str_step sg ctx ctx' \<and> (\<forall>y \<in> set ys. P (ctx_ir ctx') y)"])
  show "str_step sg ctx ctx \<and> (\<forall>y \<in> set []. P (ctx_ir ctx) y)" by (simp add: str_step_refl wf)
  fix x ys ctx1 assume x: "x \<in> set xs" and I: "str_step sg ctx ctx1 \<and> (\<forall>y \<in> set ys. P (ctx_ir ctx1) y)"
  then have "runs t (f x ctx1) (\<lambda>(y, ctx'). str_step sg ctx1 ctx' \<and> P (ctx_ir ctx') y)"
    by (intro step str_step_wf) auto
  then show "runs t (f x ctx1) (\<lambda>(y, ctx'). str_step sg ctx ctx' \<and> (\<forall>z \<in> set (ys @ [y]). P (ctx_ir ctx') z))"
    by (rule runs_mono) (use I in \<open>auto intro: str_step_trans mono [OF str_step_extends]\<close>)
qed

lemma insert_strings_runs:
  assumes "ir_wf sg (ctx_ir ctx)" and "\<forall>s \<in> set ids. str_ok sg s"
  shows "runs t (insert_strings sg ids ctx) (\<lambda>(xs, ctx'). str_step sg ctx ctx' \<and> (\<forall>x \<in> set xs. fstr_ok (ctx_ir ctx') x))"
  unfolding insert_strings_def
  by (rule map_accumM_str_runs [OF assms(1)]) (use assms(2) insert_string_runs fstr_ok_mono in blast)+

lemma insert_arguments_runs:
  assumes "ir_wf sg (ctx_ir ctx)" and "arguments_ok sg args"
  shows "runs t (insert_arguments sg args ctx)
    (\<lambda>(xs, ctx'). str_step sg ctx ctx' \<and> (\<forall>x \<in> set xs. fstr_ok (ctx_ir ctx') (fst x) \<and> value_ok sg (snd x)))"
  unfolding insert_arguments_def
proof (rule map_accumM_str_runs [OF assms(1), where P = "\<lambda>ir x. fstr_ok ir (fst x) \<and> value_ok sg (snd x)"])
  fix x and ctx :: Context assume x: "x \<in> set args" and wf: "ir_wf sg (ctx_ir ctx)"
  then have ok: "str_ok sg (fst x)" "value_ok sg (snd x)" using assms(2) by (auto simp: arguments_ok_def)
  show "runs t ((case x of (name, v) \<Rightarrow> \<lambda>ctx. do { (n, ctx') \<leftarrow> insert_string sg name ctx; Some ((n, v), ctx') }) ctx)
      (\<lambda>(y, ctx'). str_step sg ctx ctx' \<and> fstr_ok (ctx_ir ctx') (fst y) \<and> value_ok sg (snd y))"
    unfolding split_def by (rule runs_bind [OF insert_string_runs [OF wf ok(1)]]) (use ok in auto)
qed (use fstr_ok_mono in blast)

subsection \<open>Directives\<close>

lemma entry_ok_get: "entry_ok p m \<Longrightarrow> bt_get m k = Some v \<Longrightarrow> p v"
  by (auto simp: entry_ok_def bt_wf_get [symmetric])

lemma site_directives_ok:
  assumes wf: "wf_store sg"
  shows "deprecated sg i = Some d \<Longrightarrow> opt_ok (str_ok sg) (deprecated_reason d)"
    and "override_directive sg i = Some ov \<Longrightarrow> str_ok sg (override_from ov) \<and> opt_ok (str_ok sg) (override_label ov)"
    and "tag \<in> set (tags sg i) \<Longrightarrow> str_ok sg tag"
    and "l \<in> set (requires_scopes sg i) \<Longrightarrow> s \<in> set l \<Longrightarrow> str_ok sg s"
    and "l \<in> set (policies sg i) \<Longrightarrow> s \<in> set l \<Longrightarrow> str_ok sg s"
    and "(n, args) \<in> set (iter_composed_directives sg i) \<Longrightarrow> str_ok sg n \<and> arguments_ok sg args"
proof -
  have ok: "directives_ok sg (sg_directives sg)" using wf by (rule wf_store_directives)
  show "deprecated sg i = Some d \<Longrightarrow> opt_ok (str_ok sg) (deprecated_reason d)"
    "override_directive sg i = Some ov \<Longrightarrow> str_ok sg (override_from ov) \<and> opt_ok (str_ok sg) (override_label ov)"
    using ok by (auto simp: directives_ok_def deprecated_def override_directive_def dest: entry_ok_get)
  show "tag \<in> set (tags sg i) \<Longrightarrow> str_ok sg tag"
    using ok by (auto simp: directives_ok_def tags_def bs_range_def)
  show "l \<in> set (requires_scopes sg i) \<Longrightarrow> s \<in> set l \<Longrightarrow> str_ok sg s" "l \<in> set (policies sg i) \<Longrightarrow> s \<in> set l \<Longrightarrow> str_ok sg s"
    using ok by (fastforce simp: directives_ok_def requires_scopes_def policies_def bs_range_from_def site_strings_ok_def dest!: set_takeWhileD)+
  show "(n, args) \<in> set (iter_composed_directives sg i) \<Longrightarrow> str_ok sg n \<and> arguments_ok sg args"
    using ok by (fastforce simp: directives_ok_def iter_composed_directives_def Let_def dest!: set_takeWhileD in_set_dropD)
qed

lemma insert_composed_runs:
  assumes "ir_wf sg (ctx_ir ctx)" and "str_ok sg (fst d)" and "arguments_ok sg (snd d)"
  shows "runs t (insert_composed sg d ctx) (\<lambda>(x, ctx'). str_step sg ctx ctx' \<and> ir_directive_ok sg (ctx_ir ctx') x)"
  unfolding insert_composed_def
proof (rule runs_bind [OF insert_string_runs [OF assms(1,2)]], clarify)
  fix n ctx1 assume 1: "str_step sg ctx ctx1" "fstr_ok (ctx_ir ctx1) n"
  show "runs t (insert_arguments sg (snd d) ctx1 \<bind> (\<lambda>(arguments, ctx2). Some (Directive_Other n arguments, ctx2)))
      (\<lambda>(x, ctx'). str_step sg ctx ctx' \<and> ir_directive_ok sg (ctx_ir ctx') x)"
    by (rule runs_bind [OF insert_arguments_runs [OF str_step_wf [OF 1(1)] assms(3)]])
      (use str_step_trans [OF 1(1)] fstr_ok_mono [OF str_step_extends 1(2)] in \<open>fastforce\<close>)
qed

lemma insert_directive_step:
  assumes wf: "ir_wf sg (ctx_ir ctx)" and "ir_directive_ok sg (ctx_ir ctx) d" and i: "insert_directive d ctx = (i, ctx')"
  shows "dir_step sg ctx ctx' \<and> i = length (ir_directives (ctx_ir ctx)) \<and> ir_directives (ctx_ir ctx') = ir_directives (ctx_ir ctx) @ [d]"
proof -
  have ctx': "ctx' = ctx\<lparr>ctx_ir := (ctx_ir ctx)\<lparr>ir_directives := ir_directives (ctx_ir ctx) @ [d]\<rparr>\<rparr>"
    and i': "i = length (ir_directives (ctx_ir ctx))"
    using i by (auto simp: insert_directive_def push_return_idx_def)
  have e: "ir_extends (ctx_ir ctx) (ctx_ir ctx')" by (simp add: ctx' ir_extends_def)
  have "ir_wf sg (ctx_ir ctx')"
  proof (rule ir_wf_step [OF wf e])
    show "holds (ctx_ir ctx') x \<Longrightarrow> holds (ctx_ir ctx) x \<or> x \<in> {Item_Directive d}" for x by (cases x) (auto simp: ctx')
  qed (use wf ir_directive_ok_mono [OF e assms(2)] in \<open>simp_all add: ir_wf_def\<close>, simp_all add: ctx')
  then show ?thesis using e by (simp add: dir_step_def ctx_step_def ctx' tables_def i')
qed

text \<open>The state of \<open>collect_composed_directives\<close>: the directives pushed so far, and the range that denotes them.\<close>

definition push_state :: "Subgraphs \<Rightarrow> Context \<Rightarrow> Context \<times> fed_Directives option \<Rightarrow> bool" where
  "push_state sg ctx st \<longleftrightarrow> dir_step sg ctx (fst st) \<and> (\<exists>ds. ir_directives (ctx_ir (fst st)) = ir_directives (ctx_ir ctx) @ ds
     \<and> snd st = (if ds = [] then None else Some (length (ir_directives (ctx_ir ctx)), length ds)))"

lemma push_state_init: "ir_wf sg (ctx_ir ctx) \<Longrightarrow> push_state sg ctx (ctx, None)"
  by (simp add: push_state_def dir_step_refl)

lemma push_state_str:
  assumes "push_state sg ctx (ctx1, ids)" and "str_step sg ctx1 ctx2"
  shows "push_state sg ctx (ctx2, ids)"
  using assms dir_step_trans [OF _ str_step_dir [OF assms(2)]] by (auto simp: push_state_def str_step_def)

lemma push_state_wf: "push_state sg ctx (ctx1, ids) \<Longrightarrow> ir_wf sg (ctx_ir ctx1)"
  by (auto simp: push_state_def intro: dir_step_wf)

lemma push_state_push:
  assumes st: "push_state sg ctx (ctx1, ids)" and d: "ir_directive_ok sg (ctx_ir ctx1) d"
  shows "push_state sg ctx (push_directive d (ctx1, ids))"
proof -
  obtain i ctx2 where i: "insert_directive d ctx1 = (i, ctx2)" by fastforce
  note s = insert_directive_step [OF push_state_wf [OF st] d i]
  have dir: "dir_step sg ctx ctx2" using st s dir_step_trans by (auto simp: push_state_def)
  obtain ds where ds: "ir_directives (ctx_ir ctx1) = ir_directives (ctx_ir ctx) @ ds"
    "ids = (if ds = [] then None else Some (length (ir_directives (ctx_ir ctx)), length ds))"
    using st by (auto simp: push_state_def)
  have "ir_directives (ctx_ir ctx2) = ir_directives (ctx_ir ctx) @ (ds @ [d])" using s ds(1) by simp
  with ds dir s show ?thesis by (auto simp: i push_state_def)
qed

lemma push_state_push_if:
  "push_state sg ctx st \<Longrightarrow> (b \<Longrightarrow> ir_directive_ok sg (ctx_ir (fst st)) d) \<Longrightarrow> push_state sg ctx (if b then push_directive d st else st)"
  by (cases st) (auto simp del: push_directive.simps intro: push_state_push)

lemma push_directive_dir_step:
  assumes "ir_wf sg (ctx_ir ctx)" and "ir_directive_ok sg (ctx_ir ctx) d"
  shows "dir_step sg ctx (fst (push_directive d (ctx, ids)))"
  using insert_directive_step [OF assms] by (auto split: prod.split)

lemma push_state_fold:
  assumes "push_state sg ctx st" and "\<forall>d \<in> set ds. ir_directive_ok sg (ctx_ir (fst st)) d"
  shows "push_state sg ctx (fold push_directive ds st)"
  using assms
proof (induction ds arbitrary: st)
  case (Cons d ds)
  obtain ctx1 ids where st: "st = (ctx1, ids)" by fastforce
  have "dir_step sg ctx1 (fst (push_directive d st))"
    using Cons.prems push_state_wf unfolding st by (intro push_directive_dir_step) auto
  then have "\<forall>d' \<in> set ds. ir_directive_ok sg (ctx_ir (fst (push_directive d st))) d'"
    using Cons.prems(2) ir_directive_ok_mono [OF dir_step_extends] by (auto simp: st simp del: push_directive.simps)
  moreover have "push_state sg ctx (push_directive d st)"
    using Cons.prems unfolding st by (intro push_state_push) auto
  ultimately show ?case using Cons.IH by simp
qed simp

lemma collect_string_lists_runs:
  assumes "ir_wf sg (ctx_ir ctx)" and "\<forall>l \<in> set args. \<forall>s \<in> set l. str_ok sg s"
  shows "runs t (collect_string_lists sg args ctx)
    (\<lambda>(ls, ctx'). str_step sg ctx ctx' \<and> (\<forall>l \<in> set ls. \<forall>s \<in> set l. fstr_ok (ctx_ir ctx') s))"
proof -
  have "runs t (map_accumM (insert_strings sg) args ctx)
      (\<lambda>(ls, ctx'). str_step sg ctx ctx' \<and> (\<forall>l \<in> set ls. \<forall>s \<in> set l. fstr_ok (ctx_ir ctx') s))"
    by (rule map_accumM_str_runs [OF assms(1)]) (use assms(2) insert_strings_runs fstr_ok_mono in blast)+
  then show ?thesis
    unfolding collect_string_lists_def by (rule runs_bind) auto
qed
lemma scan_site_runs:
  assumes wf: "wf_store sg" and "ir_wf sg (ctx_ir ctx)"
  shows "runs t (scan_site sg site (scan, ctx)) (\<lambda>(scan', ctx'). str_step sg ctx ctx'
    \<and> scan_tags scan' = fold bs_insert (tags sg site) (scan_tags scan)
    \<and> (\<exists>extra. scan_extra scan' = scan_extra scan @ extra \<and> (\<forall>d \<in> set extra. ir_directive_ok sg (ctx_ir ctx') d)))"
  unfolding scan_site_def prod.case
proof (rule runs_bind)
  show "runs t (map_accumM (insert_composed sg) (iter_composed_directives sg site) ctx)
      (\<lambda>(ds, ctx'). str_step sg ctx ctx' \<and> (\<forall>d \<in> set ds. ir_directive_ok sg (ctx_ir ctx') d))"
    by (rule map_accumM_str_runs [OF assms(2)], rule insert_composed_runs)
      (use site_directives_ok(6) [OF wf] ir_directive_ok_mono in auto)
qed auto

lemma scan_sites_runs:
  assumes wf: "wf_store sg" and "ir_wf sg (ctx_ir ctx)" and "scan_tags scan = []" and "scan_extra scan = []"
  shows "runs t (foldM (scan_site sg) sites (scan, ctx)) (\<lambda>(scan', ctx'). str_step sg ctx ctx'
    \<and> (\<forall>tag \<in> set (scan_tags scan'). str_ok sg tag) \<and> (\<forall>d \<in> set (scan_extra scan'). ir_directive_ok sg (ctx_ir ctx') d))"
proof (rule runs_foldM)
  show "case (scan, ctx) of (scan', ctx') \<Rightarrow> str_step sg ctx ctx'
      \<and> (\<forall>tag \<in> set (scan_tags scan'). str_ok sg tag) \<and> (\<forall>d \<in> set (scan_extra scan'). ir_directive_ok sg (ctx_ir ctx') d)"
    by (simp add: assms str_step_refl)
  fix site and st :: "SiteScan \<times> Context" assume st: "case st of (scan', ctx') \<Rightarrow> str_step sg ctx ctx'
      \<and> (\<forall>tag \<in> set (scan_tags scan'). str_ok sg tag) \<and> (\<forall>d \<in> set (scan_extra scan'). ir_directive_ok sg (ctx_ir ctx') d)"
  obtain scan1 ctx1 where 1: "st = (scan1, ctx1)" by fastforce
  have s1: "str_step sg ctx ctx1" "\<forall>tag \<in> set (scan_tags scan1). str_ok sg tag" "\<forall>d \<in> set (scan_extra scan1). ir_directive_ok sg (ctx_ir ctx1) d"
    using st by (simp_all add: 1)
  show "runs t (scan_site sg site st) (\<lambda>(scan', ctx'). str_step sg ctx ctx'
      \<and> (\<forall>tag \<in> set (scan_tags scan'). str_ok sg tag) \<and> (\<forall>d \<in> set (scan_extra scan'). ir_directive_ok sg (ctx_ir ctx') d))"
    unfolding 1
  proof (rule runs_mono [OF scan_site_runs [OF wf str_step_wf [OF s1(1)]]], clarify, intro conjI ballI)
    fix scan2 ctx2 extra assume 2: "str_step sg ctx1 ctx2" "scan_tags scan2 = fold bs_insert (tags sg site) (scan_tags scan1)"
      "scan_extra scan2 = scan_extra scan1 @ extra" "\<forall>d \<in> set extra. ir_directive_ok sg (ctx_ir ctx2) d"
    show "str_step sg ctx ctx2" using s1(1) 2(1) by (rule str_step_trans)
    show "str_ok sg tag" if "tag \<in> set (scan_tags scan2)" for tag
      using that s1(2) site_directives_ok(3) [OF wf] by (auto simp: 2(2) set_fold_bs_insert)
    show "ir_directive_ok sg (ctx_ir ctx2) d" if "d \<in> set (scan_extra scan2)" for d
      using that s1(3) 2(3,4) ir_directive_ok_mono [OF str_step_extends [OF 2(1)]] by auto
  qed
qed

lemma push_tags_state:
  assumes "push_state sg ctx st" and "\<forall>tag \<in> set tgs. str_ok sg tag"
  shows "push_state sg ctx (fold push_tag tgs st) \<and> ir_extends (ctx_ir (fst st)) (ctx_ir (fst (fold push_tag tgs st)))"
  using assms
proof (induction tgs arbitrary: st)
  case (Cons tag tgs)
  obtain ctx1 ids where st: "st = (ctx1, ids)" by fastforce
  obtain n ctx2 a ctx3 where i: "insert_static_str ''tag'' ctx1 = (n, ctx2)" "insert_static_str ''name'' ctx2 = (a, ctx3)" by fastforce
  define d where "d = Directive_Other n [(a, Value_String tag)]"
  have wf1: "ir_wf sg (ctx_ir ctx1)" using Cons.prems(1) push_state_wf st by blast
  have 2: "str_step sg ctx1 ctx2" "fstr_ok (ctx_ir ctx2) n" using ir_insert_str_step [OF wf1] i by (auto simp: insert_static_str_def)
  have 3: "str_step sg ctx2 ctx3" "fstr_ok (ctx_ir ctx3) a"
    using ir_insert_str_step [OF str_step_wf [OF 2(1)]] i by (auto simp: insert_static_str_def)
  have 13: "str_step sg ctx1 ctx3" using 2 3 str_step_trans by blast
  have d: "ir_directive_ok sg (ctx_ir ctx3) d"
    using 2 3 fstr_ok_mono [OF str_step_extends [OF 3(1)]] Cons.prems(2) by (simp add: d_def)
  have p: "push_state sg ctx (push_directive d (ctx3, ids))"
    using push_state_str Cons.prems(1) 13 d unfolding st by (intro push_state_push)
  have "ir_extends (ctx_ir ctx3) (ctx_ir (fst (push_directive d (ctx3, ids))))"
    using push_directive_dir_step [OF str_step_wf [OF 13] d] by (rule dir_step_extends)
  then have "ir_extends (ctx_ir ctx1) (ctx_ir (fst (push_directive d (ctx3, ids))))"
    using str_step_extends [OF 13] ir_extends_trans by blast
  then show ?case
    using Cons.IH [OF p] Cons.prems(2) ir_extends_trans
    by (simp add: push_tag_def st i d_def [symmetric] del: push_directive.simps)
qed simp

lemma push_deprecated_runs:
  assumes wf: "wf_store sg" and ir: "ir_wf sg (ctx_ir ctx)"
  shows "runs t (case find_map (deprecated sg) sites of
         Some d \<Rightarrow> do {
           (reason, ctx') \<leftarrow> insert_string_option sg (deprecated_reason d) ctx;
           Some (push_directive (Directive_Deprecated reason) (ctx', None)) }
       | None \<Rightarrow> Some (ctx, None)) (push_state sg ctx)"
proof (rule runs_case_option)
  fix d assume "find_map (deprecated sg) sites = Some d"
  then obtain i where "deprecated sg i = Some d" by (auto dest: find_map_Some)
  then have "opt_ok (str_ok sg) (deprecated_reason d)" using site_directives_ok(1) [OF wf] by blast
  then show "runs t (do { (reason, ctx') \<leftarrow> insert_string_option sg (deprecated_reason d) ctx;
           Some (push_directive (Directive_Deprecated reason) (ctx', None)) }) (push_state sg ctx)"
    by (intro runs_bind [OF insert_string_option_runs [OF ir]])
      (auto simp del: push_directive.simps intro!: push_state_push push_state_str [OF push_state_init [OF ir]])
qed (simp add: push_state_init ir)

lemma push_lists_runs:
  assumes st: "push_state sg ctx (ctx1, ids)" and ok: "\<forall>l \<in> set args. \<forall>s \<in> set l. str_ok sg s"
    and con: "\<And>ir ls. ir_directive_ok sg ir (con ls) \<longleftrightarrow> (\<forall>l \<in> set ls. \<forall>s \<in> set l. fstr_ok ir s)"
    and k: "\<And>ctx2 ids2. push_state sg ctx (ctx2, ids2) \<Longrightarrow> ir_extends (ctx_ir ctx1) (ctx_ir ctx2) \<Longrightarrow> runs t (k (ctx2, ids2)) Q"
  shows "runs t (do {
      (ls, ctx2) \<leftarrow> collect_string_lists sg args ctx1;
      k (if ls \<noteq> [] then push_directive (con ls) (ctx2, ids) else (ctx2, ids)) }) Q"
proof (rule runs_bind [OF collect_string_lists_runs [OF push_state_wf [OF st] ok]], clarify)
  fix ls ctx2 assume 2: "str_step sg ctx1 ctx2" "\<forall>l \<in> set ls. \<forall>s \<in> set l. fstr_ok (ctx_ir ctx2) s"
  define st2 where "st2 = (if ls \<noteq> [] then push_directive (con ls) (ctx2, ids) else (ctx2, ids))"
  have p: "push_state sg ctx st2"
    unfolding st2_def by (rule push_state_push_if [OF push_state_str [OF st 2(1)]]) (simp add: con 2(2))
  have "dir_step sg ctx2 (fst (push_directive (con ls) (ctx2, ids)))"
    by (rule push_directive_dir_step [OF str_step_wf [OF 2(1)]]) (simp add: con 2(2))
  then have "ir_extends (ctx_ir ctx1) (ctx_ir (fst st2))"
    using str_step_extends [OF 2(1)] ir_extends_trans dir_step_extends by (auto simp: st2_def simp del: push_directive.simps)
  with p k show "runs t (k (if ls \<noteq> [] then push_directive (con ls) (ctx2, ids) else (ctx2, ids))) Q"
    unfolding st2_def [symmetric] by (cases st2) simp
qed

lemma push_flag_state:
  assumes "push_state sg ctx st" and "\<And>ir. ir_directive_ok sg ir d"
  shows "push_state sg ctx (if b then push_directive d st else st)"
    and "ir_extends (ctx_ir (fst st)) (ctx_ir (fst (if b then push_directive d st else st)))"
proof -
  obtain ctx1 ids where st: "st = (ctx1, ids)" by fastforce
  show "push_state sg ctx (if b then push_directive d st else st)" using assms by (intro push_state_push_if)
  show "ir_extends (ctx_ir (fst st)) (ctx_ir (fst (if b then push_directive d st else st)))"
    using dir_step_extends [OF push_directive_dir_step [OF push_state_wf]] assms unfolding st by (simp del: push_directive.simps)
qed

lemma push_tags_extra_state:
  assumes st: "push_state sg ctx st" and "\<forall>tag \<in> set tgs. str_ok sg tag" and "\<forall>d \<in> set ds. ir_directive_ok sg (ctx_ir (fst st)) d"
  shows "push_state sg ctx (fold push_directive (dedup_by directive_eq ds) (fold push_tag tgs st))"
proof (rule push_state_fold)
  show "push_state sg ctx (fold push_tag tgs st)" using push_tags_state [OF assms(1,2)] by simp
  show "\<forall>d \<in> set (dedup_by directive_eq ds). ir_directive_ok sg (ctx_ir (fst (fold push_tag tgs st))) d"
    using set_dedup_by_subset [of directive_eq ds] assms(3) ir_directive_ok_mono [OF push_tags_state [OF assms(1,2), THEN conjunct2]] by blast
qed

lemma push_lists_then_runs:
  assumes st: "push_state sg ctx (ctx1, ids1)"
    and scopes: "\<forall>l \<in> set scs. \<forall>s \<in> set l. str_ok sg s" and pols: "\<forall>l \<in> set pls. \<forall>s \<in> set l. str_ok sg s"
    and k: "\<And>ctx2 ids2. push_state sg ctx (ctx2, ids2) \<Longrightarrow> ir_extends (ctx_ir ctx1) (ctx_ir ctx2) \<Longrightarrow> runs t (k (ctx2, ids2)) Q"
  shows "runs t (do {
     (scopes, ctx4) \<leftarrow> collect_string_lists sg scs ctx1;
     let (ctx5, ids5) = (if scopes \<noteq> [] then push_directive (Directive_RequiresScopes scopes) (ctx4, ids1) else (ctx4, ids1));
     (pols, ctx6) \<leftarrow> collect_string_lists sg pls ctx5;
     k (if pols \<noteq> [] then push_directive (Directive_Policy pols) (ctx6, ids5) else (ctx6, ids5)) }) Q"
proof -
  have "runs t (do { (pols, ctx6) \<leftarrow> collect_string_lists sg pls ctx5;
      k (if pols \<noteq> [] then push_directive (Directive_Policy pols) (ctx6, ids5) else (ctx6, ids5)) }) Q"
    if "push_state sg ctx (ctx5, ids5)" "ir_extends (ctx_ir ctx1) (ctx_ir ctx5)" for ctx5 ids5
    by (rule push_lists_runs [OF that(1) pols]) (use k ir_extends_trans [OF that(2)] in auto)
  then show ?thesis
    unfolding Let_def
    by (intro push_lists_runs [OF st scopes, where con = Directive_RequiresScopes and k = "\<lambda>(ctx5, ids5). do {
        (pols, ctx6) \<leftarrow> collect_string_lists sg pls ctx5;
        k (if pols \<noteq> [] then push_directive (Directive_Policy pols) (ctx6, ids5) else (ctx6, ids5)) }"]) auto
qed

text \<open>The range that \<open>collect_composed_directives\<close> returns denotes exactly the directives it appended.\<close>

lemma collect_composed_directives_runs:
  assumes wf: "wf_store sg" and ir: "ir_wf sg (ctx_ir ctx)"
  shows "runs t (collect_composed_directives sg sites ctx) (\<lambda>(r, ctx'). dir_step sg ctx ctx' \<and>
    (\<exists>ds. ir_directives (ctx_ir ctx') = ir_directives (ctx_ir ctx) @ ds
      \<and> r = (if ds = [] then (0, 0) else (length (ir_directives (ctx_ir ctx)), length ds))))"
  unfolding collect_composed_directives_def
proof (rule runs_bind [OF push_deprecated_runs [OF assms]], clarify, rule runs_bind [OF scan_sites_runs [OF wf push_state_wf]],
    assumption, simp, simp, clarify)
  fix ctx1 ids1 scan ctx2
  assume st: "push_state sg ctx (ctx1, ids1)" and 2: "str_step sg ctx1 ctx2" "\<forall>tag \<in> set (scan_tags scan). str_ok sg tag"
    "\<forall>d \<in> set (scan_extra scan). ir_directive_ok sg (ctx_ir ctx2) d"
  define st3 where "st3 = (if scan_inaccessible scan then push_directive Directive_Inaccessible (ctx2, ids1) else (ctx2, ids1))"
  define st4 where "st4 = (if scan_authenticated scan then push_directive Directive_Authenticated st3 else st3)"
  have p3: "push_state sg ctx st3" "ir_extends (ctx_ir ctx2) (ctx_ir (fst st3))"
    using push_flag_state [OF push_state_str [OF st 2(1)], of Directive_Inaccessible] unfolding st3_def by simp_all
  have p4: "push_state sg ctx st4" "ir_extends (ctx_ir ctx2) (ctx_ir (fst st4))"
    using push_flag_state [OF p3(1), of Directive_Authenticated] ir_extends_trans [OF p3(2)] unfolding st4_def by simp_all
  obtain ctx4 ids4 where st4: "st4 = (ctx4, ids4)" by fastforce
  have lists: "\<forall>l \<in> set (concat (map (requires_scopes sg) sites)). \<forall>s \<in> set l. str_ok sg s"
    "\<forall>l \<in> set (concat (map (policies sg) sites)). \<forall>s \<in> set l. str_ok sg s"
    using site_directives_ok(4,5) [OF wf] by auto
  let ?Q = "\<lambda>(r, ctx'). dir_step sg ctx ctx' \<and> (\<exists>ds. ir_directives (ctx_ir ctx') = ir_directives (ctx_ir ctx) @ ds
      \<and> r = (if ds = [] then (0, 0) else (length (ir_directives (ctx_ir ctx)), length ds)))"
  let ?k = "\<lambda>st. case fold push_directive (dedup_by directive_eq (scan_extra scan)) (fold push_tag (scan_tags scan) st) of
      (ctx7, ids7) \<Rightarrow> Some (case ids7 of Some ids \<Rightarrow> ids | None \<Rightarrow> (0, 0), ctx7)"
  have k: "runs t (?k (ctx5, ids5)) ?Q" if "push_state sg ctx (ctx5, ids5)" "ir_extends (ctx_ir ctx4) (ctx_ir ctx5)" for ctx5 ids5
  proof -
    have e: "ir_extends (ctx_ir ctx2) (ctx_ir ctx5)" by (rule ir_extends_trans [OF p4(2) [unfolded st4 fst_conv] that(2)])
    obtain ctx7 ids7 where 7: "fold push_directive (dedup_by directive_eq (scan_extra scan)) (fold push_tag (scan_tags scan) (ctx5, ids5)) = (ctx7, ids7)"
      by fastforce
    have "\<forall>d \<in> set (scan_extra scan). ir_directive_ok sg (ctx_ir ctx5) d" using 2(3) ir_directive_ok_mono [OF e] by blast
    then have "push_state sg ctx (ctx7, ids7)"
      using push_tags_extra_state [OF that(1) 2(2), of "scan_extra scan"] by (simp only: fst_conv 7)
    then obtain ds where ds: "dir_step sg ctx ctx7" "ir_directives (ctx_ir ctx7) = ir_directives (ctx_ir ctx) @ ds"
        "ids7 = (if ds = [] then None else Some (length (ir_directives (ctx_ir ctx)), length ds))"
      by (auto simp only: push_state_def fst_conv snd_conv)
    then show ?thesis unfolding 7 prod.case runs_Some by (intro conjI exI [of _ ds]) simp_all
  qed
  show "runs t (let st = (ctx2, ids1); st = if scan_inaccessible scan then push_directive Directive_Inaccessible st else st;
      (ctx3, ids3) = if scan_authenticated scan then push_directive Directive_Authenticated st else st in do {
     (scopes, ctx4) \<leftarrow> collect_string_lists sg (concat (map (requires_scopes sg) sites)) ctx3;
     let (ctx5, ids5) = (if scopes \<noteq> [] then push_directive (Directive_RequiresScopes scopes) (ctx4, ids3) else (ctx4, ids3));
     (pols, ctx6) \<leftarrow> collect_string_lists sg (concat (map (policies sg) sites)) ctx5;
     let st = (if pols \<noteq> [] then push_directive (Directive_Policy pols) (ctx6, ids5) else (ctx6, ids5));
     let st = fold push_tag (scan_tags scan) st;
     let (ctx7, ids7) = fold push_directive (dedup_by directive_eq (scan_extra scan)) st;
     Some (case ids7 of Some ids \<Rightarrow> ids | None \<Rightarrow> (0, 0), ctx7) }) ?Q"
    using push_lists_then_runs [where k = ?k, OF p4(1) [unfolded st4] lists k]
    unfolding Let_def st3_def [symmetric] st4_def [symmetric] st4 prod.case .
qed

lemma collected_runs:
  assumes "wf_store sg" and "ir_wf sg (ctx_ir ctx)"
  shows "runs t (collect_composed_directives sg sites ctx) (\<lambda>(r, ctx'). dir_step sg ctx ctx' \<and> dirs_ok (ctx_ir ctx') r)"
proof (rule runs_mono [OF collect_composed_directives_runs [OF assms]])
  fix x :: "fed_Directives \<times> Context" assume x: "case x of (r, ctx') \<Rightarrow> dir_step sg ctx ctx' \<and>
    (\<exists>ds. ir_directives (ctx_ir ctx') = ir_directives (ctx_ir ctx) @ ds
      \<and> r = (if ds = [] then (0, 0) else (length (ir_directives (ctx_ir ctx)), length ds)))"
  then obtain r ctx' ds where "x = (r, ctx')" "dir_step sg ctx ctx'" "ir_directives (ctx_ir ctx') = ir_directives (ctx_ir ctx) @ ds"
      "r = (if ds = [] then (0, 0) else (length (ir_directives (ctx_ir ctx)), length ds))" by blast
  then show "case x of (r, ctx') \<Rightarrow> dir_step sg ctx ctx' \<and> dirs_ok (ctx_ir ctx') r"
    by (cases "ds = []") (simp_all add: dirs_ok_def range_in_def)
qed

subsection \<open>Insertions\<close>

lemma ir_update_step:
  assumes wf: "ir_wf sg (ctx_ir ctx)" and ctx': "ctx_diagnostics ctx' = ctx_diagnostics ctx" and e: "ir_extends (ctx_ir ctx) (ctx_ir ctx')"
    and "\<And>x. holds (ctx_ir ctx') x \<Longrightarrow> holds (ctx_ir ctx) x \<or> x \<in> new" and "\<forall>x \<in> new. item_ok sg (ctx_ir ctx') x"
    and "ir_strings (ctx_ir ctx') = ir_strings (ctx_ir ctx)"
    and "ir_enum_values (ctx_ir ctx') = ir_enum_values (ctx_ir ctx) \<or> sorted (map ev_enum_id (ir_enum_values (ctx_ir ctx')))"
    and "ir_union_members (ctx_ir ctx') = ir_union_members (ctx_ir ctx) \<or> bs_wf (ir_union_members (ctx_ir ctx'))"
    and "ir_union_join_members (ctx_ir ctx') = ir_union_join_members (ctx_ir ctx) \<or> bt_wf (ir_union_join_members (ctx_ir ctx'))"
  shows "ctx_step sg ctx ctx'"
proof -
  have "ir_wf sg (ctx_ir ctx')"
    using assms(6-9) wf by (intro ir_wf_step [OF wf e assms(4,5)]) (auto simp: ir_wf_def)
  then show ?thesis using e ctx' by (simp add: ctx_step_def)
qed

lemma typedef_ok_push: "td_kind r = k \<Longrightarrow> ir_type_definitions ir = ts @ [r] \<Longrightarrow> i = length ts \<Longrightarrow> typedef_ok ir k i"
  by (simp add: typedef_ok_def)

lemma push_type_definition_step:
  assumes wf: "ir_wf sg (ctx_ir ctx)" and p: "push_type_definition r ctx = (i, ctx')"
    and "fstr_ok (ctx_ir ctx) (td_name r)" and "opt_ok (fstr_ok (ctx_ir ctx)) (td_description r)" and "dirs_ok (ctx_ir ctx) (td_directives r)"
  shows "ctx_step sg ctx ctx'" and "typedef_ok (ctx_ir ctx') (td_kind r) i"
    and "length (ir_type_definitions (ctx_ir ctx')) = Suc i"
    and "ir_input_value_definitions (ctx_ir ctx') = ir_input_value_definitions (ctx_ir ctx)"
proof -
  have ctx': "ctx' = ctx\<lparr>ctx_ir := (ctx_ir ctx)\<lparr>ir_type_definitions := ir_type_definitions (ctx_ir ctx) @ [r]\<rparr>\<rparr>"
    and i: "i = length (ir_type_definitions (ctx_ir ctx))"
    using p by (auto simp: push_type_definition_def push_return_idx_def)
  have e: "ir_extends (ctx_ir ctx) (ctx_ir ctx')" by (simp add: ctx' ir_extends_def)
  show "ctx_step sg ctx ctx'"
  proof (rule ir_update_step [OF wf _ e])
    show "holds (ctx_ir ctx') x \<Longrightarrow> holds (ctx_ir ctx) x \<or> x \<in> {Item_Type r}" for x by (cases x) (auto simp: ctx')
  qed (use assms(3-5) ir_mono [OF e] in simp_all, simp_all add: ctx')
  show "typedef_ok (ctx_ir ctx') (td_kind r) i" "length (ir_type_definitions (ctx_ir ctx')) = Suc i"
    "ir_input_value_definitions (ctx_ir ctx') = ir_input_value_definitions (ctx_ir ctx)"
    by (simp_all add: ctx' i typedef_ok_push)
qed

lemma define_name_step:
  assumes wf: "ir_wf sg (ctx_ir ctx)" and "fstr_ok (ctx_ir ctx) n" and "fdef_ok (ctx_ir ctx) d"
  shows "ctx_step sg ctx (define_name n d ctx)"
proof -
  have e: "ir_extends (ctx_ir ctx) (ctx_ir (define_name n d ctx))" by (simp add: define_name_def ir_extends_def)
  show ?thesis
  proof (rule ir_update_step [OF wf _ e])
    show "holds (ctx_ir (define_name n d ctx)) x \<Longrightarrow> holds (ctx_ir ctx) x \<or> x \<in> {Item_Name n d}" for x
      by (cases x) (auto simp: define_name_def split: if_splits)
  qed (use assms(2,3) ir_mono [OF e] in simp_all, simp_all add: define_name_def)
qed

lemma define_name_frame [simp]:
  "ir_type_definitions (ctx_ir (define_name n d ctx)) = ir_type_definitions (ctx_ir ctx)"
  "ir_input_value_definitions (ctx_ir (define_name n d ctx)) = ir_input_value_definitions (ctx_ir ctx)"
  "ir_objects (ctx_ir (define_name n d ctx)) = ir_objects (ctx_ir ctx)"
  "ir_interfaces (ctx_ir (define_name n d ctx)) = ir_interfaces (ctx_ir ctx)"
  by (simp_all add: define_name_def)

text \<open>The part that scalars and enums share: the name, the description, the type definition and its entry.\<close>

lemma named_type_step:
  assumes wf: "ir_wf sg (ctx_ir ctx)" and d: "dirs_ok (ctx_ir ctx) dirs" and con: "\<And>ir. fdef_ok ir (con i) \<longleftrightarrow> typedef_ok ir k i"
    and 1: "ir_insert_str name ctx = (n, ctx1)" and 2: "ir_insert_option descr ctx1 = (ds, ctx2)"
    and p: "push_type_definition \<lparr>td_name = n, td_description = ds, td_directives = dirs, td_kind = k\<rparr> ctx2 = (i, ctx3)"
    and ctx': "ctx' = define_name n (con i) ctx3"
  shows "ctx_step sg ctx ctx'" and "typedef_ok (ctx_ir ctx') k i" and "length (ir_type_definitions (ctx_ir ctx')) = Suc i"
proof -
  have s1: "str_step sg ctx ctx1" "fstr_ok (ctx_ir ctx1) n" using ir_insert_str_step [OF wf 1] by simp_all
  have s2: "str_step sg ctx1 ctx2" "opt_ok (fstr_ok (ctx_ir ctx2)) ds" using ir_insert_option_step [OF str_step_wf [OF s1(1)] 2] by simp_all
  have e2: "ir_extends (ctx_ir ctx) (ctx_ir ctx2)" "ir_extends (ctx_ir ctx1) (ctx_ir ctx2)"
    using str_step_extends s1 s2 ir_extends_trans by blast+
  have n2: "fstr_ok (ctx_ir ctx2) n" by (rule fstr_ok_mono [OF e2(2) s1(2)])
  have 3: "ctx_step sg ctx2 ctx3" "typedef_ok (ctx_ir ctx3) k i" "length (ir_type_definitions (ctx_ir ctx3)) = Suc i"
    using push_type_definition_step(1-3) [OF str_step_wf [OF s2(1)] p] n2 s2(2) dirs_ok_mono [OF e2(1) d] by simp_all
  have 4: "ctx_step sg ctx3 ctx'"
    using 3 fstr_ok_mono [OF ctx_step_extends [OF 3(1)] n2] unfolding ctx'
    by (intro define_name_step ctx_step_wf [OF 3(1)]) (simp_all add: con)
  show "ctx_step sg ctx ctx'"
    by (rule ctx_step_trans [OF str_step_ctx [OF s1(1)] ctx_step_trans [OF str_step_ctx [OF s2(1)] ctx_step_trans [OF 3(1) 4]]])
  show "typedef_ok (ctx_ir ctx') k i" by (rule typedef_ok_mono [OF ctx_step_extends [OF 4] 3(2)])
  show "length (ir_type_definitions (ctx_ir ctx')) = Suc i" by (simp add: ctx' 3(3))
qed

lemma insert_scalar_step:
  assumes "ir_wf sg (ctx_ir ctx)" and "dirs_ok (ctx_ir ctx) dirs"
  shows "ctx_step sg ctx (insert_scalar name descr dirs ctx)"
  using named_type_step(1) [OF assms, of Fed_Scalar] by (auto simp: insert_scalar_def split: prod.split)

lemma insert_enum_step:
  assumes "ir_wf sg (ctx_ir ctx)" and "dirs_ok (ctx_ir ctx) dirs" and "insert_enum name descr dirs ctx = (i, ctx')"
  shows "ctx_step sg ctx ctx'" and "typedef_ok (ctx_ir ctx') Kind_Enum i" and "length (ir_type_definitions (ctx_ir ctx')) = Suc i"
  using named_type_step [OF assms(1,2), of Fed_Enum i Kind_Enum] assms(3) by (auto simp: insert_enum_def split: prod.splits)

lemma enum_ids_bounded:
  assumes "ir_wf sg ir" and "length (ir_type_definitions ir) = Suc i" and "v \<in> set (ir_enum_values ir)"
  shows "ev_enum_id v \<le> i"
proof -
  have "item_ok sg ir (Item_EnumValue v)" using assms(1,3) unfolding ir_wf_def by (metis holds.simps(6))
  then show ?thesis using assms(2) by (auto simp: typedef_ok_def vec_index_eq_Some)
qed

text \<open>The values of an enum are appended right after its definition, so the table stays sorted by enum.\<close>

lemma insert_enum_value_step:
  assumes wf: "ir_wf sg (ctx_ir ctx)" and d: "dirs_ok (ctx_ir ctx) dirs" and e: "typedef_ok (ctx_ir ctx) Kind_Enum enum_id"
    and len: "length (ir_type_definitions (ctx_ir ctx)) = Suc enum_id"
    and r: "insert_enum_value v descr dirs enum_id ctx = (i, ctx')"
  shows "ctx_step sg ctx ctx'" and "ir_type_definitions (ctx_ir ctx') = ir_type_definitions (ctx_ir ctx)"
    and "\<exists>x. ir_enum_values (ctx_ir ctx') = ir_enum_values (ctx_ir ctx) @ [x] \<and> ev_enum_id x = enum_id
      \<and> strings_resolve (ir_strings (ctx_ir ctx')) (ev_value x) = Some v"
proof -
  obtain n ctx1 ds ctx2 where 1: "ir_insert_str v ctx = (n, ctx1)" and 2: "ir_insert_option descr ctx1 = (ds, ctx2)" by (metis prod.exhaust)
  define x where "x = \<lparr>ev_enum_id = enum_id, ev_value = n, ev_composed_directives = dirs, ev_description = ds\<rparr>"
  have ctx': "ctx' = ctx2\<lparr>ctx_ir := (ctx_ir ctx2)\<lparr>ir_enum_values := ir_enum_values (ctx_ir ctx2) @ [x]\<rparr>\<rparr>"
    using r by (auto simp: insert_enum_value_def 1 2 x_def push_return_idx_def Let_def)
  have s1: "str_step sg ctx ctx1" "fstr_ok (ctx_ir ctx1) n" "strings_resolve (ir_strings (ctx_ir ctx1)) n = Some v"
    using ir_insert_str_step [OF wf 1] by simp_all
  have s2: "str_step sg ctx1 ctx2" "opt_ok (fstr_ok (ctx_ir ctx2)) ds" using ir_insert_option_step [OF str_step_wf [OF s1(1)] 2] by simp_all
  have s02: "str_step sg ctx ctx2" by (rule str_step_trans [OF s1(1) s2(1)])
  note t02 = tables_eq [OF conjunct2 [OF str_step_dir [OF s02, unfolded dir_step_def]]]
  have e2: "ir_extends (ctx_ir ctx2) (ctx_ir ctx')" by (simp add: ctx' ir_extends_def)
  have wf2: "ir_wf sg (ctx_ir ctx2)" by (rule str_step_wf [OF s02])
  have len2: "length (ir_type_definitions (ctx_ir ctx2)) = Suc enum_id" using len t02 by simp
  have "ctx_step sg ctx2 ctx'"
  proof (rule ir_update_step [OF wf2 _ e2])
    show "holds (ctx_ir ctx') y \<Longrightarrow> holds (ctx_ir ctx2) y \<or> y \<in> {Item_EnumValue x}" for y by (cases y) (auto simp: ctx')
    have "item_ok sg (ctx_ir ctx2) (Item_EnumValue x)"
      using s1(2) s2 d e ir_mono [OF str_step_extends [OF s02]] fstr_ok_mono [OF str_step_extends [OF s2(1)]] by (simp add: x_def)
    then show "\<forall>y \<in> {Item_EnumValue x}. item_ok sg (ctx_ir ctx') y" using item_ok_mono [OF e2] by blast
    have "sorted (map ev_enum_id (ir_enum_values (ctx_ir ctx2)))" using wf2 by (simp add: ir_wf_def)
    then show "ir_enum_values (ctx_ir ctx') = ir_enum_values (ctx_ir ctx2) \<or> sorted (map ev_enum_id (ir_enum_values (ctx_ir ctx')))"
      using enum_ids_bounded [OF wf2 len2] by (auto simp: ctx' x_def sorted_append)
  qed (simp_all add: ctx')
  then show "ctx_step sg ctx ctx'" by (rule ctx_step_trans [OF str_step_ctx [OF s02]])
  show "ir_type_definitions (ctx_ir ctx') = ir_type_definitions (ctx_ir ctx)" using t02 by (simp add: ctx')
  have "prefix (ir_strings (ctx_ir ctx1)) (ir_strings (ctx_ir ctx2))" using str_step_extends [OF s2(1)] by (simp add: ir_extends_def)
  then have "strings_resolve (ir_strings (ctx_ir ctx2)) n = Some v" using s1(3) by (auto simp: prefix_def strings_resolve_def vec_index_append)
  then show "\<exists>x. ir_enum_values (ctx_ir ctx') = ir_enum_values (ctx_ir ctx) @ [x] \<and> ev_enum_id x = enum_id
      \<and> strings_resolve (ir_strings (ctx_ir ctx')) (ev_value x) = Some v"
    using t02 by (intro exI [of _ x]) (simp add: ctx' x_def)
qed
text \<open>Appending one record to one table.\<close>

lemma append_step:
  assumes wf: "ir_wf sg (ctx_ir ctx)" and ctx': "ctx' = ctx\<lparr>ctx_ir := ir'\<rparr>" and e: "ir_extends (ctx_ir ctx) ir'"
    and "\<And>x. holds ir' x \<Longrightarrow> holds (ctx_ir ctx) x \<or> x = y" and "item_ok sg (ctx_ir ctx) y"
    and "ir_strings ir' = ir_strings (ctx_ir ctx)" and "ir_enum_values ir' = ir_enum_values (ctx_ir ctx)"
    and "ir_union_members ir' = ir_union_members (ctx_ir ctx)" and "ir_union_join_members ir' = ir_union_join_members (ctx_ir ctx)"
  shows "ctx_step sg ctx ctx'"
proof (rule ir_update_step [OF wf])
  show "holds (ctx_ir ctx') x \<Longrightarrow> holds (ctx_ir ctx) x \<or> x \<in> {y}" for x using assms(4) by (simp add: ctx')
  show "\<forall>x \<in> {y}. item_ok sg (ctx_ir ctx') x" using item_ok_mono [OF e assms(5)] by (simp add: ctx')
qed (use assms(6-9) e in \<open>simp_all add: ctx'\<close>)

lemma insert_field_step:
  assumes "ir_wf sg (ctx_ir ctx)" and "field_ir_ok sg (ctx_ir ctx) f" and "insert_field f ctx = (i, ctx')"
  shows "ctx_step sg ctx ctx' \<and> i < length (ir_fields (ctx_ir ctx'))"
proof -
  have ctx': "ctx' = ctx\<lparr>ctx_ir := (ctx_ir ctx)\<lparr>ir_fields := ir_fields (ctx_ir ctx) @ [f]\<rparr>\<rparr>" and i: "i = length (ir_fields (ctx_ir ctx))"
    using assms(3) by (auto simp: insert_field_def push_return_idx_def)
  have "holds ((ctx_ir ctx)\<lparr>ir_fields := ir_fields (ctx_ir ctx) @ [f]\<rparr>) x \<Longrightarrow> holds (ctx_ir ctx) x \<or> x = Item_Field f" for x
    by (cases x) auto
  from append_step [OF assms(1) ctx' _ this] show ?thesis using assms(2) by (simp add: ctx' i ir_extends_def)
qed

lemma insert_input_value_definition_step:
  assumes "ir_wf sg (ctx_ir ctx)" and "item_ok sg (ctx_ir ctx) (Item_InputValue x)" and "insert_input_value_definition x ctx = (i, ctx')"
  shows "ctx_step sg ctx ctx'" and "ir_input_value_definitions (ctx_ir ctx') = ir_input_value_definitions (ctx_ir ctx) @ [x]"
    and "i = length (ir_input_value_definitions (ctx_ir ctx))"
proof -
  have ctx': "ctx' = ctx\<lparr>ctx_ir := (ctx_ir ctx)\<lparr>ir_input_value_definitions := ir_input_value_definitions (ctx_ir ctx) @ [x]\<rparr>\<rparr>"
    and i: "i = length (ir_input_value_definitions (ctx_ir ctx))"
    using assms(3) by (auto simp: insert_input_value_definition_def push_return_idx_def)
  have "holds ((ctx_ir ctx)\<lparr>ir_input_value_definitions := ir_input_value_definitions (ctx_ir ctx) @ [x]\<rparr>) y \<Longrightarrow>
      holds (ctx_ir ctx) y \<or> y = Item_InputValue x" for y
    by (cases y) auto
  from append_step [OF assms(1) ctx' _ this] show "ctx_step sg ctx ctx'" using assms(2) by (simp add: ir_extends_def)
  show "ir_input_value_definitions (ctx_ir ctx') = ir_input_value_definitions (ctx_ir ctx) @ [x]"
    "i = length (ir_input_value_definitions (ctx_ir ctx))" by (simp_all add: ctx' i)
qed

lemma insert_input_object_step:
  assumes wf: "ir_wf sg (ctx_ir ctx)" and "fstr_ok (ctx_ir ctx) n" and "dirs_ok (ctx_ir ctx) dirs" and "args_ok (ctx_ir ctx) r"
  shows "ctx_step sg ctx (snd (insert_input_object n descr dirs r ctx))"
proof -
  obtain ds ctx1 where 1: "ir_insert_option descr ctx = (ds, ctx1)" by fastforce
  define x where "x = \<lparr>fio_name = n, fio_fields = r, fio_composed_directives = dirs, fio_description = ds\<rparr>"
  define ctx2 where "ctx2 = ctx1\<lparr>ctx_ir := (ctx_ir ctx1)\<lparr>ir_input_objects := ir_input_objects (ctx_ir ctx1) @ [x]\<rparr>\<rparr>"
  have s1: "str_step sg ctx ctx1" "opt_ok (fstr_ok (ctx_ir ctx1)) ds" using ir_insert_option_step [OF wf 1] by simp_all
  have x: "item_ok sg (ctx_ir ctx1) (Item_InputObject x)"
    using assms(2-4) s1(2) ir_mono [OF str_step_extends [OF s1(1)]] by (simp add: x_def)
  have "holds ((ctx_ir ctx1)\<lparr>ir_input_objects := ir_input_objects (ctx_ir ctx1) @ [x]\<rparr>) y \<Longrightarrow>
      holds (ctx_ir ctx1) y \<or> y = Item_InputObject x" for y by (cases y) auto
  from append_step [OF str_step_wf [OF s1(1)] ctx2_def _ this x] have 2: "ctx_step sg ctx1 ctx2" by (simp add: ir_extends_def)
  have 12: "ctx_step sg ctx ctx2" by (rule ctx_step_trans [OF str_step_ctx [OF s1(1)] 2])
  have "ctx_step sg ctx2 (define_name n (Fed_InputObject (length (ir_input_objects (ctx_ir ctx1)))) ctx2)"
    by (rule define_name_step [OF ctx_step_wf [OF 2] fstr_ok_mono [OF ctx_step_extends [OF 12] assms(2)]]) (simp add: ctx2_def)
  from ctx_step_trans [OF 12 this] show ?thesis
    by (simp add: insert_input_object_def 1 push_return_idx_def x_def [symmetric] ctx2_def [symmetric])
qed

lemma insert_interface_step:
  assumes wf: "ir_wf sg (ctx_ir ctx)" and n: "fstr_ok (ctx_ir ctx) n" and d: "dirs_ok (ctx_ir ctx) dirs"
    and r: "insert_interface n descr dirs ctx = (i, ctx')"
  shows "ctx_step sg ctx ctx' \<and> fdef_ok (ctx_ir ctx') (Fed_Interface i)"
proof -
  obtain ds ctx1 ty ctx2 where 1: "ir_insert_option descr ctx = (ds, ctx1)"
    and 2: "push_type_definition \<lparr>td_name = n, td_description = ds, td_directives = dirs, td_kind = Kind_Interface\<rparr> ctx1 = (ty, ctx2)"
    by (metis prod.exhaust)
  define x where "x = \<lparr>fi_type_definition_id = ty, fi_implements_interfaces = [], fi_keys = [], fi_fields = NO_FIELDS, fi_join_implements = []\<rparr>"
  define ctx3 where "ctx3 = ctx2\<lparr>ctx_ir := (ctx_ir ctx2)\<lparr>ir_interfaces := ir_interfaces (ctx_ir ctx2) @ [x]\<rparr>\<rparr>"
  have ctx': "ctx' = define_name n (Fed_Interface i) ctx3" "i = length (ir_interfaces (ctx_ir ctx2))"
    using r by (auto simp: insert_interface_def 1 2 push_return_idx_def Let_def x_def ctx3_def)
  have s1: "str_step sg ctx ctx1" "opt_ok (fstr_ok (ctx_ir ctx1)) ds" using ir_insert_option_step [OF wf 1] by simp_all
  note m = ir_mono [OF str_step_extends [OF s1(1)]]
  have s2: "ctx_step sg ctx1 ctx2" "typedef_ok (ctx_ir ctx2) Kind_Interface ty"
    using push_type_definition_step(1,2) [OF str_step_wf [OF s1(1)] 2] m(1) [OF n] m(3) [OF d] s1(2) by simp_all
  have "holds ((ctx_ir ctx2)\<lparr>ir_interfaces := ir_interfaces (ctx_ir ctx2) @ [x]\<rparr>) y \<Longrightarrow>
      holds (ctx_ir ctx2) y \<or> y = Item_Interface x" for y by (cases y) auto
  from append_step [OF ctx_step_wf [OF s2(1)] ctx3_def _ this] s2(2)
  have s3: "ctx_step sg ctx2 ctx3" by (simp add: ir_extends_def x_def)
  have 13: "ctx_step sg ctx ctx3" by (rule ctx_step_trans [OF str_step_ctx [OF s1(1)] ctx_step_trans [OF s2(1) s3]])
  have i: "fdef_ok (ctx_ir ctx3) (Fed_Interface i)" by (simp add: ctx' ctx3_def)
  have 4: "ctx_step sg ctx3 ctx'"
    unfolding ctx'(1) by (rule define_name_step [OF ctx_step_wf [OF s3] fstr_ok_mono [OF ctx_step_extends [OF 13] n] i])
  then show ?thesis using ctx_step_trans [OF 13 4] fdef_ok_mono [OF ctx_step_extends [OF 4] i] by simp
qed

lemma insert_object_runs:
  assumes wf: "ir_wf sg (ctx_ir ctx)" and n: "fstr_ok (ctx_ir ctx) n" and d: "dirs_ok (ctx_ir ctx) dirs" and "opt_ok (str_ok sg) descr"
  shows "runs t (insert_object sg n descr dirs ctx) (\<lambda>(i, ctx'). ctx_step sg ctx ctx' \<and> fdef_ok (ctx_ir ctx') (Fed_Object i))"
  unfolding insert_object_def
proof (rule runs_bind [OF insert_string_option_runs [OF wf assms(4)]], clarify)
  fix ds ctx1 assume s1: "str_step sg ctx ctx1" "opt_ok (fstr_ok (ctx_ir ctx1)) ds"
  obtain ty ctx2 where 2: "push_type_definition \<lparr>td_name = n, td_description = ds, td_directives = dirs, td_kind = Kind_Object\<rparr> ctx1 = (ty, ctx2)"
    by fastforce
  define x where "x = \<lparr>fo_type_definition_id = ty, fo_implements_interfaces = [], fo_join_implements = [], fo_keys = [], fo_fields = NO_FIELDS\<rparr>"
  define ctx3 where "ctx3 = ctx2\<lparr>ctx_ir := (ctx_ir ctx2)\<lparr>ir_objects := ir_objects (ctx_ir ctx2) @ [x]\<rparr>\<rparr>"
  define i where "i = length (ir_objects (ctx_ir ctx2))"
  note m = ir_mono [OF str_step_extends [OF s1(1)]]
  have s2: "ctx_step sg ctx1 ctx2" "typedef_ok (ctx_ir ctx2) Kind_Object ty"
    using push_type_definition_step(1,2) [OF str_step_wf [OF s1(1)] 2] m(1) [OF n] m(3) [OF d] s1(2) by simp_all
  have "holds ((ctx_ir ctx2)\<lparr>ir_objects := ir_objects (ctx_ir ctx2) @ [x]\<rparr>) y \<Longrightarrow>
      holds (ctx_ir ctx2) y \<or> y = Item_Object x" for y by (cases y) auto
  from append_step [OF ctx_step_wf [OF s2(1)] ctx3_def _ this] s2(2)
  have s3: "ctx_step sg ctx2 ctx3" by (simp add: ir_extends_def x_def)
  have 13: "ctx_step sg ctx ctx3" by (rule ctx_step_trans [OF str_step_ctx [OF s1(1)] ctx_step_trans [OF s2(1) s3]])
  have i: "fdef_ok (ctx_ir ctx3) (Fed_Object i)" by (simp add: i_def ctx3_def)
  have 4: "ctx_step sg ctx3 (define_name n (Fed_Object i) ctx3)"
    by (rule define_name_step [OF ctx_step_wf [OF s3] fstr_ok_mono [OF ctx_step_extends [OF 13] n] i])
  have "ctx_step sg ctx (define_name n (Fed_Object i) ctx3) \<and> fdef_ok (ctx_ir (define_name n (Fed_Object i) ctx3)) (Fed_Object i)"
    using ctx_step_trans [OF 13 4] fdef_ok_mono [OF ctx_step_extends [OF 4] i] by simp
  then show "runs t (do {
       let (type_definition_id, ctx2) = push_type_definition
         \<lparr>td_name = n, td_description = ds, td_directives = dirs, td_kind = Kind_Object\<rparr> ctx1;
       let obj = \<lparr>fo_type_definition_id = type_definition_id, fo_implements_interfaces = [], fo_join_implements = [],
         fo_keys = [], fo_fields = NO_FIELDS\<rparr>;
       let (i, os) = push_return_idx (ir_objects (ctx_ir ctx2)) obj;
       Some (i, define_name n (Fed_Object i) (ctx2\<lparr>ctx_ir := (ctx_ir ctx2)\<lparr>ir_objects := os\<rparr>\<rparr>)) })
     (\<lambda>(i, ctx'). ctx_step sg ctx ctx' \<and> fdef_ok (ctx_ir ctx') (Fed_Object i))"
    by (simp add: 2 push_return_idx_def x_def [symmetric] ctx3_def [symmetric] i_def [symmetric])
qed

lemma insert_union_runs:
  assumes wf: "ir_wf sg (ctx_ir ctx)" and n: "fstr_ok (ctx_ir ctx) n" and d: "dirs_ok (ctx_ir ctx) dirs" and "opt_ok (str_ok sg) descr"
  shows "runs t (insert_union sg n dirs descr ctx) (\<lambda>(i, ctx'). ctx_step sg ctx ctx')"
  unfolding insert_union_def
proof (rule runs_bind [OF insert_string_option_runs [OF wf assms(4)]], clarify)
  fix ds ctx1 assume s1: "str_step sg ctx ctx1" "opt_ok (fstr_ok (ctx_ir ctx1)) ds"
  define x where "x = \<lparr>fu_name = n, fu_members = [], fu_join_members = [], fu_composed_directives = dirs, fu_description = ds\<rparr>"
  define ctx2 where "ctx2 = ctx1\<lparr>ctx_ir := (ctx_ir ctx1)\<lparr>ir_unions := ir_unions (ctx_ir ctx1) @ [x]\<rparr>\<rparr>"
  note m = ir_mono [OF str_step_extends [OF s1(1)]]
  have "holds ((ctx_ir ctx1)\<lparr>ir_unions := ir_unions (ctx_ir ctx1) @ [x]\<rparr>) y \<Longrightarrow>
      holds (ctx_ir ctx1) y \<or> y = Item_Union x" for y by (cases y) auto
  from append_step [OF str_step_wf [OF s1(1)] ctx2_def _ this] s1(2) m(1) [OF n] m(3) [OF d]
  have s2: "ctx_step sg ctx1 ctx2" by (simp add: ir_extends_def x_def)
  have 12: "ctx_step sg ctx ctx2" by (rule ctx_step_trans [OF str_step_ctx [OF s1(1)] s2])
  have "ctx_step sg ctx2 (define_name n (Fed_Union (length (ir_unions (ctx_ir ctx1)))) ctx2)"
    by (rule define_name_step [OF ctx_step_wf [OF s2] fstr_ok_mono [OF ctx_step_extends [OF 12] n]]) (simp add: ctx2_def)
  from ctx_step_trans [OF 12 this] show "runs t (do {
      let un = \<lparr>fu_name = n, fu_members = [], fu_join_members = [], fu_composed_directives = dirs, fu_description = ds\<rparr>;
      let (i, us) = push_return_idx (ir_unions (ctx_ir ctx1)) un;
      Some (i, define_name n (Fed_Union i) (ctx1\<lparr>ctx_ir := (ctx_ir ctx1)\<lparr>ir_unions := us\<rparr>\<rparr>)) }) (\<lambda>(i, ctx'). ctx_step sg ctx ctx')"
    by (simp add: push_return_idx_def x_def [symmetric] ctx2_def [symmetric])
qed

lemma insert_union_member_step:
  assumes wf: "ir_wf sg (ctx_ir ctx)" and "subgraph_ok sg s" and "fstr_ok (ctx_ir ctx) u" and "fstr_ok (ctx_ir ctx) m"
  shows "ctx_step sg ctx (insert_union_member s u m ctx)"
proof -
  let ?ir = "ctx_ir ctx"
  define ss where "ss = (case bt_get (ir_union_join_members ?ir) (u, m) of None \<Rightarrow> [s] | Some entry \<Rightarrow> entry @ [s])"
  define ir' where "ir' = ?ir\<lparr>ir_union_members := bs_insert (u, m) (ir_union_members ?ir),
      ir_union_join_members := bt_insert (u, m) ss (ir_union_join_members ?ir)\<rparr>"
  have r: "insert_union_member s u m ctx = ctx\<lparr>ctx_ir := ir'\<rparr>"
    by (auto simp: insert_union_member_def Let_def ir'_def ss_def split: option.splits)
  have e: "ir_extends ?ir ir'" by (auto simp: ir'_def ir_extends_def)
  have "\<forall>x \<in> set ss. subgraph_ok sg x"
  proof (cases "bt_get (ir_union_join_members ?ir) (u, m)")
    case (Some entry)
    then have "holds ?ir (Item_Join u m entry)" by (simp add: map_of_SomeD)
    then have "item_ok sg ?ir (Item_Join u m entry)" using wf unfolding ir_wf_def by blast
    then show ?thesis using Some assms(2) by (simp add: ss_def)
  qed (use assms(2) in \<open>simp add: ss_def\<close>)
  then have ok: "\<forall>x \<in> {Item_Member u m, Item_Join u m ss}. item_ok sg ir' x"
    using assms(3,4) fstr_ok_mono [OF e] by (simp add: ir'_def)
  have "ctx_step sg ctx (ctx\<lparr>ctx_ir := ir'\<rparr>)"
  proof (rule ir_update_step [OF wf])
    show "holds (ctx_ir (ctx\<lparr>ctx_ir := ir'\<rparr>)) x \<Longrightarrow> holds ?ir x \<or> x \<in> {Item_Member u m, Item_Join u m ss}" for x
      using set_bt_insert [of "(u, m)" ss "ir_union_join_members ?ir"] by (cases x) (auto simp: ir'_def)
  qed (use ok e wf in \<open>simp_all add: ir'_def ir_wf_def bs_insert_wf bt_insert_wf\<close>)
  then show ?thesis by (simp add: r)
qed

lemma push_key_ir_step:
  assumes "ir_wf sg (ctx_ir ctx)" and "fdef_ok (ctx_ir ctx) (key_parent k)" and "has_fields (key_parent k)" and "key_ok sg (key_id k)"
  shows "ctx_step sg ctx (push_key_ir k ctx)"
proof -
  have "holds ((ctx_ir ctx)\<lparr>ir_keys := ir_keys (ctx_ir ctx) @ [k]\<rparr>) y \<Longrightarrow> holds (ctx_ir ctx) y \<or> y = Item_Key k" for y by (cases y) auto
  from append_step [OF assms(1) push_key_ir_def _ this] assms(2-4) show ?thesis by (simp add: ir_extends_def)
qed

lemma is_resolvable_runs: "key_ok sg k \<Longrightarrow> runs t (is_resolvable sg k) (\<lambda>_. True)"
  by (auto simp: is_resolvable_def walk_key_def key_ok_def)

lemma insert_keys_runs:
  assumes "ir_wf sg (ctx_ir ctx)" and "key_ok sg k"
  shows "fdef_ok (ctx_ir ctx) (Fed_Object i) \<Longrightarrow> runs t (insert_key sg i k ctx) (ctx_step sg ctx)"
    and "fdef_ok (ctx_ir ctx) (Fed_Interface i) \<Longrightarrow> runs t (insert_interface_resolvable_key sg i k b ctx) (ctx_step sg ctx)"
  unfolding insert_key_def insert_interface_resolvable_key_def
  by (rule runs_bind [OF is_resolvable_runs [OF assms(2)]], simp add: push_key_ir_step assms)+

lemma insert_authorized_steps:
  assumes "ir_wf sg (ctx_ir ctx)" and "authorized sg site \<noteq> None"
  shows "fdef_ok (ctx_ir ctx) (Fed_Object i) \<Longrightarrow> ctx_step sg ctx (insert_object_authorized i site ctx)"
    and "fdef_ok (ctx_ir ctx) (Fed_Interface i) \<Longrightarrow> ctx_step sg ctx (insert_interface_authorized i site ctx)"
proof -
  let ?ir = "ctx_ir ctx"
  have "holds (?ir\<lparr>ir_object_authorized_directives := ir_object_authorized_directives ?ir @ [(i, site)]\<rparr>) y \<Longrightarrow>
      holds ?ir y \<or> y = Item_ObjectAuthorized i site" for y by (cases y) auto
  from append_step [OF assms(1) insert_object_authorized_def _ this] assms(2)
  show "fdef_ok ?ir (Fed_Object i) \<Longrightarrow> ctx_step sg ctx (insert_object_authorized i site ctx)" by (simp add: ir_extends_def)
  have "holds (?ir\<lparr>ir_interface_authorized_directives := ir_interface_authorized_directives ?ir @ [(i, site)]\<rparr>) y \<Longrightarrow>
      holds ?ir y \<or> y = Item_InterfaceAuthorized i site" for y by (cases y) auto
  from append_step [OF assms(1) insert_interface_authorized_def _ this] assms(2)
  show "fdef_ok ?ir (Fed_Interface i) \<Longrightarrow> ctx_step sg ctx (insert_interface_authorized i site ctx)" by (simp add: ir_extends_def)
qed

lemma set_root_steps:
  assumes "ir_wf sg (ctx_ir ctx)" and "fdef_ok (ctx_ir ctx) (Fed_Object i)"
  shows "ctx_step sg ctx (set_query i ctx)" "ctx_step sg ctx (set_mutation i ctx)" "ctx_step sg ctx (set_subscription i ctx)"
proof -
  let ?ir = "ctx_ir ctx"
  have "holds (?ir\<lparr>ir_query_type := Some i\<rparr>) y \<Longrightarrow> holds ?ir y \<or> y = Item_Root i" for y by (cases y) auto
  from append_step [OF assms(1) set_query_def _ this] assms(2) show "ctx_step sg ctx (set_query i ctx)" by (simp add: ir_extends_def)
  have "holds (?ir\<lparr>ir_mutation_type := Some i\<rparr>) y \<Longrightarrow> holds ?ir y \<or> y = Item_Root i" for y by (cases y) auto
  from append_step [OF assms(1) set_mutation_def _ this] assms(2) show "ctx_step sg ctx (set_mutation i ctx)" by (simp add: ir_extends_def)
  have "holds (?ir\<lparr>ir_subscription_type := Some i\<rparr>) y \<Longrightarrow> holds ?ir y \<or> y = Item_Root i" for y by (cases y) auto
  from append_step [OF assms(1) set_subscription_def _ this] assms(2) show "ctx_step sg ctx (set_subscription i ctx)" by (simp add: ir_extends_def)
qed

lemma insert_entity_field_step:
  assumes "ir_wf sg (ctx_ir ctx)" and "fstr_ok (ctx_ir ctx) n" and "f < length (ir_fields (ctx_ir ctx))"
  shows "ctx_step sg ctx (insert_object_field_from_entity_interface n f ctx)"
proof -
  let ?ir = "ctx_ir ctx"
  have "holds (?ir\<lparr>ir_object_fields_from_entity_interfaces := bs_insert (n, f) (ir_object_fields_from_entity_interfaces ?ir)\<rparr>) y \<Longrightarrow>
      holds ?ir y \<or> y = Item_EntityField n f" for y by (cases y) auto
  from append_step [OF assms(1) insert_object_field_from_entity_interface_def _ this] assms(2,3) show ?thesis by (simp add: ir_extends_def)
qed

end
