(* ===== verification/Emit_Steps.thy ===== *)
theory Emit_Steps
  imports Emit Compose_Invariant Subgraphs_Lookup
begin

text \<open>
  The emission builds a well-formed federated graph: every id points into its table, every range lies
  inside its table, the strings are distinct.  As for composition, each lemma is stated with \<open>runs t\<close>.
\<close>

subsection \<open>Well-formed graphs\<close>

text \<open>
  Ids into tables that are emitted later are checked against the sizes those tables will have.
\<close>

record Sizes =
  n_directives :: nat
  n_input_values :: nat
  n_subgraphs :: nat

definition gstr_ok :: "FederatedGraph \<Rightarrow> fed_StringId \<Rightarrow> bool" where
  "gstr_ok g s \<longleftrightarrow> s < length (fg_strings g)"

definition gtypedef_ok :: "FederatedGraph \<Rightarrow> TypeDefinitionKind \<Rightarrow> TypeDefinitionId \<Rightarrow> bool" where
  "gtypedef_ok g k i \<longleftrightarrow> (\<exists>r. vec_index (fg_type_definitions g) i = Some r \<and> td_kind r = k)"

fun gdef_ok :: "FederatedGraph \<Rightarrow> fed_Definition \<Rightarrow> bool" where
  "gdef_ok g (Fed_Scalar i) \<longleftrightarrow> gtypedef_ok g Kind_Scalar i"
| "gdef_ok g (Fed_Object i) \<longleftrightarrow> i < length (fg_objects g)"
| "gdef_ok g (Fed_Interface i) \<longleftrightarrow> i < length (fg_interfaces g)"
| "gdef_ok g (Fed_Union i) \<longleftrightarrow> i < length (fg_unions g)"
| "gdef_ok g (Fed_Enum i) \<longleftrightarrow> gtypedef_ok g Kind_Enum i"
| "gdef_ok g (Fed_InputObject i) \<longleftrightarrow> i < length (fg_input_objects g)"

fun gvalue_ok :: "FederatedGraph \<Rightarrow> fed_Value \<Rightarrow> bool" where
  "gvalue_ok g (Fed_String s) \<longleftrightarrow> gstr_ok g s"
| "gvalue_ok g (Fed_UnboundEnumValue s) \<longleftrightarrow> gstr_ok g s"
| "gvalue_ok g (Fed_EnumValue i) \<longleftrightarrow> i < length (fg_enum_values g)"
| "gvalue_ok g (Fed_ObjectValue fs) \<longleftrightarrow> (\<forall>(k, v) \<in> set fs. gstr_ok g k \<and> gvalue_ok g v)"
| "gvalue_ok g (Fed_ListValue vs) \<longleftrightarrow> (\<forall>v \<in> set vs. gvalue_ok g v)"
| "gvalue_ok g _ \<longleftrightarrow> True"

definition gtype_ok :: "FederatedGraph \<Rightarrow> fed_Type \<Rightarrow> bool" where
  "gtype_ok g ty \<longleftrightarrow> wrapping_wf (ty_wrapping ty) \<and> gdef_ok g (ty_definition ty)"

definition gdirs_ok :: "Sizes \<Rightarrow> fed_Directives \<Rightarrow> bool" where
  "gdirs_ok z r \<longleftrightarrow> fst r + snd r \<le> n_directives z"

definition gargs_ok :: "Sizes \<Rightarrow> InputValueDefinitions \<Rightarrow> bool" where
  "gargs_ok z r \<longleftrightarrow> fst r + snd r \<le> n_input_values z"

fun gselection_ok :: "Sizes \<Rightarrow> FederatedGraph \<Rightarrow> fed_Selection \<Rightarrow> bool" where
  "gselection_ok z g (Fed_Field f args sub) \<longleftrightarrow> f < length (fg_fields g)
     \<and> (\<forall>(i, v) \<in> set args. i < n_input_values z \<and> gvalue_ok g v) \<and> (\<forall>s \<in> set sub. gselection_ok z g s)"
| "gselection_ok z g (Fed_InlineFragment d sub) \<longleftrightarrow> gdef_ok g d \<and> (\<forall>s \<in> set sub. gselection_ok z g s)"

definition gselections_ok :: "Sizes \<Rightarrow> FederatedGraph \<Rightarrow> SelectionSet \<Rightarrow> bool" where
  "gselections_ok z g ss \<longleftrightarrow> (\<forall>s \<in> set ss. gselection_ok z g s)"

fun set_item_ok :: "Sizes \<Rightarrow> InputValueDefinitionSetItem \<Rightarrow> bool" where
  "set_item_ok z (InputValueDefinitionSetItem i sub) \<longleftrightarrow> i < n_input_values z \<and> (\<forall>x \<in> set sub. set_item_ok z x)"

fun gdirective_ok :: "FederatedGraph \<Rightarrow> fed_Directive \<Rightarrow> bool" where
  "gdirective_ok g (Fed_Deprecated r) \<longleftrightarrow> opt_ok (gstr_ok g) r"
| "gdirective_ok g (Fed_Policy ps) \<longleftrightarrow> (\<forall>p \<in> set ps. \<forall>s \<in> set p. gstr_ok g s)"
| "gdirective_ok g (Fed_RequiresScopes ps) \<longleftrightarrow> (\<forall>p \<in> set ps. \<forall>s \<in> set p. gstr_ok g s)"
| "gdirective_ok g (Fed_Other n args) \<longleftrightarrow> gstr_ok g n \<and> (\<forall>(k, v) \<in> set args. gstr_ok g k \<and> gvalue_ok g v)"
| "gdirective_ok g _ \<longleftrightarrow> True"

fun gsource_ok :: "Sizes \<Rightarrow> FederatedGraph \<Rightarrow> OverrideSource \<Rightarrow> bool" where
  "gsource_ok z g (Source_Subgraph s) \<longleftrightarrow> s < n_subgraphs z"
| "gsource_ok z g (Source_Missing s) \<longleftrightarrow> gstr_ok g s"

definition gfields_ok :: "FederatedGraph \<Rightarrow> fed_Fields \<Rightarrow> bool" where
  "gfields_ok g r \<longleftrightarrow> fst r \<le> snd r \<and> snd r \<le> length (fg_fields g)"

definition gkey_ok :: "Sizes \<Rightarrow> FederatedGraph \<Rightarrow> fed_Key \<Rightarrow> bool" where
  "gkey_ok z g k \<longleftrightarrow> fk_subgraph_id k < n_subgraphs z \<and> gselections_ok z g (fk_fields k)"

definition gfield_ok :: "Sizes \<Rightarrow> FederatedGraph \<Rightarrow> fed_Field \<Rightarrow> bool" where
  "gfield_ok z g f \<longleftrightarrow> gstr_ok g (ff_name f) \<and> gtype_ok g (ff_type f) \<and> gargs_ok z (ff_arguments f)
     \<and> (\<forall>s \<in> set (ff_resolvable_in f). s < n_subgraphs z)
     \<and> (\<forall>p \<in> set (ff_provides f). fp_subgraph_id p < n_subgraphs z \<and> gselections_ok z g (fp_fields p))
     \<and> (\<forall>p \<in> set (ff_requires f). fr_subgraph_id p < n_subgraphs z \<and> gselections_ok z g (fr_fields p))
     \<and> (\<forall>ov \<in> set (ff_overrides f). ov_graph ov < n_subgraphs z \<and> gsource_ok z g (ov_from ov))
     \<and> gdirs_ok z (ff_composed_directives f) \<and> opt_ok (gstr_ok g) (ff_description f)"

datatype graph_item =
    G_Subgraph fed_Subgraph
  | G_Root ObjectId
  | G_Type TypeDefinitionRecord
  | G_Object fed_Object
  | G_Interface fed_Interface
  | G_Field fed_Field
  | G_Union fed_Union
  | G_InputObject fed_InputObject
  | G_EnumValue EnumValueRecord
  | G_InputValue fed_InputValueDefinition
  | G_Directive fed_Directive
  | G_Authorized fed_AuthorizedDirective
  | G_FieldAuthorized fed_FieldId AuthorizedDirectiveId
  | G_ObjectAuthorized ObjectId AuthorizedDirectiveId
  | G_InterfaceAuthorized InterfaceId AuthorizedDirectiveId

fun gholds :: "FederatedGraph \<Rightarrow> graph_item \<Rightarrow> bool" where
  "gholds g (G_Subgraph x) \<longleftrightarrow> x \<in> set (fg_subgraphs g)"
| "gholds g (G_Root i) \<longleftrightarrow> i = root_query (fg_root_operation_types g)
     \<or> Some i \<in> {root_mutation (fg_root_operation_types g), root_subscription (fg_root_operation_types g)}"
| "gholds g (G_Type x) \<longleftrightarrow> x \<in> set (fg_type_definitions g)"
| "gholds g (G_Object x) \<longleftrightarrow> x \<in> set (fg_objects g)"
| "gholds g (G_Interface x) \<longleftrightarrow> x \<in> set (fg_interfaces g)"
| "gholds g (G_Field x) \<longleftrightarrow> x \<in> set (fg_fields g)"
| "gholds g (G_Union x) \<longleftrightarrow> x \<in> set (fg_unions g)"
| "gholds g (G_InputObject x) \<longleftrightarrow> x \<in> set (fg_input_objects g)"
| "gholds g (G_EnumValue x) \<longleftrightarrow> x \<in> set (fg_enum_values g)"
| "gholds g (G_InputValue x) \<longleftrightarrow> x \<in> set (fg_input_value_definitions g)"
| "gholds g (G_Directive x) \<longleftrightarrow> x \<in> set (fg_directives g)"
| "gholds g (G_Authorized x) \<longleftrightarrow> x \<in> set (fg_authorized_directives g)"
| "gholds g (G_FieldAuthorized f a) \<longleftrightarrow> (f, a) \<in> set (fg_field_authorized_directives g)"
| "gholds g (G_ObjectAuthorized i a) \<longleftrightarrow> (i, a) \<in> set (fg_object_authorized_directives g)"
| "gholds g (G_InterfaceAuthorized i a) \<longleftrightarrow> (i, a) \<in> set (fg_interface_authorized_directives g)"

fun gitem_ok :: "Sizes \<Rightarrow> FederatedGraph \<Rightarrow> graph_item \<Rightarrow> bool" where
  "gitem_ok z g (G_Subgraph x) \<longleftrightarrow> gstr_ok g (fs_name x) \<and> gstr_ok g (fs_url x)"
| "gitem_ok z g (G_Root i) \<longleftrightarrow> i < length (fg_objects g)"
| "gitem_ok z g (G_Type x) \<longleftrightarrow> gstr_ok g (td_name x) \<and> opt_ok (gstr_ok g) (td_description x) \<and> gdirs_ok z (td_directives x)"
| "gitem_ok z g (G_Object x) \<longleftrightarrow> gtypedef_ok g Kind_Object (fo_type_definition_id x) \<and> gfields_ok g (fo_fields x)
     \<and> (\<forall>i \<in> set (fo_implements_interfaces x). i < length (fg_interfaces g))
     \<and> (\<forall>(s, i) \<in> set (fo_join_implements x). s < n_subgraphs z \<and> i < length (fg_interfaces g))
     \<and> (\<forall>k \<in> set (fo_keys x). gkey_ok z g k)"
| "gitem_ok z g (G_Interface x) \<longleftrightarrow> gtypedef_ok g Kind_Interface (fi_type_definition_id x) \<and> gfields_ok g (fi_fields x)
     \<and> (\<forall>i \<in> set (fi_implements_interfaces x). i < length (fg_interfaces g))
     \<and> (\<forall>(s, i) \<in> set (fi_join_implements x). s < n_subgraphs z \<and> i < length (fg_interfaces g))
     \<and> (\<forall>k \<in> set (fi_keys x). gkey_ok z g k)"
| "gitem_ok z g (G_Field x) \<longleftrightarrow> gfield_ok z g x"
| "gitem_ok z g (G_Union x) \<longleftrightarrow> gstr_ok g (fu_name x) \<and> gdirs_ok z (fu_composed_directives x) \<and> opt_ok (gstr_ok g) (fu_description x)
     \<and> (\<forall>i \<in> set (fu_members x). i < length (fg_objects g))
     \<and> (\<forall>(s, i) \<in> set (fu_join_members x). s < n_subgraphs z \<and> i < length (fg_objects g))"
| "gitem_ok z g (G_InputObject x) \<longleftrightarrow> gstr_ok g (fio_name x) \<and> gargs_ok z (fio_fields x) \<and> gdirs_ok z (fio_composed_directives x)
     \<and> opt_ok (gstr_ok g) (fio_description x)"
| "gitem_ok z g (G_EnumValue x) \<longleftrightarrow> gtypedef_ok g Kind_Enum (ev_enum_id x) \<and> gstr_ok g (ev_value x)
     \<and> gdirs_ok z (ev_composed_directives x) \<and> opt_ok (gstr_ok g) (ev_description x)"
| "gitem_ok z g (G_InputValue x) \<longleftrightarrow> gstr_ok g (fiv_name x) \<and> gtype_ok g (fiv_type x) \<and> gdirs_ok z (fiv_directives x)
     \<and> opt_ok (gstr_ok g) (fiv_description x) \<and> opt_ok (gvalue_ok g) (fiv_default x)"
| "gitem_ok z g (G_Directive x) \<longleftrightarrow> gdirective_ok g x"
| "gitem_ok z g (G_Authorized x) \<longleftrightarrow> opt_ok (gselections_ok z g) (fa_fields x) \<and> opt_ok (gselections_ok z g) (fa_node x)
     \<and> opt_ok (list_all (set_item_ok z)) (fa_arguments x) \<and> opt_ok (gvalue_ok g) (fa_metadata x)"
| "gitem_ok z g (G_FieldAuthorized f a) \<longleftrightarrow> f < length (fg_fields g) \<and> a < length (fg_authorized_directives g)"
| "gitem_ok z g (G_ObjectAuthorized i a) \<longleftrightarrow> i < length (fg_objects g) \<and> a < length (fg_authorized_directives g)"
| "gitem_ok z g (G_InterfaceAuthorized i a) \<longleftrightarrow> i < length (fg_interfaces g) \<and> a < length (fg_authorized_directives g)"

definition graph_wf_at :: "Sizes \<Rightarrow> FederatedGraph \<Rightarrow> bool" where
  "graph_wf_at z g \<longleftrightarrow> (\<forall>x. gholds g x \<longrightarrow> gitem_ok z g x) \<and> distinct (fg_strings g) \<and> sorted (map ev_enum_id (fg_enum_values g))"

definition graph_sizes :: "FederatedGraph \<Rightarrow> Sizes" where
  "graph_sizes g = \<lparr>n_directives = length (fg_directives g), n_input_values = length (fg_input_value_definitions g),
     n_subgraphs = length (fg_subgraphs g)\<rparr>"

definition graph_wf :: "FederatedGraph \<Rightarrow> bool" where
  "graph_wf g \<longleftrightarrow> graph_wf_at (graph_sizes g) g"

subsection \<open>Steps of the emission\<close>

text \<open>The tables an emission step may extend, and those it keeps.\<close>

definition graph_extends :: "FederatedGraph \<Rightarrow> FederatedGraph \<Rightarrow> bool" where
  "graph_extends g g' \<longleftrightarrow> prefix (fg_strings g) (fg_strings g') \<and> fg_type_definitions g' = fg_type_definitions g
     \<and> length (fg_objects g') = length (fg_objects g) \<and> length (fg_interfaces g') = length (fg_interfaces g)
     \<and> length (fg_unions g') = length (fg_unions g) \<and> fg_input_objects g' = fg_input_objects g
     \<and> fg_enum_values g' = fg_enum_values g \<and> length (fg_fields g) \<le> length (fg_fields g')
     \<and> prefix (fg_input_value_definitions g) (fg_input_value_definitions g')
     \<and> length (fg_authorized_directives g) \<le> length (fg_authorized_directives g')
     \<and> fg_root_operation_types g' = fg_root_operation_types g"

named_theorems graph_mono \<open>what an extension of the graph keeps\<close>

lemma graph_extends_refl [simp]: "graph_extends g g"
  by (simp add: graph_extends_def)

lemma graph_extends_trans: "graph_extends a b \<Longrightarrow> graph_extends b c \<Longrightarrow> graph_extends a c"
  by (auto simp: graph_extends_def)

lemma gstr_ok_mono [graph_mono]: "graph_extends g g' \<Longrightarrow> gstr_ok g s \<Longrightarrow> gstr_ok g' s"
  by (auto simp: graph_extends_def gstr_ok_def dest!: prefix_length_le)

lemma opt_gstr_ok_mono [graph_mono]: "graph_extends g g' \<Longrightarrow> opt_ok (gstr_ok g) s \<Longrightarrow> opt_ok (gstr_ok g') s"
  by (rule opt_ok_mono) (rule gstr_ok_mono)

lemma gtypedef_ok_mono [graph_mono]: "graph_extends g g' \<Longrightarrow> gtypedef_ok g k i \<Longrightarrow> gtypedef_ok g' k i"
  by (simp add: graph_extends_def gtypedef_ok_def)

lemma gdef_ok_mono [graph_mono]: "graph_extends g g' \<Longrightarrow> gdef_ok g d \<Longrightarrow> gdef_ok g' d"
  by (cases d) (auto intro: gtypedef_ok_mono, auto simp: graph_extends_def)

lemma gvalue_ok_mono [graph_mono]: "graph_extends g g' \<Longrightarrow> gvalue_ok g v \<Longrightarrow> gvalue_ok g' v"
  by (induction g v rule: gvalue_ok.induct) (auto intro: gstr_ok_mono simp: graph_extends_def)

lemma gtype_ok_mono [graph_mono]: "graph_extends g g' \<Longrightarrow> gtype_ok g ty \<Longrightarrow> gtype_ok g' ty"
  by (simp add: gtype_ok_def gdef_ok_mono)

lemma gselection_ok_mono [graph_mono]: "graph_extends g g' \<Longrightarrow> gselection_ok z g s \<Longrightarrow> gselection_ok z g' s"
proof (induction z g s rule: gselection_ok.induct)
  case (1 z g f args sub)
  then have "f < length (fg_fields g')" by (auto simp: graph_extends_def)
  with 1 show ?case by (auto intro: gvalue_ok_mono)
qed (auto intro: gdef_ok_mono)

lemma gselections_ok_mono [graph_mono]: "graph_extends g g' \<Longrightarrow> gselections_ok z g s \<Longrightarrow> gselections_ok z g' s"
  by (auto simp: gselections_ok_def intro: gselection_ok_mono)

lemma gsource_ok_mono [graph_mono]: "graph_extends g g' \<Longrightarrow> gsource_ok z g s \<Longrightarrow> gsource_ok z g' s"
  by (cases s) (auto intro: gstr_ok_mono)

lemma gdirective_ok_mono [graph_mono]: "graph_extends g g' \<Longrightarrow> gdirective_ok g d \<Longrightarrow> gdirective_ok g' d"
  by (cases d) (auto intro: graph_mono)

lemma gkey_ok_mono [graph_mono]: "graph_extends g g' \<Longrightarrow> gkey_ok z g k \<Longrightarrow> gkey_ok z g' k"
  by (auto simp: gkey_ok_def intro: gselections_ok_mono)

lemma gfields_ok_mono [graph_mono]: "graph_extends g g' \<Longrightarrow> gfields_ok g r \<Longrightarrow> gfields_ok g' r"
  by (auto simp: gfields_ok_def graph_extends_def)

lemma gfield_ok_mono [graph_mono]: "graph_extends g g' \<Longrightarrow> gfield_ok z g f \<Longrightarrow> gfield_ok z g' f"
  unfolding gfield_ok_def by (blast intro: graph_mono)

lemma gitem_ok_mono [graph_mono]:
  assumes e: "graph_extends g g'" and ok: "gitem_ok z g x"
  shows "gitem_ok z g' x"
proof -
  have len: "length (fg_objects g') = length (fg_objects g)" "length (fg_interfaces g') = length (fg_interfaces g)"
    "length (fg_fields g) \<le> length (fg_fields g')" "length (fg_authorized_directives g) \<le> length (fg_authorized_directives g')"
    using e by (simp_all add: graph_extends_def)
  have opts: "opt_ok (gselections_ok z g) y \<Longrightarrow> opt_ok (gselections_ok z g') y" "opt_ok (gvalue_ok g) v \<Longrightarrow> opt_ok (gvalue_ok g') v" for y v
    by (erule opt_ok_mono [rotated], rule gselections_ok_mono [OF e], assumption) (erule opt_ok_mono [rotated], rule gvalue_ok_mono [OF e])
  show ?thesis
    using ok by (cases x) (auto simp: len(1,2) intro: graph_mono [OF e] opts less_le_trans [OF _ len(3)] less_le_trans [OF _ len(4)])
qed

text \<open>The graph of a context with its strings in place.\<close>

definition graph_of :: "EmitContext \<Rightarrow> FederatedGraph" where
  "graph_of ctx = (e_out ctx)\<lparr>fg_strings := e_strings_ir ctx\<rparr>"

definition emit_wf :: "Sizes \<Rightarrow> EmitContext \<Rightarrow> bool" where
  "emit_wf z ctx \<longleftrightarrow> graph_wf_at z (graph_of ctx)
     \<and> (\<forall>s d. e_definitions ctx s = Some d \<longrightarrow> gstr_ok (graph_of ctx) s \<and> gdef_ok (graph_of ctx) d)
     \<and> (\<forall>i ty. e_field_types_map ctx i = Some ty \<longrightarrow> gtype_ok (graph_of ctx) ty)
     \<and> (\<forall>k f. e_selection_map ctx k = Some f \<longrightarrow> f < length (fg_fields (e_out ctx)))
     \<and> length (fg_input_value_definitions (e_out ctx)) \<le> n_input_values z"

definition emit_step :: "Sizes \<Rightarrow> EmitContext \<Rightarrow> EmitContext \<Rightarrow> bool" where
  "emit_step z ctx ctx' \<longleftrightarrow> emit_wf z ctx' \<and> graph_extends (graph_of ctx) (graph_of ctx') \<and> e_definitions ctx' = e_definitions ctx"

lemma graph_of_simps [simp]:
  "fg_strings (graph_of ctx) = e_strings_ir ctx"
  "fg_subgraphs (graph_of ctx) = fg_subgraphs (e_out ctx)"
  "fg_root_operation_types (graph_of ctx) = fg_root_operation_types (e_out ctx)"
  "fg_type_definitions (graph_of ctx) = fg_type_definitions (e_out ctx)"
  "fg_objects (graph_of ctx) = fg_objects (e_out ctx)"
  "fg_interfaces (graph_of ctx) = fg_interfaces (e_out ctx)"
  "fg_fields (graph_of ctx) = fg_fields (e_out ctx)"
  "fg_unions (graph_of ctx) = fg_unions (e_out ctx)"
  "fg_input_objects (graph_of ctx) = fg_input_objects (e_out ctx)"
  "fg_enum_values (graph_of ctx) = fg_enum_values (e_out ctx)"
  "fg_input_value_definitions (graph_of ctx) = fg_input_value_definitions (e_out ctx)"
  "fg_directives (graph_of ctx) = fg_directives (e_out ctx)"
  "fg_authorized_directives (graph_of ctx) = fg_authorized_directives (e_out ctx)"
  "fg_field_authorized_directives (graph_of ctx) = fg_field_authorized_directives (e_out ctx)"
  "fg_object_authorized_directives (graph_of ctx) = fg_object_authorized_directives (e_out ctx)"
  "fg_interface_authorized_directives (graph_of ctx) = fg_interface_authorized_directives (e_out ctx)"
  by (simp_all add: graph_of_def)

lemma emit_step_refl: "emit_wf z ctx \<Longrightarrow> emit_step z ctx ctx"
  by (simp add: emit_step_def)

lemma emit_step_trans: "emit_step z a b \<Longrightarrow> emit_step z b c \<Longrightarrow> emit_step z a c"
  unfolding emit_step_def using graph_extends_trans by metis

lemma emit_step_wf: "emit_step z a b \<Longrightarrow> emit_wf z b"
  by (simp add: emit_step_def)

lemma emit_step_extends: "emit_step z a b \<Longrightarrow> graph_extends (graph_of a) (graph_of b)"
  by (simp add: emit_step_def)

text \<open>The frame rule: an operation has to justify the items and the entries it adds.\<close>

lemma emit_frame:
  assumes wf: "emit_wf z ctx" and e: "graph_extends (graph_of ctx) (graph_of ctx')" and d: "e_definitions ctx' = e_definitions ctx"
    and items: "\<And>x. gholds (graph_of ctx') x \<Longrightarrow> gholds (graph_of ctx) x \<or> gitem_ok z (graph_of ctx') x"
    and strs: "distinct (e_strings_ir ctx')"
    and types: "\<And>i ty. e_field_types_map ctx' i = Some ty \<Longrightarrow> e_field_types_map ctx i = Some ty \<or> gtype_ok (graph_of ctx') ty"
    and sel: "\<And>k f. e_selection_map ctx' k = Some f \<Longrightarrow> e_selection_map ctx k = Some f \<or> f < length (fg_fields (e_out ctx'))"
    and ivs: "length (fg_input_value_definitions (e_out ctx')) \<le> n_input_values z"
  shows "emit_step z ctx ctx'"
proof -
  have "gitem_ok z (graph_of ctx') x" if "gholds (graph_of ctx') x" for x
    using items [OF that] gitem_ok_mono [OF e] wf by (auto simp: emit_wf_def graph_wf_at_def)
  moreover have "sorted (map ev_enum_id (fg_enum_values (e_out ctx')))"
    using wf e by (simp add: emit_wf_def graph_wf_at_def graph_extends_def)
  moreover have "gtype_ok (graph_of ctx') ty" if "e_field_types_map ctx' i = Some ty" for i ty
    using types [OF that] gtype_ok_mono [OF e] wf by (auto simp: emit_wf_def)
  moreover have "f < length (fg_fields (e_out ctx'))" if "e_selection_map ctx' k = Some f" for k f
  proof -
    have "length (fg_fields (e_out ctx)) \<le> length (fg_fields (e_out ctx'))" using e by (simp add: graph_extends_def)
    moreover have "f < length (fg_fields (e_out ctx))" if "e_selection_map ctx k = Some f" using wf that unfolding emit_wf_def by blast
    ultimately show ?thesis using sel [OF that] by force
  qed
  moreover have "gstr_ok (graph_of ctx') s \<and> gdef_ok (graph_of ctx') x" if "e_definitions ctx' s = Some x" for s x
    using that gstr_ok_mono [OF e] gdef_ok_mono [OF e] wf d by (auto simp: emit_wf_def)
  ultimately show ?thesis
    using e d strs ivs by (simp add: emit_step_def emit_wf_def graph_wf_at_def)
qed

text \<open>An operation that only changes the graph.\<close>

lemma set_out_step:
  assumes "emit_wf z ctx" and "graph_extends (graph_of ctx) (graph_of (ctx\<lparr>e_out := g\<rparr>))"
    and "\<And>x. gholds (graph_of (ctx\<lparr>e_out := g\<rparr>)) x \<Longrightarrow> gholds (graph_of ctx) x \<or> gitem_ok z (graph_of (ctx\<lparr>e_out := g\<rparr>)) x"
    and "length (fg_input_value_definitions g) \<le> n_input_values z"
  shows "emit_step z ctx (ctx\<lparr>e_out := g\<rparr>)"
  using assms by (intro emit_frame) (auto simp: emit_wf_def graph_wf_at_def graph_extends_def)

subsection \<open>Strings and values\<close>

text \<open>A step that only adds strings.\<close>

definition emit_str :: "Sizes \<Rightarrow> EmitContext \<Rightarrow> EmitContext \<Rightarrow> bool" where
  "emit_str z ctx ctx' \<longleftrightarrow> emit_step z ctx ctx' \<and> e_out ctx' = e_out ctx \<and> e_selection_map ctx' = e_selection_map ctx
     \<and> e_field_types_map ctx' = e_field_types_map ctx"

lemma emit_str_refl: "emit_wf z ctx \<Longrightarrow> emit_str z ctx ctx"
  by (simp add: emit_str_def emit_step_refl)

lemma emit_str_trans: "emit_str z a b \<Longrightarrow> emit_str z b c \<Longrightarrow> emit_str z a c"
  by (auto simp: emit_str_def intro: emit_step_trans)

lemma emit_str_step: "emit_str z a b \<Longrightarrow> emit_step z a b"
  by (simp add: emit_str_def)

lemmas emit_str_wf = emit_step_wf [OF emit_str_step]
lemmas emit_str_extends = emit_step_extends [OF emit_str_step]
lemmas emit_str_mono = gstr_ok_mono [OF emit_str_extends] gvalue_ok_mono [OF emit_str_extends]

lemma strings_ir_insert_prefix: "strings_ir_insert strs s = (i, strs') \<Longrightarrow> prefix strs strs'"
  using insert_full_prefix by (fastforce simp: strings_ir_insert_def split: option.splits)

lemma emit_insert_string_runs:
  assumes wf: "emit_wf z ctx" and s: "str_ok sg s"
  shows "runs t (emit_insert_string sg s ctx)
    (\<lambda>(i, ctx'). emit_str z ctx ctx' \<and> gstr_ok (graph_of ctx') i \<and> vec_index (e_strings_ir ctx') i = as_str sg s)"
proof -
  obtain str where str: "as_str sg s = Some str" using s by (auto simp: as_str_def strings_resolve_def str_ok_def)
  obtain i strs where ins: "strings_ir_insert (e_strings_ir ctx) str = (i, strs)" by fastforce
  have d: "distinct (e_strings_ir ctx)" using wf by (simp add: emit_wf_def graph_wf_at_def)
  have strs: "distinct strs" "prefix (e_strings_ir ctx) strs" "vec_index strs i = Some str"
    using strings_ir.intern_invar [OF d ins] strings_ir.intern_resolve [OF d ins] strings_ir_insert_prefix [OF ins] by (simp_all add: strings_resolve_def)
  then have i: "i < length strs" by (simp add: vec_index_eq_Some)
  let ?c = "ctx\<lparr>e_strings_ir := strs\<rparr>"
  have "emit_step z ctx ?c"
  proof (rule emit_frame [OF wf])
    show "gholds (graph_of ?c) x \<Longrightarrow> gholds (graph_of ctx) x \<or> gitem_ok z (graph_of ?c) x" for x by (cases x) simp_all
  qed (use strs wf in \<open>simp_all add: graph_extends_def emit_wf_def\<close>)
  then show ?thesis
    using i strs(3) str by (simp add: emit_insert_string_def ins emit_str_def gstr_ok_def)
qed

lemma sorted_entries_nth: "(i, x) \<in> set (sorted_entries key xs k) \<Longrightarrow> i < length xs \<and> xs ! i = x \<and> key x = k"
proof -
  assume i: "(i, x) \<in> set (sorted_entries key xs k)"
  define n where "n = partition_point (\<lambda>x. key x < k) xs"
  let ?w = "takeWhile (\<lambda>x. key x = k) (drop n xs)"
  have 1: "n \<le> i" "i - n < length ?w" "x = ?w ! (i - n)"
    using i by (auto simp: sorted_entries_def Let_def in_set_enumerate_eq n_def)
  then have "x \<in> set ?w" by simp
  then have "key x = k" by (auto dest: set_takeWhileD)
  moreover have "length ?w \<le> length xs - n" using length_takeWhile_le [of "\<lambda>x. key x = k" "drop n xs"] by simp
  moreover have "x = drop n xs ! (i - n)" using 1 by (simp add: takeWhile_nth)
  ultimately show ?thesis using 1(1,2) by simp
qed

lemma enumerate_upt: "enumerate n xs = map (\<lambda>i. (n + i, xs ! i)) [0..<length xs]"
  by (rule nth_equalityI) (simp_all add: nth_enumerate_eq)

lemma sorted_entries_filter:
  assumes "sorted (map key xs)"
  shows "sorted_entries key xs k = filter (\<lambda>(_, x). key x = k) (enumerate 0 xs)"
proof -
  define start where "start = partition_point (\<lambda>x. key x < k) xs"
  let ?w = "takeWhile (\<lambda>x. key x = k) (drop start xs)"
  have w: "?w ! i = xs ! (start + i)" if "i < length ?w" for i
    using that length_takeWhile_le [of "\<lambda>x. key x = k" "drop start xs"] by (simp add: takeWhile_nth)
  have "filter (\<lambda>(_, x). key x = k) (enumerate 0 xs) = map (\<lambda>i. (i, xs ! i)) (filter (\<lambda>i. key (xs ! i) = k) [0..<length xs])"
    by (simp add: enumerate_upt filter_map o_def)
  also have "\<dots> = map (\<lambda>i. (start + i, xs ! (start + i))) [0..<length ?w]"
    unfolding partition_point_key_indices [OF assms start_def, symmetric] by (simp add: enumerate_upt)
  also have "\<dots> = enumerate start ?w" using w by (simp add: enumerate_upt)
  finally show ?thesis by (simp add: sorted_entries_def Let_def start_def)
qed

lemma find_filter: "find P (filter Q xs) = find (\<lambda>x. Q x \<and> P x) xs"
  by (induction xs) auto

lemma find_enum_value_nth:
  "find_enum_value_by_name_id g e n = Some (i, v) \<Longrightarrow> i < length (fg_enum_values g) \<and> fg_enum_values g ! i = v \<and> ev_enum_id v = e \<and> ev_value v = n"
  unfolding find_enum_value_by_name_id_def iter_enum_values_def by (auto simp: find_Some_iff dest!: nth_mem sorted_entries_nth)

lemma insert_value_runs:
  "emit_wf z ctx \<Longrightarrow> value_ok sg v \<Longrightarrow>
     runs t (insert_value_with_type sg e v ctx) (\<lambda>(x, ctx'). emit_str z ctx ctx' \<and> gvalue_ok (graph_of ctx') x)"
  "emit_wf z ctx \<Longrightarrow> \<forall>(k, v) \<in> set kvs. str_ok sg k \<and> value_ok sg v \<Longrightarrow>
     runs t (insert_object_value sg e kvs ctx) (\<lambda>(xs, ctx'). emit_str z ctx ctx' \<and> (\<forall>(k, x) \<in> set xs. gstr_ok (graph_of ctx') k \<and> gvalue_ok (graph_of ctx') x))"
  "emit_wf z ctx \<Longrightarrow> \<forall>v \<in> set vs. value_ok sg v \<Longrightarrow>
     runs t (insert_list_value sg e vs ctx) (\<lambda>(xs, ctx'). emit_str z ctx ctx' \<and> (\<forall>x \<in> set xs. gvalue_ok (graph_of ctx') x))"
proof (induction sg e v ctx and sg e kvs ctx and sg e vs ctx rule: insert_value_with_type_insert_object_value_insert_list_value.induct)
  case (6 sg e v ctx)
  then show ?case
    unfolding insert_value_with_type.simps
    by (intro runs_bind [OF emit_insert_string_runs]) (auto split: option.split simp: bind_eq_Some_conv dest!: find_enum_value_nth)
next
  case (10 sg e k v rest ctx)
  note ok = 10(4)
  have 1: "runs t (emit_insert_string sg k ctx) (\<lambda>(i, ctx'). emit_str z ctx ctx' \<and> gstr_ok (graph_of ctx') i \<and> vec_index (e_strings_ir ctx') i = as_str sg k)"
    using 10 by (intro emit_insert_string_runs) auto
  show ?case
    unfolding insert_object_value.simps
  proof (rule runs_bind_eq [OF 1], clarify, rule runs_bind_eq)
    fix key ctx1 assume k1: "emit_insert_string sg k ctx = Some (key, ctx1)" "emit_str z ctx ctx1" "gstr_ok (graph_of ctx1) key"
    show "runs t (insert_value_with_type sg e v ctx1) (\<lambda>(x, ctx'). emit_str z ctx1 ctx' \<and> gvalue_ok (graph_of ctx') x)"
      using 10(1) [OF k1(1) refl] k1(2) ok emit_str_wf by auto
    fix p assume v1: "insert_value_with_type sg e v ctx1 = Some p" "case p of (x, ctx') \<Rightarrow> emit_str z ctx1 ctx' \<and> gvalue_ok (graph_of ctx') x"
    obtain x ctx2 where p: "p = (x, ctx2)" by fastforce
    have "runs t (insert_object_value sg e rest ctx2)
        (\<lambda>(xs, ctx'). emit_str z ctx2 ctx' \<and> (\<forall>(k, x) \<in> set xs. gstr_ok (graph_of ctx') k \<and> gvalue_ok (graph_of ctx') x))"
      using 10(2) [OF k1(1) refl v1(1) [unfolded p] refl] v1(2) p ok emit_str_wf by auto
    then show "runs t (case p of (x, ctx2) \<Rightarrow> do { (xs, ctx3) \<leftarrow> insert_object_value sg e rest ctx2; Some ((key, x) # xs, ctx3) })
        (\<lambda>(xs, ctx'). emit_str z ctx ctx' \<and> (\<forall>(k, x) \<in> set xs. gstr_ok (graph_of ctx') k \<and> gvalue_ok (graph_of ctx') x))"
      unfolding p prod.case
    proof (rule runs_bind, clarify)
      fix xs ctx3 assume "emit_str z ctx2 ctx3" and xs: "\<forall>(k, x) \<in> set xs. gstr_ok (graph_of ctx3) k \<and> gvalue_ok (graph_of ctx3) x"
      with v1(2) have 3: "emit_str z ctx1 ctx3" "gvalue_ok (graph_of ctx3) x" using emit_str_trans emit_str_mono(2) by (auto simp: p)
      then show "runs t (Some ((key, x) # xs, ctx3))
          (\<lambda>(xs, ctx'). emit_str z ctx ctx' \<and> (\<forall>(k, x) \<in> set xs. gstr_ok (graph_of ctx') k \<and> gvalue_ok (graph_of ctx') x))"
        using xs emit_str_trans [OF k1(2) 3(1)] emit_str_mono(1) [OF 3(1) k1(3)] by auto
    qed
  qed
next
  case (12 sg e v rest ctx)
  note ok = 12(4)
  have 1: "runs t (insert_value_with_type sg e v ctx) (\<lambda>(x, ctx'). emit_str z ctx ctx' \<and> gvalue_ok (graph_of ctx') x)"
    using 12 by auto
  show ?case
    unfolding insert_list_value.simps
  proof (rule runs_bind_eq [OF 1], clarify)
    fix x ctx1 assume v1: "insert_value_with_type sg e v ctx = Some (x, ctx1)" "emit_str z ctx ctx1" "gvalue_ok (graph_of ctx1) x"
    have "runs t (insert_list_value sg e rest ctx1) (\<lambda>(xs, ctx'). emit_str z ctx1 ctx' \<and> (\<forall>x \<in> set xs. gvalue_ok (graph_of ctx') x))"
      using 12(2) [OF v1(1) refl] v1(2) ok emit_str_wf by auto
    then show "runs t (do { (xs, ctx2) \<leftarrow> insert_list_value sg e rest ctx1; Some (x # xs, ctx2) })
        (\<lambda>(xs, ctx'). emit_str z ctx ctx' \<and> (\<forall>x \<in> set xs. gvalue_ok (graph_of ctx') x))"
      by (rule runs_bind) (use v1 emit_str_trans [OF v1(2)] emit_str_mono(2) [OF _ v1(3)] in auto)
  qed
qed (auto intro!: runs_bind [OF emit_insert_string_runs] emit_str_refl elim!: runs_bind)

lemma insert_value_option_runs:
  "emit_wf z ctx \<Longrightarrow> opt_ok (value_ok sg) v \<Longrightarrow>
     runs t (insert_value_option sg v e ctx) (\<lambda>(x, ctx'). emit_str z ctx ctx' \<and> opt_ok (gvalue_ok (graph_of ctx')) x)"
  unfolding insert_value_option_def
  by (cases v) (auto intro: emit_str_refl intro!: runs_bind [OF insert_value_runs(1)])

subsection \<open>Types\<close>

fun list_wrapping :: "WrapperTypeKind \<Rightarrow> ListWrapping" where
  "list_wrapping List = NullableList"
| "list_wrapping NonNullList = RequiredList"

lemma field_type_wrapping_fold:
  "field_type_wrapping r ws = foldM (\<lambda>lw w. wrapped_by w lw) (map list_wrapping ws) (new_wrapping r)"
proof -
  have "foldM (\<lambda>wrapper wrapping. case wrapper of List \<Rightarrow> wrapped_by_nullable_list wrapping | NonNullList \<Rightarrow> wrapped_by_required_list wrapping) ws w
      = foldM (\<lambda>lw w. wrapped_by w lw) (map list_wrapping ws) w" for w
  proof (induction ws arbitrary: w)
    case (Cons x ws)
    then show ?case by (cases x) simp_all
  qed simp
  then show ?thesis by (simp add: field_type_wrapping_def)
qed

lemma field_type_wrapping_runs:
  "(t \<Longrightarrow> length ws \<le> 21) \<Longrightarrow>
   runs t (field_type_wrapping r ws) (\<lambda>w. wrapping_wf w \<and> inner_is_required w = r \<and> wrappings w = map list_wrapping ws)"
  using wrapping_deque.push_all [of "new_wrapping r" r "map list_wrapping ws"] wrapping_deque.push_all_overflow [of "new_wrapping r" r "map list_wrapping ws"]
  unfolding field_type_wrapping_fold by (cases "length ws \<le> 21") (auto simp: new_wrapping_wf new_wrapping_required)

text \<open>The id of a string, if it is known.\<close>

definition registered :: "EmitContext \<Rightarrow> string \<Rightarrow> fed_Definition option" where
  "registered ctx s = (case get_index_of (e_strings_ir ctx) s of None \<Rightarrow> None | Some i \<Rightarrow> e_definitions ctx i)"

text \<open>A type of the graph that stands for a type of a subgraph.\<close>

definition type_emitted :: "Subgraphs \<Rightarrow> EmitContext \<Rightarrow> FieldTypeId \<Rightarrow> fed_Type \<Rightarrow> bool" where
  "type_emitted sg ctx i ty \<longleftrightarrow> wrapping_wf (ty_wrapping ty)
     \<and> (\<exists>name. type_name sg i \<bind> as_str sg = Some name \<and> registered ctx name = Some (ty_definition ty))
     \<and> inner_type_is_required sg i = Some (inner_is_required (ty_wrapping ty))
     \<and> map_option (map list_wrapping) (iter_wrappers sg i) = Some (wrappings (ty_wrapping ty))"

definition type_emittable :: "Subgraphs \<Rightarrow> EmitContext \<Rightarrow> FieldTypeId \<Rightarrow> bool" where
  "type_emittable sg ctx i \<longleftrightarrow>
     (case type_name sg i \<bind> as_str sg of None \<Rightarrow> False | Some name \<Rightarrow> registered ctx name \<noteq> None)
     \<and> (case iter_wrappers sg i of None \<Rightarrow> False | Some ws \<Rightarrow> length ws \<le> 21)"

definition type_step :: "Sizes \<Rightarrow> EmitContext \<Rightarrow> EmitContext \<Rightarrow> bool" where
  "type_step z ctx ctx' \<longleftrightarrow> emit_step z ctx ctx' \<and> e_out ctx' = e_out ctx \<and> e_selection_map ctx' = e_selection_map ctx"

lemma type_step_refl: "emit_wf z ctx \<Longrightarrow> type_step z ctx ctx"
  by (simp add: type_step_def emit_step_refl)

lemma type_step_trans: "type_step z a b \<Longrightarrow> type_step z b c \<Longrightarrow> type_step z a c"
  by (auto simp: type_step_def intro: emit_step_trans)

lemma emit_str_type_step: "emit_str z a b \<Longrightarrow> type_step z a b"
  by (simp add: emit_str_def type_step_def)

lemma type_step_step: "type_step z a b \<Longrightarrow> emit_step z a b"
  by (simp add: type_step_def)

lemmas type_step_wf = emit_step_wf [OF type_step_step]
lemmas type_step_extends = emit_step_extends [OF type_step_step]

lemma registered_mono:
  assumes "emit_step z ctx ctx'" and "registered ctx s = Some d"
  shows "registered ctx' s = Some d"
proof -
  obtain i where i: "get_index_of (e_strings_ir ctx) s = Some i" "e_definitions ctx i = Some d"
    using assms(2) by (auto simp: registered_def split: option.splits)
  then have "i < length (e_strings_ir ctx)" "e_strings_ir ctx ! i = s" by (auto dest: get_index_of_Some)
  moreover have "prefix (e_strings_ir ctx) (e_strings_ir ctx')" "distinct (e_strings_ir ctx')" "e_definitions ctx' = e_definitions ctx"
    using assms(1) by (simp_all add: emit_step_def graph_extends_def emit_wf_def graph_wf_at_def)
  ultimately have "get_index_of (e_strings_ir ctx') s = Some i"
    using get_index_of_nth [of "e_strings_ir ctx'" i] by (auto simp: prefix_def nth_append)
  then show ?thesis using i(2) \<open>e_definitions ctx' = e_definitions ctx\<close> by (simp add: registered_def)
qed

lemma type_emitted_mono: "emit_step z ctx ctx' \<Longrightarrow> type_emitted sg ctx i ty \<Longrightarrow> type_emitted sg ctx' i ty"
  unfolding type_emitted_def using registered_mono by blast

lemma type_emittable_mono: "emit_step z ctx ctx' \<Longrightarrow> type_emittable sg ctx i \<Longrightarrow> type_emittable sg ctx' i"
  by (auto simp: type_emittable_def split: option.splits dest: registered_mono)

lemma registered_index:
  assumes "emit_wf z ctx" and "vec_index (e_strings_ir ctx) i = Some s"
  shows "registered ctx s = e_definitions ctx i"
  using assms get_index_of_nth [of "e_strings_ir ctx" i] by (simp add: registered_def emit_wf_def graph_wf_at_def vec_index_eq_Some)

text \<open>A definition that is registered after an emission step was registered before it.\<close>

lemma registered_before:
  assumes "emit_step z ctx ctx'" and "emit_wf z ctx" and "registered ctx' s = Some d"
  shows "registered ctx s = Some d"
proof -
  obtain i where i: "get_index_of (e_strings_ir ctx') s = Some i" "e_definitions ctx' i = Some d"
    using assms(3) by (auto simp: registered_def split: option.splits)
  have e: "prefix (e_strings_ir ctx) (e_strings_ir ctx')" "e_definitions ctx' = e_definitions ctx" "distinct (e_strings_ir ctx)"
    using assms(1,2) by (simp_all add: emit_step_def graph_extends_def emit_wf_def graph_wf_at_def)
  then have "i < length (e_strings_ir ctx)" using assms(2) i(2) by (simp add: emit_wf_def gstr_ok_def)
  moreover have "e_strings_ir ctx' ! i = s" using i(1) by (auto dest: get_index_of_Some)
  ultimately have "get_index_of (e_strings_ir ctx) s = Some i"
    using e(1) get_index_of_nth [OF e(3), of i] by (auto simp: prefix_def nth_append)
  then show ?thesis using i(2) e(2) by (simp add: registered_def)
qed

lemma type_emitted_emittable:
  assumes "emit_step z ctx ctx'" and "emit_wf z ctx" and "type_emitted sg ctx' i ty"
  shows "type_emittable sg ctx i"
proof -
  obtain name ws where n: "type_name sg i \<bind> as_str sg = Some name" "registered ctx' name = Some (ty_definition ty)"
    and ws: "iter_wrappers sg i = Some ws" "map list_wrapping ws = wrappings (ty_wrapping ty)" and w: "wrapping_wf (ty_wrapping ty)"
    using assms(3) by (auto simp: type_emitted_def)
  have "length (map list_wrapping ws) \<le> 21" unfolding ws(2) using w by (auto simp: wrappings_def wrapping_wf_unat)
  then show ?thesis using n(1) ws(1) registered_before [OF assms(1,2) n(2)] by (simp add: type_emittable_def)
qed

text \<open>The cache of the types that were emitted.\<close>

definition cache_ok :: "Subgraphs \<Rightarrow> EmitContext \<Rightarrow> bool" where
  "cache_ok sg ctx \<longleftrightarrow> (\<forall>i ty. e_field_types_map ctx i = Some ty \<longrightarrow> type_emitted sg ctx i ty)"

lemma cache_ok_mono: "emit_step z ctx ctx' \<Longrightarrow> e_field_types_map ctx' = e_field_types_map ctx \<Longrightarrow> cache_ok sg ctx \<Longrightarrow> cache_ok sg ctx'"
  by (auto simp: cache_ok_def intro: type_emitted_mono)

lemma insert_field_type_runs:
  assumes wf: "wf_store sg" and e: "emit_wf z ctx" and ty: "type_ok sg i" and c: "cache_ok sg ctx" and t: "t \<Longrightarrow> type_emittable sg ctx i"
  shows "runs t (insert_field_type sg i ctx)
    (\<lambda>(x, ctx'). type_step z ctx ctx' \<and> cache_ok sg ctx' \<and> gtype_ok (graph_of ctx') x \<and> type_emitted sg ctx' i x)"
  unfolding insert_field_type_def
proof (rule runs_bind_eq [OF type_name_runs [OF wf ty]], rule runs_bind [OF emit_insert_string_runs [OF e]], assumption, clarify)
  fix n id ctx1
  assume n: "type_name sg i = Some n" "str_ok sg n"
    and s1: "emit_str z ctx ctx1" and id: "vec_index (e_strings_ir ctx1) id = as_str sg n"
  have wf1: "emit_wf z ctx1" by (rule emit_str_wf [OF s1])
  have c1: "cache_ok sg ctx1" using cache_ok_mono [OF emit_str_step [OF s1] _ c] s1 by (simp add: emit_str_def)
  have t1: "t \<Longrightarrow> type_emittable sg ctx1 i" using type_emittable_mono [OF emit_str_step [OF s1]] t by blast
  obtain name where name: "as_str sg n = Some name" using n(2) by (auto simp: as_str_def strings_resolve_def str_ok_def)
  have reg: "registered ctx1 name = e_definitions ctx1 id" using registered_index [OF wf1] id name by simp
  let ?Q = "\<lambda>(x, ctx'). type_step z ctx ctx' \<and> cache_ok sg ctx' \<and> gtype_ok (graph_of ctx') x \<and> type_emitted sg ctx' i x"
  show "runs t (case e_field_types_map ctx1 i of Some ty \<Rightarrow> Some (ty, ctx1)
      | None \<Rightarrow> do {
          d \<leftarrow> e_definitions ctx1 id;
          r \<leftarrow> inner_type_is_required sg i;
          ws \<leftarrow> iter_wrappers sg i;
          wrapping \<leftarrow> field_type_wrapping r ws;
          let ty = \<lparr>ty_wrapping = wrapping, ty_definition = d\<rparr>;
          Some (ty, ctx1\<lparr>e_field_types_map := (e_field_types_map ctx1)(i \<mapsto> ty)\<rparr>) }) ?Q"
  proof (rule runs_case_option)
    fix x assume "e_field_types_map ctx1 i = Some x"
    then show "runs t (Some (x, ctx1)) ?Q"
      using c1 wf1 emit_str_type_step [OF s1] by (auto simp: cache_ok_def emit_wf_def)
  next
    assume "e_field_types_map ctx1 i = None"
    have 1: "runs t (e_definitions ctx1 id) (gdef_ok (graph_of ctx1))"
      using t1 wf1 by (cases "e_definitions ctx1 id") (auto simp: type_emittable_def n name reg emit_wf_def)
    show "runs t (do {
          d \<leftarrow> e_definitions ctx1 id;
          r \<leftarrow> inner_type_is_required sg i;
          ws \<leftarrow> iter_wrappers sg i;
          wrapping \<leftarrow> field_type_wrapping r ws;
          let ty = \<lparr>ty_wrapping = wrapping, ty_definition = d\<rparr>;
          Some (ty, ctx1\<lparr>e_field_types_map := (e_field_types_map ctx1)(i \<mapsto> ty)\<rparr>) }) ?Q"
    proof (rule runs_bind_eq [OF 1], rule runs_bind_eq [OF inner_type_is_required_runs [OF wf ty]],
        rule runs_bind_eq [OF iter_wrappers_runs [OF wf ty]], rule runs_bind [OF field_type_wrapping_runs])
      fix d r ws assume d: "e_definitions ctx1 id = Some d" "gdef_ok (graph_of ctx1) d"
        and r: "inner_type_is_required sg i = Some r" and ws: "iter_wrappers sg i = Some ws"
      show "t \<Longrightarrow> length ws \<le> 21" using t1 ws by (simp add: type_emittable_def)
      fix w assume w: "wrapping_wf w \<and> inner_is_required w = r \<and> wrappings w = map list_wrapping ws"
      let ?ty = "\<lparr>ty_wrapping = w, ty_definition = d\<rparr>"
      let ?c = "ctx1\<lparr>e_field_types_map := (e_field_types_map ctx1)(i \<mapsto> ?ty)\<rparr>"
      have g: "graph_of ?c = graph_of ctx1" by (simp add: graph_of_def)
      have ok: "gtype_ok (graph_of ctx1) ?ty" using w d(2) by (simp add: gtype_ok_def)
      have em: "type_emitted sg ctx1 i ?ty" using w d(1) r ws by (simp add: type_emitted_def n name reg)
      have s2: "emit_step z ctx1 ?c"
        by (rule emit_frame [OF wf1]) (use wf1 ok in \<open>auto simp: g emit_wf_def graph_wf_at_def split: if_splits\<close>)
      have em2: "type_emitted sg ctx1 j y \<Longrightarrow> type_emitted sg ?c j y" for j y by (rule type_emitted_mono [OF s2])
      have "cache_ok sg ?c" using c1 em em2 by (auto simp: cache_ok_def)
      moreover have "type_step z ctx ?c"
        by (rule type_step_trans [OF emit_str_type_step [OF s1]]) (use s2 in \<open>simp add: type_step_def\<close>)
      ultimately show "runs t (let ty = ?ty in Some (ty, ctx1\<lparr>e_field_types_map := (e_field_types_map ctx1)(i \<mapsto> ty)\<rparr>)) ?Q"
        using ok [folded g] em2 [OF em] unfolding Let_def runs_Some prod.case by blast
    qed
  qed
qed

subsection \<open>Changes of the tables\<close>

definition emit_counts :: "EmitContext \<Rightarrow> nat \<times> nat \<times> nat" where
  "emit_counts ctx = (length (fg_directives (e_out ctx)), length (fg_input_value_definitions (e_out ctx)), length (fg_subgraphs (e_out ctx)))"

definition main_step :: "Subgraphs \<Rightarrow> Sizes \<Rightarrow> EmitContext \<Rightarrow> EmitContext \<Rightarrow> bool" where
  "main_step sg z ctx ctx' \<longleftrightarrow> emit_step z ctx ctx' \<and> cache_ok sg ctx' \<and> emit_counts ctx' = emit_counts ctx"

lemma main_step_refl: "emit_wf z ctx \<Longrightarrow> cache_ok sg ctx \<Longrightarrow> main_step sg z ctx ctx"
  by (simp add: main_step_def emit_step_refl)

lemma main_step_trans: "main_step sg z a b \<Longrightarrow> main_step sg z b c \<Longrightarrow> main_step sg z a c"
  by (auto simp: main_step_def intro: emit_step_trans)

lemma main_step_step: "main_step sg z a b \<Longrightarrow> emit_step z a b"
  by (simp add: main_step_def)

lemma main_step_cache: "main_step sg z a b \<Longrightarrow> cache_ok sg b"
  by (simp add: main_step_def)

lemmas main_step_wf = emit_step_wf [OF main_step_step]
lemmas main_step_extends = emit_step_extends [OF main_step_step]

lemma emit_str_main: "emit_str z ctx ctx' \<Longrightarrow> cache_ok sg ctx \<Longrightarrow> main_step sg z ctx ctx'"
  by (auto simp: main_step_def emit_counts_def emit_str_def intro: cache_ok_mono)

lemma type_step_main: "type_step z ctx ctx' \<Longrightarrow> cache_ok sg ctx' \<Longrightarrow> main_step sg z ctx ctx'"
  by (auto simp: main_step_def emit_counts_def type_step_def)

text \<open>Replacing an entry of a table.\<close>

lemma vec_update_runs:
  "(t \<Longrightarrow> i < length xs) \<Longrightarrow>
   runs t (vec_update i f xs) (\<lambda>ys. length ys = length xs \<and> i < length xs \<and> set ys \<subseteq> insert (f (xs ! i)) (set xs))"
  by (auto simp: vec_update_def dest!: subsetD [OF set_update_subset_insert])

lemma set_out_main:
  assumes "emit_wf z ctx" and "cache_ok sg ctx" and "graph_extends (graph_of ctx) (graph_of (ctx\<lparr>e_out := g\<rparr>))"
    and "\<And>x. gholds (graph_of (ctx\<lparr>e_out := g\<rparr>)) x \<Longrightarrow> gholds (graph_of ctx) x \<or> gitem_ok z (graph_of (ctx\<lparr>e_out := g\<rparr>)) x"
    and "emit_counts (ctx\<lparr>e_out := g\<rparr>) = emit_counts ctx"
  shows "main_step sg z ctx (ctx\<lparr>e_out := g\<rparr>)"
proof -
  have "emit_step z ctx (ctx\<lparr>e_out := g\<rparr>)"
    using assms(1,5) by (intro set_out_step assms) (auto simp: emit_wf_def emit_counts_def)
  then show ?thesis using assms(2,5) cache_ok_mono by (simp add: main_step_def)
qed

lemma replace_entry:
  assumes wf: "emit_wf z ctx" "cache_ok sg ctx" and e: "graph_extends (graph_of ctx) (graph_of (ctx\<lparr>e_out := g\<rparr>))"
    and old: "gholds (graph_of ctx) (K x)" and f: "gitem_ok z (graph_of ctx) (K x) \<Longrightarrow> gitem_ok z (graph_of ctx) (K y)"
    and items: "\<And>i. gholds (graph_of (ctx\<lparr>e_out := g\<rparr>)) i \<Longrightarrow> gholds (graph_of ctx) i \<or> i = K y"
    and counts: "emit_counts (ctx\<lparr>e_out := g\<rparr>) = emit_counts ctx"
  shows "main_step sg z ctx (ctx\<lparr>e_out := g\<rparr>)"
proof -
  have "gitem_ok z (graph_of ctx) (K x)" using wf(1) old unfolding emit_wf_def graph_wf_at_def by blast
  then have "gitem_ok z (graph_of (ctx\<lparr>e_out := g\<rparr>)) (K y)" by (intro gitem_ok_mono [OF e] f)
  with items show ?thesis by (intro set_out_main wf e counts) blast
qed

lemma update_object_runs:
  assumes "emit_wf z ctx" and "cache_ok sg ctx" and "t \<Longrightarrow> i < length (fg_objects (e_out ctx))"
    and f: "\<And>x. gitem_ok z (graph_of ctx) (G_Object x) \<Longrightarrow> gitem_ok z (graph_of ctx) (G_Object (f x))"
  shows "runs t (update_object i f ctx) (main_step sg z ctx)"
  unfolding update_object_def
proof (rule runs_bind [OF vec_update_runs], erule assms(3))
  fix xs assume xs: "length xs = length (fg_objects (e_out ctx)) \<and> i < length (fg_objects (e_out ctx))
    \<and> set xs \<subseteq> insert (f (fg_objects (e_out ctx) ! i)) (set (fg_objects (e_out ctx)))"
  have "main_step sg z ctx (update_out (\<lambda>g. g\<lparr>fg_objects := xs\<rparr>) ctx)"
  proof (rule replace_entry [where K = G_Object, OF assms(1,2) _ _ f])
    show "gholds (graph_of (update_out (\<lambda>g. g\<lparr>fg_objects := xs\<rparr>) ctx)) k \<Longrightarrow>
        gholds (graph_of ctx) k \<or> k = G_Object (f (fg_objects (e_out ctx) ! i))" for k using xs by (cases k) auto
  qed (use xs in \<open>simp_all add: graph_extends_def emit_counts_def\<close>)
  then show "runs t (Some (update_out (\<lambda>g. g\<lparr>fg_objects := xs\<rparr>) ctx)) (main_step sg z ctx)" by simp
qed

lemma update_interface_runs:
  assumes "emit_wf z ctx" and "cache_ok sg ctx" and "t \<Longrightarrow> i < length (fg_interfaces (e_out ctx))"
    and f: "\<And>x. gitem_ok z (graph_of ctx) (G_Interface x) \<Longrightarrow> gitem_ok z (graph_of ctx) (G_Interface (f x))"
  shows "runs t (update_interface i f ctx) (main_step sg z ctx)"
  unfolding update_interface_def
proof (rule runs_bind [OF vec_update_runs], erule assms(3))
  fix xs assume xs: "length xs = length (fg_interfaces (e_out ctx)) \<and> i < length (fg_interfaces (e_out ctx))
    \<and> set xs \<subseteq> insert (f (fg_interfaces (e_out ctx) ! i)) (set (fg_interfaces (e_out ctx)))"
  have "main_step sg z ctx (update_out (\<lambda>g. g\<lparr>fg_interfaces := xs\<rparr>) ctx)"
  proof (rule replace_entry [where K = G_Interface, OF assms(1,2) _ _ f])
    show "gholds (graph_of (update_out (\<lambda>g. g\<lparr>fg_interfaces := xs\<rparr>) ctx)) k \<Longrightarrow>
        gholds (graph_of ctx) k \<or> k = G_Interface (f (fg_interfaces (e_out ctx) ! i))" for k using xs by (cases k) auto
  qed (use xs in \<open>simp_all add: graph_extends_def emit_counts_def\<close>)
  then show "runs t (Some (update_out (\<lambda>g. g\<lparr>fg_interfaces := xs\<rparr>) ctx)) (main_step sg z ctx)" by simp
qed

lemma update_field_runs:
  assumes "emit_wf z ctx" and "cache_ok sg ctx" and "t \<Longrightarrow> i < length (fg_fields (e_out ctx))"
    and f: "\<And>x. gitem_ok z (graph_of ctx) (G_Field x) \<Longrightarrow> gitem_ok z (graph_of ctx) (G_Field (f x))"
  shows "runs t (update_field i f ctx) (main_step sg z ctx)"
  unfolding update_field_def
proof (rule runs_bind [OF vec_update_runs], erule assms(3))
  fix xs assume xs: "length xs = length (fg_fields (e_out ctx)) \<and> i < length (fg_fields (e_out ctx))
    \<and> set xs \<subseteq> insert (f (fg_fields (e_out ctx) ! i)) (set (fg_fields (e_out ctx)))"
  have "main_step sg z ctx (update_out (\<lambda>g. g\<lparr>fg_fields := xs\<rparr>) ctx)"
  proof (rule replace_entry [where K = G_Field, OF assms(1,2) _ _ f])
    show "gholds (graph_of (update_out (\<lambda>g. g\<lparr>fg_fields := xs\<rparr>) ctx)) k \<Longrightarrow>
        gholds (graph_of ctx) k \<or> k = G_Field (f (fg_fields (e_out ctx) ! i))" for k using xs by (cases k) auto
  qed (use xs in \<open>simp_all add: graph_extends_def emit_counts_def\<close>)
  then show "runs t (Some (update_out (\<lambda>g. g\<lparr>fg_fields := xs\<rparr>) ctx)) (main_step sg z ctx)" by simp
qed

subsection \<open>Directives, subgraphs, input values\<close>

text \<open>A step that adds to the tables that are counted.\<close>

definition count_step :: "Subgraphs \<Rightarrow> Sizes \<Rightarrow> nat \<Rightarrow> nat \<Rightarrow> EmitContext \<Rightarrow> EmitContext \<Rightarrow> bool" where
  "count_step sg z n m ctx ctx' \<longleftrightarrow> emit_step z ctx ctx' \<and> cache_ok sg ctx'
     \<and> emit_counts ctx' = (fst (emit_counts ctx) + n, fst (snd (emit_counts ctx)), snd (snd (emit_counts ctx)) + m)"

lemma count_step_refl: "emit_wf z ctx \<Longrightarrow> cache_ok sg ctx \<Longrightarrow> count_step sg z 0 0 ctx ctx"
  by (simp add: count_step_def emit_step_refl)

lemma count_step_trans: "count_step sg z n m a b \<Longrightarrow> count_step sg z k l b c \<Longrightarrow> count_step sg z (n + k) (m + l) a c"
  by (auto simp: count_step_def intro: emit_step_trans)

lemma main_count_step: "main_step sg z a b \<Longrightarrow> count_step sg z 0 0 a b"
  by (simp add: main_step_def count_step_def)

lemma count_step_wf: "count_step sg z n m a b \<Longrightarrow> emit_wf z b"
  and count_step_cache: "count_step sg z n m a b \<Longrightarrow> cache_ok sg b"
  and count_step_extends: "count_step sg z n m a b \<Longrightarrow> graph_extends (graph_of a) (graph_of b)"
  by (simp_all add: count_step_def emit_step_def)

lemma count_foldM:
  assumes "\<And>x ctx. x \<in> set xs \<Longrightarrow> P ctx \<Longrightarrow> runs t (f x ctx) (\<lambda>ctx'. count_step sg z n m ctx ctx' \<and> P ctx')"
    and "emit_wf z ctx" and "cache_ok sg ctx" and "P ctx"
  shows "runs t (foldM f xs ctx) (count_step sg z (length xs * n) (length xs * m) ctx)"
  using assms
proof (induction xs arbitrary: ctx)
  case (Cons x xs)
  have "runs t (f x ctx) (\<lambda>ctx'. count_step sg z n m ctx ctx' \<and> P ctx')" using Cons.prems by simp
  then show ?case
    unfolding foldM.simps
  proof (rule runs_bind)
    fix ctx1 assume 1: "count_step sg z n m ctx ctx1 \<and> P ctx1"
    have "runs t (foldM f xs ctx1) (count_step sg z (length xs * n) (length xs * m) ctx1)"
      using 1 count_step_wf count_step_cache Cons.prems(1) by (intro Cons.IH) auto
    then show "runs t (foldM f xs ctx1) (count_step sg z (length (x # xs) * n) (length (x # xs) * m) ctx)"
      by (rule runs_mono) (use count_step_trans [OF conjunct1 [OF 1]] in auto)
  qed
qed (simp add: count_step_refl)

lemma insert_values_runs:
  assumes "emit_wf z ctx" and "\<forall>(k, v) \<in> set args. P k \<and> value_ok sg v"
  shows "runs t (map_accumM (\<lambda>(name, v) ctx. do { (x, ctx') \<leftarrow> insert_value sg v ctx; Some ((name, x), ctx') }) args ctx)
    (\<lambda>(xs, ctx'). emit_str z ctx ctx' \<and> (\<forall>(k, x) \<in> set xs. P k \<and> gvalue_ok (graph_of ctx') x))"
proof (rule runs_map_accumM [where I = "\<lambda>xs ctx'. emit_str z ctx ctx' \<and> (\<forall>(k, x) \<in> set xs. P k \<and> gvalue_ok (graph_of ctx') x)"])
  show "emit_str z ctx ctx \<and> (\<forall>(k, x) \<in> set []. P k \<and> gvalue_ok (graph_of ctx) x)"
    using emit_str_refl [OF assms(1)] by simp
  fix kv ys ctx1
  assume kv: "kv \<in> set args" and 1: "emit_str z ctx ctx1 \<and> (\<forall>(k, x) \<in> set ys. P k \<and> gvalue_ok (graph_of ctx1) x)"
  obtain k v where kv': "kv = (k, v)" by fastforce
  have v: "value_ok sg v" "P k" using assms(2) kv by (force simp: kv')+
  have m: "emit_str z ctx1 c \<Longrightarrow> emit_str z ctx c \<and> (\<forall>(k, x) \<in> set ys. P k \<and> gvalue_ok (graph_of c) x)" for c
    using 1 emit_str_trans emit_str_mono(2) by fast
  show "runs t ((case kv of (name, v) \<Rightarrow> \<lambda>ctx. do { (x, ctx') \<leftarrow> insert_value sg v ctx; Some ((name, x), ctx') }) ctx1)
      (\<lambda>(y, ctx'). emit_str z ctx ctx' \<and> (\<forall>(k, x) \<in> set (ys @ [y]). P k \<and> gvalue_ok (graph_of ctx') x))"
    unfolding kv' prod.case insert_value_def
    by (rule runs_bind [OF insert_value_runs(1) [OF emit_str_wf [OF conjunct1 [OF 1]] v(1)]]) (use m v(2) in auto)
qed

lemma emit_directive_runs:
  assumes wf: "emit_wf z ctx" "cache_ok sg ctx" and d: "ir_directive_ok sg ir d" and len: "length (ir_strings ir) \<le> length (e_strings_ir ctx)"
  shows "runs t (emit_directive sg d ctx) (count_step sg z 1 0 ctx)"
proof -
  have push: "count_step sg z 1 0 ctx (update_out (\<lambda>g. g\<lparr>fg_directives := fg_directives g @ [x]\<rparr>) ctx1)"
    if s: "emit_str z ctx ctx1" and x: "gdirective_ok (graph_of ctx1) x" for x ctx1
  proof -
    let ?u = "\<lambda>g. g\<lparr>fg_directives := fg_directives g @ [x]\<rparr>"
    have e: "graph_extends (graph_of ctx1) (graph_of (update_out ?u ctx1))" by (simp add: graph_extends_def)
    have "emit_step z ctx1 (update_out ?u ctx1)"
    proof (rule set_out_step [OF emit_str_wf [OF s] e])
      show "gholds (graph_of (update_out ?u ctx1)) k \<Longrightarrow> gholds (graph_of ctx1) k \<or> gitem_ok z (graph_of (update_out ?u ctx1)) k" for k
        using gdirective_ok_mono [OF e x] by (cases k) auto
    qed (use emit_str_wf [OF s] in \<open>simp add: emit_wf_def\<close>)
    moreover have "cache_ok sg (update_out ?u ctx1)"
      by (rule cache_ok_mono [OF calculation]) (simp, rule main_step_cache [OF emit_str_main [OF s wf(2)]])
    ultimately show ?thesis
      using emit_step_trans [OF emit_str_step [OF s]] s by (simp add: count_step_def emit_counts_def emit_str_def)
  qed
  have str: "fstr_ok ir s \<Longrightarrow> gstr_ok (graph_of ctx) s" for s using len by (simp add: fstr_ok_def gstr_ok_def)
  have refl: "emit_str z ctx ctx" by (rule emit_str_refl [OF wf(1)])
  show ?thesis
  proof (cases d)
    case (Directive_Other name args)
    have ok: "fstr_ok ir name" "\<forall>(k, v) \<in> set args. fstr_ok ir k \<and> value_ok sg v" using d by (simp_all add: Directive_Other)
    have "runs t (map_accumM (\<lambda>(name, v) ctx. do { (x, ctx') \<leftarrow> insert_value sg v ctx; Some ((name, x), ctx') }) args ctx)
      (\<lambda>(xs, ctx'). emit_str z ctx ctx' \<and> (\<forall>(k, x) \<in> set xs. fstr_ok ir k \<and> gvalue_ok (graph_of ctx') x))"
      by (rule insert_values_runs [OF wf(1) ok(2)])
    moreover have "gdirective_ok (graph_of ctx1) (Fed_Other name xs)"
      if "emit_str z ctx ctx1" "\<forall>(k, x) \<in> set xs. fstr_ok ir k \<and> gvalue_ok (graph_of ctx1) x" for xs ctx1
      using that ok str emit_str_mono(1) [OF that(1)] by fastforce
    ultimately show ?thesis
      unfolding emit_directive_def Directive_Other ir_Directive.case bind_assoc
      by (elim runs_bind) (use push in auto)
  qed (use d str push [OF refl] in \<open>auto simp: emit_directive_def opt_ok_def split: option.splits\<close>)
qed

lemma emit_directives_runs:
  assumes "emit_wf z ctx" and "cache_ok sg ctx" and "\<forall>d \<in> set ds. ir_directive_ok sg ir d" and "length (ir_strings ir) \<le> length (e_strings_ir ctx)"
  shows "runs t (emit_directives sg ds ctx) (count_step sg z (length ds) 0 ctx)"
proof -
  have "runs t (foldM (emit_directive sg) ds ctx) (count_step sg z (length ds * 1) (length ds * 0) ctx)"
  proof (rule count_foldM [where P = "\<lambda>ctx. emit_wf z ctx \<and> cache_ok sg ctx \<and> length (ir_strings ir) \<le> length (e_strings_ir ctx)"])
    fix d ctx assume "d \<in> set ds" and c: "emit_wf z ctx \<and> cache_ok sg ctx \<and> length (ir_strings ir) \<le> length (e_strings_ir ctx)"
    then have "runs t (emit_directive sg d ctx) (count_step sg z 1 0 ctx)" using assms(3) by (intro emit_directive_runs) auto
    then show "runs t (emit_directive sg d ctx) (\<lambda>ctx'. count_step sg z 1 0 ctx ctx'
        \<and> emit_wf z ctx' \<and> cache_ok sg ctx' \<and> length (ir_strings ir) \<le> length (e_strings_ir ctx'))"
    proof (rule runs_mono)
      fix ctx' assume 1: "count_step sg z 1 0 ctx ctx'"
      then have "length (e_strings_ir ctx) \<le> length (e_strings_ir ctx')"
        using prefix_length_le by (auto simp: count_step_def emit_step_def graph_extends_def)
      with 1 c show "count_step sg z 1 0 ctx ctx' \<and> emit_wf z ctx' \<and> cache_ok sg ctx' \<and> length (ir_strings ir) \<le> length (e_strings_ir ctx')"
        using count_step_wf count_step_cache by auto
    qed
  qed (use assms in auto)
  then show ?thesis by (simp add: emit_directives_def)
qed

lemma emit_subgraphs_runs:
  assumes wf: "wf_store sg" and "emit_wf z ctx" and "cache_ok sg ctx"
  shows "runs t (emit_subgraphs sg ctx) (count_step sg z 0 (length (sg_subgraphs sg)) ctx)"
proof -
  let ?f = "\<lambda>(i :: nat, subgraph) ctx. do {
         (name, ctx1) \<leftarrow> emit_insert_string sg (s_name subgraph) ctx;
         (url, ctx2) \<leftarrow> emit_insert_string sg (s_url subgraph) ctx1;
         Some (update_out (\<lambda>g. g\<lparr>fg_subgraphs := fg_subgraphs g @ [\<lparr>fs_name = name, fs_url = url\<rparr>]\<rparr>) ctx2) }"
  have "runs t (foldM ?f (iter_subgraphs sg) ctx) (count_step sg z (length (iter_subgraphs sg) * 0) (length (iter_subgraphs sg) * 1) ctx)"
  proof (rule count_foldM [where P = "\<lambda>ctx. emit_wf z ctx \<and> cache_ok sg ctx"])
    fix x and ctx :: EmitContext assume x: "x \<in> set (iter_subgraphs sg)" and c: "emit_wf z ctx \<and> cache_ok sg ctx"
    obtain i s where xs: "x = (i, s)" by fastforce
    have s: "str_ok sg (s_name s)" "str_ok sg (s_url s)"
      using wf x by (auto simp: xs iter_subgraphs_def in_set_enumerate_eq wf_store_def subgraph_record_ok_def dest!: nth_mem)
    show "runs t (?f x ctx) (\<lambda>ctx'. count_step sg z 0 1 ctx ctx' \<and> emit_wf z ctx' \<and> cache_ok sg ctx')"
      unfolding xs prod.case
    proof (rule runs_bind [OF emit_insert_string_runs [OF conjunct1 [OF c] s(1)]], clarify,
        rule runs_bind [OF emit_insert_string_runs [OF emit_str_wf s(2)]], assumption, clarify)
      fix n ctx1 u ctx2
      assume 1: "emit_str z ctx ctx1" "gstr_ok (graph_of ctx1) n" and 2: "emit_str z ctx1 ctx2" "gstr_ok (graph_of ctx2) u"
      note s12 = emit_str_trans [OF 1(1) 2(1)]
      let ?u = "\<lambda>g. g\<lparr>fg_subgraphs := fg_subgraphs g @ [\<lparr>fs_name = n, fs_url = u\<rparr>]\<rparr>"
      have e: "graph_extends (graph_of ctx2) (graph_of (update_out ?u ctx2))" by (simp add: graph_extends_def)
      have "emit_step z ctx2 (update_out ?u ctx2)"
      proof (rule set_out_step [OF emit_str_wf [OF s12] e])
        show "gholds (graph_of (update_out ?u ctx2)) k \<Longrightarrow> gholds (graph_of ctx2) k \<or> gitem_ok z (graph_of (update_out ?u ctx2)) k" for k
          using gstr_ok_mono [OF e emit_str_mono(1) [OF 2(1) 1(2)]] gstr_ok_mono [OF e 2(2)] by (cases k) auto
      qed (use emit_str_wf [OF s12] in \<open>simp add: emit_wf_def\<close>)
      moreover have "cache_ok sg (update_out ?u ctx2)"
        by (rule cache_ok_mono [OF calculation]) (simp, rule main_step_cache [OF emit_str_main [OF s12 conjunct2 [OF c]]])
      ultimately have "count_step sg z 0 1 ctx (update_out ?u ctx2)"
        using emit_step_trans [OF emit_str_step [OF s12]] s12 by (simp add: count_step_def emit_counts_def emit_str_def)
      then show "runs t (Some (update_out ?u ctx2)) (\<lambda>ctx'. count_step sg z 0 1 ctx ctx' \<and> emit_wf z ctx' \<and> cache_ok sg ctx')"
        using count_step_wf count_step_cache by auto
    qed
  qed (use assms in auto)
  then show ?thesis by (simp add: emit_subgraphs_def iter_subgraphs_def)
qed

lemma map_accumM_length: "map_accumM f xs s = Some (ys, s') \<Longrightarrow> length ys = length xs"
  by (induction xs arbitrary: s ys) (auto simp: bind_eq_Some_conv)

text \<open>What the representation guarantees, in the context that was built from it.\<close>

definition ir_emitting :: "CompositionIr \<Rightarrow> Sizes \<Rightarrow> EmitContext \<Rightarrow> bool" where
  "ir_emitting ir z ctx \<longleftrightarrow> length (ir_strings ir) \<le> length (e_strings_ir ctx) \<and> n_directives z = length (ir_directives ir)
     \<and> n_input_values z = length (ir_input_value_definitions ir) \<and> fg_type_definitions (e_out ctx) = ir_type_definitions ir
     \<and> length (fg_objects (e_out ctx)) = length (ir_objects ir) \<and> length (fg_interfaces (e_out ctx)) = length (ir_interfaces ir)
     \<and> length (fg_unions (e_out ctx)) = length (ir_unions ir) \<and> fg_input_objects (e_out ctx) = ir_input_objects ir"

lemma ir_emitting_mono: "ir_emitting ir z ctx \<Longrightarrow> graph_extends (graph_of ctx) (graph_of ctx') \<Longrightarrow> ir_emitting ir z ctx'"
  by (auto simp: ir_emitting_def graph_extends_def dest!: prefix_length_le)

lemma ir_emitting_oks:
  assumes "ir_emitting ir z ctx"
  shows "fstr_ok ir s \<Longrightarrow> gstr_ok (graph_of ctx) s" and "opt_ok (fstr_ok ir) q \<Longrightarrow> opt_ok (gstr_ok (graph_of ctx)) q"
    and "dirs_ok ir r \<Longrightarrow> gdirs_ok z r" and "args_ok ir a \<Longrightarrow> gargs_ok z a" and "fdef_ok ir d \<Longrightarrow> gdef_ok (graph_of ctx) d"
proof -
  show "fstr_ok ir s \<Longrightarrow> gstr_ok (graph_of ctx) s" for s using assms by (simp add: ir_emitting_def fstr_ok_def gstr_ok_def)
  then show "opt_ok (fstr_ok ir) q \<Longrightarrow> opt_ok (gstr_ok (graph_of ctx)) q" by (rule opt_ok_mono)
  show "fdef_ok ir d \<Longrightarrow> gdef_ok (graph_of ctx) d"
    using assms by (cases d) (simp_all add: ir_emitting_def typedef_ok_def gtypedef_ok_def)
qed (use assms in \<open>simp_all add: ir_emitting_def dirs_ok_def gdirs_ok_def args_ok_def gargs_ok_def range_in_def\<close>)

lemma emit_input_value_definitions_runs:
  assumes wf: "wf_store sg" and e: "emit_wf z ctx" "cache_ok sg ctx" "ir_emitting ir z ctx"
    and ivs: "\<forall>x \<in> set ivs. item_ok sg ir (Item_InputValue x)" and len: "length ivs \<le> n_input_values z"
    and none: "fg_input_value_definitions (e_out ctx) = []" and t: "t \<Longrightarrow> \<forall>x \<in> set ivs. type_emittable sg ctx (iv_type x)"
  shows "runs t (emit_input_value_definitions sg ivs ctx) (\<lambda>ctx'. emit_step z ctx ctx' \<and> cache_ok sg ctx'
    \<and> emit_counts ctx' = (fst (emit_counts ctx), length ivs, snd (snd (emit_counts ctx))))"
proof -
  let ?I = "\<lambda>xs ctx'. type_step z ctx ctx' \<and> cache_ok sg ctx' \<and> (\<forall>x \<in> set xs. gitem_ok z (graph_of ctx') (G_InputValue x))"
  let ?f = "\<lambda>iv ctx. do {
         (ty, ctx1) \<leftarrow> insert_field_type sg (iv_type iv) ctx;
         (dflt, ctx2) \<leftarrow> insert_value_option sg (iv_default iv) (as_enum (ty_definition ty)) ctx1;
         Some (\<lparr>fiv_name = iv_name iv, fiv_type = ty, fiv_directives = iv_directives iv,
                fiv_description = iv_description iv, fiv_default = dflt\<rparr>, ctx2) }"
  have loop: "runs t (map_accumM ?f ivs ctx) (\<lambda>(xs, ctx'). ?I xs ctx')"
  proof (rule runs_map_accumM [where I = ?I])
    fix iv ys ctx1 assume iv: "iv \<in> set ivs" and I: "?I ys ctx1"
    have ok: "fstr_ok ir (iv_name iv)" "type_ok sg (iv_type iv)" "dirs_ok ir (iv_directives iv)" "opt_ok (fstr_ok ir) (iv_description iv)"
      "opt_ok (value_ok sg) (iv_default iv)" using ivs iv by auto
    have s1: "type_step z ctx ctx1" using I by blast
    have t1: "t \<Longrightarrow> type_emittable sg ctx1 (iv_type iv)" using t iv type_emittable_mono [OF type_step_step [OF s1]] by blast
    show "runs t (?f iv ctx1) (\<lambda>(y, ctx'). ?I (ys @ [y]) ctx')"
    proof (rule runs_bind [OF insert_field_type_runs [OF wf type_step_wf [OF s1] ok(2)]], use I in blast, erule t1, clarify,
        rule runs_bind [OF insert_value_option_runs [OF type_step_wf ok(5)]], assumption, clarify)
      fix ty ctx2 dflt ctx3
      assume 2: "type_step z ctx1 ctx2" "cache_ok sg ctx2" "gtype_ok (graph_of ctx2) ty" and 3: "emit_str z ctx2 ctx3" "opt_ok (gvalue_ok (graph_of ctx3)) dflt"
      have s13: "type_step z ctx1 ctx3" using type_step_trans [OF 2(1) emit_str_type_step [OF 3(1)]] .
      have s3: "type_step z ctx ctx3" using type_step_trans [OF s1 s13] .
      note oks = ir_emitting_oks [OF ir_emitting_mono [OF e(3) type_step_extends [OF s3]]]
      let ?x = "\<lparr>fiv_name = iv_name iv, fiv_type = ty, fiv_directives = iv_directives iv, fiv_description = iv_description iv, fiv_default = dflt\<rparr>"
      have "gitem_ok z (graph_of ctx3) (G_InputValue ?x)"
        using oks(1) [OF ok(1)] oks(3) [OF ok(3)] oks(2) [OF ok(4)] gtype_ok_mono [OF emit_str_extends [OF 3(1)] 2(3)] 3(2) by simp
      moreover have "\<forall>x \<in> set ys. gitem_ok z (graph_of ctx3) (G_InputValue x)"
        using I gitem_ok_mono [OF type_step_extends [OF s13]] by blast
      moreover have "cache_ok sg ctx3" using main_step_cache [OF emit_str_main [OF 3(1) 2(2)]] .
      ultimately have "?I (ys @ [?x]) ctx3" using s3 by (auto simp del: gitem_ok.simps)
      then show "runs t (Some (?x, ctx3)) (\<lambda>(y, ctx'). ?I (ys @ [y]) ctx')" by (simp del: gitem_ok.simps)
    qed
  qed (use e type_step_refl in auto)
  show ?thesis
    unfolding emit_input_value_definitions_def
  proof (rule runs_bind_eq [OF loop], clarify)
    fix xs ctx1 assume m: "map_accumM ?f ivs ctx = Some (xs, ctx1)" and 1: "type_step z ctx ctx1" "cache_ok sg ctx1"
      and items: "\<forall>x \<in> set xs. gitem_ok z (graph_of ctx1) (G_InputValue x)"
    let ?c = "ctx1\<lparr>e_out := (e_out ctx1)\<lparr>fg_input_value_definitions := xs\<rparr>\<rparr>"
    have l: "length xs = length ivs" by (rule map_accumM_length [OF m])
    have ext: "graph_extends (graph_of ctx1) (graph_of ?c)" using none 1(1) by (simp add: graph_extends_def type_step_def)
    have "emit_step z ctx1 ?c"
    proof (rule set_out_step [OF type_step_wf [OF 1(1)] ext])
      show "gholds (graph_of ?c) k \<Longrightarrow> gholds (graph_of ctx1) k \<or> gitem_ok z (graph_of ?c) k" for k
        using items gitem_ok_mono [OF ext] by (cases k) (auto simp del: gitem_ok.simps)
    qed (use l len in simp)
    moreover have "cache_ok sg ?c" by (rule cache_ok_mono [OF calculation _ 1(2)]) simp
    ultimately show "runs t (Some (update_out (\<lambda>g. g\<lparr>fg_input_value_definitions := xs\<rparr>) ctx1)) (\<lambda>ctx'. emit_step z ctx ctx' \<and> cache_ok sg ctx'
        \<and> emit_counts ctx' = (fst (emit_counts ctx), length ivs, snd (snd (emit_counts ctx))))"
      using emit_step_trans [OF type_step_step [OF 1(1)]] 1(1) l by (simp add: emit_counts_def type_step_def)
  qed
qed

subsection \<open>Interface implementations\<close>

lemma subgraphs_implementing_ok:
  assumes "wf_store sg" and "s \<in> set (subgraphs_implementing_interface sg a b)"
  shows "s < length (sg_subgraphs sg)"
  using assms by (force simp: subgraphs_implementing_interface_def wf_store_def definitions_ok_def subgraph_ok_def bt_wf_get split: option.splits)

lemma emit_interface_impl_runs:
  assumes wf: "wf_store sg" and e: "emit_wf z ctx" "cache_ok sg ctx" and z: "n_subgraphs z = length (sg_subgraphs sg)"
    and i: "str_ok sg a" "str_ok sg b"
  shows "runs False (emit_interface_impl sg (a, b) ctx) (main_step sg z ctx)"
  unfolding emit_interface_impl_def prod.case
proof (rule runs_bind [OF emit_insert_string_runs [OF e(1) i(2)]], clarify,
    rule runs_bind [OF emit_insert_string_runs [OF emit_str_wf i(1)]], assumption, clarify)
  fix er ctx1 ee ctx2
  assume 1: "emit_str z ctx ctx1" and 2: "emit_str z ctx1 ctx2"
  have s: "main_step sg z ctx ctx2" by (rule emit_str_main [OF emit_str_trans [OF 1 2] e(2)])
  note wf2 = main_step_wf [OF s] main_step_cache [OF s]
  have def: "e_definitions ctx2 n = Some d \<Longrightarrow> gdef_ok (graph_of ctx2) d" for n d using wf2(1) by (simp add: emit_wf_def)
  have joins: "\<forall>(s, i) \<in> set (map (\<lambda>s. (s, k)) (subgraphs_implementing_interface sg a b)). s < n_subgraphs z \<and> i < length (fg_interfaces (graph_of ctx2))"
    if "k < length (fg_interfaces (e_out ctx2))" for k using that subgraphs_implementing_ok [OF wf] z by auto
  have impl: "runs False (do {
          let joins = map (\<lambda>s. (s, k)) (subgraphs_implementing_interface sg a b);
          i \<leftarrow> e_definitions ctx2 er;
          (case i of
             Fed_Object object_id \<Rightarrow> update_object object_id (\<lambda>obj. obj\<lparr>
                 fo_implements_interfaces := fo_implements_interfaces obj @ [k],
                 fo_join_implements := fo_join_implements obj @ joins\<rparr>) ctx2
           | Fed_Interface interface_id \<Rightarrow> update_interface interface_id (\<lambda>interface. interface\<lparr>
                 fi_implements_interfaces := fi_implements_interfaces interface @ [k],
                 fi_join_implements := fi_join_implements interface @ joins\<rparr>) ctx2
           | _ \<Rightarrow> None) }) (main_step sg z ctx)" if k: "k < length (fg_interfaces (e_out ctx2))" for k
    unfolding Let_def
  proof (rule runs_bind [where P = "\<lambda>_. True"], simp add: runs_partial)
    fix x
    note upd = runs_mono [OF _ main_step_trans [OF s]]
    show "runs False (case x of
             Fed_Object object_id \<Rightarrow> update_object object_id (\<lambda>obj. obj\<lparr>
                 fo_implements_interfaces := fo_implements_interfaces obj @ [k],
                 fo_join_implements := fo_join_implements obj @ map (\<lambda>s. (s, k)) (subgraphs_implementing_interface sg a b)\<rparr>) ctx2
           | Fed_Interface interface_id \<Rightarrow> update_interface interface_id (\<lambda>interface. interface\<lparr>
                 fi_implements_interfaces := fi_implements_interfaces interface @ [k],
                 fi_join_implements := fi_join_implements interface @ map (\<lambda>s. (s, k)) (subgraphs_implementing_interface sg a b)\<rparr>) ctx2
           | _ \<Rightarrow> None) (main_step sg z ctx)"
      by (cases x) (simp_all, (rule upd [OF update_object_runs [OF wf2]] upd [OF update_interface_runs [OF wf2]], use joins [OF k] k in auto)+)
  qed
  show "runs False (do { d \<leftarrow> e_definitions ctx2 ee;
     (case d of
        Fed_Interface implementee \<Rightarrow> do {
          let joins = map (\<lambda>s. (s, implementee)) (subgraphs_implementing_interface sg a b);
          i \<leftarrow> e_definitions ctx2 er;
          (case i of
             Fed_Object object_id \<Rightarrow> update_object object_id (\<lambda>obj. obj\<lparr>
                 fo_implements_interfaces := fo_implements_interfaces obj @ [implementee],
                 fo_join_implements := fo_join_implements obj @ joins\<rparr>) ctx2
           | Fed_Interface interface_id \<Rightarrow> update_interface interface_id (\<lambda>interface. interface\<lparr>
                 fi_implements_interfaces := fi_implements_interfaces interface @ [implementee],
                 fi_join_implements := fi_join_implements interface @ joins\<rparr>) ctx2
           | _ \<Rightarrow> None) }
      | _ \<Rightarrow> Some ctx2) }) (main_step sg z ctx)"
    apply (rule runs_bind_eq [where P = "\<lambda>_. True"], simp add: runs_partial)
    subgoal for d by (cases d) (simp_all only: fed_Definition.case runs_Some s, rule impl, drule def, simp)
    done
qed

lemma main_foldM:
  assumes "\<And>x ctx. x \<in> set xs \<Longrightarrow> emit_wf z ctx \<Longrightarrow> cache_ok sg ctx \<Longrightarrow> runs t (f x ctx) (main_step sg z ctx)"
    and "emit_wf z ctx" and "cache_ok sg ctx"
  shows "runs t (foldM f xs ctx) (main_step sg z ctx)"
proof (rule runs_foldM_rel [where R = "main_step sg z"])
  show "x \<in> set xs \<Longrightarrow> main_step sg z ctx s' \<Longrightarrow> runs t (f x s') (main_step sg z s')" for x s'
    by (rule assms(1) [OF _ main_step_wf main_step_cache])
qed (rule main_step_refl [OF assms(2,3)], erule main_step_trans)

lemma emit_interface_impls_runs:
  assumes "wf_store sg" and "emit_wf z ctx" "cache_ok sg ctx" and "n_subgraphs z = length (sg_subgraphs sg)"
  shows "runs False (emit_interface_impls sg ctx) (main_step sg z ctx)"
  unfolding emit_interface_impls_def
proof (rule main_foldM)
  fix x and ctx :: EmitContext assume x: "x \<in> set (iter_interface_impls sg)" and c: "emit_wf z ctx" "cache_ok sg ctx"
  obtain a b where "x = (a, b)" by fastforce
  moreover have "str_ok sg a" "str_ok sg b"
    using x assms(1) by (auto simp: calculation iter_interface_impls_def wf_store_def definitions_ok_def)
  ultimately show "runs False (emit_interface_impl sg x ctx) (main_step sg z ctx)"
    using emit_interface_impl_runs [OF assms(1) c assms(4)] by simp
qed (use assms in auto)

subsection \<open>Selections\<close>

lemma position_in_slice:
  assumes "graph_input_values g r = Some cs" and "position p cs = Some i"
  shows "fst r + i < length (fg_input_value_definitions g)"
  using position_Some [OF assms(2)] assms(1) by (auto simp: graph_input_values_def vec_slice_def split: if_splits)

lemma attach_arguments_runs:
  assumes e: "emit_wf z ctx" and args: "arguments_ok sg args"
  shows "runs False (attach_arguments sg r args ctx)
    (\<lambda>(xs, ctx'). emit_str z ctx ctx' \<and> (\<forall>(i, v) \<in> set xs. i < n_input_values z \<and> gvalue_ok (graph_of ctx') v))"
  unfolding attach_arguments_def
proof (rule runs_map_accumM [where I = "\<lambda>xs ctx'. emit_str z ctx ctx' \<and> (\<forall>(i, v) \<in> set xs. i < n_input_values z \<and> gvalue_ok (graph_of ctx') v)"])
  fix kv ys ctx1
  assume kv: "kv \<in> set args" and I: "emit_str z ctx ctx1 \<and> (\<forall>(i, v) \<in> set ys. i < n_input_values z \<and> gvalue_ok (graph_of ctx1) v)"
  obtain k v where kv': "kv = (k, v)" by fastforce
  have ok: "str_ok sg k" "value_ok sg v" using args kv by (auto simp: kv' arguments_ok_def)
  let ?Q = "\<lambda>(y, ctx'). emit_str z ctx ctx' \<and> (\<forall>(i, v) \<in> set (ys @ [y]). i < n_input_values z \<and> gvalue_ok (graph_of ctx') v)"
  have fin: "?Q ((i, x), ctx3)" if "emit_str z ctx1 ctx3" "i < n_input_values z" "gvalue_ok (graph_of ctx3) x" for i x ctx3
    using that I emit_str_trans [OF conjunct1 [OF I] that(1)] emit_str_mono(2) [OF that(1)] by fastforce
  show "runs False ((case kv of (name, v) \<Rightarrow> \<lambda>ctx. do {
         (arg_name, ctx1) \<leftarrow> emit_insert_string sg name ctx;
         candidates \<leftarrow> graph_input_values (e_out ctx1) r;
         idx \<leftarrow> position (\<lambda>arg. fiv_name arg = arg_name) candidates;
         let argument = fst r + idx;
         d \<leftarrow> vec_index (fg_input_value_definitions (e_out ctx1)) argument;
         (x, ctx2) \<leftarrow> insert_value_with_type sg (as_enum (ty_definition (fiv_type d))) v ctx1;
         Some ((argument, x), ctx2) }) ctx1) ?Q"
    unfolding kv' prod.case Let_def
  proof (rule runs_bind [OF emit_insert_string_runs [OF emit_str_wf [OF conjunct1 [OF I]] ok(1)]], clarify,
      rule runs_bind_eq [where P = "\<lambda>_. True"], simp add: runs_partial, rule runs_bind_eq [where P = "\<lambda>_. True"], simp add: runs_partial,
      rule runs_bind [where P = "\<lambda>_. True"], simp add: runs_partial, rule runs_bind [OF insert_value_runs(1) [OF emit_str_wf ok(2)]], assumption, clarify)
    fix n ctx2 cs i d x ctx3
    assume 2: "emit_str z ctx1 ctx2" and cs: "graph_input_values (e_out ctx2) r = Some cs" "position (\<lambda>arg. fiv_name arg = n) cs = Some i"
      and 3: "emit_str z ctx2 ctx3" "gvalue_ok (graph_of ctx3) x"
    have "fst r + i < n_input_values z"
      using position_in_slice [OF cs] emit_str_wf [OF 2] by (simp add: emit_wf_def)
    then show "runs False (Some ((fst r + i, x), ctx3)) ?Q"
      using fin [OF emit_str_trans [OF 2 3(1)] _ 3(2)] by (simp only: runs_Some)
  qed
qed (use emit_str_refl [OF e] in simp)

lemma attach_selection_runs:
  "emit_wf z ctx \<Longrightarrow> selections_ok sg sel \<Longrightarrow>
   runs False (attach_selection sg target sel ctx) (\<lambda>(xs, ctx'). emit_str z ctx ctx' \<and> gselections_ok z (graph_of ctx') xs)"
proof (induction sg target sel ctx rule: attach_selection.induct)
  case (1 sg target ctx)
  then show ?case by (simp add: emit_str_refl gselections_ok_def)
next
  case (2 sg target name args sub rest ctx)
  have ok: "str_ok sg name" "arguments_ok sg args" "selections_ok sg sub" "selections_ok sg rest" using 2(4) by (simp_all add: selections_ok_def)
  show ?case
    unfolding attach_selection.simps
  proof (rule runs_bind_eq [OF emit_insert_string_runs [OF 2(3) ok(1)]], clarify,
      rule runs_bind_eq [where P = "\<lambda>_. True"], simp add: runs_partial, rule runs_bind_eq [where P = "\<lambda>_. True"], simp add: runs_partial,
      rule runs_bind_eq [OF attach_arguments_runs [OF emit_str_wf ok(2)]], assumption, clarify)
    fix n ctx1 f fld as ctx2
    assume n: "emit_insert_string sg name ctx = Some (n, ctx1)" and f: "e_selection_map ctx1 (target, n) = Some f"
      "vec_index (fg_fields (e_out ctx1)) f = Some fld" and a: "attach_arguments sg (ff_arguments fld) args ctx1 = Some (as, ctx2)"
      and s1: "emit_str z ctx ctx1" and s2: "emit_str z ctx1 ctx2" and args: "\<forall>(i, v) \<in> set as. i < n_input_values z \<and> gvalue_ok (graph_of ctx2) v"
    note wf2 = emit_str_wf [OF s2]
    have fl: "f < length (fg_fields (e_out ctx2))" using f(2) s2 by (simp add: vec_index_eq_Some emit_str_def)
    have IH1: "runs False (attach_selection sg (ty_definition (ff_type fld)) sub ctx2) (\<lambda>(xs, ctx'). emit_str z ctx2 ctx' \<and> gselections_ok z (graph_of ctx') xs)"
      using 2(1) [OF n refl f a refl wf2 ok(3)] .
    show "runs False (do { (sub, ctx3) \<leftarrow> attach_selection sg (ty_definition (ff_type fld)) sub ctx2;
        (sels, ctx4) \<leftarrow> attach_selection sg target rest ctx3;
        Some (Fed_Field f as sub # sels, ctx4) }) (\<lambda>(xs, ctx'). emit_str z ctx ctx' \<and> gselections_ok z (graph_of ctx') xs)"
    proof (rule runs_bind_eq [OF IH1], clarify)
      fix ss ctx3 assume a3: "attach_selection sg (ty_definition (ff_type fld)) sub ctx2 = Some (ss, ctx3)"
        and s3: "emit_str z ctx2 ctx3" and ss: "gselections_ok z (graph_of ctx3) ss"
      have IH2: "runs False (attach_selection sg target rest ctx3) (\<lambda>(xs, ctx'). emit_str z ctx3 ctx' \<and> gselections_ok z (graph_of ctx') xs)"
        using 2(2) [OF n refl f a refl a3 refl emit_str_wf [OF s3] ok(4)] .
      show "runs False (do { (sels, ctx4) \<leftarrow> attach_selection sg target rest ctx3; Some (Fed_Field f as ss # sels, ctx4) })
          (\<lambda>(xs, ctx'). emit_str z ctx ctx' \<and> gselections_ok z (graph_of ctx') xs)"
      proof (rule runs_bind [OF IH2], clarify)
        fix xs ctx4 assume s4: "emit_str z ctx3 ctx4" and xs: "gselections_ok z (graph_of ctx4) xs"
        have s24: "emit_str z ctx2 ctx4" by (rule emit_str_trans [OF s3 s4])
        have "gselections_ok z (graph_of ctx4) ss" by (rule gselections_ok_mono [OF emit_str_extends [OF s4] ss])
        moreover have "\<forall>(i, v) \<in> set as. i < n_input_values z \<and> gvalue_ok (graph_of ctx4) v" using args emit_str_mono(2) [OF s24] by fast
        moreover have "f < length (fg_fields (e_out ctx4))" using fl s24 by (simp add: emit_str_def)
        ultimately show "runs False (Some (Fed_Field f as ss # xs, ctx4)) (\<lambda>(xs, ctx'). emit_str z ctx ctx' \<and> gselections_ok z (graph_of ctx') xs)"
          using emit_str_trans [OF emit_str_trans [OF s1 s2] s24] xs by (simp add: gselections_ok_def)
      qed
    qed
  qed
next
  case (3 sg target cond sub rest ctx)
  have ok: "str_ok sg cond" "selections_ok sg sub" "selections_ok sg rest" using 3(4) by (simp_all add: selections_ok_def)
  show ?case
    unfolding attach_selection.simps
  proof (rule runs_bind_eq [OF emit_insert_string_runs [OF 3(3) ok(1)]], clarify, rule runs_bind_eq [where P = "\<lambda>_. True"], simp add: runs_partial)
    fix n ctx1 d
    assume n: "emit_insert_string sg cond ctx = Some (n, ctx1)" and s1: "emit_str z ctx ctx1" and d: "e_definitions ctx1 n = Some d"
    have dok: "gdef_ok (graph_of ctx1) d" using emit_str_wf [OF s1] d by (simp add: emit_wf_def)
    have IH1: "runs False (attach_selection sg d sub ctx1) (\<lambda>(xs, ctx'). emit_str z ctx1 ctx' \<and> gselections_ok z (graph_of ctx') xs)"
      using 3(1) [OF n refl d emit_str_wf [OF s1] ok(2)] .
    show "runs False (do { (ss, ctx2) \<leftarrow> attach_selection sg d sub ctx1; (sels, ctx3) \<leftarrow> attach_selection sg target rest ctx2;
        Some (Fed_InlineFragment d ss # sels, ctx3) }) (\<lambda>(xs, ctx'). emit_str z ctx ctx' \<and> gselections_ok z (graph_of ctx') xs)"
    proof (rule runs_bind_eq [OF IH1], clarify)
      fix ss ctx2 assume a2: "attach_selection sg d sub ctx1 = Some (ss, ctx2)" and s2: "emit_str z ctx1 ctx2" and ss: "gselections_ok z (graph_of ctx2) ss"
      have IH2: "runs False (attach_selection sg target rest ctx2) (\<lambda>(xs, ctx'). emit_str z ctx2 ctx' \<and> gselections_ok z (graph_of ctx') xs)"
        using 3(2) [OF n refl d a2 refl emit_str_wf [OF s2] ok(3)] .
      show "runs False (do { (sels, ctx3) \<leftarrow> attach_selection sg target rest ctx2; Some (Fed_InlineFragment d ss # sels, ctx3) })
          (\<lambda>(xs, ctx'). emit_str z ctx ctx' \<and> gselections_ok z (graph_of ctx') xs)"
      proof (rule runs_bind [OF IH2], clarify)
        fix xs ctx3 assume s3: "emit_str z ctx2 ctx3" and xs: "gselections_ok z (graph_of ctx3) xs"
        have s13: "emit_str z ctx1 ctx3" by (rule emit_str_trans [OF s2 s3])
        show "runs False (Some (Fed_InlineFragment d ss # xs, ctx3)) (\<lambda>(xs, ctx'). emit_str z ctx ctx' \<and> gselections_ok z (graph_of ctx') xs)"
          using gselections_ok_mono [OF emit_str_extends [OF s3] ss] gdef_ok_mono [OF emit_str_extends [OF s13] dok] emit_str_trans [OF s1 s13] xs
          by (simp add: gselections_ok_def)
      qed
    qed
  qed
qed

end
