(* ===== verification/Compose_Steps.thy ===== *)
theory Compose_Steps
  imports Compose_Invariant
begin

text \<open>
  The functions that merge the definitions of the subgraphs are steps of composition: they keep the
  invariant of \<open>Compose_Invariant\<close>, and they return.
\<close>

subsection \<open>Names for messages\<close>

named_theorems walker_runs

lemma def_name_str_runs [walker_runs]: "wf_store sg \<Longrightarrow> def_ok sg d \<Longrightarrow> runs t (def_name_str sg d) (\<lambda>_. True)"
  unfolding def_name_str_def by (rule runs_bind [OF def_name_runs as_str_runs])

lemma def_subgraph_name_runs [walker_runs]: "wf_store sg \<Longrightarrow> def_ok sg d \<Longrightarrow> runs t (def_subgraph_name sg d) (\<lambda>_. True)"
  unfolding def_subgraph_name_def by (rule runs_bind [OF def_subgraph_runs]) (auto simp: subgraph_record_ok_def intro: as_str_runs)

lemma field_name_str_runs [walker_runs]: "wf_store sg \<Longrightarrow> field_ok sg f \<Longrightarrow> runs t (field_name_str sg f) (\<lambda>_. True)"
  unfolding field_name_str_def by (intro as_str_runs field_parts_ok)

lemma argument_parent_definition_runs: "wf_store sg \<Longrightarrow> argument_ok sg a \<Longrightarrow> runs t (argument_parent_definition sg a) (def_ok sg)"
  using argument_parts_ok(5) [of sg a] field_parts_ok(1) [of sg] by (auto simp: argument_parent_definition_def)

lemma argument_subgraph_name_runs [walker_runs]: "wf_store sg \<Longrightarrow> argument_ok sg a \<Longrightarrow> runs t (argument_subgraph_name sg a) (\<lambda>_. True)"
  unfolding argument_subgraph_name_def by (rule runs_bind [OF argument_parent_definition_runs def_subgraph_name_runs])

lemma find_description_runs:
  assumes "wf_store sg" and "\<forall>d \<in> set ds. def_ok sg d"
  shows "runs t (find_description sg ds) (opt_ok (str_ok sg))"
proof -
  have "runs t (find_mapM (def_description sg) ds) (\<lambda>r. \<forall>y. r = Some y \<longrightarrow> str_ok sg y)"
    by (rule runs_find_mapM) (use assms in \<open>auto intro!: runs_mono [OF def_description_runs]\<close>)
  then show ?thesis unfolding find_description_def by (rule runs_mono) (auto simp: opt_ok_def split: option.split)
qed

lemma description_str_runs: "opt_ok (str_ok sg) d \<Longrightarrow> runs t (mapM_option (as_str sg) d) (\<lambda>_. True)"
  by (cases d) (auto simp: as_str_def strings_resolve_def str_ok_def)

lemma sites_runs:
  assumes "wf_store sg" and "\<forall>d \<in> set ds. def_ok sg d"
  shows "runs t (mapM (def_directives sg) ds) (\<lambda>_. True)"
  by (rule runs_mono [OF runs_mapM [where Q = "\<lambda>_ _. True"]]) (use assms in \<open>auto intro!: runs_mono [OF def_directives_runs]\<close>)

subsection \<open>Fields of input objects and interfaces\<close>

text \<open>Reporting an error is a step.\<close>

lemma push_message_runs:
  assumes "ir_wf sg (ctx_ir ctx)" and "runs t msg (\<lambda>_. True)"
  shows "runs t (do { m \<leftarrow> msg; Some (ctx_push_fatal m ctx) }) (str_step sg ctx)"
  by (rule runs_bind [OF assms(2)]) (simp add: ctx_push_fatal_step assms(1))

lemma conflicting_types_message_runs [walker_runs]:
  assumes "wf_store sg" and "field_ok sg f" and "field_ok sg a" and "field_ok sg b"
  shows "runs t (conflicting_types_message sg f a b) (\<lambda>_. True)"
  unfolding conflicting_types_message_def
  by (intro runs_bind [where P = "\<lambda>_. True"] walker_runs type_display_runs field_parts_ok assms) simp_all

lemma conflicting_argument_message_runs [walker_runs]:
  assumes "wf_store sg" and "argument_ok sg a" and "argument_ok sg b" and "str_ok sg p" and "str_ok sg f"
  shows "runs t (conflicting_argument_message sg p f a b) (\<lambda>_. True)"
  unfolding conflicting_argument_message_def
  by (intro runs_bind [where P = "\<lambda>_. True"] walker_runs type_display_runs argument_parts_ok as_str_runs assms) simp_all

lemma fold_types_runs:
  assumes "\<And>a b. type_ok sg a \<Longrightarrow> type_ok sg b \<Longrightarrow> runs t (f a b) (opt_ok (type_ok sg))"
    and "\<forall>x \<in> set xs. type_ok sg (ty x) \<and> p x" and "type_ok sg a_ty" and "p a"
  shows "runs t (fold_types f ty a a_ty xs) (\<lambda>r. case r of Inr x \<Rightarrow> type_ok sg x | Inl (x, y) \<Rightarrow> p x \<and> p y)"
  using assms(2,3)
proof (induction xs arbitrary: a_ty)
  case (Cons b xs)
  have "runs t (f a_ty (ty b)) (opt_ok (type_ok sg))" using Cons.prems by (intro assms(1)) simp_all
  then show ?case using Cons assms(4) by (auto elim!: runs_bind split: option.split)
qed simp

lemma compose_field_types_runs:
  assumes wf: "wf_store sg" and ir: "ir_wf sg (ctx_ir ctx)" and fs: "\<forall>f \<in> set field_list. field_ok sg f"
    and f: "\<And>a b. type_ok sg a \<Longrightarrow> type_ok sg b \<Longrightarrow> runs t (compose_fn a b) (opt_ok (type_ok sg))"
  shows "runs t (compose_field_types sg compose_fn field_list ctx) (\<lambda>(r, ctx'). str_step sg ctx ctx' \<and> opt_ok (type_ok sg) r)"
proof (cases field_list)
  case (Cons first rest)
  have fold: "runs t (fold_types compose_fn field_type first (field_type first) rest)
      (\<lambda>r. case r of Inr x \<Rightarrow> type_ok sg x | Inl (x, y) \<Rightarrow> field_ok sg x \<and> field_ok sg y)"
    using fs field_parts_ok(3) [OF wf] by (intro fold_types_runs [OF f]) (auto simp: Cons)
  have msg: "runs t (do { m \<leftarrow> conflicting_types_message sg first a b; Some (None, ctx_push_fatal m ctx) })
      (\<lambda>(r, ctx'). str_step sg ctx ctx' \<and> opt_ok (type_ok sg) r)" if "field_ok sg a" "field_ok sg b" for a b
    by (rule runs_bind [OF conflicting_types_message_runs [OF wf _ that]]) (use fs in \<open>simp_all add: Cons ctx_push_fatal_step ir\<close>)
  show ?thesis
    unfolding compose_field_types_def Cons list.case
    by (rule runs_bind [OF fold]) (auto split: sum.split intro!: msg simp: str_step_refl ir)
qed (simp add: compose_field_types_def str_step_refl ir)

lemma compose_argument_types_runs:
  assumes wf: "wf_store sg" and ir: "ir_wf sg (ctx_ir ctx)" and args: "\<forall>a \<in> set arguments. argument_ok sg a"
    and names: "str_ok sg p" "str_ok sg f"
  shows "runs t (compose_argument_types sg p f arguments ctx) (\<lambda>(r, ctx'). str_step sg ctx ctx' \<and> opt_ok (type_ok sg) r)"
proof (cases arguments)
  case (Cons first rest)
  have fold: "runs t (fold_types (compose_for_input sg) argument_type first (argument_type first) rest)
      (\<lambda>r. case r of Inr x \<Rightarrow> type_ok sg x | Inl (x, y) \<Rightarrow> argument_ok sg x \<and> argument_ok sg y)"
    using args argument_parts_ok(2) [OF wf] by (intro fold_types_runs [OF compose_for_runs(1) [OF wf]]) (auto simp: Cons)
  have msg: "runs t (do { m \<leftarrow> conflicting_argument_message sg p f a b; Some (None, ctx_push_fatal m ctx) })
      (\<lambda>(r, ctx'). str_step sg ctx ctx' \<and> opt_ok (type_ok sg) r)" if "argument_ok sg a" "argument_ok sg b" for a b
    by (rule runs_bind [OF conflicting_argument_message_runs [OF wf that names]]) (simp add: ctx_push_fatal_step ir)
  show ?thesis
    unfolding compose_argument_types_def Cons list.case
    by (rule runs_bind [OF fold]) (auto split: sum.split intro!: msg simp: str_step_refl ir)
qed (simp add: compose_argument_types_def str_step_refl ir)

lemma compose_output_field_types_runs:
  "wf_store sg \<Longrightarrow> ir_wf sg (ctx_ir ctx) \<Longrightarrow> \<forall>f \<in> set fs. field_ok sg f \<Longrightarrow>
   runs t (compose_output_field_types sg fs ctx) (\<lambda>(r, ctx'). str_step sg ctx ctx' \<and> opt_ok (type_ok sg) r)"
  unfolding compose_output_field_types_def by (intro compose_field_types_runs compose_for_runs)

lemma compose_input_field_types_runs:
  "wf_store sg \<Longrightarrow> ir_wf sg (ctx_ir ctx) \<Longrightarrow> \<forall>f \<in> set fs. field_ok sg f \<Longrightarrow>
   runs t (compose_input_field_types sg fs ctx) (\<lambda>(r, ctx'). str_step sg ctx ctx' \<and> opt_ok (type_ok sg) r)"
  unfolding compose_input_field_types_def by (intro compose_field_types_runs compose_for_runs)

lemma group_slices_runs:
  assumes "sorted (map key xs)" and "I s"
    and "\<And>g s. g \<noteq> [] \<Longrightarrow> set g \<subseteq> set xs \<Longrightarrow> I s \<Longrightarrow> runs t (f g s) I"
  shows "runs t (group_slices key f xs 0 s) I"
  unfolding group_slices_eq [OF assms(1)] drop_0
proof (rule runs_foldM [where I = I, OF assms(2)])
  fix g s assume "g \<in> set (group_by_key key xs)" and "I s"
  then show "runs t (f g s) I"
    by (auto dest!: group_by_key_groups intro!: assms(3) simp: filter_empty_conv)
qed

lemma all_fields_by_name_ok: "(n, f) \<in> set (all_fields_by_name sg ds) \<Longrightarrow> field_ok sg f \<and> n = field_name f"
  by (auto simp: all_fields_by_name_def intro: def_fields_ok)

lemma all_fields_by_name_sorted: "sorted (map fst (all_fields_by_name sg ds))"
  by (simp add: all_fields_by_name_def)

text \<open>The counters of input values: the values inserted so far, and the range that denotes them.\<close>

definition args_state :: "Subgraphs \<Rightarrow> Context \<Rightarrow> (nat \<times> nat) option \<times> Context \<Rightarrow> bool" where
  "args_state sg ctx st \<longleftrightarrow> ctx_step sg ctx (snd st) \<and>
     (\<exists>xs. ir_input_value_definitions (ctx_ir (snd st)) = ir_input_value_definitions (ctx_ir ctx) @ xs
       \<and> fst st = (if xs = [] then None else Some (length (ir_input_value_definitions (ctx_ir ctx)), length xs)))"

lemma args_state_init: "ir_wf sg (ctx_ir ctx) \<Longrightarrow> args_state sg ctx (None, ctx)"
  by (simp add: args_state_def ctx_step_refl)

lemma args_state_wf: "args_state sg ctx (ids, ctx1) \<Longrightarrow> ir_wf sg (ctx_ir ctx1)"
  by (auto simp: args_state_def intro: ctx_step_wf)

lemma args_state_elim:
  assumes "args_state sg ctx (ids, ctx1)"
  obtains xs where "ir_input_value_definitions (ctx_ir ctx1) = ir_input_value_definitions (ctx_ir ctx) @ xs"
    "ids = (if xs = [] then None else Some (length (ir_input_value_definitions (ctx_ir ctx)), length xs))" "ctx_step sg ctx ctx1"
  using assms that unfolding args_state_def fst_conv snd_conv by blast

lemma args_stateI:
  assumes "ctx_step sg ctx ctx1" and "ir_input_value_definitions (ctx_ir ctx1) = ir_input_value_definitions (ctx_ir ctx) @ xs"
    and "ids = (if xs = [] then None else Some (length (ir_input_value_definitions (ctx_ir ctx)), length xs))"
  shows "args_state sg ctx (ids, ctx1)"
  unfolding args_state_def fst_conv snd_conv using assms by blast

lemma args_state_dir:
  assumes "args_state sg ctx (ids, ctx1)" and d: "dir_step sg ctx1 ctx2"
  shows "args_state sg ctx (ids, ctx2)"
proof -
  obtain xs where xs: "ir_input_value_definitions (ctx_ir ctx1) = ir_input_value_definitions (ctx_ir ctx) @ xs"
    "ids = (if xs = [] then None else Some (length (ir_input_value_definitions (ctx_ir ctx)), length xs))" "ctx_step sg ctx ctx1"
    using assms(1) by (rule args_state_elim)
  have "ir_input_value_definitions (ctx_ir ctx2) = ir_input_value_definitions (ctx_ir ctx) @ xs"
    using tables_eq(1) [OF conjunct2 [OF d [unfolded dir_step_def]]] xs(1) by simp
  then show ?thesis by (rule args_stateI [OF ctx_step_trans [OF xs(3) dir_step_ctx [OF d]] _ xs(2)])
qed

lemma args_state_push:
  assumes st: "args_state sg ctx (ids, ctx1)" and x: "item_ok sg (ctx_ir ctx1) (Item_InputValue x)"
    and i: "insert_input_value_definition x ctx1 = (i, ctx2)"
  shows "args_state sg ctx (count_id i ids, ctx2)"
proof -
  note s = insert_input_value_definition_step [OF args_state_wf [OF st] x i]
  obtain xs where xs: "ir_input_value_definitions (ctx_ir ctx1) = ir_input_value_definitions (ctx_ir ctx) @ xs"
    "ids = (if xs = [] then None else Some (length (ir_input_value_definitions (ctx_ir ctx)), length xs))" "ctx_step sg ctx ctx1"
    using st by (rule args_state_elim)
  have "ctx_step sg ctx ctx2" by (rule ctx_step_trans [OF xs(3) s(1)])
  moreover have "ir_input_value_definitions (ctx_ir ctx2) = ir_input_value_definitions (ctx_ir ctx) @ (xs @ [x])" using s(2) xs(1) by simp
  moreover have "count_id i ids = Some (length (ir_input_value_definitions (ctx_ir ctx)), length (xs @ [x]))"
    using xs s(3) by (cases "xs = []") simp_all
  ultimately show ?thesis by (intro args_stateI [of _ _ _ "xs @ [x]"]) simp_all
qed

lemma args_state_range:
  assumes "args_state sg ctx (ids, ctx1)"
  shows "ctx_step sg ctx ctx1" and "args_ok (ctx_ir ctx1) (case ids of Some r \<Rightarrow> r | None \<Rightarrow> NO_INPUT_VALUE_DEFINITION)"
proof -
  obtain xs where xs: "ir_input_value_definitions (ctx_ir ctx1) = ir_input_value_definitions (ctx_ir ctx) @ xs"
    "ids = (if xs = [] then None else Some (length (ir_input_value_definitions (ctx_ir ctx)), length xs))" "ctx_step sg ctx ctx1"
    using assms by (rule args_state_elim)
  show "ctx_step sg ctx ctx1" by (rule xs(3))
  show "args_ok (ctx_ir ctx1) (case ids of Some r \<Rightarrow> r | None \<Rightarrow> NO_INPUT_VALUE_DEFINITION)"
    using xs(1,2) by (cases "xs = []") (simp_all add: args_ok_def range_in_def NO_INPUT_VALUE_DEFINITION_def)
qed

lemma required_field_message_runs [walker_runs]:
  "wf_store sg \<Longrightarrow> def_ok sg d \<Longrightarrow> field_ok sg f \<Longrightarrow> runs t (required_field_message sg d f) (\<lambda>_. True)"
  unfolding required_field_message_def
  by (intro runs_bind [where P = "\<lambda>_. True"] walker_runs field_parts_ok) simp_all

lemma find_map_opt_ok: "(\<And>x. x \<in> set xs \<Longrightarrow> opt_ok p (f x)) \<Longrightarrow> opt_ok p (find_map f xs)"
  by (induction xs) (simp, force split: option.split)

lemma insert_input_value_runs:
  assumes st: "args_state sg ctx (ids, ctx1)" and n: "str_ok sg n" and ty: "type_ok sg ty" and "dirs_ok (ctx_ir ctx1) dirs"
    and "opt_ok (fstr_ok (ctx_ir ctx1)) descr" and "opt_ok (value_ok sg) dflt"
  shows "runs t (do {
       (name, ctx2) \<leftarrow> insert_string sg n ctx1;
       let (i, ctx3) = insert_input_value_definition
         \<lparr>iv_name = name, iv_type = ty, iv_directives = dirs, iv_description = descr, iv_default = dflt\<rparr> ctx2;
       Some (count_id i ids, ctx3) }) (args_state sg ctx)"
proof (rule runs_bind [OF insert_string_runs [OF args_state_wf [OF st] n]], clarify)
  fix name ctx2 assume 2: "str_step sg ctx1 ctx2" "fstr_ok (ctx_ir ctx2) name"
  let ?x = "\<lparr>iv_name = name, iv_type = ty, iv_directives = dirs, iv_description = descr, iv_default = dflt\<rparr>"
  have x: "item_ok sg (ctx_ir ctx2) (Item_InputValue ?x)"
    using assms(3-6) 2(2) ir_mono [OF str_step_extends [OF 2(1)]] by simp
  show "runs t (let (i, ctx3) = insert_input_value_definition ?x ctx2 in Some (count_id i ids, ctx3)) (args_state sg ctx)"
    using args_state_push [OF args_state_dir [OF st str_step_dir [OF 2(1)]] x] by (auto split: prod.split)
qed
lemma missing_input_field_runs:
  assumes wf: "wf_store sg" and st: "args_state sg ctx (ids, ctx1)" and d: "def_ok sg first"
    and g: "\<forall>(n, f) \<in> set grp. field_ok sg f \<and> n = field_name f"
  shows "runs t (do {
       required \<leftarrow> findM (\<lambda>(_, field). type_is_required sg (field_type field)) grp;
       (case required of
          Some (_, required_field) \<Rightarrow> do { m \<leftarrow> required_field_message sg first required_field; Some (ids, ctx_push_fatal m ctx1) }
        | None \<Rightarrow> Some (ids, ctx1)) }) (args_state sg ctx)"
proof (rule runs_bind [OF runs_findM])
  show "runs t (case x of (_, field) \<Rightarrow> type_is_required sg (field_type field)) (\<lambda>_. True)" if "x \<in> set grp" for x
    using that g field_parts_ok(3) [OF wf] by (auto intro!: type_is_required_runs [OF wf] split: prod.split)
  fix r assume r: "\<forall>x. r = Some x \<longrightarrow> x \<in> set grp"
  show "runs t (case r of Some (_, required_field) \<Rightarrow> do { m \<leftarrow> required_field_message sg first required_field; Some (ids, ctx_push_fatal m ctx1) }
      | None \<Rightarrow> Some (ids, ctx1)) (args_state sg ctx)"
    using r g st args_state_dir [OF st str_step_dir [OF ctx_push_fatal_step [OF args_state_wf [OF st]]]]
    by (auto split: option.split intro!: runs_bind [OF required_field_message_runs [OF wf d]])
qed

lemma merge_input_field_runs:
  assumes wf: "wf_store sg" and st: "args_state sg ctx (ids, ctx0)" and d: "def_ok sg first"
    and g: "grp \<noteq> []" "\<forall>(n, f) \<in> set grp. field_ok sg f \<and> n = field_name f"
  shows "runs t (merge_input_field sg first intersection grp (ids, ctx0)) (args_state sg ctx)"
proof -
  obtain fname f rest where grp: "grp = (fname, f) # rest" using g(1) by (cases grp) auto
  have first: "vec_index grp 0 = Some (fname, f)" by (simp add: grp)
  have fname: "str_ok sg fname" using g(2) field_parts_ok(2) [OF wf, of f] by (auto simp: grp)
  have snds: "\<forall>f \<in> set (map snd grp). field_ok sg f" using g(2) by auto
  have descr: "opt_ok (str_ok sg) (find_map (\<lambda>(_, field). field_description field) grp)"
    using g(2) field_parts_ok(4) [OF wf] by (intro find_map_opt_ok) auto
  have dflt: "opt_ok (value_ok sg) (find_map (\<lambda>(_, field). default_value sg field) grp)"
    using g(2) field_parts_ok(6) [OF wf] by (intro find_map_opt_ok) auto
  have merged: "runs t (do {
       (composed_directives, ctx1) \<leftarrow> collect_composed_directives sg (map (\<lambda>(_, field). field_directives field) grp) ctx0;
       (description, ctx2) \<leftarrow> insert_string_option sg (find_map (\<lambda>(_, field). field_description field) grp) ctx1;
       (ty, ctx3) \<leftarrow> compose_input_field_types sg (map snd grp) ctx2;
       (case ty of
          None \<Rightarrow> Some (ids, ctx3)
        | Some fty \<Rightarrow> do {
            (name, ctx4) \<leftarrow> insert_string sg fname ctx3;
            let (i, ctx5) = insert_input_value_definition
              \<lparr>iv_name = name, iv_type = fty, iv_directives = composed_directives, iv_description = description,
               iv_default = find_map (\<lambda>(_, field). default_value sg field) grp\<rparr> ctx4;
            Some (count_id i ids, ctx5) }) }) (args_state sg ctx)"
  proof (rule runs_bind [OF collected_runs [OF wf args_state_wf [OF st]]], clarify,
      rule runs_bind [OF insert_string_option_runs [OF dir_step_wf descr]], assumption, clarify,
      rule runs_bind [OF compose_input_field_types_runs [OF wf str_step_wf snds]], assumption, clarify, rule runs_case_option)
    fix a b ctx1 ds ctx2 r ctx3
    assume 1: "dir_step sg ctx0 ctx1" "dirs_ok (ctx_ir ctx1) (a, b)" and 2: "str_step sg ctx1 ctx2" "opt_ok (fstr_ok (ctx_ir ctx2)) ds"
      and 3: "str_step sg ctx2 ctx3" "opt_ok (type_ok sg) r"
    have s3: "args_state sg ctx (ids, ctx3)"
      by (rule args_state_dir [OF args_state_dir [OF args_state_dir [OF st 1(1)] str_step_dir [OF 2(1)]] str_step_dir [OF 3(1)]])
    show "runs t (Some (ids, ctx3)) (args_state sg ctx)" using s3 by simp
    note e23 = str_step_extends [OF 3(1)] and e13 = ir_extends_trans [OF str_step_extends [OF 2(1)] str_step_extends [OF 3(1)]]
    show "runs t (do {
            (name, ctx4) \<leftarrow> insert_string sg fname ctx3;
            let (i, ctx5) = insert_input_value_definition
              \<lparr>iv_name = name, iv_type = fty, iv_directives = (a, b), iv_description = ds,
               iv_default = find_map (\<lambda>(_, field). default_value sg field) grp\<rparr> ctx4;
            Some (count_id i ids, ctx5) }) (args_state sg ctx)" if "r = Some fty" for fty
      using that 3(2) by (intro insert_input_value_runs [OF s3 fname _ dirs_ok_mono [OF e13 1(2)] opt_fstr_ok_mono [OF e23 2(2)] dflt]) simp
  qed
  show ?thesis
    using missing_input_field_runs [OF wf st d g(2)] merged by (simp add: merge_input_field_def first)
qed

lemma intersection_of_runs:
  assumes "names \<noteq> [] \<longrightarrow> xs \<noteq> []"
  shows "runs t (intersection_of names has xs) (\<lambda>_. True)"
proof -
  have "runs t (filterM (\<lambda>name. map_option (list_all (\<lambda>item. has item name)) (slice_from_1 xs)) names) (\<lambda>_. True)"
    using assms by (cases "names = []") (auto intro!: runs_mono [OF runs_filterM] simp: slice_from_1_def)
  then show ?thesis unfolding intersection_of_def by (rule runs_map_option)
qed

lemma merge_input_object_definitions_runs:
  assumes wf: "wf_store sg" and ir: "ir_wf sg (ctx_ir ctx)" and ds: "\<forall>d \<in> set ds. def_ok sg d" and first: "first \<in> set ds"
  shows "runs t (merge_input_object_definitions sg first ds ctx) (ctx_step sg ctx)"
proof -
  have d: "def_ok sg first" and ne: "ds \<noteq> []" using ds first by auto
  let ?fields = "all_fields_by_name sg ds"
  have groups: "runs t (group_slices fst (merge_input_field sg first i) ?fields 0 (None, ctx2)) (args_state sg ctx2)"
    if "ir_wf sg (ctx_ir ctx2)" for i ctx2
  proof (rule group_slices_runs [OF all_fields_by_name_sorted])
    show "args_state sg ctx2 (None, ctx2)" by (rule args_state_init [OF that])
    fix g st assume "g \<noteq> []" "set g \<subseteq> set ?fields" "args_state sg ctx2 st"
    then show "runs t (merge_input_field sg first i g st) (args_state sg ctx2)"
      using all_fields_by_name_ok by (cases st) (auto intro!: merge_input_field_runs [OF wf _ d])
  qed
  show ?thesis
    unfolding merge_input_object_definitions_def
  proof (rule runs_bind [OF find_description_runs [OF wf ds]], rule runs_bind [OF description_str_runs], assumption,
      rule runs_bind [OF sites_runs [OF wf ds]], rule runs_bind [OF collected_runs [OF wf ir]], clarify,
      rule runs_bind [OF def_name_runs [OF wf d]], rule runs_bind [OF insert_string_runs [OF dir_step_wf]], assumption, assumption,
      clarify, rule runs_bind [OF intersection_of_runs], simp add: ne, rule runs_bind [OF groups [OF str_step_wf]], assumption, clarify)
    fix descr a b ctx1 n ctx2 ids ctx3
    assume 1: "dir_step sg ctx ctx1" "dirs_ok (ctx_ir ctx1) (a, b)" and 2: "str_step sg ctx1 ctx2" "fstr_ok (ctx_ir ctx2) n"
      and 3: "args_state sg ctx2 (ids, ctx3)"
    note s3 = args_state_range [OF 3]
    have e: "ir_extends (ctx_ir ctx1) (ctx_ir ctx3)" "ir_extends (ctx_ir ctx2) (ctx_ir ctx3)"
      using str_step_extends [OF 2(1)] ctx_step_extends [OF s3(1)] ir_extends_trans by blast+
    have "ctx_step sg ctx ctx3" by (rule ctx_step_trans [OF dir_step_ctx [OF 1(1)] ctx_step_trans [OF str_step_ctx [OF 2(1)] s3(1)]])
    moreover have "ctx_step sg ctx3 (snd (insert_input_object n descr (a, b) (case ids of Some r \<Rightarrow> r | None \<Rightarrow> NO_INPUT_VALUE_DEFINITION) ctx3))"
      by (rule insert_input_object_step [OF ctx_step_wf [OF s3(1)] fstr_ok_mono [OF e(2) 2(2)] dirs_ok_mono [OF e(1) 1(2)] s3(2)])
    ultimately show "runs t (let field_range = (case ids of Some r \<Rightarrow> r | None \<Rightarrow> NO_INPUT_VALUE_DEFINITION)
        in Some (snd (insert_input_object n descr (a, b) field_range ctx3))) (ctx_step sg ctx)"
      unfolding Let_def runs_Some by (rule ctx_step_trans)
  qed
qed

subsection \<open>Interfaces\<close>

lemma shareable_interface_field_message_runs [walker_runs]:
  "wf_store sg \<Longrightarrow> def_ok sg d \<Longrightarrow> field_ok sg f \<Longrightarrow> runs t (shareable_interface_field_message sg d f) (\<lambda>_. True)"
  unfolding shareable_interface_field_message_def by (intro runs_bind [where P = "\<lambda>_. True"] walker_runs) simp_all

lemma push_message_if_runs:
  assumes "ir_wf sg (ctx_ir ctx)" and "b \<Longrightarrow> runs t msg (\<lambda>_. True)"
  shows "runs t (if b then do { m \<leftarrow> msg; Some (ctx_push_fatal m ctx) } else Some ctx) (str_step sg ctx)"
  using push_message_runs [OF assms(1)] assms(2) str_step_refl [OF assms(1)] by simp

lemma field_id_ok_field: "field_ok sg f \<Longrightarrow> field_id_ok sg (fst f)"
  by (simp add: field_ok_def field_id_ok_def)

lemma merge_interface_field_runs:
  assumes wf: "wf_store sg" and ir: "ir_wf sg (ctx_ir ctx)" and d: "def_ok sg first" and i: "fdef_ok (ctx_ir ctx) (Fed_Interface iface)"
    and g: "grp \<noteq> []" "\<forall>(n, f) \<in> set grp. field_ok sg f"
  shows "runs t (merge_interface_field sg first iface grp ctx) (ctx_step sg ctx)"
proof -
  obtain n f rest where grp: "grp = (n, f) # rest" using g(1) by (cases grp) auto
  have first: "vec_index grp 0 = Some (n, f)" by (simp add: grp)
  have f: "field_ok sg f" using g(2) by (auto simp: grp)
  have snds: "\<forall>f \<in> set (map snd grp). field_ok sg f" using g(2) by auto
  show ?thesis
    unfolding merge_interface_field_def first bind.bind_lunit prod.case
  proof (rule runs_bind [OF insert_string_option_runs [OF ir field_parts_ok(4) [OF wf f]]], clarify,
      rule runs_bind [OF push_message_if_runs [OF str_step_wf shareable_interface_field_message_runs [OF wf d f]]], assumption,
      rule runs_bind [OF collected_runs [OF wf str_step_wf]], assumption, clarify,
      rule runs_bind [OF compose_output_field_types_runs [OF wf dir_step_wf snds]], assumption, clarify, rule runs_case_option)
    fix ds ctx1 ctx2 a b ctx3 r ctx4
    assume 1: "str_step sg ctx ctx1" "opt_ok (fstr_ok (ctx_ir ctx1)) ds" and 2: "str_step sg ctx1 ctx2"
      and 3: "dir_step sg ctx2 ctx3" "dirs_ok (ctx_ir ctx3) (a, b)" and 4: "str_step sg ctx3 ctx4" "opt_ok (type_ok sg) r"
    have s14: "dir_step sg ctx1 ctx4" by (rule dir_step_trans [OF str_step_dir [OF 2] dir_step_trans [OF 3(1) str_step_dir [OF 4(1)]]])
    have s04: "ctx_step sg ctx ctx4" by (rule ctx_step_trans [OF str_step_ctx [OF 1(1)] dir_step_ctx [OF s14]])
    then show "runs t (Some ctx4) (ctx_step sg ctx)" by simp
    fix fty assume r: "r = Some fty"
    define x where "x = \<lparr>f_parent_definition = Fed_Interface iface, f_field_name = field_name f,
             f_field_type = fty, f_arguments = NO_INPUT_VALUE_DEFINITION, f_resolvable_in = [],
             f_provides = [], f_requires = [],
             f_authorized_directives =
               map (\<lambda>(_, f). fst f) (filter (\<lambda>(_, f). authorized sg (field_directives f) \<noteq> None) grp),
             f_overrides = [], f_composed_directives = (a, b), f_description = ds\<rparr>"
    have ids: "\<forall>y \<in> set (map (\<lambda>(_, f). fst f) (filter (\<lambda>(_, f). authorized sg (field_directives f) \<noteq> None) grp)). field_id_ok sg y"
      using g(2) field_id_ok_field by auto
    have "field_ir_ok sg (ctx_ir ctx4) x"
      using fdef_ok_mono [OF ctx_step_extends [OF s04] i] field_parts_ok(2) [OF wf f] 4(2) r ids
        dirs_ok_mono [OF str_step_extends [OF 4(1)] 3(2)] opt_fstr_ok_mono [OF dir_step_extends [OF s14] 1(2)]
      by (simp add: x_def field_ir_ok_def args_ok_def range_in_def NO_INPUT_VALUE_DEFINITION_def)
    then have "ctx_step sg ctx4 (snd (insert_field x ctx4))"
      using insert_field_step [OF ctx_step_wf [OF s04]] by (cases "insert_field x ctx4") simp
    then have "ctx_step sg ctx (snd (insert_field x ctx4))" by (rule ctx_step_trans [OF s04])
    then show "runs t (Some (snd (insert_field
            \<lparr>f_parent_definition = Fed_Interface iface, f_field_name = field_name f,
             f_field_type = fty, f_arguments = NO_INPUT_VALUE_DEFINITION, f_resolvable_in = [],
             f_provides = [], f_requires = [],
             f_authorized_directives =
               map (\<lambda>(_, f). fst f) (filter (\<lambda>(_, f). authorized sg (field_directives f) \<noteq> None) grp),
             f_overrides = [], f_composed_directives = (a, b), f_description = ds\<rparr> ctx4))) (ctx_step sg ctx)"
      by (simp add: x_def)
  qed
qed

lemma check_implementers_runs:
  assumes ir: "ir_wf sg (ctx_ir ctx)" and wf: "wf_store sg" and "str_ok sg n" and "\<forall>f \<in> set names. str_ok sg f"
  shows "runs t (check_implementers sg n names ctx) (str_step sg ctx)"
proof -
  have impl: "str_ok sg i" if "i \<in> set (iter_implementers_for_interface sg n)" for i
    using that wf by (auto simp: iter_implementers_for_interface_def bs_range_def wf_store_def definitions_ok_def)
  have msg: "runs t (missing_implementation_message sg n f i) (\<lambda>_. True)" if "f \<in> set names" "i \<in> set (iter_implementers_for_interface sg n)" for f i
    unfolding missing_implementation_message_def using that assms(3,4) impl by (intro runs_bind [OF as_str_runs]) simp_all
  show ?thesis
    unfolding check_implementers_def
    by (rule runs_foldM_rel [where R = "str_step sg", OF str_step_refl [OF ir] str_step_trans], assumption+,
        rule runs_foldM_rel [where R = "str_step sg", OF str_step_refl [OF str_step_wf] str_step_trans], assumption+,
        rule push_message_if_runs [OF str_step_wf], assumption, rule msg)
qed

lemma insert_interface_authorizations_step:
  assumes "ir_wf sg (ctx_ir ctx)" and "fdef_ok (ctx_ir ctx) (Fed_Interface i)"
  shows "ctx_step sg ctx (insert_interface_authorizations sg i sites ctx)"
proof -
  have "ctx_step sg ctx (fold (insert_interface_authorized i) xs ctx)" if "\<forall>x \<in> set xs. authorized sg x \<noteq> None" for xs
    using assms that
  proof (induction xs arbitrary: ctx)
    case (Cons x xs)
    have s: "ctx_step sg ctx (insert_interface_authorized i x ctx)" using Cons.prems by (intro insert_authorized_steps) simp_all
    have "ctx_step sg (insert_interface_authorized i x ctx) (fold (insert_interface_authorized i) xs (insert_interface_authorized i x ctx))"
      using Cons.prems by (intro Cons.IH ctx_step_wf [OF s] fdef_ok_mono [OF ctx_step_extends [OF s]]) simp_all
    then show ?case using ctx_step_trans [OF s] by simp
  qed (simp add: ctx_step_refl)
  then show ?thesis by (simp add: insert_interface_authorizations_def)
qed

lemma insert_first_name_runs:
  assumes "wf_store sg" and "ir_wf sg (ctx_ir ctx)" and "def_ok sg d"
    and "\<And>n i ctx'. str_ok sg n \<Longrightarrow> str_step sg ctx ctx' \<Longrightarrow> fstr_ok (ctx_ir ctx') i \<Longrightarrow> runs t (k n i ctx') Q"
  shows "runs t (do { name \<leftarrow> def_name sg d; (i, ctx') \<leftarrow> insert_string sg name ctx; k name i ctx' }) Q"
  by (rule runs_bind [OF def_name_runs [OF assms(1,3)]], rule runs_bind [OF insert_string_runs [OF assms(2)]], assumption)
    (auto intro: assms(4))

lemma merge_interface_definitions_runs:
  assumes wf: "wf_store sg" and ir: "ir_wf sg (ctx_ir ctx)" and ds: "\<forall>d \<in> set ds. def_ok sg d" and first: "first \<in> set ds"
  shows "runs t (merge_interface_definitions sg first ds ctx) (ctx_step sg ctx)"
proof -
  have d: "def_ok sg first" using ds first by auto
  let ?fields = "all_fields_by_name sg ds"
  have names: "\<forall>f \<in> set (map fst (dedup_by (\<lambda>a b. fst a = fst b) ?fields)). str_ok sg f"
    using set_dedup_by_subset [of "\<lambda>a b. fst a = fst b" ?fields] all_fields_by_name_ok field_parts_ok(2) [OF wf] by fastforce
  have groups: "runs t (group_slices fst (merge_interface_field sg first i) ?fields 0 ctx4) (ctx_step sg ctx4)"
    if "ir_wf sg (ctx_ir ctx4)" "fdef_ok (ctx_ir ctx4) (Fed_Interface i)" for i ctx4
  proof (rule group_slices_runs [OF all_fields_by_name_sorted])
    show "ctx_step sg ctx4 ctx4" by (rule ctx_step_refl [OF that(1)])
    fix g ctx5 assume "g \<noteq> []" "set g \<subseteq> set ?fields" and s: "ctx_step sg ctx4 ctx5"
    then show "runs t (merge_interface_field sg first i g ctx5) (ctx_step sg ctx4)"
      using all_fields_by_name_ok
      by (intro runs_mono [OF merge_interface_field_runs [OF wf ctx_step_wf [OF s] d fdef_ok_mono [OF ctx_step_extends [OF s] that(2)]]
            ctx_step_trans [OF s]]) auto
  qed
  show ?thesis
    unfolding merge_interface_definitions_def
  proof (rule runs_bind [OF sites_runs [OF wf ds]], rule runs_bind [OF collected_runs [OF wf ir]], clarify,
      rule runs_bind [OF find_description_runs [OF wf ds]], rule runs_bind [OF description_str_runs], assumption,
      rule insert_first_name_runs [OF wf dir_step_wf d], assumption)
    fix sites a b ctx1 descr n name ctx2
    assume 1: "dir_step sg ctx ctx1" "dirs_ok (ctx_ir ctx1) (a, b)" and 2: "str_ok sg n" "str_step sg ctx1 ctx2" "fstr_ok (ctx_ir ctx2) name"
    obtain i ctx3 where i: "insert_interface name descr (a, b) ctx2 = (i, ctx3)" by fastforce
    define ctx4 where "ctx4 = insert_interface_authorizations sg i sites ctx3"
    have 3: "ctx_step sg ctx2 ctx3" "fdef_ok (ctx_ir ctx3) (Fed_Interface i)"
      using insert_interface_step [OF str_step_wf [OF 2(2)] 2(3) dirs_ok_mono [OF str_step_extends [OF 2(2)] 1(2)] i] by simp_all
    have 4: "ctx_step sg ctx3 ctx4" unfolding ctx4_def by (rule insert_interface_authorizations_step [OF ctx_step_wf [OF 3(1)] 3(2)])
    have s4: "ctx_step sg ctx ctx4"
      by (rule ctx_step_trans [OF dir_step_ctx [OF 1(1)] ctx_step_trans [OF str_step_ctx [OF 2(2)] ctx_step_trans [OF 3(1) 4]]])
    have "runs t (do { ctx5 \<leftarrow> group_slices fst (merge_interface_field sg first i) ?fields 0 ctx4;
        check_implementers sg n (map fst (dedup_by (\<lambda>a b. fst a = fst b) ?fields)) ctx5 }) (ctx_step sg ctx4)"
      by (rule runs_bind [OF groups [OF ctx_step_wf [OF 4] fdef_ok_mono [OF ctx_step_extends [OF 4] 3(2)]]])
        (rule runs_mono [OF check_implementers_runs [OF ctx_step_wf wf 2(1) names]], assumption, erule ctx_step_trans, erule str_step_ctx)
    then have "runs t (do { ctx5 \<leftarrow> group_slices fst (merge_interface_field sg first i) ?fields 0 ctx4;
        check_implementers sg n (map fst (dedup_by (\<lambda>a b. fst a = fst b) ?fields)) ctx5 }) (ctx_step sg ctx)"
      by (rule runs_mono) (rule ctx_step_trans [OF s4])
    then show "runs t (let (interface_id, ctx3) = insert_interface name descr (a, b) ctx2;
        ctx4 = insert_interface_authorizations sg interface_id sites ctx3; all_fields = ?fields in do {
          ctx5 \<leftarrow> group_slices fst (merge_interface_field sg first interface_id) all_fields 0 ctx4;
          check_implementers sg n (map fst (dedup_by (\<lambda>a b. fst a = fst b) all_fields)) ctx5 }) (ctx_step sg ctx)"
      by (simp add: i ctx4_def Let_def)
  qed
qed

subsection \<open>Scalars\<close>

lemma merge_scalar_definitions_runs:
  assumes wf: "wf_store sg" and ir: "ir_wf sg (ctx_ir ctx)" and ds: "\<forall>d \<in> set ds. def_ok sg d" and first: "first \<in> set ds"
  shows "runs t (merge_scalar_definitions sg first ds ctx) (ctx_step sg ctx)"
proof -
  have d: "def_ok sg first" using ds first by auto
  show ?thesis
    unfolding merge_scalar_definitions_def
    by (rule runs_bind [OF sites_runs [OF wf ds]], rule runs_bind [OF collected_runs [OF wf ir]], clarify,
        rule runs_bind [OF find_description_runs [OF wf ds]], rule runs_bind [OF description_str_runs], assumption,
        rule runs_bind [OF def_name_str_runs [OF wf d]])
      (auto intro: ctx_step_trans dir_step_ctx insert_scalar_step dir_step_wf)
qed
subsection \<open>Enums\<close>

text \<open>Values appended to the enum that was defined last.\<close>

definition enum_push :: "Subgraphs \<Rightarrow> TypeDefinitionId \<Rightarrow> StringId list \<Rightarrow> Context \<Rightarrow> Context \<Rightarrow> bool" where
  "enum_push sg e vs ctx ctx' \<longleftrightarrow> ctx_step sg ctx ctx' \<and> ir_type_definitions (ctx_ir ctx') = ir_type_definitions (ctx_ir ctx)
     \<and> (\<exists>xs. ir_enum_values (ctx_ir ctx') = ir_enum_values (ctx_ir ctx) @ xs \<and> (\<forall>x \<in> set xs. ev_enum_id x = e)
          \<and> map (\<lambda>x. strings_resolve (ir_strings (ctx_ir ctx')) (ev_value x)) xs = map (as_str sg) vs)"

lemma enum_push_Nil: "ir_wf sg (ctx_ir ctx) \<Longrightarrow> enum_push sg e [] ctx ctx"
  by (simp add: enum_push_def ctx_step_refl)

lemma strings_resolve_extends:
  "ir_extends ir ir' \<Longrightarrow> strings_resolve (ir_strings ir) n = Some s \<Longrightarrow> strings_resolve (ir_strings ir') n = Some s"
  by (auto simp: ir_extends_def prefix_def strings_resolve_def vec_index_append)

lemma enum_push_append:
  assumes 1: "enum_push sg e vs ctx ctx1" and 2: "enum_push sg e ws ctx1 ctx2" and "\<forall>v \<in> set vs. str_ok sg v"
  shows "enum_push sg e (vs @ ws) ctx ctx2"
proof -
  obtain xs where xs: "ir_enum_values (ctx_ir ctx1) = ir_enum_values (ctx_ir ctx) @ xs" "\<forall>x \<in> set xs. ev_enum_id x = e"
    "map (\<lambda>x. strings_resolve (ir_strings (ctx_ir ctx1)) (ev_value x)) xs = map (as_str sg) vs"
    using 1 unfolding enum_push_def by blast
  obtain ys where ys: "ir_enum_values (ctx_ir ctx2) = ir_enum_values (ctx_ir ctx1) @ ys" "\<forall>x \<in> set ys. ev_enum_id x = e"
    "map (\<lambda>x. strings_resolve (ir_strings (ctx_ir ctx2)) (ev_value x)) ys = map (as_str sg) ws"
    using 2 unfolding enum_push_def by blast
  have e: "ir_extends (ctx_ir ctx1) (ctx_ir ctx2)" using 2 by (auto simp: enum_push_def intro: ctx_step_extends)
  have "strings_resolve (ir_strings (ctx_ir ctx2)) (ev_value (xs ! i)) = as_str sg (vs ! i)" if i: "i < length xs" for i
  proof -
    have len: "length xs = length vs" using xs(3) by (metis length_map)
    have "strings_resolve (ir_strings (ctx_ir ctx1)) (ev_value (xs ! i)) = as_str sg (vs ! i)"
      using arg_cong [OF xs(3), of "\<lambda>l. l ! i"] i len by simp
    moreover have "as_str sg (vs ! i) \<noteq> None" using assms(3) i len by (simp add: as_str_def strings_resolve_def str_ok_def)
    ultimately show ?thesis using strings_resolve_extends [OF e] by (metis option.exhaust)
  qed
  then have "map (\<lambda>x. strings_resolve (ir_strings (ctx_ir ctx2)) (ev_value x)) xs = map (as_str sg) vs"
    using xs(3) by (metis (mono_tags, lifting) length_map nth_equalityI nth_map)
  moreover have "ctx_step sg ctx ctx2" using 1 2 ctx_step_trans by (auto simp: enum_push_def)
  moreover have "ir_type_definitions (ctx_ir ctx2) = ir_type_definitions (ctx_ir ctx)" using 1 2 by (simp add: enum_push_def)
  ultimately show ?thesis using xs ys by (auto simp: enum_push_def)
qed

lemma insert_merged_value_runs:
  assumes wf: "wf_store sg" and ir: "ir_wf sg (ctx_ir ctx)" and v: "str_ok sg v"
    and e: "typedef_ok (ctx_ir ctx) Kind_Enum e" "length (ir_type_definitions (ctx_ir ctx)) = Suc e"
  shows "runs t (insert_merged_value sg e sites v ctx) (enum_push sg e [v] ctx)"
  unfolding insert_merged_value_def
proof (rule runs_bind [OF collected_runs [OF wf ir]], clarify)
  fix a b ctx1 assume 1: "dir_step sg ctx ctx1" "dirs_ok (ctx_ir ctx1) (a, b)"
  obtain s where s: "as_str sg v = Some s" using v by (auto simp: as_str_def strings_resolve_def str_ok_def)
  obtain i ctx2 where i: "insert_enum_value s None (a, b) e ctx1 = (i, ctx2)" by fastforce
  note t1 = tables_eq [OF conjunct2 [OF 1(1) [unfolded dir_step_def]]]
  have "typedef_ok (ctx_ir ctx1) Kind_Enum e" by (rule typedef_ok_mono [OF dir_step_extends [OF 1(1)] e(1)])
  moreover have "length (ir_type_definitions (ctx_ir ctx1)) = Suc e" using e(2) t1(2) by simp
  ultimately have r: "ctx_step sg ctx1 ctx2" "ir_type_definitions (ctx_ir ctx2) = ir_type_definitions (ctx_ir ctx1)"
    "\<exists>x. ir_enum_values (ctx_ir ctx2) = ir_enum_values (ctx_ir ctx1) @ [x] \<and> ev_enum_id x = e
      \<and> strings_resolve (ir_strings (ctx_ir ctx2)) (ev_value x) = Some s"
    by (rule insert_enum_value_step [OF dir_step_wf [OF 1(1)] 1(2) _ _ i])+
  then obtain x where x: "ir_enum_values (ctx_ir ctx2) = ir_enum_values (ctx_ir ctx) @ [x]" "ev_enum_id x = e"
    "strings_resolve (ir_strings (ctx_ir ctx2)) (ev_value x) = Some s" using t1(3) by auto
  have "enum_push sg e [v] ctx ctx2"
    unfolding enum_push_def using ctx_step_trans [OF dir_step_ctx [OF 1(1)] r(1)] r(2) t1(2) x s by auto
  then show "runs t (do { v \<leftarrow> as_str sg v; Some (snd (insert_enum_value v None (a, b) e ctx1)) }) (enum_push sg e [v] ctx)"
    by (simp add: s i)
qed

lemma insert_merged_values_runs:
  assumes wf: "wf_store sg" and "ir_wf sg (ctx_ir ctx)" and "\<forall>v \<in> set vs. str_ok sg v"
    and "typedef_ok (ctx_ir ctx) Kind_Enum e" and "length (ir_type_definitions (ctx_ir ctx)) = Suc e"
  shows "runs t (foldM (\<lambda>v. insert_merged_value sg e (sites v) v) vs ctx) (enum_push sg e vs ctx)"
  using assms(2-)
proof (induction vs arbitrary: ctx)
  case (Cons v vs)
  show ?case
    unfolding foldM.simps
  proof (rule runs_bind [OF insert_merged_value_runs [OF wf Cons.prems(1) _ Cons.prems(3,4)]])
    show "str_ok sg v" using Cons.prems(2) by simp
    fix ctx1 assume 1: "enum_push sg e [v] ctx ctx1"
    then have s: "ctx_step sg ctx ctx1" "ir_type_definitions (ctx_ir ctx1) = ir_type_definitions (ctx_ir ctx)" by (simp_all add: enum_push_def)
    have "runs t (foldM (\<lambda>v. insert_merged_value sg e (sites v) v) vs ctx1) (enum_push sg e vs ctx1)"
      using Cons.prems s by (intro Cons.IH ctx_step_wf [OF s(1)] typedef_ok_mono [OF ctx_step_extends [OF s(1)]]) simp_all
    then show "runs t (foldM (\<lambda>v. insert_merged_value sg e (sites v) v) vs ctx1) (enum_push sg e (v # vs) ctx)"
      by (rule runs_mono) (use enum_push_append [OF 1] Cons.prems(2) in simp)
  qed
qed (simp add: enum_push_Nil)

lemma value_names_ok: "wf_store sg \<Longrightarrow> v \<in> set (value_names sg d) \<Longrightarrow> str_ok sg v"
  by (auto simp: value_names_def enum_values_def bt_range_def wf_store_def enums_ok_def)

lemma merge_intersection_runs:
  assumes wf: "wf_store sg" and ir: "ir_wf sg (ctx_ir ctx)" and d: "def_ok sg first"
    and e: "typedef_ok (ctx_ir ctx) Kind_Enum e" "length (ir_type_definitions (ctx_ir ctx)) = Suc e"
  shows "runs t (merge_intersection sg first ds e ctx)
    (enum_push sg e (filter (\<lambda>v. \<forall>d \<in> set ds. v \<in> set (value_names sg d)) (value_names sg first)) ctx)"
proof -
  define vs where "vs = filter (\<lambda>v. \<forall>d \<in> set ds. v \<in> set (value_names sg d)) (value_names sg first)"
  have fold: "fold (\<lambda>definition. filter (\<lambda>elem. elem \<in> set (value_names sg definition))) xs ys
      = filter (\<lambda>v. \<forall>d \<in> set xs. v \<in> set (value_names sg d)) ys" for xs ys
    by (induction xs arbitrary: ys) (auto simp: conj_commute)
  have vs: "\<forall>v \<in> set vs. str_ok sg v" using value_names_ok [OF wf] by (auto simp: vs_def)
  have push: "runs t (foldM (\<lambda>value. insert_merged_value sg e (value_sites sg ds value) value) vs ctx1) (enum_push sg e vs ctx)"
    if "str_step sg ctx ctx1" for ctx1
  proof -
    note t1 = tables_eq [OF conjunct2 [OF str_step_dir [OF that, unfolded dir_step_def]]]
    have 1: "enum_push sg e [] ctx ctx1" using str_step_ctx [OF that] t1 by (simp add: enum_push_def)
    have "runs t (foldM (\<lambda>value. insert_merged_value sg e (value_sites sg ds value) value) vs ctx1) (enum_push sg e vs ctx1)"
      using e t1 by (intro insert_merged_values_runs [OF wf str_step_wf [OF that] vs] typedef_ok_mono [OF str_step_extends [OF that]]) simp_all
    then show ?thesis by (rule runs_mono) (use enum_push_append [OF 1] in simp)
  qed
  have "runs t (if vs = [] then do { name \<leftarrow> def_name_str sg first;
      Some (ctx_push_fatal (''Values for enum '' @ name @ '' are empty (intersection)'') ctx) } else Some ctx) (str_step sg ctx)"
    by (auto intro!: runs_bind [OF def_name_str_runs [OF wf d]] simp: ctx_push_fatal_step str_step_refl ir)
  then show ?thesis
    unfolding merge_intersection_def Let_def fold vs_def [symmetric] by (rule runs_bind) (rule push)
qed

lemma is_slice_match_eq:
  "i \<le> length xs \<Longrightarrow> is_slice_match xs i ys =
     (if strict_prefix (drop i xs) ys then None else Some (ys = drop i xs))"
proof (induction ys arbitrary: i)
  case (Cons y ys)
  show ?case
  proof (cases "i < length xs")
    case True
    have "drop i xs = xs ! i # drop (Suc i) xs" using True by (simp add: Cons_nth_drop_Suc)
    then show ?thesis using Cons.IH [of "Suc i"] True by auto
  qed (use Cons.prems in \<open>simp add: vec_index_def\<close>)
qed auto

lemma merge_exactly_matching_runs:
  assumes wf: "wf_store sg" and ir: "ir_wf sg (ctx_ir ctx)" and d: "def_ok sg first"
    and e: "typedef_ok (ctx_ir ctx) Kind_Enum e" "length (ir_type_definitions (ctx_ir ctx)) = Suc e"
    and t: "t \<Longrightarrow> \<forall>d \<in> set ds. \<not> strict_prefix (value_names sg first) (value_names sg d)"
  shows "runs t (merge_exactly_matching sg first ds e ctx)
    (\<lambda>ctx'. if \<forall>d \<in> set ds. value_names sg d = value_names sg first then enum_push sg e (value_names sg first) ctx ctx'
      else str_step sg ctx ctx' \<and> ctx_diagnostics ctx' \<noteq> ctx_diagnostics ctx)"
proof -
  have 1: "runs t (allM (\<lambda>definition. is_slice_match (value_names sg first) 0 (value_names sg definition)) ds)
      (\<lambda>b. b = (\<forall>d \<in> set ds. value_names sg d = value_names sg first))"
    using t
  proof (induction ds)
    case (Cons a ds)
    then show ?case
      by (cases "strict_prefix (value_names sg first) (value_names sg a)") (auto simp: is_slice_match_eq intro: runs_mono)
  qed simp
  have 2: "runs t (do { name \<leftarrow> def_name_str sg first;
        Some (ctx_push_fatal (''The enum '' @ name @ '' should match exactly in all subgraphs, but it does not'') ctx) })
      (\<lambda>ctx'. str_step sg ctx ctx' \<and> ctx_diagnostics ctx' \<noteq> ctx_diagnostics ctx)"
    by (rule runs_bind [OF def_name_str_runs [OF wf d]]) (simp add: ctx_push_fatal_step ir, simp add: ctx_push_fatal_def push_fatal_def)
  have 3: "runs t (foldM (\<lambda>v. insert_merged_value sg e (value_sites sg ds v) v) (value_names sg first) ctx) (enum_push sg e (value_names sg first) ctx)"
    by (rule insert_merged_values_runs [OF wf ir _ e]) (use value_names_ok [OF wf] in blast)
  show ?thesis
    unfolding merge_exactly_matching_def Let_def
    apply (rule runs_bind [OF 1], hypsubst, rule runs_if)
     apply (subst if_not_P, assumption)
     apply (rule 2)
    apply (subst if_P, erule notnotD)
    apply (rule 3)
    done
qed


definition union_values :: "Subgraphs \<Rightarrow> DefinitionId list \<Rightarrow> StringId list" where
  "union_values sg ds = sorted_list_of_set (\<Union>d \<in> set ds. set (value_names sg d))"

lemma merge_union_runs:
  assumes wf: "wf_store sg" and ir: "ir_wf sg (ctx_ir ctx)"
    and e: "typedef_ok (ctx_ir ctx) Kind_Enum e" "length (ir_type_definitions (ctx_ir ctx)) = Suc e"
  shows "runs t (merge_union sg ds e ctx) (enum_push sg e (union_values sg ds) ctx)"
proof -
  define all_values where "all_values =
    sort (concat (map (\<lambda>def. map (\<lambda>value. (enum_value_name value, enum_value_directives value)) (enum_values sg def)) ds))"
  have sorted: "sorted (map fst all_values)" by (rule sorted_map_fst) (simp add: all_values_def)
  have set: "set (map fst all_values) = (\<Union>d \<in> set ds. set (value_names sg d))"
    by (simp add: all_values_def value_names_def image_UN image_image)
  have keys: "remdups_adj (map fst all_values) = union_values sg ds"
    unfolding union_values_def set [symmetric] using sorted
    by (metis remdups_adj_set sorted_list_of_set.idem_if_sorted_distinct sorted_remdups_adj distinct_remdups_adj_sorted)
  have "merge_union sg ds e ctx =
      foldM (\<lambda>k. insert_merged_value sg e (map snd (filter (\<lambda>x. fst x = k) all_values)) k) (union_values sg ds) ctx"
    unfolding merge_union_def all_values_def [symmetric] Let_def group_slices_eq [OF sorted] drop_0 group_by_key_def keys
  proof (rule foldM_map_cong)
    fix k ctx' assume "k \<in> set (union_values sg ds)"
    then have "k \<in> set (map fst all_values)" unfolding keys [symmetric] by simp
    then obtain x ys where "filter (\<lambda>x. fst x = k) all_values = x # ys" "fst x = k" by (rule filter_key_Cons)
    then show "(vec_index (filter (\<lambda>x. fst x = k) all_values) 0 \<bind>
        (\<lambda>(name, _). insert_merged_value sg e (map snd (filter (\<lambda>x. fst x = k) all_values)) name ctx'))
      = insert_merged_value sg e (map snd (filter (\<lambda>x. fst x = k) all_values)) k ctx'"
      by (cases x) simp
  qed
  moreover have "\<forall>v \<in> set (union_values sg ds). str_ok sg v"
    using value_names_ok [OF wf] unfolding keys [symmetric] remdups_adj_set set by blast
  ultimately show ?thesis using insert_merged_values_runs [OF wf ir _ e] by simp
qed
text \<open>Where an enum is used, read off the tables.\<close>

definition used_in_input :: "Subgraphs \<Rightarrow> StringId \<Rightarrow> bool" where
  "used_in_input sg n \<longleftrightarrow> (\<exists>a \<in> set (iter_all_field_arguments sg). type_name sg (argument_type a) = Some n)
     \<or> (\<exists>f \<in> set (iter_all_fields sg). def_kind sg (parent_definition f) = Some InputObject \<and> type_name sg (field_type f) = Some n)"

definition used_in_output :: "Subgraphs \<Rightarrow> StringId \<Rightarrow> bool" where
  "used_in_output sg n \<longleftrightarrow> (\<exists>f \<in> set (iter_all_fields sg).
     (def_kind sg (parent_definition f) = Some Object \<or> def_kind sg (parent_definition f) = Some Interface) \<and> type_name sg (field_type f) = Some n)"

lemma iter_all_types:
  assumes "wf_store sg"
  shows "a \<in> set (iter_all_field_arguments sg) \<Longrightarrow> \<exists>n. type_name sg (argument_type a) = Some n"
    and "f \<in> set (iter_all_fields sg) \<Longrightarrow> \<exists>n. type_name sg (field_type f) = Some n"
    and "f \<in> set (iter_all_fields sg) \<Longrightarrow> \<exists>k. def_kind sg (parent_definition f) = Some k"
  using type_name_runs [OF assms, where t = True] def_kind_runs [OF assms, where t = True]
    argument_parts_ok(2) [OF assms] field_parts_ok(1,3) [OF assms]
  unfolding iter_all_field_arguments_def iter_all_fields_def argument_ok_def field_ok_def runs_total by blast+

lemma enum_is_used_in_input_eq:
  assumes "wf_store sg" shows "enum_is_used_in_input n sg = Some (used_in_input sg n)"
proof -
  have 1: "anyM (\<lambda>arg. map_option (\<lambda>m. m = n) (type_name sg (argument_type arg))) (iter_all_field_arguments sg)
      = Some (\<exists>a \<in> set (iter_all_field_arguments sg). type_name sg (argument_type a) = Some n)"
    by (rule anyM_pure) (use iter_all_types(1) [OF assms] in force)
  have 2: "anyM (\<lambda>field. do { kind \<leftarrow> def_kind sg (parent_definition field);
        if kind = InputObject then map_option (\<lambda>m. m = n) (type_name sg (field_type field)) else Some False }) (iter_all_fields sg)
      = Some (\<exists>f \<in> set (iter_all_fields sg). def_kind sg (parent_definition f) = Some InputObject \<and> type_name sg (field_type f) = Some n)"
    by (rule anyM_pure) (use iter_all_types(2,3) [OF assms] in force)
  show ?thesis unfolding enum_is_used_in_input_def 1 2 by (simp add: used_in_input_def)
qed

lemma enum_is_used_in_return_position_eq:
  assumes "wf_store sg" shows "enum_is_used_in_return_position n sg = Some (used_in_output sg n)"
  unfolding enum_is_used_in_return_position_def used_in_output_def
  by (rule anyM_pure) (use iter_all_types(2,3) [OF assms] in force)

text \<open>The values the enum of a group of definitions gets.\<close>

definition merged_enum_values :: "Subgraphs \<Rightarrow> DefinitionId \<Rightarrow> DefinitionId list \<Rightarrow> StringId \<Rightarrow> StringId list" where
  "merged_enum_values sg first ds n =
     (if used_in_input sg n \<and> used_in_output sg n
      then if \<forall>d \<in> set ds. value_names sg d = value_names sg first then value_names sg first else []
      else if used_in_input sg n then filter (\<lambda>v. \<forall>d \<in> set ds. v \<in> set (value_names sg d)) (value_names sg first)
      else if used_in_output sg n then union_values sg ds
      else [])"

definition values_pushed :: "Subgraphs \<Rightarrow> StringId list \<Rightarrow> Context \<Rightarrow> Context \<Rightarrow> bool" where
  "values_pushed sg vs ctx ctx' \<longleftrightarrow> (\<exists>e xs. ir_enum_values (ctx_ir ctx') = ir_enum_values (ctx_ir ctx) @ xs
     \<and> (\<forall>x \<in> set xs. ev_enum_id x = e)
     \<and> map (\<lambda>x. strings_resolve (ir_strings (ctx_ir ctx')) (ev_value x)) xs = map (as_str sg) vs)"

lemma insert_enum_values: "insert_enum name descr dirs ctx = (i, ctx') \<Longrightarrow> ir_enum_values (ctx_ir ctx') = ir_enum_values (ctx_ir ctx)"
  by (auto simp: insert_enum_def ir_insert_str_def push_type_definition_def define_name_def Let_def split: prod.splits elim!: ir_insert_option.elims)

lemma enum_push_values:
  "enum_push sg e vs ctx1 ctx2 \<Longrightarrow> ctx_step sg ctx ctx1 \<Longrightarrow> ir_enum_values (ctx_ir ctx1) = ir_enum_values (ctx_ir ctx) \<Longrightarrow>
   ctx_step sg ctx ctx2 \<and> values_pushed sg vs ctx ctx2"
  unfolding enum_push_def values_pushed_def using ctx_step_trans by metis

lemma merge_enum_definitions_runs:
  assumes wf: "wf_store sg" and ir: "ir_wf sg (ctx_ir ctx)" and d: "def_ok sg first" and ds: "\<forall>d \<in> set ds. def_ok sg d"
    and n: "def_name sg first = Some n"
    and t: "t \<Longrightarrow> used_in_input sg n \<Longrightarrow> used_in_output sg n \<Longrightarrow> \<forall>d \<in> set ds. \<not> strict_prefix (value_names sg first) (value_names sg d)"
  shows "runs t (merge_enum_definitions sg first ds ctx)
    (\<lambda>ctx'. ctx_step sg ctx ctx' \<and> values_pushed sg (merged_enum_values sg first ds n) ctx ctx')"
  unfolding merge_enum_definitions_def n bind.simps
proof (rule runs_bind [OF sites_runs [OF wf ds]], rule runs_bind [OF collected_runs [OF wf ir]], clarify,
    rule runs_bind [OF find_description_runs [OF wf ds]], rule runs_bind [OF description_str_runs], assumption,
    unfold enum_is_used_in_input_eq [OF wf] enum_is_used_in_return_position_eq [OF wf] bind.simps)
  fix a b ctx1 descr
  assume 1: "dir_step sg ctx ctx1" "dirs_ok (ctx_ir ctx1) (a, b)"
  have v1: "ir_enum_values (ctx_ir ctx1) = ir_enum_values (ctx_ir ctx)"
    by (rule tables_eq(3) [OF conjunct2 [OF 1(1) [unfolded dir_step_def]]])
  obtain name where name: "as_str sg n = Some name" 
    using def_name_runs [OF wf d, where t = True] n by (auto simp: as_str_def strings_resolve_def str_ok_def)
  obtain e ctx2 where e: "insert_enum name descr (a, b) ctx1 = (e, ctx2)" by fastforce
  note e2 = insert_enum_step [OF dir_step_wf [OF 1(1)] 1(2) e]
  have v2: "ir_enum_values (ctx_ir ctx2) = ir_enum_values (ctx_ir ctx)" using insert_enum_values [OF e] v1 by simp
  have c2: "ctx_step sg ctx ctx2" by (rule ctx_step_trans [OF dir_step_ctx [OF 1(1)] e2(1)])
  note fin = enum_push_values [OF _ c2 v2]
  let ?R = "\<lambda>ctx'. ctx_step sg ctx ctx' \<and> values_pushed sg (merged_enum_values sg first ds n) ctx ctx'"
  note wf2 = wf ctx_step_wf [OF e2(1)]
  have "runs t (merge_exactly_matching sg first ds e ctx2) ?R" if u: "used_in_input sg n" "used_in_output sg n"
  proof (rule runs_mono [OF merge_exactly_matching_runs [OF wf2 d e2(2,3) t [OF _ u]]])
    fix ctx3 assume m: "if \<forall>d \<in> set ds. value_names sg d = value_names sg first then enum_push sg e (value_names sg first) ctx2 ctx3
      else str_step sg ctx2 ctx3 \<and> ctx_diagnostics ctx3 \<noteq> ctx_diagnostics ctx2"
    show "?R ctx3"
    proof (cases "\<forall>d \<in> set ds. value_names sg d = value_names sg first")
      case True
      then have "merged_enum_values sg first ds n = value_names sg first" using u by (simp add: merged_enum_values_def)
      with True m fin show ?thesis by presburger
    next
      case False
      then have "merged_enum_values sg first ds n = []" using u unfolding merged_enum_values_def by presburger
      moreover have s: "str_step sg ctx2 ctx3" using False m by presburger
      moreover have "ir_enum_values (ctx_ir ctx3) = ir_enum_values (ctx_ir ctx)"
        using v2 tables_eq(3) [OF conjunct2 [OF str_step_dir [OF s, unfolded dir_step_def]]] by simp
      ultimately show ?thesis
        using ctx_step_trans [OF c2 str_step_ctx [OF s]] by (simp add: values_pushed_def)
    qed
  qed
  moreover have "runs t (merge_intersection sg first ds e ctx2) ?R" if "used_in_input sg n" "\<not> used_in_output sg n"
    by (rule runs_mono [OF merge_intersection_runs [OF wf2 d e2(2,3)]]) (use fin that in \<open>simp add: merged_enum_values_def\<close>)
  moreover have "runs t (merge_union sg ds e ctx2) ?R" if "\<not> used_in_input sg n" "used_in_output sg n"
    by (rule runs_mono [OF merge_union_runs [OF wf2 e2(2,3)]]) (use fin that in \<open>simp add: merged_enum_values_def\<close>)
  moreover have "?R ctx1" if "\<not> used_in_input sg n" "\<not> used_in_output sg n"
    using that dir_step_ctx [OF 1(1)] v1 by (simp add: merged_enum_values_def values_pushed_def)
  ultimately show "runs t (if \<not> used_in_input sg n \<and> \<not> used_in_output sg n then Some ctx1
      else do { name \<leftarrow> as_str sg n;
        let (enum_id, ctx2) = insert_enum name descr (a, b) ctx1;
        if used_in_input sg n \<and> used_in_output sg n then merge_exactly_matching sg first ds enum_id ctx2
        else if used_in_input sg n then merge_intersection sg first ds enum_id ctx2
        else merge_union sg ds enum_id ctx2 }) ?R"
    by (simp add: name e)
qed

end
