(* ===== verification/Object_Steps.thy ===== *)
theory Object_Steps
  imports Compose_Steps
begin

text \<open>
  The composition of the fields of objects keeps the invariant of the intermediate representation and
  returns: arguments, overrides, the subgraphs a field can be resolved in, and the fields themselves.
\<close>

subsection \<open>Arguments\<close>

definition named_arguments :: "Subgraphs \<Rightarrow> (StringId \<times> FieldArgument) list \<Rightarrow> bool" where
  "named_arguments sg grp \<longleftrightarrow> (\<forall>(n, a) \<in> set grp. argument_ok sg a \<and> n = argument_name a)"

lemma named_argumentsD: "named_arguments sg grp \<Longrightarrow> x \<in> set grp \<Longrightarrow> argument_ok sg (snd x) \<and> fst x = argument_name (snd x)"
  by (auto simp: named_arguments_def)

lemma incompatible_defaults_message_runs [walker_runs]:
  assumes wf: "wf_store sg" and a: "argument_ok sg a" and b: "argument_ok sg b"
  shows "runs t (incompatible_defaults_message sg a b) (\<lambda>_. True)"
proof -
  obtain f where "argument_field_walker sg a = Some f" "field_ok sg f" using argument_parts_ok(5) [OF wf a] by blast
  then have f: "runs t (argument_field_walker sg a) (field_ok sg)" by simp
  show ?thesis
    unfolding incompatible_defaults_message_def
    by (rule runs_bind [OF argument_parent_definition_runs [OF wf a]], rule runs_bind [OF def_name_str_runs [OF wf]], assumption,
        rule runs_bind [OF f], rule runs_bind [OF field_name_str_runs [OF wf]], assumption)
      (intro runs_bind [where P = "\<lambda>_. True"] walker_runs as_str_runs argument_parts_ok assms; simp)
qed

lemma defaults_loop_runs:
  assumes wf: "wf_store sg" and "ir_wf sg (ctx_ir ctx)" and "\<forall>a \<in> set args. argument_ok sg a"
    and "opt_ok (\<lambda>(v, a). value_ok sg v \<and> argument_ok sg a) dflt"
  shows "runs t (defaults_loop sg args dflt ctx)
    (\<lambda>(r, ctx'). str_step sg ctx ctx' \<and> opt_ok (\<lambda>(v, a). value_ok sg v \<and> argument_ok sg a) r)"
  using assms(2-)
proof (induction args arbitrary: dflt ctx)
  case Nil
  then show ?case by (simp add: str_step_refl)
next
  case (Cons a args)
  have dv: "opt_ok (value_ok sg) (argument_default sg a)" using argument_parts_ok(4) [OF wf] Cons.prems(2) by simp
  show ?case
  proof (cases "argument_default sg a")
    case None
    then show ?thesis using Cons by simp
  next
    case v: (Some v)
    show ?thesis
    proof (cases dflt)
      case None
      then show ?thesis using Cons v dv by simp
    next
      case (Some da)
      then obtain d b where d: "dflt = Some (d, b)" by (cases da) simp
      have msg: "runs t (do { m \<leftarrow> incompatible_defaults_message sg a b; defaults_loop sg args dflt (ctx_push_fatal m ctx) })
          (\<lambda>(r, ctx'). str_step sg ctx ctx' \<and> opt_ok (\<lambda>(v, a). value_ok sg v \<and> argument_ok sg a) r)"
      proof (rule runs_bind [OF incompatible_defaults_message_runs [OF wf]])
        fix m
        note p = ctx_push_fatal_step [OF Cons.prems(1), of m]
        show "runs t (defaults_loop sg args dflt (ctx_push_fatal m ctx))
          (\<lambda>(r, ctx'). str_step sg ctx ctx' \<and> opt_ok (\<lambda>(v, a). value_ok sg v \<and> argument_ok sg a) r)"
          using Cons.prems by (intro runs_mono [OF Cons.IH [OF str_step_wf [OF p]]]) (auto intro: str_step_trans [OF p])
      qed (use Cons.prems d in simp_all)
      show ?thesis using Cons v d msg by simp
    qed
  qed
qed

lemma compose_field_argument_defaults_runs:
  assumes wf: "wf_store sg" and ir: "ir_wf sg (ctx_ir ctx)" and g: "named_arguments sg grp"
  shows "runs t (compose_field_argument_defaults sg grp ctx) (\<lambda>(r, ctx'). str_step sg ctx ctx' \<and> opt_ok (value_ok sg) r)"
  unfolding compose_field_argument_defaults_def
  by (rule runs_bind [OF defaults_loop_runs [OF wf ir]]) (use g in \<open>auto simp: named_arguments_def opt_ok_def split: option.split\<close>)

lemma required_argument_error_runs:
  assumes wf: "wf_store sg" and ir: "ir_wf sg (ctx_ir ctx)" and fs: "\<forall>f \<in> set fs. field_ok sg f" and a: "argument_ok sg a"
    and n: "str_ok sg p" "str_ok sg f" "str_ok sg n"
  shows "runs t (required_argument_not_in_intersection_error sg fs a p f n ctx) (str_step sg ctx)"
proof -
  have names: "runs t (mapM (\<lambda>field. def_subgraph_name sg (parent_definition field)) (filter (\<lambda>field. argument_by_name sg field n = None) fs)) (\<lambda>_. True)"
    by (rule runs_mono [OF runs_mapM [where Q = "\<lambda>_ _. True"]]) (use fs in \<open>auto intro!: walker_runs field_parts_ok wf\<close>)
  show ?thesis
    unfolding required_argument_not_in_intersection_error_def
    by (rule runs_bind [OF argument_subgraph_name_runs [OF wf a]], rule runs_bind [OF names])
      (intro runs_bind [where P = "\<lambda>_. True"] as_str_runs n; simp add: ctx_push_fatal_step ir)
qed

lemma type_is_inaccessible_runs:
  assumes wf: "wf_store sg" and ty: "type_ok sg ty"
  shows "runs t (type_is_inaccessible sg ty s) (\<lambda>_. True)"
  unfolding type_is_inaccessible_def
proof (rule runs_bind [OF type_definition_runs [OF wf ty]])
  fix d assume "opt_ok (def_ok sg) d"
  then show "runs t (case d of None \<Rightarrow> Some False | Some def \<Rightarrow> map_option (inaccessible sg) (def_directives sg def)) (\<lambda>_. True)"
    by (cases d) (auto intro!: runs_map_option runs_mono [OF def_directives_runs [OF wf]])
qed

lemma inaccessible_argument_message_runs [walker_runs]:
  "str_ok sg p \<Longrightarrow> str_ok sg f \<Longrightarrow> str_ok sg n \<Longrightarrow> runs t (inaccessible_argument_message sg p f n) (\<lambda>_. True)"
  unfolding inaccessible_argument_message_def by (intro runs_bind [where P = "\<lambda>_. True"] as_str_runs) simp_all

lemma argument_inaccessible_runs:
  assumes wf: "wf_store sg" and g: "named_arguments sg grp"
  shows "runs t (anyM (\<lambda>(_, arg). do { d \<leftarrow> argument_parent_definition sg arg; s \<leftarrow> def_subgraph_id sg d;
     type_is_inaccessible sg (argument_type arg) s }) grp) (\<lambda>_. True)"
proof (rule runs_anyM)
  fix x assume "x \<in> set grp"
  note ok = named_argumentsD [OF g this]
  obtain n a where x: "x = (n, a)" by (rule prod.exhaust)
  have a: "argument_ok sg a" using ok by (simp add: x)
  have "runs t (do { d \<leftarrow> argument_parent_definition sg a; s \<leftarrow> def_subgraph_id sg d; type_is_inaccessible sg (argument_type a) s }) (\<lambda>_. True)"
    by (rule runs_bind [OF argument_parent_definition_runs [OF wf a]], rule runs_bind [OF def_subgraph_id_runs [OF wf]], assumption,
        rule type_is_inaccessible_runs [OF wf argument_parts_ok(2) [OF wf a]])
  then show "runs t (case x of (_, arg) \<Rightarrow> do { d \<leftarrow> argument_parent_definition sg arg; s \<leftarrow> def_subgraph_id sg d;
     type_is_inaccessible sg (argument_type arg) s }) (\<lambda>_. True)" by (simp add: x)
qed
lemma missing_argument_runs:
  assumes wf: "wf_store sg" and st: "args_state sg ctx (ids, ctx1)" and fs: "\<forall>f \<in> set fs. field_ok sg f"
    and g: "named_arguments sg grp" and n: "str_ok sg p" "str_ok sg f" "str_ok sg n"
  shows "runs t (do {
       required \<leftarrow> findM (\<lambda>(_, arg). type_is_required sg (argument_type arg)) grp;
       (case required of
          Some (_, required_arg) \<Rightarrow> do {
            ctx2 \<leftarrow> required_argument_not_in_intersection_error sg fs required_arg p f n ctx1;
            Some (ids, ctx2) }
        | None \<Rightarrow> Some (ids, ctx1)) }) (args_state sg ctx)"
proof (rule runs_bind [OF runs_findM])
  show "runs t (case x of (_, arg) \<Rightarrow> type_is_required sg (argument_type arg)) (\<lambda>_. True)" if "x \<in> set grp" for x
    using argument_parts_ok(2) [OF wf conjunct1 [OF named_argumentsD [OF g that]]]
    by (cases x) (simp add: type_is_required_runs [OF wf])
  fix r assume r: "\<forall>x. r = Some x \<longrightarrow> x \<in> set grp"
  show "runs t (case r of Some (_, required_arg) \<Rightarrow> do {
            ctx2 \<leftarrow> required_argument_not_in_intersection_error sg fs required_arg p f n ctx1; Some (ids, ctx2) }
        | None \<Rightarrow> Some (ids, ctx1)) (args_state sg ctx)"
  proof (cases r)
    case (Some x)
    have "argument_ok sg (snd x)" using named_argumentsD [OF g] r Some by blast
    from required_argument_error_runs [OF wf args_state_wf [OF st] fs this n]
    have "runs t (do { ctx2 \<leftarrow> required_argument_not_in_intersection_error sg fs (snd x) p f n ctx1; Some (ids, ctx2) }) (args_state sg ctx)"
      by (rule runs_bind) (simp add: args_state_dir [OF st str_step_dir])
    then show ?thesis by (simp add: Some case_prod_unfold)
  qed (simp add: st)
qed

lemma merge_argument_runs:
  assumes wf: "wf_store sg" and st: "args_state sg ctx (ids, ctx0)" and fs: "\<forall>f \<in> set fs. field_ok sg f"
    and g: "grp \<noteq> []" "named_arguments sg grp" and n: "str_ok sg p" "str_ok sg f"
  shows "runs t (merge_argument sg fs p f intersection grp (ids, ctx0)) (args_state sg ctx)"
proof -
  obtain n a rest where grp: "grp = (n, a) # rest" using g(1) by (cases grp) auto
  have first: "vec_index grp 0 = Some (n, a)" by (simp add: grp)
  have nok: "str_ok sg n" using g(2) argument_parts_ok(1) [OF wf, of a] by (auto simp: grp named_arguments_def)
  have snds: "\<forall>a \<in> set (map snd grp). argument_ok sg a" using named_argumentsD [OF g(2)] by auto
  have merged: "runs t (do {
       (composed_directives, ctx2) \<leftarrow> collect_composed_directives sg (map (\<lambda>(_, arg). argument_directives arg) grp) ctx1;
       (ty, ctx3) \<leftarrow> compose_argument_types sg p f (map snd grp) ctx2;
       (case ty of
          None \<Rightarrow> Some (ids, ctx3)
        | Some arg_type \<Rightarrow> do {
            type_inaccessible \<leftarrow> anyM (\<lambda>(_, arg). do {
                d \<leftarrow> argument_parent_definition sg arg;
                s \<leftarrow> def_subgraph_id sg d;
                type_is_inaccessible sg (argument_type arg) s }) grp;
            ctx4 \<leftarrow> (if type_inaccessible \<and> \<not> list_ex (\<lambda>(_, arg). inaccessible sg (argument_directives arg)) grp
                     then do { m \<leftarrow> inaccessible_argument_message sg p f n; Some (ctx_push_fatal m ctx3) }
                     else Some ctx3);
            (name, ctx5) \<leftarrow> insert_string sg n ctx4;
            let (i, ctx6) = insert_input_value_definition
              \<lparr>iv_name = name, iv_type = arg_type, iv_directives = composed_directives, iv_description = None, iv_default = dflt\<rparr> ctx5;
            Some (count_id i ids, ctx6) }) }) (args_state sg ctx)"
    if st1: "args_state sg ctx (ids, ctx1)" and dflt: "opt_ok (value_ok sg) dflt" for ctx1 dflt
  proof (rule runs_bind [OF collected_runs [OF wf args_state_wf [OF st1]]], clarify,
      rule runs_bind [OF compose_argument_types_runs [OF wf dir_step_wf snds n]], assumption, clarify, rule runs_case_option)
    fix x y ctx2 ty ctx3
    assume 2: "dir_step sg ctx1 ctx2" "dirs_ok (ctx_ir ctx2) (x, y)" and 3: "str_step sg ctx2 ctx3" "opt_ok (type_ok sg) ty"
    note st3 = args_state_dir [OF args_state_dir [OF st1 2(1)] str_step_dir [OF 3(1)]]
    show "runs t (Some (ids, ctx3)) (args_state sg ctx)" using st3 by simp
    fix arg_type assume ty: "ty = Some arg_type"
    show "runs t (do {
            type_inaccessible \<leftarrow> anyM (\<lambda>(_, arg). do {
                d \<leftarrow> argument_parent_definition sg arg;
                s \<leftarrow> def_subgraph_id sg d;
                type_is_inaccessible sg (argument_type arg) s }) grp;
            ctx4 \<leftarrow> (if type_inaccessible \<and> \<not> list_ex (\<lambda>(_, arg). inaccessible sg (argument_directives arg)) grp
                     then do { m \<leftarrow> inaccessible_argument_message sg p f n; Some (ctx_push_fatal m ctx3) }
                     else Some ctx3);
            (name, ctx5) \<leftarrow> insert_string sg n ctx4;
            let (i, ctx6) = insert_input_value_definition
              \<lparr>iv_name = name, iv_type = arg_type, iv_directives = (x, y), iv_description = None, iv_default = dflt\<rparr> ctx5;
            Some (count_id i ids, ctx6) }) (args_state sg ctx)"
    proof (rule runs_bind [OF argument_inaccessible_runs [OF wf g(2)]],
        rule runs_bind [OF push_message_if_runs [OF args_state_wf [OF st3] inaccessible_argument_message_runs [OF n nok]]])
      fix ctx4 assume 4: "str_step sg ctx3 ctx4"
      show "runs t (do {
            (name, ctx5) \<leftarrow> insert_string sg n ctx4;
            let (i, ctx6) = insert_input_value_definition
              \<lparr>iv_name = name, iv_type = arg_type, iv_directives = (x, y), iv_description = None, iv_default = dflt\<rparr> ctx5;
            Some (count_id i ids, ctx6) }) (args_state sg ctx)"
        using 3(2) ty dflt dirs_ok_mono [OF ir_extends_trans [OF str_step_extends [OF 3(1)] str_step_extends [OF 4]] 2(2)]
        by (intro insert_input_value_runs [OF args_state_dir [OF st3 str_step_dir [OF 4]] nok]) simp_all
    qed
  qed
  show ?thesis
    unfolding merge_argument_def prod.case first bind.bind_lunit
    by (rule runs_bind [OF compose_field_argument_defaults_runs [OF wf args_state_wf [OF st] g(2)]], clarify, rule runs_if)
      (rule missing_argument_runs [OF wf args_state_dir [OF st str_step_dir] fs g(2) n nok], assumption,
       rule merged [OF args_state_dir [OF st str_step_dir]])
qed

lemma all_arguments_by_name_ok: "named_arguments sg (all_arguments_by_name sg fs)"
  by (auto simp: all_arguments_by_name_def named_arguments_def intro: field_arguments_ok)

lemma merge_field_arguments_runs:
  assumes wf: "wf_store sg" and ir: "ir_wf sg (ctx_ir ctx)" and f: "field_ok sg first" and fs: "\<forall>f \<in> set fs. field_ok sg f" "fs \<noteq> []"
  shows "runs t (merge_field_arguments sg first fs ctx) (\<lambda>(r, ctx'). ctx_step sg ctx ctx' \<and> args_ok (ctx_ir ctx') r)"
proof -
  let ?all = "all_arguments_by_name sg fs"
  have groups: "runs t (group_slices fst (merge_argument sg fs p (field_name first) i) ?all 0 (None, ctx)) (args_state sg ctx)"
    if p: "str_ok sg p" for p i
  proof (rule group_slices_runs)
    show "sorted (map fst ?all)" by (simp add: all_arguments_by_name_def)
    show "args_state sg ctx (None, ctx)" by (rule args_state_init [OF ir])
    fix g st assume g: "g \<noteq> []" "set g \<subseteq> set ?all" and st: "args_state sg ctx st"
    have "named_arguments sg g" using g(2) all_arguments_by_name_ok [of sg fs] by (auto simp: named_arguments_def)
    then show "runs t (merge_argument sg fs p (field_name first) i g st) (args_state sg ctx)"
      using st by (cases st) (auto intro!: merge_argument_runs [OF wf _ fs(1) g(1) _ p field_parts_ok(2) [OF wf f]])
  qed
  show ?thesis
    unfolding merge_field_arguments_def Let_def
    by (rule runs_bind [OF def_name_runs [OF wf field_parts_ok(1) [OF wf f]]], rule runs_bind [OF intersection_of_runs], simp add: fs(2),
        rule runs_bind [OF groups], assumption, clarify) (simp add: args_state_range)
qed
subsection \<open>Overrides\<close>

lemma same_override_message_runs [walker_runs]:
  "wf_store sg \<Longrightarrow> str_ok sg n \<Longrightarrow> field_ok sg f \<Longrightarrow> runs t (same_override_message sg n f) (\<lambda>_. True)"
  unfolding same_override_message_def by (intro runs_bind [where P = "\<lambda>_. True"] walker_runs as_str_runs field_parts_ok) simp_all

lemma double_override_message_runs [walker_runs]:
  "wf_store sg \<Longrightarrow> field_ok sg f \<Longrightarrow> field_ok sg g \<Longrightarrow> runs t (double_override_message sg f g) (\<lambda>_. True)"
  unfolding double_override_message_def by (intro runs_bind [where P = "\<lambda>_. True"] walker_runs field_parts_ok) simp_all

lemma override_label_of_runs: "opt_ok (str_ok sg) l \<Longrightarrow> runs t (override_label_of sg l) (\<lambda>_. True)"
  unfolding override_label_of_def by (cases l) (auto intro!: runs_bind as_str_runs)

lemma override_source_of_runs:
  assumes "ir_wf sg (ctx_ir ctx)" and "str_ok sg n"
  shows "runs t (override_source_of sg n ctx) (\<lambda>(s, ctx'). str_step sg ctx ctx' \<and> source_ok sg (ctx_ir ctx') s)"
proof (cases "position (\<lambda>(_, subgraph). s_name subgraph = n) (iter_subgraphs sg)")
  case None
  have "runs t (map_option (\<lambda>(i, ctx'). (Source_Missing i, ctx')) (insert_string sg n ctx))
      (\<lambda>(s, ctx'). str_step sg ctx ctx' \<and> source_ok sg (ctx_ir ctx') s)"
    by (rule runs_map_option [OF runs_mono [OF insert_string_runs [OF assms]]]) auto
  with None show ?thesis unfolding override_source_of_def by (simp only: option.case)
next
  case (Some i)
  then have "subgraph_ok sg i" using position_Some [OF Some] by (simp add: iter_subgraphs_def subgraph_ok_def)
  with Some show ?thesis by (simp add: override_source_of_def str_step_refl assms del: position_None)
qed

lemma field_subgraph_runs: "wf_store sg \<Longrightarrow> field_ok sg f \<Longrightarrow> runs t (def_subgraph sg (parent_definition f)) (subgraph_record_ok sg)"
  by (intro def_subgraph_runs field_parts_ok)

definition overrides_state :: "Subgraphs \<Rightarrow> Context \<Rightarrow> Override list \<times> Context \<Rightarrow> bool" where
  "overrides_state sg ctx st \<longleftrightarrow> str_step sg ctx (snd st) \<and> (\<forall>ov \<in> set (fst st). override_ok sg (ctx_ir (snd st)) ov)"

lemma overrides_state_step:
  "overrides_state sg ctx (ovs, ctx1) \<Longrightarrow> str_step sg ctx1 ctx2 \<Longrightarrow> overrides_state sg ctx (ovs, ctx2)"
  using override_ok_mono [OF str_step_extends] str_step_trans by (fastforce simp: overrides_state_def)

lemma collect_override_runs:
  assumes wf: "wf_store sg" and fs: "\<forall>f \<in> set fs. field_ok sg f" and f: "field_ok sg f"
    and d: "str_ok sg (override_from d)" "opt_ok (str_ok sg) (override_label d)" and st: "overrides_state sg ctx (ovs, ctx1)"
  shows "runs t (collect_override sg fs (f, d) (ovs, ctx1)) (overrides_state sg ctx)"
proof -
  have ir1: "ir_wf sg (ctx_ir ctx1)" using st by (auto simp: overrides_state_def intro: str_step_wf)
  have same: "runs t (do { m \<leftarrow> same_override_message sg (override_from d) f; Some (ovs, ctx_push_fatal m ctx1) }) (overrides_state sg ctx)"
    by (rule runs_bind [OF same_override_message_runs [OF wf d(1) f]]) (simp add: overrides_state_step [OF st] ctx_push_fatal_step ir1)
  have find: "runs t (findM (\<lambda>f. map_option (\<lambda>s. s_name s = override_from d) (def_subgraph sg (parent_definition f))) fs)
      (\<lambda>r. \<forall>x. r = Some x \<longrightarrow> x \<in> set fs)"
    by (rule runs_findM, rule runs_map_option [OF runs_mono [OF field_subgraph_runs [OF wf]]]) (use fs in simp_all)
  have double: "runs t (case source of Some override_source \<Rightarrow>
             if override_directive sg (field_directives override_source) \<noteq> None
             then do { m \<leftarrow> double_override_message sg override_source f; Some (ctx_push_fatal m ctx1) } else Some ctx1
         | None \<Rightarrow> Some ctx1) (str_step sg ctx1)" if "\<forall>x. source = Some x \<longrightarrow> x \<in> set fs" for source
    using that fs by (cases source) (auto simp: str_step_refl ir1 intro!: push_message_runs [OF ir1] walker_runs wf f)
  show ?thesis
    unfolding collect_override_def prod.case
  proof (rule runs_bind [OF field_subgraph_runs [OF wf f]], rule runs_if, rule same, rule runs_bind [OF find], rule runs_bind [OF double],
      assumption, rule runs_bind [OF def_subgraph_id_runs [OF wf field_parts_ok(1) [OF wf f]]], rule runs_bind [OF override_label_of_runs [OF d(2)]],
      rule runs_bind [OF override_source_of_runs [OF str_step_wf d(1)]], assumption, clarify)
    fix ctx2 graph label and src :: OverrideSource and ctx3
    assume 2: "str_step sg ctx1 ctx2" and g: "subgraph_ok sg graph" and 3: "str_step sg ctx2 ctx3" "source_ok sg (ctx_ir ctx3) src"
    have "overrides_state sg ctx (ovs, ctx3)" by (rule overrides_state_step [OF st str_step_trans [OF 2 3(1)]])
    then show "runs t (Some (ovs @ [\<lparr>ov_graph = graph, ov_from = src, ov_label = label\<rparr>], ctx3)) (overrides_state sg ctx)"
      using g 3(2) by (simp add: overrides_state_def override_ok_def)
  qed
qed

lemma collect_overrides_runs:
  assumes wf: "wf_store sg" and ir: "ir_wf sg (ctx_ir ctx)" and fs: "\<forall>f \<in> set fs. field_ok sg f"
  shows "runs t (collect_overrides sg fs ctx) (overrides_state sg ctx)"
  unfolding collect_overrides_def
proof (rule runs_foldM)
  show "overrides_state sg ctx ([], ctx)" by (simp add: overrides_state_def str_step_refl ir)
  fix x st assume x: "x \<in> set (List.map_filter (\<lambda>f. map_option (Pair f) (override_directive sg (field_directives f))) fs)"
    and st: "overrides_state sg ctx st"
  obtain f where f: "f \<in> set fs" "map_option (Pair f) (override_directive sg (field_directives f)) = Some x"
    using x by (auto simp: List.map_filter_def)
  then obtain d where d: "x = (f, d)" "override_directive sg (field_directives f) = Some d" by auto
  obtain ovs ctx1 where st': "st = (ovs, ctx1)" by (rule prod.exhaust)
  have ok: "field_ok sg f" using f(1) fs by blast
  note o = site_directives_ok(2) [OF wf d(2)]
  show "runs t (collect_override sg fs x st) (overrides_state sg ctx)"
    unfolding d(1) st' by (rule collect_override_runs [OF wf fs ok conjunct1 [OF o] conjunct2 [OF o] st [unfolded st']])
qed

subsection \<open>Fields of objects\<close>

lemma walk_key_ok:
  assumes "wf_store sg" and "key_ok sg k"
  shows "\<exists>x. walk_key sg k = Some x \<and> def_ok sg (fst x) \<and> selections_ok sg (k_selection_set (snd x))"
proof -
  have "ks_keys (sg_keys sg) ! k \<in> set (ks_keys (sg_keys sg))" using assms(2) by (simp add: key_ok_def)
  then have "def_ok sg (fst (ks_keys (sg_keys sg) ! k)) \<and> selections_ok sg (k_selection_set (snd (ks_keys (sg_keys sg) ! k)))"
    using assms(1) unfolding wf_store_def keys_ok_def by (metis (mono_tags, lifting) case_prod_beta)
  with assms(2) show ?thesis by (simp add: walk_key_def vec_index_def key_ok_def)
qed

lemma key_fields_runs: "wf_store sg \<Longrightarrow> key_ok sg k \<Longrightarrow> runs t (key_fields sg k) (selections_ok sg)"
  using walk_key_ok [of sg k] by (auto simp: key_fields_def split: prod.split)

lemma entity_keys_ok: "wf_store sg \<Longrightarrow> k \<in> set (entity_keys sg d) \<Longrightarrow> key_ok sg k"
  by (auto simp: entity_keys_filter key_ok_def)

lemma is_part_of_key_runs:
  assumes "wf_store sg"
  shows "runs t (is_part_of_key sg f) (\<lambda>_. True)"
proof -
  have "runs t (mapM (key_fields sg) (entity_keys sg (parent_definition f))) (\<lambda>_. True)"
    by (rule runs_mono [OF runs_mapM [where Q = "\<lambda>_ _. True"]])
      (use assms entity_keys_ok in \<open>auto intro!: runs_mono [OF key_fields_runs]\<close>)
  then show ?thesis unfolding is_part_of_key_def by (rule runs_bind) simp
qed

text \<open>The keys of a field's definition select it, or a nested key does: what \<open>is_part_of_key\<close> decides, over the whole table of keys.\<close>

definition selected_by_key :: "Subgraphs \<Rightarrow> Field \<Rightarrow> bool" where
  "selected_by_key sg f \<longleftrightarrow>
     (\<exists>(d, k) \<in> set (ks_keys (sg_keys sg)). d = parent_definition f \<and>
       (\<exists>s \<in> set (k_selection_set k). case s of Selection_Field n _ _ \<Rightarrow> n = field_name f | InlineFragment _ _ \<Rightarrow> False))
     \<or> fst f \<in> nk_fields (ks_nested_key_fields (sg_keys sg))"

lemma is_part_of_key_exact:
  assumes wf: "wf_store sg"
  shows "is_part_of_key sg f = Some (selected_by_key sg f)"
proof -
  let ?keys = "ks_keys (sg_keys sg)" and ?ids = "entity_keys sg (parent_definition f)"
  let ?sel = "\<lambda>k. k_selection_set (snd (?keys ! k))"
  have m: "mapM (key_fields sg) ?ids = Some (map ?sel ?ids)"
    by (rule mapM_pure) (simp add: entity_keys_filter [OF wf] key_fields_def walk_key_def vec_index_def case_prod_unfold)
  have ids: "(\<exists>k \<in> set ?ids. P (?keys ! k)) \<longleftrightarrow> (\<exists>e \<in> set ?keys. fst e = parent_definition f \<and> P e)" for P
    by (fastforce simp: entity_keys_filter [OF wf] in_set_conv_nth)
  have "list_ex (\<lambda>s. case s of Selection_Field n _ _ \<Rightarrow> n = field_name f | InlineFragment _ _ \<Rightarrow> False) (concat (map ?sel ?ids))
      \<longleftrightarrow> (\<exists>k \<in> set ?ids. \<exists>s \<in> set (?sel k). case s of Selection_Field n _ _ \<Rightarrow> n = field_name f | InlineFragment _ _ \<Rightarrow> False)"
    by (simp add: list_ex_iff)
  also have "\<dots> \<longleftrightarrow> (\<exists>e \<in> set ?keys. fst e = parent_definition f \<and> (\<exists>s \<in> set (k_selection_set (snd e)). case s of Selection_Field n _ _ \<Rightarrow> n = field_name f | InlineFragment _ _ \<Rightarrow> False))"
    by (rule ids)
  finally show ?thesis using m by (simp add: is_part_of_key_def selected_by_key_def case_prod_unfold)
qed

lemma resolvable_in_tables:
  assumes wf: "wf_store sg" and fs: "\<forall>f \<in> set fs. field_ok sg f"
  shows "\<exists>xs. resolvable_in sg fs b = Some xs \<and>
    (if b \<or> (\<exists>f \<in> set fs. field_directives f \<in> fst ` set (dr_override (sg_directives sg))) then xs = []
     else list_all2 (\<lambda>f s. def_subgraph_id sg (parent_definition f) = Some s)
       (filter (\<lambda>f. field_directives f \<notin> dr_external (sg_directives sg) \<and> \<not> selected_by_key sg f) fs) xs)"
proof -
  have id: "\<exists>s. def_subgraph_id sg (parent_definition f) = Some s" if "f \<in> set fs" for f
    using def_subgraph_id_runs [OF wf field_parts_ok(1) [OF wf], of f True] fs that by (auto simp: runs_total)
  have 1: "filterM (\<lambda>field. if external sg (field_directives field) then Some False else map_option Not (is_part_of_key sg field)) fs
      = Some (filter (\<lambda>f. field_directives f \<notin> dr_external (sg_directives sg) \<and> \<not> selected_by_key sg f) fs)"
    by (rule filterM_pure) (simp add: external_def is_part_of_key_exact [OF wf])
  obtain ss where 2: "mapM (\<lambda>field. def_subgraph_id sg (parent_definition field)) (filter (\<lambda>f. field_directives f \<notin> dr_external (sg_directives sg) \<and> \<not> selected_by_key sg f) fs) = Some ss"
    "list_all2 (\<lambda>f s. def_subgraph_id sg (parent_definition f) = Some s) (filter (\<lambda>f. field_directives f \<notin> dr_external (sg_directives sg) \<and> \<not> selected_by_key sg f) fs) ss"
    using runs_mapM [where t = True and f = "\<lambda>f. def_subgraph_id sg (parent_definition f)" and Q = "\<lambda>f s. def_subgraph_id sg (parent_definition f) = Some s"
        and xs = "filter (\<lambda>f. field_directives f \<notin> dr_external (sg_directives sg) \<and> \<not> selected_by_key sg f) fs"] id
    by (auto simp: runs_total)
  have o: "override_directive sg i \<noteq> None \<longleftrightarrow> i \<in> fst ` set (dr_override (sg_directives sg))" for i
    by (simp add: override_directive_def map_of_eq_None_iff)
  show ?thesis using 2 unfolding resolvable_in_def list_ex_iff o 1 by simp
qed

lemma list_all2_set2: "list_all2 P xs ys \<Longrightarrow> y \<in> set ys \<Longrightarrow> \<exists>x \<in> set xs. P x y"
  by (induction rule: list_all2_induct) auto

lemma resolvable_in_ok:
  assumes wf: "wf_store sg" and fs: "\<forall>f \<in> set fs. field_ok sg f"
  obtains rs where "resolvable_in sg fs b = Some rs" and "\<forall>s \<in> set rs. subgraph_ok sg s"
proof -
  let ?keep = "filter (\<lambda>f. field_directives f \<notin> dr_external (sg_directives sg) \<and> \<not> selected_by_key sg f) fs"
  obtain rs where rs: "resolvable_in sg fs b = Some rs" "rs = [] \<or> list_all2 (\<lambda>f s. def_subgraph_id sg (parent_definition f) = Some s) ?keep rs"
    using resolvable_in_tables [OF assms, of b] by meson
  have "subgraph_ok sg s" if s: "s \<in> set rs" for s
  proof -
    have "rs \<noteq> []" using s by auto
    then obtain f where f: "f \<in> set ?keep" "def_subgraph_id sg (parent_definition f) = Some s" using rs(2) list_all2_set2 [OF _ s] by blast
    then have "field_ok sg f" using fs by simp
    then show ?thesis using def_subgraph_id_runs [OF wf field_parts_ok(1) [OF wf], of f False] f(2) by (simp add: runs_partial)
  qed
  with rs(1) show ?thesis using that by blast
qed

lemma counts_as_definition_runs: "wf_store sg \<Longrightarrow> runs t (counts_as_definition sg f) (\<lambda>_. True)"
  unfolding counts_as_definition_def Let_def by (rule runs_if) (simp, rule runs_bind [OF is_part_of_key_runs], simp_all)

lemma duplicate_field_message_runs [walker_runs]:
  "wf_store sg \<Longrightarrow> field_ok sg f \<Longrightarrow> field_ok sg g \<Longrightarrow> runs t (duplicate_field_message sg f g) (\<lambda>_. True)"
  unfolding duplicate_field_message_def by (intro runs_bind [where P = "\<lambda>_. True"] walker_runs field_parts_ok) simp_all

lemma inaccessible_field_message_runs [walker_runs]:
  assumes wf: "wf_store sg" and f: "field_ok sg f" and fs: "\<forall>f \<in> set fs. field_ok sg f"
  shows "runs t (inaccessible_field_message sg f fs) (\<lambda>_. True)"
proof -
  have names: "runs t (mapM (\<lambda>f. def_subgraph_name sg (parent_definition f)) (filter (\<lambda>f. \<not> inaccessible sg (field_directives f)) fs)) (\<lambda>_. True)"
    by (rule runs_mono [OF runs_mapM [where Q = "\<lambda>_ _. True"]]) (use fs in \<open>auto intro!: walker_runs field_parts_ok wf\<close>)
  show ?thesis
    unfolding inaccessible_field_message_def
    by (rule runs_bind [OF def_name_str_runs [OF wf field_parts_ok(1) [OF wf f]]], rule runs_bind [OF field_name_str_runs [OF wf f]],
        rule runs_bind [OF names]) simp
qed

lemma length_filterM_le: "filterM p xs = Some ys \<Longrightarrow> length ys \<le> length xs"
  by (induction xs arbitrary: ys) (auto split: Option.bind_splits if_splits intro: le_SucI)

lemma check_single_definition_runs:
  assumes wf: "wf_store sg" and ir: "ir_wf sg (ctx_ir ctx)" and f: "field_ok sg first" and fs: "\<forall>f \<in> set fs. field_ok sg f"
  shows "runs t (check_single_definition sg b first fs ctx) (str_step sg ctx)"
  unfolding check_single_definition_def
proof (rule runs_if, simp add: str_step_refl ir, rule runs_bind_eq [OF runs_filterM], rule counts_as_definition_runs [OF wf], rule runs_if)
  fix ys assume "filterM (counts_as_definition sg) fs = Some ys" and "1 < length ys"
  then have l: "1 < length fs" using length_filterM_le by fastforce
  then have "vec_index fs 1 = Some (fs ! 1)" "field_ok sg (fs ! 1)" using fs by (simp_all add: vec_index_def)
  then show "runs t (do { second \<leftarrow> vec_index fs 1; m \<leftarrow> duplicate_field_message sg first second; Some (ctx_push_fatal m ctx) }) (str_step sg ctx)"
    using push_message_runs [OF ir duplicate_field_message_runs [OF wf f]] by simp
qed (simp add: str_step_refl ir)

lemma check_inaccessible_type_runs:
  assumes wf: "wf_store sg" and ir: "ir_wf sg (ctx_ir ctx)" and f: "field_ok sg first" and fs: "\<forall>f \<in> set fs. field_ok sg f"
  shows "runs t (check_inaccessible_type sg first fs ctx) (str_step sg ctx)"
  unfolding check_inaccessible_type_def
proof (rule runs_bind [OF runs_anyM])
  fix x assume "x \<in> set fs"
  then have x: "field_ok sg x" using fs by blast
  show "runs t (if inaccessible sg (field_directives x) then Some False
      else do { s \<leftarrow> def_subgraph_id sg (parent_definition x); type_is_inaccessible sg (field_type x) s }) (\<lambda>_. True)"
    by (rule runs_if, simp, rule runs_bind [OF def_subgraph_id_runs [OF wf field_parts_ok(1) [OF wf x]]],
        rule type_is_inaccessible_runs [OF wf field_parts_ok(3) [OF wf x]])
qed (rule push_message_if_runs [OF ir inaccessible_field_message_runs [OF wf f fs]])
lemma fields_with_ok: "\<forall>f \<in> set fs. field_ok sg f \<Longrightarrow> x \<in> set (fields_with p fs) \<Longrightarrow> field_id_ok sg x"
  by (auto simp: fields_with_def intro: field_id_ok_field)

lemma compose_object_fields_runs:
  assumes wf: "wf_store sg" and ir: "ir_wf sg (ctx_ir ctx)" and o: "fdef_ok (ctx_ir ctx) (Fed_Object obj)"
    and f: "field_ok sg first" and fs: "\<forall>f \<in> set fs. field_ok sg f" "fs \<noteq> []"
  shows "runs t (compose_object_fields sg obj b first fs ctx) (ctx_step sg ctx)"
proof -
  have descr: "opt_ok (str_ok sg) (find_map field_description fs)"
    using fs(1) field_parts_ok(4) [OF wf] by (intro find_map_opt_ok) blast
  obtain rs where resolvable: "resolvable_in sg fs b = Some rs" "\<forall>s \<in> set rs. subgraph_ok sg s" by (rule resolvable_in_ok [OF wf fs(1)])
  show ?thesis
    unfolding compose_object_fields_def resolvable(1) bind.bind_lunit
  proof (rule runs_bind [OF check_single_definition_runs [OF wf ir f fs(1)]],
      rule runs_bind [OF check_inaccessible_type_runs [OF wf str_step_wf f fs(1)]], assumption,
      rule runs_bind [OF merge_field_arguments_runs [OF wf str_step_wf f fs]], assumption, clarify,
      rule runs_bind [OF collect_overrides_runs [OF wf ctx_step_wf fs(1)]], assumption, clarify)
    fix ctx1 ctx2 x y ctx3 ovs ctx4
    assume 1: "str_step sg ctx ctx1" and 2: "str_step sg ctx1 ctx2" and 3: "ctx_step sg ctx2 ctx3" "args_ok (ctx_ir ctx3) (x, y)"
      and 4: "overrides_state sg ctx3 (ovs, ctx4)"
    have s34: "str_step sg ctx3 ctx4" and ovs: "\<forall>ov \<in> set ovs. override_ok sg (ctx_ir ctx4) ov" using 4 by (simp_all add: overrides_state_def)
    have s04: "ctx_step sg ctx ctx4"
      by (rule ctx_step_trans [OF ctx_step_trans [OF str_step_ctx [OF str_step_trans [OF 1 2]] 3(1)] str_step_ctx [OF s34]])
    show "runs t (do {
       (description, ctx5) \<leftarrow> insert_string_option sg (find_map field_description fs) ctx4;
       (composed_directives, ctx6) \<leftarrow> collect_composed_directives sg (map field_directives fs) ctx5;
       (ty, ctx7) \<leftarrow> compose_output_field_types sg fs ctx6;
       (case ty of
          None \<Rightarrow> Some ctx7
        | Some fty \<Rightarrow>
            Some (snd (insert_field
              \<lparr>f_parent_definition = Fed_Object obj, f_field_name = field_name first, f_field_type = fty,
               f_arguments = (x, y), f_resolvable_in = rs,
               f_provides = fields_with (\<lambda>d. provides sg d \<noteq> None) fs,
               f_requires = fields_with (\<lambda>d. requires sg d \<noteq> None) fs,
               f_authorized_directives = fields_with (\<lambda>d. authorized sg d \<noteq> None) fs,
               f_overrides = ovs, f_composed_directives = composed_directives, f_description = description\<rparr> ctx7))) }) (ctx_step sg ctx)"
    proof (rule runs_bind [OF insert_string_option_runs [OF ctx_step_wf [OF s04] descr]], clarify,
        rule runs_bind [OF collected_runs [OF wf str_step_wf]], assumption, clarify,
        rule runs_bind [OF compose_output_field_types_runs [OF wf dir_step_wf fs(1)]], assumption, clarify, rule runs_case_option)
      fix dscr ctx5 u v ctx6 ty ctx7
      assume 5: "str_step sg ctx4 ctx5" "opt_ok (fstr_ok (ctx_ir ctx5)) dscr" and 6: "dir_step sg ctx5 ctx6" "dirs_ok (ctx_ir ctx6) (u, v)"
        and 7: "str_step sg ctx6 ctx7" "opt_ok (type_ok sg) ty"
      have s57: "dir_step sg ctx5 ctx7" by (rule dir_step_trans [OF 6(1) str_step_dir [OF 7(1)]])
      have s47: "dir_step sg ctx4 ctx7" by (rule dir_step_trans [OF str_step_dir [OF 5(1)] s57])
      have s37: "dir_step sg ctx3 ctx7" by (rule dir_step_trans [OF str_step_dir [OF s34] s47])
      have s07: "ctx_step sg ctx ctx7" by (rule ctx_step_trans [OF s04 dir_step_ctx [OF s47]])
      then show "runs t (Some ctx7) (ctx_step sg ctx)" by simp
      fix fty assume ty: "ty = Some fty"
      let ?x = "\<lparr>f_parent_definition = Fed_Object obj, f_field_name = field_name first, f_field_type = fty,
               f_arguments = (x, y), f_resolvable_in = rs,
               f_provides = fields_with (\<lambda>d. provides sg d \<noteq> None) fs,
               f_requires = fields_with (\<lambda>d. requires sg d \<noteq> None) fs,
               f_authorized_directives = fields_with (\<lambda>d. authorized sg d \<noteq> None) fs,
               f_overrides = ovs, f_composed_directives = (u, v), f_description = dscr\<rparr>"
      have "field_ir_ok sg (ctx_ir ctx7) ?x"
        using fdef_ok_mono [OF ctx_step_extends [OF s07] o] field_parts_ok(2) [OF wf f] 7(2) ty resolvable(2) fields_with_ok [OF fs(1)]
          args_ok_mono [OF dir_step_extends [OF s37] 3(2)] override_ok_mono [OF dir_step_extends [OF s47]] ovs
          dirs_ok_mono [OF str_step_extends [OF 7(1)] 6(2)] opt_fstr_ok_mono [OF dir_step_extends [OF s57] 5(2)]
        by (auto simp: field_ir_ok_def)
      then have "ctx_step sg ctx7 (snd (insert_field ?x ctx7))"
        using insert_field_step [OF ctx_step_wf [OF s07]] by (cases "insert_field ?x ctx7") simp
      then show "runs t (Some (snd (insert_field ?x ctx7))) (ctx_step sg ctx)" using ctx_step_trans [OF s07] by simp
    qed
  qed
qed

lemma for_each_field_group_runs:
  assumes "I s" and "\<And>fs s. fs \<noteq> [] \<Longrightarrow> \<forall>f \<in> set fs. field_ok sg f \<Longrightarrow> I s \<Longrightarrow> runs t (f fs s) I"
  shows "runs t (for_each_field_group sg ds f s) I"
  unfolding for_each_field_group_def
proof (rule group_slices_runs [OF all_fields_by_name_sorted, where I = I, OF assms(1)])
  fix g s assume g: "g \<noteq> []" "set g \<subseteq> set (all_fields_by_name sg ds)" and s: "I s"
  have "\<forall>f \<in> set (map snd g). field_ok sg f" using g(2) all_fields_by_name_ok by fastforce
  then show "runs t (f (map snd g) s) I" by (intro assms(2) s) (simp_all add: g(1))
qed

lemma missing_shareable_field_message_runs [walker_runs]:
  "wf_store sg \<Longrightarrow> def_ok sg d \<Longrightarrow> str_ok sg n \<Longrightarrow> runs t (missing_shareable_field_message sg d n) (\<lambda>_. True)"
  unfolding missing_shareable_field_message_def by (intro runs_bind [where P = "\<lambda>_. True"] walker_runs as_str_runs) simp_all

lemma validate_shareable_runs:
  assumes wf: "wf_store sg" and ir: "ir_wf sg (ctx_ir ctx)" and ds: "\<forall>d \<in> set ds. def_ok sg d"
  shows "runs t (validate_shareable_object_fields_match sg ds ctx) (str_step sg ctx)"
proof -
  define names where "names = filter (\<lambda>name. name \<notin> set (fold bs_insert
       (map field_name (filter (\<lambda>field. inaccessible sg (field_directives field)) (concat (map (def_fields sg) ds)))) []))
     (fold bs_insert (map field_name (concat (map (def_fields sg) ds))) [])"
  have names: "\<forall>n \<in> set names. str_ok sg n"
    using field_parts_ok(2) [OF wf def_fields_ok] by (auto simp: names_def set_fold_bs_insert)
  have inner: "runs t (foldM (\<lambda>name ctx. if find_field sg d name = None
             then do { m \<leftarrow> missing_shareable_field_message sg d name; Some (ctx_push_fatal m ctx) }
             else Some ctx) names ctx1) (str_step sg ctx)" if d: "d \<in> set ds" and s: "str_step sg ctx ctx1" for d ctx1
    by (rule runs_foldM [where I = "str_step sg ctx", OF s],
        rule runs_mono [OF push_message_if_runs [OF str_step_wf missing_shareable_field_message_runs [OF wf]]])
      (use names ds d str_step_trans in blast)+
  show ?thesis
    unfolding validate_shareable_object_fields_match_def Let_def names_def [symmetric]
    by (rule runs_foldM [where I = "str_step sg ctx", OF str_step_refl [OF ir]]) (rule inner)
qed

end
