(* ===== verification/Emit_Graph.thy ===== *)
theory Emit_Graph
  imports Emit_Steps Object_Steps "HOL-Library.Multiset"
begin

text \<open>
  The emission as a whole.  Selections are attached to the emitted fields, the fields are emitted group by
  group, then union members, keys and authorizations are written into the entries they belong to.  From a
  well-formed representation the emission only produces a well-formed federated graph with the types, enum
  values and input objects of the representation: \<open>emit_federated_graph_runs\<close>.
\<close>

lemma runs_any: "runs False m (\<lambda>_. True)"
  by (simp add: runs_partial)

lemma attach_selection_option_runs:
  "emit_wf z ctx \<Longrightarrow> opt_ok (selections_ok sg) sel \<Longrightarrow>
   runs False (attach_selection_option sg target sel ctx) (\<lambda>(x, ctx'). emit_str z ctx ctx' \<and> opt_ok (gselections_ok z (graph_of ctx')) x)"
  unfolding attach_selection_option_def
  by (cases sel) (auto intro: emit_str_refl intro!: runs_bind [OF attach_selection_runs])

text \<open>Selections on arguments.\<close>

lemma set_items_cons:
  assumes "emit_str z ctx ctx2" and "i < n_input_values z" and "list_all (set_item_ok z) sub"
    and "runs False m (\<lambda>(xs, ctx'). emit_str z ctx2 ctx' \<and> list_all (set_item_ok z) xs)"
  shows "runs False (do { (items, ctx3) \<leftarrow> m; Some (InputValueDefinitionSetItem i sub # items, ctx3) })
    (\<lambda>(xs, ctx'). emit_str z ctx ctx' \<and> list_all (set_item_ok z) xs)"
  by (rule runs_bind [OF assms(4)]) (use assms(1-3) emit_str_trans in \<open>auto simp: list_all_iff\<close>)

lemma attach_selection_on_input_object_runs:
  "emit_wf z ctx \<Longrightarrow> selections_ok sg sel \<Longrightarrow>
   runs False (attach_selection_on_input_object sg k sel ctx) (\<lambda>(xs, ctx'). emit_str z ctx ctx' \<and> list_all (set_item_ok z) xs)"
proof (induction sg k sel ctx rule: attach_selection_on_input_object.induct)
  case (3 sg k name args sub rest ctx)
  have ok: "str_ok sg name" "selections_ok sg sub" "selections_ok sg rest" using 3(5) by (simp_all add: selections_ok_def)
  let ?Q = "\<lambda>c (xs, ctx'). emit_str z c ctx' \<and> list_all (set_item_ok z) xs"
  show ?case
    unfolding attach_selection_on_input_object.simps Let_def
  proof (rule runs_bind_eq [OF emit_insert_string_runs [OF 3(4) ok(1)]], clarify, rule runs_bind_eq [OF runs_any], rule runs_bind_eq [OF runs_any],
      rule runs_case_option)
    fix n ctx1 io cs
    assume n: "emit_insert_string sg name ctx = Some (n, ctx1)" "vec_index (fg_input_objects (e_out ctx1)) k = Some io"
      "graph_input_values (e_out ctx1) (fio_fields io) = Some cs" and s1: "emit_str z ctx ctx1"
    show "runs False (attach_selection_on_input_object sg k rest ctx1) (?Q ctx)" if "position (\<lambda>f. fiv_name f = n) cs = None"
      by (rule runs_mono [OF 3(1) [OF n(1) refl n(2,3) that emit_str_wf [OF s1] ok(3)]]) (use emit_str_trans [OF s1] in auto)
    fix i assume i: "position (\<lambda>f. fiv_name f = n) cs = Some i"
    have lt: "fst (fio_fields io) + i < n_input_values z"
      using position_in_slice [OF n(3) i] emit_str_wf [OF s1] by (simp add: emit_wf_def)
    show "runs False (do {
          d \<leftarrow> vec_index (fg_input_value_definitions (e_out ctx1)) (fst (fio_fields io) + i);
          (ss, ctx2) \<leftarrow> (case ty_definition (fiv_type d) of
             Fed_InputObject i \<Rightarrow> attach_selection_on_input_object sg i sub ctx1
           | _ \<Rightarrow> Some ([], ctx1));
          (items, ctx3) \<leftarrow> attach_selection_on_input_object sg k rest ctx2;
          Some (InputValueDefinitionSetItem (fst (fio_fields io) + i) ss # items, ctx3) }) (?Q ctx)"
    proof (rule runs_bind_eq [OF runs_any])
      fix d assume d: "vec_index (fg_input_value_definitions (e_out ctx1)) (fst (fio_fields io) + i) = Some d"
      have sub: "runs False (case ty_definition (fiv_type d) of Fed_InputObject i \<Rightarrow> attach_selection_on_input_object sg i sub ctx1 | _ \<Rightarrow> Some ([], ctx1)) (?Q ctx1)"
        using 3(2) [OF n(1) refl n(2,3) i refl d _ emit_str_wf [OF s1] ok(2)] emit_str_refl [OF emit_str_wf [OF s1]]
        by (cases "ty_definition (fiv_type d)") auto
      show "runs False (do { (ss, ctx2) \<leftarrow> (case ty_definition (fiv_type d) of Fed_InputObject i \<Rightarrow> attach_selection_on_input_object sg i sub ctx1 | _ \<Rightarrow> Some ([], ctx1));
          (items, ctx3) \<leftarrow> attach_selection_on_input_object sg k rest ctx2;
          Some (InputValueDefinitionSetItem (fst (fio_fields io) + i) ss # items, ctx3) }) (?Q ctx)"
      proof (rule runs_bind_eq [OF sub], clarify)
        fix ss ctx2 assume e: "(case ty_definition (fiv_type d) of Fed_InputObject i \<Rightarrow> attach_selection_on_input_object sg i sub ctx1 | _ \<Rightarrow> Some ([], ctx1)) = Some (ss, ctx2)"
          and s2: "emit_str z ctx1 ctx2" and ss: "list_all (set_item_ok z) ss"
        show "runs False (do { (items, ctx3) \<leftarrow> attach_selection_on_input_object sg k rest ctx2;
            Some (InputValueDefinitionSetItem (fst (fio_fields io) + i) ss # items, ctx3) }) (?Q ctx)"
          by (rule set_items_cons [OF emit_str_trans [OF s1 s2] lt ss 3(3) [OF n(1) refl n(2,3) i refl d e refl emit_str_wf [OF s2] ok(3)]])
      qed
    qed
  qed
qed (auto simp: emit_str_refl selections_ok_def)

lemma attach_argument_selection_runs:
  "emit_wf z ctx \<Longrightarrow> selections_ok sg sel \<Longrightarrow>
   runs False (attach_argument_selection sg k sel ctx) (\<lambda>(xs, ctx'). emit_str z ctx ctx' \<and> list_all (set_item_ok z) xs)"
proof (induction sg k sel ctx rule: attach_argument_selection.induct)
  case (3 sg k name args sub rest ctx)
  have ok: "str_ok sg name" "selections_ok sg sub" "selections_ok sg rest" using 3(3) by (simp_all add: selections_ok_def)
  let ?Q = "\<lambda>c (xs, ctx'). emit_str z c ctx' \<and> list_all (set_item_ok z) xs"
  show ?case
    unfolding attach_argument_selection.simps Let_def
  proof (rule runs_bind_eq [OF emit_insert_string_runs [OF 3(2) ok(1)]], clarify, rule runs_bind_eq [OF runs_any], rule runs_bind_eq [OF runs_any],
      rule runs_bind_eq [OF runs_any], rule runs_bind_eq [OF runs_any])
    fix n ctx1 f cs i d
    assume n: "emit_insert_string sg name ctx = Some (n, ctx1)" "vec_index (fg_fields (e_out ctx1)) k = Some f"
      "graph_input_values (e_out ctx1) (ff_arguments f) = Some cs" "position (\<lambda>arg. fiv_name arg = n) cs = Some i"
      "vec_index (fg_input_value_definitions (e_out ctx1)) (fst (ff_arguments f) + i) = Some d" and s1: "emit_str z ctx ctx1"
    have lt: "fst (ff_arguments f) + i < n_input_values z"
      using position_in_slice [OF n(3,4)] emit_str_wf [OF s1] by (simp add: emit_wf_def)
    have sub: "runs False (case ty_definition (fiv_type d) of Fed_InputObject i \<Rightarrow> attach_selection_on_input_object sg i sub ctx1 | _ \<Rightarrow> Some ([], ctx1)) (?Q ctx1)"
      using attach_selection_on_input_object_runs [OF emit_str_wf [OF s1] ok(2)] emit_str_refl [OF emit_str_wf [OF s1]]
      by (cases "ty_definition (fiv_type d)") auto
    show "runs False (do { (ss, ctx2) \<leftarrow> (case ty_definition (fiv_type d) of Fed_InputObject i \<Rightarrow> attach_selection_on_input_object sg i sub ctx1 | _ \<Rightarrow> Some ([], ctx1));
        (items, ctx3) \<leftarrow> attach_argument_selection sg k rest ctx2;
        Some (InputValueDefinitionSetItem (fst (ff_arguments f) + i) ss # items, ctx3) }) (?Q ctx)"
    proof (rule runs_bind_eq [OF sub], clarify)
      fix ss ctx2 assume e: "(case ty_definition (fiv_type d) of Fed_InputObject i \<Rightarrow> attach_selection_on_input_object sg i sub ctx1 | _ \<Rightarrow> Some ([], ctx1)) = Some (ss, ctx2)"
        and s2: "emit_str z ctx1 ctx2" and ss: "list_all (set_item_ok z) ss"
      show "runs False (do { (items, ctx3) \<leftarrow> attach_argument_selection sg k rest ctx2;
          Some (InputValueDefinitionSetItem (fst (ff_arguments f) + i) ss # items, ctx3) }) (?Q ctx)"
        by (rule set_items_cons [OF emit_str_trans [OF s1 s2] lt ss 3(1) [OF n(1) refl n(2,3,4) refl n(5) e refl emit_str_wf [OF s2] ok(3)]])
    qed
  qed
qed (auto simp: emit_str_refl selections_ok_def)

subsection \<open>Fields\<close>

text \<open>The selections that wait refer to emitted fields and to strings of the store.\<close>

definition delayed_ok :: "Subgraphs \<Rightarrow> Sizes \<Rightarrow> EmitContext \<Rightarrow> DelayedSelections \<Rightarrow> bool" where
  "delayed_ok sg z ctx del \<longleftrightarrow>
     (\<forall>(f, s, d, sel) \<in> set (del_provides del) \<union> set (del_requires del). f < length (fg_fields (e_out ctx)) \<and> s < n_subgraphs z \<and> selections_ok sg sel)
     \<and> (\<forall>a \<in> set (del_authorized del). af_field_id a < length (fg_fields (e_out ctx)) \<and> authorized_ok sg (af_directive a))"

lemma delayed_ok_mono: "length (fg_fields (e_out ctx)) \<le> length (fg_fields (e_out ctx')) \<Longrightarrow> delayed_ok sg z ctx del \<Longrightarrow> delayed_ok sg z ctx' del"
  by (auto simp: delayed_ok_def split_beta intro: less_le_trans)

definition fields_step :: "Subgraphs \<Rightarrow> Sizes \<Rightarrow> EmitContext \<Rightarrow> DelayedSelections \<times> EmitContext \<Rightarrow> bool" where
  "fields_step sg z ctx s \<longleftrightarrow> main_step sg z ctx (snd s) \<and> delayed_ok sg z (snd s) (fst s)"

lemma site_lookup_ok:
  assumes "wf_store sg"
  shows "provides sg i = Some p \<Longrightarrow> selections_ok sg p" and "requires sg i = Some r \<Longrightarrow> selections_ok sg r"
    and "authorized sg i = Some a \<Longrightarrow> authorized_ok sg a"
  using assms by (auto simp: provides_def requires_def authorized_def wf_store_def directives_ok_def entry_ok_def dest!: map_of_SomeD)

lemma field_subgraph_id_runs:
  assumes "wf_store sg" and "field_ok sg f" and "n_subgraphs z = length (sg_subgraphs sg)"
  shows "runs t (field_subgraph_id sg f) (\<lambda>s. s < n_subgraphs z)"
  unfolding field_subgraph_id_def
  by (rule runs_mono [OF def_subgraph_id_runs [OF assms(1) field_parts_ok(1) [OF assms(1,2)]]]) (simp add: subgraph_ok_def assms(3))

lemma walk_field_runs: "wf_store sg \<Longrightarrow> field_id_ok sg f \<Longrightarrow> runs t (walk_field sg f) (field_ok sg)"
proof -
  assume wf: "wf_store sg" and f: "field_id_ok sg f"
  then obtain tuple where m: "(f, tuple) \<in> set (fs_definition_fields (sg_fields sg))" by (auto simp: field_id_ok_def)
  moreover have "walk_field sg f = Some (f, tuple)"
    using walk_field_ok [OF wf, of f] f m wf by (auto simp: field_id_ok_def walk_field_def wf_store_def fields_ok_def bt_wf_get)
  ultimately show ?thesis by (simp add: field_ok_def)
qed

lemma collect_provides_runs:
  assumes wf: "wf_store sg" and z: "n_subgraphs z = length (sg_subgraphs sg)" and ids: "\<forall>x \<in> set ids. field_id_ok sg x"
    and e: "emit_wf z ctx" "cache_ok sg ctx" and d: "delayed_ok sg z ctx del" and f: "f < length (fg_fields (e_out ctx))"
  shows "runs False (collect_provides sg f ids (del, ctx)) (fields_step sg z ctx)"
  unfolding collect_provides_def
proof (rule runs_foldM [where I = "fields_step sg z ctx"])
  show "fields_step sg z ctx (del, ctx)" using main_step_refl [OF e] d by (simp add: fields_step_def)
  fix x s assume x: "x \<in> set ids" and s: "fields_step sg z ctx s"
  obtain del1 ctx1 where s': "s = (del1, ctx1)" by fastforce
  have m: "main_step sg z ctx ctx1" and d1: "delayed_ok sg z ctx1 del1" using s by (simp_all add: s' fields_step_def)
  show "runs False ((\<lambda>(del, ctx). do {
         field \<leftarrow> walk_field sg x;
         (case provides sg (field_directives field) of
            None \<Rightarrow> Some (del, ctx)
          | Some selection \<Rightarrow> do {
              name_id \<leftarrow> type_name sg (field_type field);
              (field_type_name, ctx1) \<leftarrow> emit_insert_string sg name_id ctx;
              subgraph_id \<leftarrow> field_subgraph_id sg field;
              d \<leftarrow> e_definitions ctx1 field_type_name;
              Some (del\<lparr>del_provides := del_provides del @ [(f, subgraph_id, d, selection)]\<rparr>, ctx1) }) }) s) (fields_step sg z ctx)"
    unfolding s' prod.case
  proof (rule runs_bind [OF walk_field_runs [OF wf]], use ids x in blast, rule runs_case_option)
    show "runs False (Some (del1, ctx1)) (fields_step sg z ctx)" using s by (simp add: s')
    fix field sel assume fo: "field_ok sg field" and p: "provides sg (field_directives field) = Some sel"
    show "runs False (do {
              name_id \<leftarrow> type_name sg (field_type field);
              (field_type_name, ctx1) \<leftarrow> emit_insert_string sg name_id ctx1;
              subgraph_id \<leftarrow> field_subgraph_id sg field;
              d \<leftarrow> e_definitions ctx1 field_type_name;
              Some (del1\<lparr>del_provides := del_provides del1 @ [(f, subgraph_id, d, sel)]\<rparr>, ctx1) }) (fields_step sg z ctx)"
    proof (rule runs_bind [OF type_name_runs [OF wf field_parts_ok(3) [OF wf fo]]], rule runs_bind [OF emit_insert_string_runs [OF main_step_wf [OF m]]],
        assumption, clarify, rule runs_bind [OF field_subgraph_id_runs [OF wf fo z]], rule runs_bind [OF runs_any])
      fix n ctx2 sid d assume s2: "emit_str z ctx1 ctx2" and sid: "sid < n_subgraphs z"
      have m2: "main_step sg z ctx ctx2" using main_step_trans [OF m emit_str_main [OF s2 main_step_cache [OF m]]] .
      have "f < length (fg_fields (e_out ctx2))" "length (fg_fields (e_out ctx1)) \<le> length (fg_fields (e_out ctx2))"
        using f main_step_extends [OF m2] emit_str_extends [OF s2] by (auto simp: graph_extends_def)
      then have "delayed_ok sg z ctx2 (del1\<lparr>del_provides := del_provides del1 @ [(f, sid, d, sel)]\<rparr>)"
        using delayed_ok_mono [OF _ d1] sid site_lookup_ok(1) [OF wf p] by (auto simp: delayed_ok_def)
      then show "runs False (Some (del1\<lparr>del_provides := del_provides del1 @ [(f, sid, d, sel)]\<rparr>, ctx2)) (fields_step sg z ctx)"
        using m2 by (simp add: fields_step_def)
    qed
  qed
qed

lemma collect_requires_runs:
  assumes wf: "wf_store sg" and z: "n_subgraphs z = length (sg_subgraphs sg)" and ids: "\<forall>x \<in> set ids. field_id_ok sg x"
    and d: "delayed_ok sg z ctx del" and f: "f < length (fg_fields (e_out ctx))"
  shows "runs False (collect_requires sg f target ids del) (delayed_ok sg z ctx)"
  unfolding collect_requires_def
proof (rule runs_foldM [where I = "delayed_ok sg z ctx", OF d])
  fix x del1 assume x: "x \<in> set ids" and d1: "delayed_ok sg z ctx del1"
  show "runs False (do {
         field \<leftarrow> walk_field sg x;
         (case requires sg (field_directives field) of
            None \<Rightarrow> Some del1
          | Some selection \<Rightarrow> do {
              subgraph_id \<leftarrow> field_subgraph_id sg field;
              Some (del1\<lparr>del_requires := del_requires del1 @ [(f, subgraph_id, target, selection)]\<rparr>) }) }) (delayed_ok sg z ctx)"
  proof (rule runs_bind [OF walk_field_runs [OF wf]], use ids x in blast, rule runs_case_option)
    fix field sel assume fo: "field_ok sg field" and r: "requires sg (field_directives field) = Some sel"
    show "runs False (do { subgraph_id \<leftarrow> field_subgraph_id sg field;
        Some (del1\<lparr>del_requires := del_requires del1 @ [(f, subgraph_id, target, sel)]\<rparr>) }) (delayed_ok sg z ctx)"
      by (rule runs_bind [OF field_subgraph_id_runs [OF wf fo z]]) (use d1 f site_lookup_ok(2) [OF wf r] in \<open>auto simp: delayed_ok_def\<close>)
  qed (use d1 in simp)
qed

lemma collect_authorized_runs:
  assumes wf: "wf_store sg" and ids: "\<forall>x \<in> set ids. field_id_ok sg x" and d: "delayed_ok sg z ctx del" and f: "f < length (fg_fields (e_out ctx))"
  shows "runs False (collect_authorized sg f parent out ids del) (delayed_ok sg z ctx)"
  unfolding collect_authorized_def
proof (rule runs_foldM [where I = "delayed_ok sg z ctx", OF d])
  fix x del1 assume x: "x \<in> set ids" and d1: "delayed_ok sg z ctx del1"
  show "runs False (do { field \<leftarrow> walk_field sg x;
         Some (case authorized sg (field_directives field) of
            None \<Rightarrow> del1
          | Some directive \<Rightarrow> del1\<lparr>del_authorized := del_authorized del1 @
              [\<lparr>af_parent = parent, af_field_id = f, af_output = out, af_directive = directive\<rparr>]\<rparr>) }) (delayed_ok sg z ctx)"
    by (rule runs_bind [OF walk_field_runs [OF wf]])
      (use ids x d1 f site_lookup_ok(3) [OF wf] in \<open>auto simp: delayed_ok_def split: option.split\<close>)
qed

text \<open>A field of the graph that stands for a field of the representation, before its selections are attached.\<close>

definition field_emitted :: "Subgraphs \<Rightarrow> EmitContext \<Rightarrow> FieldIr \<Rightarrow> fed_Field \<Rightarrow> bool" where
  "field_emitted sg ctx f x \<longleftrightarrow> vec_index (e_strings_ir ctx) (ff_name x) = as_str sg (f_field_name f) \<and> as_str sg (f_field_name f) \<noteq> None
     \<and> type_emitted sg ctx (f_field_type f) (ff_type x) \<and> ff_arguments x = f_arguments f \<and> ff_resolvable_in x = f_resolvable_in f
     \<and> ff_overrides x = f_overrides f \<and> ff_composed_directives x = f_composed_directives f \<and> ff_description x = f_description f"

lemma field_emitted_mono:
  assumes "emit_step z ctx ctx'" and "field_emitted sg ctx f x"
  shows "field_emitted sg ctx' f x"
proof -
  have "prefix (e_strings_ir ctx) (e_strings_ir ctx')" using assms(1) by (simp add: emit_step_def graph_extends_def)
  then have "vec_index (e_strings_ir ctx) i = Some s \<Longrightarrow> vec_index (e_strings_ir ctx') i = Some s" for i s
    by (auto simp: prefix_def vec_index_eq_Some nth_append)
  then show ?thesis using assms type_emitted_mono [OF assms(1)] by (auto simp: field_emitted_def)
qed

lemma collect_provides_out: "collect_provides sg f ids (del, ctx) = Some (del', ctx') \<Longrightarrow> e_out ctx' = e_out ctx"
proof -
  assume c: "collect_provides sg f ids (del, ctx) = Some (del', ctx')"
  have "runs False (collect_provides sg f ids (del, ctx)) (\<lambda>s. e_out (snd s) = e_out ctx)"
    unfolding collect_provides_def
    by (rule runs_foldM [where I = "\<lambda>s. e_out (snd s) = e_out ctx"])
      (auto simp: runs_partial bind_eq_Some_conv emit_insert_string_def split_beta split: option.splits)
  with c show ?thesis by (simp add: runs_partial)
qed

lemma emit_field_exact:
  assumes wf: "wf_store sg" and z: "n_subgraphs z = length (sg_subgraphs sg)" and ir: "ir_emitting ir z ctx"
    and e: "emit_wf z ctx" "cache_ok sg ctx" and d: "delayed_ok sg z ctx del" and f: "field_ir_ok sg ir f"
  shows "runs False (emit_field sg target f (del, ctx)) (\<lambda>s. fields_step sg z ctx s
    \<and> (\<exists>x. fg_fields (e_out (snd s)) = fg_fields (e_out ctx) @ [x] \<and> field_emitted sg (snd s) f x))"
proof -
  let ?Q = "\<lambda>s. fields_step sg z ctx s \<and> (\<exists>x. fg_fields (e_out (snd s)) = fg_fields (e_out ctx) @ [x] \<and> field_emitted sg (snd s) f x)"
  have ok: "type_ok sg (f_field_type f)" "str_ok sg (f_field_name f)" "args_ok ir (f_arguments f)" "dirs_ok ir (f_composed_directives f)"
    "opt_ok (fstr_ok ir) (f_description f)" "\<forall>x \<in> set (f_provides f). field_id_ok sg x" "\<forall>x \<in> set (f_requires f). field_id_ok sg x"
    "\<forall>x \<in> set (f_authorized_directives f). field_id_ok sg x"
    "\<forall>s \<in> set (f_resolvable_in f). subgraph_ok sg s" "\<forall>ov \<in> set (f_overrides f). override_ok sg ir ov"
    using f by (auto simp: field_ir_ok_def)
  show ?thesis
    unfolding emit_field_def prod.case Let_def push_return_idx_def
  proof (rule runs_bind [OF insert_field_type_runs [OF wf e(1) ok(1) e(2)]], simp, clarify,
      rule runs_bind [OF emit_insert_string_runs [OF type_step_wf ok(2)]], assumption, clarify)
    fix ty ctx1 name ctx2
    assume 1: "type_step z ctx ctx1" "cache_ok sg ctx1" "gtype_ok (graph_of ctx1) ty" "type_emitted sg ctx1 (f_field_type f) ty"
      and 2: "emit_str z ctx1 ctx2" "gstr_ok (graph_of ctx2) name" "vec_index (e_strings_ir ctx2) name = as_str sg (f_field_name f)"
    let ?x = "\<lparr>ff_name = name, ff_type = ty, ff_arguments = f_arguments f, ff_resolvable_in = f_resolvable_in f,
                  ff_provides = [], ff_requires = [], ff_overrides = f_overrides f,
                  ff_composed_directives = f_composed_directives f, ff_description = f_description f\<rparr>"
    let ?n = "length (fg_fields (e_out ctx2))"
    let ?c = "ctx2\<lparr>e_out := (e_out ctx2)\<lparr>fg_fields := fg_fields (e_out ctx2) @ [?x]\<rparr>\<rparr>"
    have m2: "main_step sg z ctx ctx2" using main_step_trans [OF type_step_main [OF 1(1,2)] emit_str_main [OF 2(1) 1(2)]] .
    note oks = ir_emitting_oks [OF ir_emitting_mono [OF ir main_step_extends [OF m2]]]
    have ov: "gsource_ok z (graph_of ctx2) (ov_from ov)" "ov_graph ov < n_subgraphs z" if "ov \<in> set (f_overrides f)" for ov
      using that ok(10) oks(1) z by (cases "ov_from ov"; fastforce simp: override_ok_def subgraph_ok_def)+
    have ok2: "gitem_ok z (graph_of ctx2) (G_Field ?x)"
      using oks(4) [OF ok(3)] oks(3) [OF ok(4)] oks(2) [OF ok(5)] gtype_ok_mono [OF emit_str_extends [OF 2(1)] 1(3)] 2(2) ok(9) ov z
      by (auto simp: gfield_ok_def subgraph_ok_def)
    have em2: "field_emitted sg ctx2 f ?x"
      using 2(2,3) type_emitted_mono [OF emit_str_step [OF 2(1)] 1(4)] by (cases "as_str sg (f_field_name f)") (simp_all add: field_emitted_def gstr_ok_def vec_index_def)
    have out2: "fg_fields (e_out ctx2) = fg_fields (e_out ctx)" using 1(1) 2(1) by (simp add: type_step_def emit_str_def)
    have ext: "graph_extends (graph_of ctx2) (graph_of ?c)" by (simp add: graph_extends_def)
    have m23: "main_step sg z ctx2 ?c"
    proof (rule set_out_main [OF main_step_wf [OF m2] main_step_cache [OF m2] ext])
      show "gholds (graph_of ?c) k \<Longrightarrow> gholds (graph_of ctx2) k \<or> gitem_ok z (graph_of ?c) k" for k
        using gitem_ok_mono [OF ext ok2] by (cases k) (auto simp del: gitem_ok.simps)
    qed (simp add: emit_counts_def)
    have m3: "main_step sg z ctx ?c" by (rule main_step_trans [OF m2 m23])
    have len: "length (fg_fields (e_out ctx)) \<le> length (fg_fields (e_out ?c))" "?n < length (fg_fields (e_out ?c))"
      using main_step_extends [OF m3] by (auto simp: graph_extends_def)
    show "runs False (do {
        (del1, ctx4) \<leftarrow> collect_provides sg ?n (f_provides f) (del, ?c);
        del2 \<leftarrow> collect_requires sg ?n target (f_requires f) del1;
        del3 \<leftarrow> collect_authorized sg ?n target (ty_definition ty) (f_authorized_directives f) del2;
        Some (del3, ctx4\<lparr>e_selection_map := (e_selection_map ctx4)((target, name) \<mapsto> ?n)\<rparr>) }) ?Q"
    proof (rule runs_bind_eq [OF collect_provides_runs [OF wf z ok(6) main_step_wf [OF m3] main_step_cache [OF m3] delayed_ok_mono [OF len(1) d] len(2)]])
      fix p assume pe: "collect_provides sg ?n (f_provides f) (del, ?c) = Some p" and "fields_step sg z ?c p"
      obtain del1 ctx4 where p: "p = (del1, ctx4)" by fastforce
      have m34: "main_step sg z ?c ctx4" and d1: "delayed_ok sg z ctx4 del1" using \<open>fields_step sg z ?c p\<close> by (simp_all add: fields_step_def p)
      have m4: "main_step sg z ctx ctx4" using main_step_trans [OF m3 m34] .
      have n4: "?n < length (fg_fields (e_out ctx4))" using main_step_extends [OF m34] len(2) by (auto simp: graph_extends_def)
      let ?c4 = "ctx4\<lparr>e_selection_map := (e_selection_map ctx4)((target, name) \<mapsto> ?n)\<rparr>"
      have g: "graph_of ?c4 = graph_of ctx4" by (simp add: graph_of_def)
      have s4: "emit_step z ctx4 ?c4"
        by (rule emit_frame [OF main_step_wf [OF m4]]) (use main_step_wf [OF m4] n4 in \<open>auto simp: g emit_wf_def graph_wf_at_def split: if_splits\<close>)
      have m45: "main_step sg z ctx4 ?c4"
        using s4 cache_ok_mono [OF s4 _ main_step_cache [OF m4]] by (simp add: main_step_def emit_counts_def)
      have m5: "main_step sg z ctx ?c4" by (rule main_step_trans [OF m4 m45])
      have x: "fg_fields (e_out ?c4) = fg_fields (e_out ctx) @ [?x]" using collect_provides_out [OF pe [unfolded p]] out2 by simp
      have em: "field_emitted sg ?c4 f ?x"
        by (rule field_emitted_mono [OF main_step_step [OF main_step_trans [OF m23 main_step_trans [OF m34 m45]]] em2])
      show "runs False (case p of (del1, ctx4) \<Rightarrow> do {
          del2 \<leftarrow> collect_requires sg ?n target (f_requires f) del1;
          del3 \<leftarrow> collect_authorized sg ?n target (ty_definition ty) (f_authorized_directives f) del2;
          Some (del3, ctx4\<lparr>e_selection_map := (e_selection_map ctx4)((target, name) \<mapsto> ?n)\<rparr>) }) ?Q"
        unfolding p prod.case
        by (rule runs_bind [OF collect_requires_runs [OF wf z ok(7) d1 n4]], rule runs_bind [OF collect_authorized_runs [OF wf ok(8) _ n4]], assumption)
          (use m5 x em in \<open>auto simp: fields_step_def delayed_ok_def\<close>)
    qed
  qed
qed

lemmas emit_field_runs = runs_mono [OF emit_field_exact conjunct1]

text \<open>The fields of a group, in the order of the loop.\<close>

lemma emit_fields_exact:
  assumes wf: "wf_store sg" and z: "n_subgraphs z = length (sg_subgraphs sg)" and ir: "ir_emitting ir z ctx"
    and e: "emit_wf z ctx" "cache_ok sg ctx" and d: "delayed_ok sg z ctx del" and f: "\<forall>f \<in> set fs. field_ir_ok sg ir f"
  shows "runs False (foldM (emit_field sg target) fs (del, ctx)) (\<lambda>s. fields_step sg z ctx s
    \<and> (\<exists>xs. fg_fields (e_out (snd s)) = fg_fields (e_out ctx) @ xs \<and> list_all2 (field_emitted sg (snd s)) fs xs))"
  using ir e d f
proof (induction fs arbitrary: del ctx)
  case (Cons g fs)
  show ?case
    unfolding foldM.simps
  proof (rule runs_bind [OF emit_field_exact [OF wf z Cons.prems(1-4)]], goal_cases)
    case (2 s)
    obtain del1 ctx1 x where s: "s = (del1, ctx1)" and m: "main_step sg z ctx ctx1" and d1: "delayed_ok sg z ctx1 del1"
      and x: "fg_fields (e_out ctx1) = fg_fields (e_out ctx) @ [x]" "field_emitted sg ctx1 g x"
      using 2 by (cases s) (auto simp: fields_step_def)
    have "runs False (foldM (emit_field sg target) fs (del1, ctx1)) (\<lambda>s. fields_step sg z ctx1 s
      \<and> (\<exists>xs. fg_fields (e_out (snd s)) = fg_fields (e_out ctx1) @ xs \<and> list_all2 (field_emitted sg (snd s)) fs xs))"
      using Cons.IH [OF ir_emitting_mono [OF Cons.prems(1) main_step_extends [OF m]] main_step_wf [OF m] main_step_cache [OF m] d1] Cons.prems(5) by simp
    then show ?case
      unfolding s
    proof (rule runs_mono)
      fix s' assume "fields_step sg z ctx1 s'
        \<and> (\<exists>xs. fg_fields (e_out (snd s')) = fg_fields (e_out ctx1) @ xs \<and> list_all2 (field_emitted sg (snd s')) fs xs)"
      then obtain xs where xs: "fields_step sg z ctx1 s'" "fg_fields (e_out (snd s')) = fg_fields (e_out ctx1) @ xs"
        "list_all2 (field_emitted sg (snd s')) fs xs" by blast
      then have m1: "main_step sg z ctx1 (snd s')" by (simp add: fields_step_def)
      have "fields_step sg z ctx s'" using xs(1) main_step_trans [OF m m1] by (simp add: fields_step_def)
      moreover have "list_all2 (field_emitted sg (snd s')) (g # fs) (x # xs)"
        using xs(3) field_emitted_mono [OF main_step_step [OF m1] x(2)] by simp
      ultimately show "fields_step sg z ctx s' \<and> (\<exists>xs. fg_fields (e_out (snd s')) = fg_fields (e_out ctx) @ xs
          \<and> list_all2 (field_emitted sg (snd s')) (g # fs) xs)" using xs(2) x(1) by auto
    qed
  qed (use Cons.prems in simp)
qed (simp add: fields_step_def main_step_refl)

lemmas emit_fields_loop_runs = runs_mono [OF emit_fields_exact conjunct1]

lemma introspection_field_ok:
  "gdef_ok (graph_of ctx) d \<Longrightarrow> gstr_ok (graph_of ctx) n \<Longrightarrow> gfield_ok z (graph_of ctx) (introspection_field d n)"
  by (simp add: gfield_ok_def introspection_field_def gtype_ok_def new_wrapping_wf gargs_ok_def gdirs_ok_def NO_INPUT_VALUE_DEFINITION_def NO_DIRECTIVES_def)

lemma set_group_fields_runs:
  assumes e: "emit_wf z ctx" "cache_ok sg ctx" and d: "gdef_ok (graph_of ctx) d" and n: "gstr_ok (graph_of ctx) n1" "gstr_ok (graph_of ctx) n2"
    and r: "gfields_ok (graph_of ctx) r"
  shows "runs False (set_group_fields n1 n2 d r ctx) (main_step sg z ctx)"
proof (cases d)
  case (Fed_Object i)
  let ?xs = "map (introspection_field d) [n1, n2]"
  let ?c = "ctx\<lparr>e_out := (e_out ctx)\<lparr>fg_fields := fg_fields (e_out ctx) @ ?xs\<rparr>\<rparr>"
  have ext: "graph_extends (graph_of ctx) (graph_of ?c)" by (simp add: graph_extends_def)
  have xs: "\<forall>x \<in> set ?xs. gitem_ok z (graph_of ?c) (G_Field x)"
    using gitem_ok_mono [OF ext, of z "G_Field (introspection_field d n1)"] gitem_ok_mono [OF ext, of z "G_Field (introspection_field d n2)"]
      introspection_field_ok [OF d n(1)] introspection_field_ok [OF d n(2)] by simp
  have m: "main_step sg z ctx ?c"
  proof (rule set_out_main [OF e ext])
    show "gholds (graph_of ?c) k \<Longrightarrow> gholds (graph_of ctx) k \<or> gitem_ok z (graph_of ?c) k" for k using xs by (cases k) auto
  qed (simp add: emit_counts_def)
  have "runs False (update_object i (\<lambda>obj. obj\<lparr>fo_fields := (fst r, snd r + 2)\<rparr>) ?c) (main_step sg z ctx)"
    by (rule runs_mono [OF update_object_runs [OF main_step_wf [OF m] main_step_cache [OF m]] main_step_trans [OF m]])
      (use r in \<open>auto simp: gfields_ok_def\<close>)
  moreover have "runs False (update_object i (\<lambda>obj. obj\<lparr>fo_fields := r\<rparr>) ctx) (main_step sg z ctx)"
    by (rule update_object_runs [OF e]) (use r in auto)
  ultimately show ?thesis unfolding set_group_fields_def Fed_Object fed_Definition.case by (intro runs_if)
next
  case (Fed_Interface i)
  have "runs False (update_interface i (\<lambda>x. x\<lparr>fi_fields := r\<rparr>) ctx) (main_step sg z ctx)"
    by (rule update_interface_runs [OF e]) (use r in auto)
  then show ?thesis by (simp add: set_group_fields_def Fed_Interface)
qed (simp_all add: set_group_fields_def)

lemma mapM_set: "mapM f xs = Some ys \<Longrightarrow> y \<in> set ys \<Longrightarrow> \<exists>x \<in> set xs. f x = Some y"
  by (induction xs arbitrary: ys) (auto simp: bind_eq_Some_conv)

lemma sort_by_name_set: "sort_by_name sg fs = Some gs \<Longrightarrow> set gs \<subseteq> set fs"
  by (auto simp: sort_by_name_def bind_eq_Some_conv elim!: in_set_zipE)

lemma entity_interface_fields_set: "entity_interface_fields all s d ctx = Some gs \<Longrightarrow> set gs \<subseteq> set all"
  by (auto simp: entity_interface_fields_def bind_eq_Some_conv split: fed_Definition.splits prod.splits dest!: mapM_set vec_index_mem)

lemma emit_field_group_runs:
  assumes wf: "wf_store sg" and z: "n_subgraphs z = length (sg_subgraphs sg)" and ir: "ir_emitting ir z ctx"
    and e: "emit_wf z ctx" "cache_ok sg ctx" and d: "delayed_ok sg z ctx del" and f: "\<forall>f \<in> set all. field_ir_ok sg ir f"
    and g: "set fs \<subseteq> set all" and n: "gstr_ok (graph_of ctx) n1" "gstr_ok (graph_of ctx) n2"
  shows "runs False (emit_field_group sg all from_entity n1 n2 fs (del, ctx)) (fields_step sg z ctx)"
  unfolding emit_field_group_def prod.case Let_def
proof (rule runs_bind_eq [OF runs_any], rule runs_bind_eq [OF runs_any], rule runs_bind_eq [OF runs_any])
  fix target more gs
  assume t: "map_option f_parent_definition (vec_index fs 0) = Some target" and m: "entity_interface_fields all from_entity target ctx = Some more"
    and s: "sort_by_name sg (fs @ more) = Some gs"
  have "set gs \<subseteq> set all" using sort_by_name_set [OF s] entity_interface_fields_set [OF m] g by auto
  then have gs: "\<forall>f \<in> set gs. field_ir_ok sg ir f" using f by blast
  have tok: "gdef_ok (graph_of ctx) target"
    using t g f ir_emitting_oks(5) [OF ir] by (auto simp: field_ir_ok_def dest!: vec_index_mem)
  show "runs False (do { (del1, ctx1) \<leftarrow> foldM (emit_field sg target) gs (del, ctx);
      ctx2 \<leftarrow> set_group_fields n1 n2 target (group_fields (length (fg_fields (e_out ctx))) (length (fg_fields (e_out ctx1)))) ctx1;
      Some (del1, ctx2) }) (fields_step sg z ctx)"
  proof (rule runs_bind [OF emit_fields_loop_runs [OF wf z ir e d gs]])
    fix p assume p: "fields_step sg z ctx p"
    obtain del1 ctx1 where p': "p = (del1, ctx1)" by fastforce
    have m1: "main_step sg z ctx ctx1" and d1: "delayed_ok sg z ctx1 del1" using p by (simp_all add: p' fields_step_def)
    have r: "gfields_ok (graph_of ctx1) (group_fields (length (fg_fields (e_out ctx))) (length (fg_fields (e_out ctx1))))"
      by (simp add: gfields_ok_def group_fields_def NO_FIELDS_def)
    show "runs False (case p of (del1, ctx1) \<Rightarrow> do {
        ctx2 \<leftarrow> set_group_fields n1 n2 target (group_fields (length (fg_fields (e_out ctx))) (length (fg_fields (e_out ctx1)))) ctx1;
        Some (del1, ctx2) }) (fields_step sg z ctx)"
      unfolding p' prod.case
    proof (rule runs_bind [OF set_group_fields_runs [OF main_step_wf [OF m1] main_step_cache [OF m1] gdef_ok_mono [OF main_step_extends [OF m1] tok]
            gstr_ok_mono [OF main_step_extends [OF m1] n(1)] gstr_ok_mono [OF main_step_extends [OF m1] n(2)] r]])
      fix ctx2 assume m2: "main_step sg z ctx1 ctx2"
      have "delayed_ok sg z ctx2 del1" using delayed_ok_mono [OF _ d1] main_step_extends [OF m2] by (simp add: graph_extends_def)
      then show "runs False (Some (del1, ctx2)) (fields_step sg z ctx)" using main_step_trans [OF m1 m2] by (simp add: fields_step_def)
    qed
  qed
qed

subsection \<open>The fields of a definition\<close>

lemma mapM_pairs: "list_all2 (\<lambda>n x. f x = Some n) ns xs \<Longrightarrow> mapM f xs = Some ns"
  by (induction rule: list_all2_induct) simp_all

lemma mapM_pairs_inv: "mapM f xs = Some ns \<Longrightarrow> list_all2 (\<lambda>n x. f x = Some n) ns xs"
  by (induction xs arbitrary: ns) (auto simp: bind_eq_Some_conv)

lemma sort_by_name_exact:
  assumes "sort_by_name sg fs = Some gs"
  shows "mset gs = mset fs" and "\<exists>names. mapM (\<lambda>f. as_str sg (f_field_name f)) gs = Some names \<and> sorted names"
proof -
  obtain ns where ns: "mapM (\<lambda>f. as_str sg (f_field_name f)) fs = Some ns" and gs: "gs = map snd (sort_key fst (zip ns fs))"
    using assms by (auto simp: sort_by_name_def bind_eq_Some_conv)
  note all = mapM_pairs_inv [OF ns]
  have len: "length ns = length fs" using all by (rule list_all2_lengthD)
  have "mset gs = image_mset snd (mset (zip ns fs))" by (simp add: gs)
  then show "mset gs = mset fs" using len by (metis map_snd_zip mset_map)
  let ?ps = "sort_key fst (zip ns fs)"
  have "\<forall>(n, f) \<in> set (zip ns fs). as_str sg (f_field_name f) = Some n" using all by (auto simp: list_all2_iff)
  then have "list_all2 (\<lambda>n f. as_str sg (f_field_name f) = Some n) (map fst ?ps) (map snd ?ps)"
    by (simp add: list_all2_map1 list_all2_map2 list_all2_same split_beta)
  then have "mapM (\<lambda>f. as_str sg (f_field_name f)) gs = Some (map fst ?ps)" unfolding gs by (rule mapM_pairs)
  then show "\<exists>names. mapM (\<lambda>f. as_str sg (f_field_name f)) gs = Some names \<and> sorted names" by auto
qed

text \<open>The fields the graph gives to a definition.\<close>

definition definition_fields :: "FederatedGraph \<Rightarrow> fed_Definition \<Rightarrow> fed_Field list panicking" where
  "definition_fields g d = (case d of
     Fed_Object i \<Rightarrow> do { x \<leftarrow> vec_index (fg_objects g) i; graph_fields g (fo_fields x) }
   | Fed_Interface i \<Rightarrow> do { x \<leftarrow> vec_index (fg_interfaces g) i; graph_fields g (fi_fields x) }
   | _ \<Rightarrow> None)"

text \<open>The two fields that are added to the query type.\<close>

definition query_fields :: "FederatedGraph \<Rightarrow> fed_Definition \<Rightarrow> fed_StringId \<Rightarrow> fed_StringId \<Rightarrow> fed_Field list" where
  "query_fields g d n1 n2 = (if d = Fed_Object (root_query (fg_root_operation_types g)) then map (introspection_field d) [n1, n2] else [])"

lemma vec_slice_append: "vec_slice (xs @ ys) (length xs) (length xs + length ys) = Some ys"
  by (simp add: vec_slice_def)

lemma set_group_fields_exact:
  assumes s: "set_group_fields n1 n2 d (length pre, length pre + length xs) ctx = Some ctx'" and fs: "fg_fields (e_out ctx) = pre @ xs"
  defines "intro \<equiv> query_fields (e_out ctx) d n1 n2"
  shows "fg_fields (e_out ctx') = pre @ xs @ intro" and "definition_fields (e_out ctx') d = Some (xs @ intro)"
proof -
  have "vec_slice (pre @ xs @ intro) (length pre) (length pre + length (xs @ intro)) = Some (xs @ intro)" by (rule vec_slice_append)
  then have sl: "vec_slice (pre @ xs @ intro) (length pre) (length pre + (length xs + length intro)) = Some (xs @ intro)" by simp
  show "fg_fields (e_out ctx') = pre @ xs @ intro"
    using s by (auto simp: set_group_fields_def update_object_def update_interface_def fs intro_def query_fields_def bind_eq_Some_conv split: fed_Definition.splits if_splits)
  show "definition_fields (e_out ctx') d = Some (xs @ intro)"
    using s sl by (auto simp: set_group_fields_def update_object_def update_interface_def fs intro_def query_fields_def bind_eq_Some_conv definition_fields_def
        vec_update_def vec_index_def graph_fields_def split: fed_Definition.splits if_splits)
qed

lemma emit_field_group_exact:
  assumes wf: "wf_store sg" and z: "n_subgraphs z = length (sg_subgraphs sg)" and ir: "ir_emitting ir z ctx"
    and e: "emit_wf z ctx" "cache_ok sg ctx" and d: "delayed_ok sg z ctx del" and f: "\<forall>f \<in> set all. field_ir_ok sg ir f"
    and g: "set fs \<subseteq> set all" and n: "gstr_ok (graph_of ctx) n1" "gstr_ok (graph_of ctx) n2"
    and eq: "emit_field_group sg all from_entity n1 n2 fs (del, ctx) = Some (del', ctx')"
  shows "\<exists>d more gs names xs. map_option f_parent_definition (vec_index fs 0) = Some d \<and> entity_interface_fields all from_entity d ctx = Some more
    \<and> mset gs = mset (fs @ more) \<and> mapM (\<lambda>f. as_str sg (f_field_name f)) gs = Some names \<and> sorted names
    \<and> list_all2 (field_emitted sg ctx') gs xs \<and> definition_fields (e_out ctx') d = Some (xs @ query_fields (e_out ctx) d n1 n2)"
proof -
  obtain d more gs del1 ctx1 where d': "map_option f_parent_definition (vec_index fs 0) = Some d"
    and more: "entity_interface_fields all from_entity d ctx = Some more" and gs: "sort_by_name sg (fs @ more) = Some gs"
    and loop: "foldM (emit_field sg d) gs (del, ctx) = Some (del1, ctx1)"
    and fin: "set_group_fields n1 n2 d (group_fields (length (fg_fields (e_out ctx))) (length (fg_fields (e_out ctx1)))) ctx1 = Some ctx'"
    using eq by (auto simp: emit_field_group_def Let_def bind_eq_Some_conv)
  have ok: "\<forall>f \<in> set gs. field_ir_ok sg ir f"
    using f g entity_interface_fields_set [OF more] sort_by_name_set [OF gs] by auto
  obtain xs where m: "main_step sg z ctx ctx1" and xs: "fg_fields (e_out ctx1) = fg_fields (e_out ctx) @ xs" "list_all2 (field_emitted sg ctx1) gs xs"
    using emit_fields_exact [OF wf z ir e d ok, of d] loop by (auto simp: runs_partial fields_step_def)
  have "gs \<noteq> []" using sort_by_name_exact(1) [OF gs] d' by (cases fs) (auto simp: vec_index_def)
  then have "xs \<noteq> []" using xs(2) by auto
  then have r: "group_fields (length (fg_fields (e_out ctx))) (length (fg_fields (e_out ctx1))) = (length (fg_fields (e_out ctx)), length (fg_fields (e_out ctx)) + length xs)"
    by (simp add: group_fields_def xs)
  have q: "fg_root_operation_types (e_out ctx1) = fg_root_operation_types (e_out ctx)" using main_step_extends [OF m] by (simp add: graph_extends_def)
  note mono = main_step_extends [OF m]
  have "gdef_ok (graph_of ctx) d" using d' g f ir_emitting_oks(5) [OF ir] by (auto simp: field_ir_ok_def dest!: vec_index_mem)
  then have "runs False (set_group_fields n1 n2 d (group_fields (length (fg_fields (e_out ctx))) (length (fg_fields (e_out ctx1)))) ctx1) (main_step sg z ctx1)"
    by (intro set_group_fields_runs main_step_wf [OF m] main_step_cache [OF m] gdef_ok_mono [OF mono] gstr_ok_mono [OF mono] n)
      (assumption, unfold r, simp add: gfields_ok_def xs)
  then have m1: "main_step sg z ctx1 ctx'" using fin by (simp add: runs_partial)
  have "list_all2 (field_emitted sg ctx') gs xs"
    using xs(2) by (rule list_all2_mono) (rule field_emitted_mono [OF main_step_step [OF m1]])
  moreover have "query_fields (e_out ctx1) d n1 n2 = query_fields (e_out ctx) d n1 n2" by (simp add: query_fields_def q)
  ultimately show ?thesis
    using d' more sort_by_name_exact [OF gs] set_group_fields_exact(2) [OF fin [unfolded r] xs(1)] by metis
qed

lemma group_slices_any_runs:
  "I s \<Longrightarrow> (\<And>xs s. set xs \<subseteq> set all \<Longrightarrow> I s \<Longrightarrow> runs t (body xs s) I) \<Longrightarrow> runs t (group_slices key body all start s) I"
proof (induction key body all start s rule: group_slices.induct)
  case (1 key body all start s)
  show ?case
  proof (cases "start < length all")
    case True
    define e where "e = partition_point (\<lambda>x. key x = key (all ! start)) (drop start all) + start"
    have "set (take (e - start) (drop start all)) \<subseteq> set all" using set_take_subset set_drop_subset by fast
    then have "runs t (body (take (e - start) (drop start all)) s) I" using "1.prems" by blast
    then show ?thesis
      unfolding group_slices.simps [of key body all start s] Let_def e_def [symmetric] if_P [OF True]
      by (rule runs_bind_eq) (rule "1.IH" [OF True refl e_def _ _ "1.prems"(2)])
  qed (simp add: group_slices.simps [of key body all start s] "1.prems")
qed

lemma emit_provides_runs:
  assumes e: "emit_wf z ctx" "cache_ok sg ctx" and d: "s < n_subgraphs z" "selections_ok sg sel"
  shows "runs False (emit_provides sg (f, s, target, sel) ctx) (main_step sg z ctx)"
    and "runs False (emit_requires sg (f, s, target, sel) ctx) (main_step sg z ctx)"
proof -
  have upd: "runs False (update_field f g ctx1) (main_step sg z ctx)"
    if "emit_str z ctx ctx1" "\<And>x. gfield_ok z (graph_of ctx1) x \<Longrightarrow> gfield_ok z (graph_of ctx1) (g x)" for g ctx1
  proof -
    have m: "main_step sg z ctx ctx1" by (rule emit_str_main [OF that(1) e(2)])
    show ?thesis
      by (rule runs_mono [OF update_field_runs [OF main_step_wf [OF m] main_step_cache [OF m]] main_step_trans [OF m]]) (use that(2) in auto)
  qed
  show "runs False (emit_provides sg (f, s, target, sel) ctx) (main_step sg z ctx)"
    unfolding emit_provides_def prod.case
    by (rule runs_bind [OF attach_selection_runs [OF e(1) d(2)]], clarify, rule upd, assumption) (use d(1) in \<open>auto simp: gfield_ok_def\<close>)
  show "runs False (emit_requires sg (f, s, target, sel) ctx) (main_step sg z ctx)"
    unfolding emit_requires_def prod.case
    by (rule runs_bind [OF attach_selection_runs [OF e(1) d(2)]], clarify, rule upd, assumption) (use d(1) in \<open>auto simp: gfield_ok_def\<close>)
qed

lemma push_authorized_directive_step:
  assumes e: "emit_wf z ctx" "cache_ok sg ctx" and a: "gitem_ok z (graph_of ctx) (G_Authorized a)" and p: "push_authorized_directive a ctx = (i, ctx')"
  shows "main_step sg z ctx ctx' \<and> i < length (fg_authorized_directives (e_out ctx'))"
proof -
  let ?c = "ctx\<lparr>e_out := (e_out ctx)\<lparr>fg_authorized_directives := fg_authorized_directives (e_out ctx) @ [a]\<rparr>\<rparr>"
  have ctx': "ctx' = ?c" "i = length (fg_authorized_directives (e_out ctx))" using p by (auto simp: push_authorized_directive_def push_return_idx_def)
  have ext: "graph_extends (graph_of ctx) (graph_of ?c)" by (simp add: graph_extends_def)
  have "main_step sg z ctx ?c"
  proof (rule set_out_main [OF e ext])
    show "gholds (graph_of ?c) k \<Longrightarrow> gholds (graph_of ctx) k \<or> gitem_ok z (graph_of ?c) k" for k
      using gitem_ok_mono [OF ext a] by (cases k) (auto simp del: gitem_ok.simps)
  qed (simp add: emit_counts_def)
  then show ?thesis by (simp add: ctx')
qed
lemma authorized_entry_step:
  assumes e: "emit_wf z ctx" "cache_ok sg ctx" and ext: "graph_extends (graph_of ctx) (graph_of (ctx\<lparr>e_out := g\<rparr>))"
    and items: "\<And>k. gholds (graph_of (ctx\<lparr>e_out := g\<rparr>)) k \<Longrightarrow> gholds (graph_of ctx) k \<or> k = x" and x: "gitem_ok z (graph_of ctx) x"
    and counts: "emit_counts (ctx\<lparr>e_out := g\<rparr>) = emit_counts ctx"
  shows "main_step sg z ctx (ctx\<lparr>e_out := g\<rparr>)"
  by (rule set_out_main [OF e ext _ counts]) (use items gitem_ok_mono [OF ext x] in blast)

lemma emit_field_authorized_runs:
  assumes e: "emit_wf z ctx" "cache_ok sg ctx" and f: "af_field_id a < length (fg_fields (e_out ctx))" and a: "authorized_ok sg (af_directive a)"
  shows "runs False (emit_field_authorized sg a ctx) (main_step sg z ctx)"
proof -
  have ok: "opt_ok (selections_ok sg) (auth_arguments (af_directive a))" "opt_ok (selections_ok sg) (auth_fields (af_directive a))"
    "opt_ok (selections_ok sg) (auth_node (af_directive a))" "opt_ok (value_ok sg) (auth_metadata (af_directive a))"
    using a by (simp_all add: authorized_ok_def)
  have args: "runs False (case auth_arguments (af_directive a) of None \<Rightarrow> Some (None, c)
      | Some args \<Rightarrow> do { (x, ctx') \<leftarrow> attach_argument_selection sg (af_field_id a) args c; Some (Some x, ctx') })
      (\<lambda>(x, ctx'). emit_str z c ctx' \<and> opt_ok (list_all (set_item_ok z)) x)" if "emit_wf z c" for c
    using ok(1) that by (cases "auth_arguments (af_directive a)") (auto intro: emit_str_refl intro!: runs_bind [OF attach_argument_selection_runs])
  show ?thesis
    unfolding emit_field_authorized_def Let_def
  proof (rule runs_bind [OF attach_selection_option_runs [OF e(1) ok(2)]], clarify,
      rule runs_bind [OF attach_selection_option_runs [OF emit_str_wf ok(3)]], assumption, clarify,
      rule runs_bind [OF insert_value_option_runs [OF emit_str_wf ok(4)]], assumption, clarify,
      rule runs_bind [OF args [OF emit_str_wf]], assumption, clarify, rule runs_case_prod)
    fix fs ctx1 nd ctx2 md ctx3 ag ctx4 idx ctx5
    assume 1: "emit_str z ctx ctx1" "opt_ok (gselections_ok z (graph_of ctx1)) fs" and 2: "emit_str z ctx1 ctx2" "opt_ok (gselections_ok z (graph_of ctx2)) nd"
      and 3: "emit_str z ctx2 ctx3" "opt_ok (gvalue_ok (graph_of ctx3)) md" and 4: "emit_str z ctx3 ctx4" "opt_ok (list_all (set_item_ok z)) ag"
      and p: "push_authorized_directive \<lparr>fa_fields = fs, fa_node = nd, fa_arguments = ag, fa_metadata = md\<rparr> ctx4 = (idx, ctx5)"
    have s34: "emit_str z ctx2 ctx4" using emit_str_trans [OF 3(1) 4(1)] .
    have s24: "emit_str z ctx1 ctx4" using emit_str_trans [OF 2(1) s34] .
    have m4: "main_step sg z ctx ctx4" by (rule emit_str_main [OF emit_str_trans [OF 1(1) s24] e(2)])
    have "opt_ok (gselections_ok z (graph_of ctx4)) fs" using 1(2) by (rule opt_ok_mono [rotated]) (rule gselections_ok_mono [OF emit_str_extends [OF s24]])
    moreover have "opt_ok (gselections_ok z (graph_of ctx4)) nd" using 2(2) by (rule opt_ok_mono [rotated]) (rule gselections_ok_mono [OF emit_str_extends [OF s34]])
    moreover have "opt_ok (gvalue_ok (graph_of ctx4)) md" using 3(2) by (rule opt_ok_mono [rotated]) (rule emit_str_mono(2) [OF 4(1)])
    ultimately have "main_step sg z ctx4 ctx5 \<and> idx < length (fg_authorized_directives (e_out ctx5))"
      using 4(2) by (intro push_authorized_directive_step [OF main_step_wf [OF m4] main_step_cache [OF m4] _ p]) simp
    then have m5: "main_step sg z ctx ctx5" and idx: "idx < length (fg_authorized_directives (e_out ctx5))" using main_step_trans [OF m4] by auto
    have f5: "af_field_id a < length (fg_fields (e_out ctx5))" using f main_step_extends [OF m5] by (auto simp: graph_extends_def)
    let ?g = "(e_out ctx5)\<lparr>fg_field_authorized_directives := fg_field_authorized_directives (e_out ctx5) @ [(af_field_id a, idx)]\<rparr>"
    have "main_step sg z ctx5 (ctx5\<lparr>e_out := ?g\<rparr>)"
    proof (rule authorized_entry_step [OF main_step_wf [OF m5] main_step_cache [OF m5]])
      show "gholds (graph_of (ctx5\<lparr>e_out := ?g\<rparr>)) k \<Longrightarrow> gholds (graph_of ctx5) k \<or> k = G_FieldAuthorized (af_field_id a) idx" for k by (cases k) auto
    qed (use f5 idx in \<open>simp_all add: graph_extends_def emit_counts_def\<close>)
    then show "runs False (Some (update_out (\<lambda>g. g\<lparr>fg_field_authorized_directives := fg_field_authorized_directives g @ [(af_field_id a, idx)]\<rparr>) ctx5)) (main_step sg z ctx)"
      using main_step_trans [OF m5] by simp
  qed
qed

lemma emit_delayed_runs:
  assumes "emit_wf z ctx" "cache_ok sg ctx" and "\<forall>(f, s, d, sel) \<in> set xs. s < n_subgraphs z \<and> selections_ok sg sel"
  shows "runs False (foldM (emit_provides sg) xs ctx) (main_step sg z ctx)" and "runs False (foldM (emit_requires sg) xs ctx) (main_step sg z ctx)"
proof -
  have x: "runs False (emit_provides sg x c) (main_step sg z c)" "runs False (emit_requires sg x c) (main_step sg z c)"
    if "x \<in> set xs" "emit_wf z c" "cache_ok sg c" for x c
    using emit_provides_runs [OF that(2,3)] assms(3) that(1) by (cases x; fastforce)+
  show "runs False (foldM (emit_provides sg) xs ctx) (main_step sg z ctx)" "runs False (foldM (emit_requires sg) xs ctx) (main_step sg z ctx)"
    by (rule main_foldM [OF _ assms(1,2)], erule (2) x)+
qed

lemma emit_fields_runs:
  assumes wf: "wf_store sg" and z: "n_subgraphs z = length (sg_subgraphs sg)" and ir: "ir_emitting ir z ctx"
    and e: "emit_wf z ctx" "cache_ok sg ctx" and f: "\<forall>f \<in> set fs. field_ir_ok sg ir f"
    and n: "gstr_ok (graph_of ctx) n1" "gstr_ok (graph_of ctx) n2"
  shows "runs False (emit_fields sg fs from_entity n1 n2 ctx) (main_step sg z ctx)"
proof -
  let ?del = "\<lparr>del_provides = [], del_requires = [], del_authorized = []\<rparr>"
  have 1: "runs False (emit_for_each_field_group fs (emit_field_group sg fs from_entity n1 n2) (?del, ctx)) (fields_step sg z ctx)"
    unfolding emit_for_each_field_group_def
  proof (rule group_slices_any_runs)
    show "fields_step sg z ctx (?del, ctx)" using main_step_refl [OF e] by (simp add: fields_step_def delayed_ok_def)
    fix xs s assume xs: "set xs \<subseteq> set fs" and s: "fields_step sg z ctx s"
    obtain del1 ctx1 where s': "s = (del1, ctx1)" by fastforce
    have m: "main_step sg z ctx ctx1" and d1: "delayed_ok sg z ctx1 del1" using s by (simp_all add: s' fields_step_def)
    note ext = main_step_extends [OF m]
    show "runs False (emit_field_group sg fs from_entity n1 n2 xs s) (fields_step sg z ctx)"
      unfolding s'
      by (rule runs_mono [OF emit_field_group_runs [OF wf z ir_emitting_mono [OF ir ext] main_step_wf [OF m] main_step_cache [OF m] d1 f xs
              gstr_ok_mono [OF ext n(1)] gstr_ok_mono [OF ext n(2)]]])
        (use main_step_trans [OF m] in \<open>auto simp: fields_step_def\<close>)
  qed
  show ?thesis
    unfolding emit_fields_def
  proof (rule runs_bind [OF 1])
    fix p assume p: "fields_step sg z ctx p"
    obtain del ctx1 where p': "p = (del, ctx1)" by fastforce
    have m1: "main_step sg z ctx ctx1" and d: "delayed_ok sg z ctx1 del" using p by (simp_all add: p' fields_step_def)
    have sel: "\<forall>(f, s, d, sel) \<in> set (del_provides del). s < n_subgraphs z \<and> selections_ok sg sel"
      "\<forall>(f, s, d, sel) \<in> set (del_requires del). s < n_subgraphs z \<and> selections_ok sg sel" using d by (fastforce simp: delayed_ok_def)+
    show "runs False (case p of (del, ctx1) \<Rightarrow> do {
        ctx2 \<leftarrow> foldM (emit_provides sg) (del_provides del) ctx1;
        ctx3 \<leftarrow> foldM (emit_requires sg) (del_requires del) ctx2;
        foldM (emit_field_authorized sg) (del_authorized del) ctx3 }) (main_step sg z ctx)"
      unfolding p' prod.case
    proof (rule runs_bind [OF emit_delayed_runs(1) [OF main_step_wf [OF m1] main_step_cache [OF m1] sel(1)]],
        rule runs_bind [OF emit_delayed_runs(2) [OF main_step_wf main_step_cache sel(2)]], assumption, assumption)
      fix ctx2 ctx3 assume m2: "main_step sg z ctx1 ctx2" and m3: "main_step sg z ctx2 ctx3"
      have m13: "main_step sg z ctx1 ctx3" using main_step_trans [OF m2 m3] .
      have m: "main_step sg z ctx ctx3" using main_step_trans [OF m1 m13] .
      have len: "length (fg_fields (e_out ctx1)) \<le> length (fg_fields (e_out ctx3))" using main_step_extends [OF m13] by (simp add: graph_extends_def)
      have "runs False (foldM (emit_field_authorized sg) (del_authorized del) ctx3) (main_step sg z ctx3)"
      proof (rule runs_foldM_rel [where R = "main_step sg z"])
        fix x c assume x: "x \<in> set (del_authorized del)" and c: "main_step sg z ctx3 c"
        have "af_field_id x < length (fg_fields (e_out c))"
          using x d len main_step_extends [OF c] by (fastforce simp: delayed_ok_def graph_extends_def)
        then show "runs False (emit_field_authorized sg x c) (main_step sg z c)"
          using x d by (intro emit_field_authorized_runs [OF main_step_wf [OF c] main_step_cache [OF c]]) (auto simp: delayed_ok_def)
      qed (rule main_step_refl [OF main_step_wf [OF m] main_step_cache [OF m]], erule main_step_trans)
      then show "runs False (foldM (emit_field_authorized sg) (del_authorized del) ctx3) (main_step sg z ctx)"
        by (rule runs_mono) (rule main_step_trans [OF m])
    qed
  qed
qed

subsection \<open>Unions, keys, authorizations\<close>

lemma emit_union_member_runs:
  assumes e: "emit_wf z ctx" "cache_ok sg ctx" and joins: "\<forall>(k, ss) \<in> set jm. \<forall>s \<in> set ss. s < n_subgraphs z"
  shows "runs False (emit_union_member jm u m ctx) (main_step sg z ctx)"
proof -
  obtain un mem where m: "m = (un, mem)" by fastforce
  have upd: "runs False (do { xs \<leftarrow> vec_update u (\<lambda>x. x\<lparr>fu_members := fu_members x @ [i],
        fu_join_members := fold (\<lambda>s. bs_insert (s, i)) js (fu_join_members x)\<rparr>) (fg_unions (e_out ctx));
      Some (update_out (\<lambda>g. g\<lparr>fg_unions := xs\<rparr>) ctx) }) (main_step sg z ctx)"
    if i: "i < length (fg_objects (e_out ctx))" and js: "\<forall>s \<in> set js. s < n_subgraphs z" for i js
  proof (rule runs_bind [OF vec_update_runs], simp)
    let ?f = "\<lambda>x. x\<lparr>fu_members := fu_members x @ [i], fu_join_members := fold (\<lambda>s. bs_insert (s, i)) js (fu_join_members x)\<rparr>"
    fix xs assume xs: "length xs = length (fg_unions (e_out ctx)) \<and> u < length (fg_unions (e_out ctx))
      \<and> set xs \<subseteq> insert (?f (fg_unions (e_out ctx) ! u)) (set (fg_unions (e_out ctx)))"
    have set_joins: "set (fold (\<lambda>s. bs_insert (s, i)) js ys) = (\<lambda>s. (s, i)) ` set js \<union> set ys" for ys by (induction js arbitrary: ys) auto
    have "main_step sg z ctx (update_out (\<lambda>g. g\<lparr>fg_unions := xs\<rparr>) ctx)"
    proof (rule replace_entry [where K = G_Union and x = "fg_unions (e_out ctx) ! u" and y = "?f (fg_unions (e_out ctx) ! u)", OF e])
      show "gholds (graph_of (update_out (\<lambda>g. g\<lparr>fg_unions := xs\<rparr>) ctx)) k \<Longrightarrow>
          gholds (graph_of ctx) k \<or> k = G_Union (?f (fg_unions (e_out ctx) ! u))" for k using xs by (cases k) auto
    qed (use xs i js in \<open>auto simp: graph_extends_def emit_counts_def set_joins\<close>)
    then show "runs False (Some (update_out (\<lambda>g. g\<lparr>fg_unions := xs\<rparr>) ctx)) (main_step sg z ctx)" by simp
  qed
  have joins': "\<forall>s \<in> set (case map_of jm k of None \<Rightarrow> [] | Some ids \<Rightarrow> ids). s < n_subgraphs z" for k
    using joins by (cases "map_of jm k") (auto dest!: map_of_SomeD)
  have def: "e_definitions ctx n = Some d \<Longrightarrow> gdef_ok (graph_of ctx) d" for n d using e(1) by (simp add: emit_wf_def)
  show ?thesis
    unfolding emit_union_member_def m prod.case Let_def
    apply (rule runs_bind_eq [OF runs_any])
    subgoal for d by (cases d) (simp_all only: fed_Definition.case runs_Some main_step_refl [OF e], rule upd [OF _ joins'], drule def, simp)
    done
qed

lemma emit_union_members_runs:
  assumes e: "emit_wf z ctx" "cache_ok sg ctx" and joins: "\<forall>(k, ss) \<in> set jm. \<forall>s \<in> set ss. s < n_subgraphs z"
  shows "runs False (emit_union_members ms jm ctx) (main_step sg z ctx)"
  unfolding emit_union_members_def
proof (rule main_foldM [OF _ e])
  fix chunk and c :: EmitContext assume c: "emit_wf z c" "cache_ok sg c"
  have fold: "runs False (foldM (emit_union_member jm u) chunk c) (main_step sg z c)" for u
    by (rule main_foldM [OF emit_union_member_runs c]) (use joins in auto)
  show "runs False (do { (union_name, _) \<leftarrow> vec_index chunk 0; d \<leftarrow> e_definitions c union_name;
         (case d of Fed_Union union_id \<Rightarrow> do { _ \<leftarrow> vec_index (fg_unions (e_out c)) union_id; foldM (emit_union_member jm union_id) chunk c }
          | _ \<Rightarrow> Some c) }) (main_step sg z c)"
    by (rule runs_bind [OF runs_any], clarify, rule runs_bind [OF runs_any])
      (auto split: fed_Definition.split intro!: main_step_refl [OF c] runs_bind [OF runs_any] fold)
qed

lemma emit_key_runs:
  assumes wf: "wf_store sg" and z: "n_subgraphs z = length (sg_subgraphs sg)" and e: "emit_wf z ctx" "cache_ok sg ctx" and k: "key_ok sg (key_id k)"
  shows "runs False (emit_key sg k ctx) (main_step sg z ctx)"
proof -
  obtain d key where w: "walk_key sg (key_id k) = Some (d, key)" "def_ok sg d" "selections_ok sg (k_selection_set key)"
    using walk_key_ok [OF wf k] by auto
  show ?thesis
    unfolding emit_key_def Let_def
  proof (rule runs_bind [OF key_fields_runs [OF wf k]], rule runs_bind [OF attach_selection_runs [OF e(1)]], assumption, clarify)
    fix fs ctx1 assume 1: "emit_str z ctx ctx1" "gselections_ok z (graph_of ctx1) fs"
    have m: "main_step sg z ctx ctx1" by (rule emit_str_main [OF 1(1) e(2)])
    note wf1 = main_step_wf [OF m] main_step_cache [OF m]
    have p: "key_parent_definition sg (key_id k) = Some d" by (simp add: key_parent_definition_def w)
    show "runs False (do {
       parent \<leftarrow> key_parent_definition sg (key_id k);
       subgraph_id \<leftarrow> def_subgraph_id sg parent;
       (case key_parent k of
          Fed_Object i \<Rightarrow> update_object i (\<lambda>obj. obj\<lparr>fo_keys := fo_keys obj @ [\<lparr>fk_subgraph_id = subgraph_id, fk_fields = fs,
                fk_is_interface_object = key_is_interface_object k, fk_resolvable = key_resolvable k\<rparr>]\<rparr>) ctx1
        | Fed_Interface i \<Rightarrow> update_interface i (\<lambda>interface. interface\<lparr>fi_keys := fi_keys interface @ [\<lparr>fk_subgraph_id = subgraph_id, fk_fields = fs,
                fk_is_interface_object = key_is_interface_object k, fk_resolvable = key_resolvable k\<rparr>]\<rparr>) ctx1
        | _ \<Rightarrow> None) }) (main_step sg z ctx)"
      unfolding p bind.bind_lunit
    proof (rule runs_bind [OF def_subgraph_id_runs [OF wf w(2)]])
      fix s assume s: "subgraph_ok sg s"
      let ?key = "\<lparr>fk_subgraph_id = s, fk_fields = fs, fk_is_interface_object = key_is_interface_object k, fk_resolvable = key_resolvable k\<rparr>"
      have key: "gkey_ok z (graph_of ctx1) ?key" using s 1(2) z by (simp add: gkey_ok_def subgraph_ok_def)
      show "runs False (case key_parent k of
          Fed_Object i \<Rightarrow> update_object i (\<lambda>obj. obj\<lparr>fo_keys := fo_keys obj @ [?key]\<rparr>) ctx1
        | Fed_Interface i \<Rightarrow> update_interface i (\<lambda>interface. interface\<lparr>fi_keys := fi_keys interface @ [?key]\<rparr>) ctx1
        | _ \<Rightarrow> None) (main_step sg z ctx)"
        by (cases "key_parent k") (simp_all, (rule runs_mono [OF update_object_runs [OF wf1] main_step_trans [OF m]] runs_mono [OF update_interface_runs [OF wf1] main_step_trans [OF m]], use key in auto)+)
    qed
  qed
qed

lemma emit_definition_authorized_runs:
  assumes wf: "wf_store sg" and e: "emit_wf z ctx" "cache_ok sg ctx"
  shows "runs False (emit_definition_authorized sg target site ctx)
    (\<lambda>(i, ctx'). main_step sg z ctx ctx' \<and> i < length (fg_authorized_directives (e_out ctx')))"
  unfolding emit_definition_authorized_def
proof (rule runs_bind_eq [OF runs_any])
  fix a assume "authorized sg site = Some a"
  then have ok: "opt_ok (selections_ok sg) (auth_fields a)" "opt_ok (value_ok sg) (auth_metadata a)"
    using site_lookup_ok(3) [OF wf] by (auto simp: authorized_ok_def)
  show "runs False (do { (metadata, ctx1) \<leftarrow> insert_value_option sg (auth_metadata a) None ctx;
     (fs, ctx2) \<leftarrow> attach_selection_option sg target (auth_fields a) ctx1;
     Some (push_authorized_directive \<lparr>fa_fields = fs, fa_node = None, fa_arguments = None, fa_metadata = metadata\<rparr> ctx2) })
    (\<lambda>(i, ctx'). main_step sg z ctx ctx' \<and> i < length (fg_authorized_directives (e_out ctx')))"
  proof (rule runs_bind [OF insert_value_option_runs [OF e(1) ok(2)]], clarify, rule runs_bind [OF attach_selection_option_runs [OF emit_str_wf ok(1)]], assumption, clarify)
    fix md ctx1 fs ctx2 assume 1: "emit_str z ctx ctx1" "opt_ok (gvalue_ok (graph_of ctx1)) md"
      and 2: "emit_str z ctx1 ctx2" "opt_ok (gselections_ok z (graph_of ctx2)) fs"
    have m: "main_step sg z ctx ctx2" by (rule emit_str_main [OF emit_str_trans [OF 1(1) 2(1)] e(2)])
    have md: "opt_ok (gvalue_ok (graph_of ctx2)) md" using 1(2) by (rule opt_ok_mono [rotated]) (rule emit_str_mono(2) [OF 2(1)])
    obtain i ctx3 where p: "push_authorized_directive \<lparr>fa_fields = fs, fa_node = None, fa_arguments = None, fa_metadata = md\<rparr> ctx2 = (i, ctx3)" by fastforce
    have "main_step sg z ctx2 ctx3 \<and> i < length (fg_authorized_directives (e_out ctx3))"
      by (rule push_authorized_directive_step [OF main_step_wf [OF m] main_step_cache [OF m] _ p]) (use md 2(2) in simp)
    then show "runs False (Some (push_authorized_directive \<lparr>fa_fields = fs, fa_node = None, fa_arguments = None, fa_metadata = md\<rparr> ctx2))
        (\<lambda>(i, ctx'). main_step sg z ctx ctx' \<and> i < length (fg_authorized_directives (e_out ctx')))"
      using main_step_trans [OF m] by (simp add: p)
  qed
qed

lemma emit_authorized_directives_runs:
  assumes wf: "wf_store sg" and e: "emit_wf z ctx" "cache_ok sg ctx"
    and o1: "\<forall>(i, s) \<in> set (ir_object_authorized_directives ir). i < length (fg_objects (e_out ctx))"
    and o2: "\<forall>(i, s) \<in> set (ir_interface_authorized_directives ir). i < length (fg_interfaces (e_out ctx))"
  shows "runs False (emit_authorized_directives sg ir ctx) (main_step sg z ctx)"
proof -
  have objs: "runs False (do { (idx, ctx') \<leftarrow> emit_definition_authorized sg (Fed_Object i) site c;
         Some (update_out (\<lambda>g. g\<lparr>fg_object_authorized_directives := fg_object_authorized_directives g @ [(i, idx)]\<rparr>) ctx') }) (main_step sg z c)"
    if c: "main_step sg z ctx c" and i: "i < length (fg_objects (e_out ctx))" for c i site
  proof (rule runs_bind [OF emit_definition_authorized_runs [OF wf main_step_wf [OF c] main_step_cache [OF c]]], clarify)
    fix idx c1 assume m: "main_step sg z c c1" and idx: "idx < length (fg_authorized_directives (e_out c1))"
    let ?g = "(e_out c1)\<lparr>fg_object_authorized_directives := fg_object_authorized_directives (e_out c1) @ [(i, idx)]\<rparr>"
    have "i < length (fg_objects (e_out c1))" using i main_step_extends [OF main_step_trans [OF c m]] by (simp add: graph_extends_def)
    then have "main_step sg z c1 (c1\<lparr>e_out := ?g\<rparr>)"
      using idx by (intro authorized_entry_step [where x = "G_ObjectAuthorized i idx", OF main_step_wf [OF m] main_step_cache [OF m]])
        (auto simp: graph_extends_def emit_counts_def elim!: gholds.elims)
    then show "runs False (Some (update_out (\<lambda>g. g\<lparr>fg_object_authorized_directives := fg_object_authorized_directives g @ [(i, idx)]\<rparr>) c1)) (main_step sg z c)"
      using main_step_trans [OF m] by simp
  qed
  have ints: "runs False (do { (idx, ctx') \<leftarrow> emit_definition_authorized sg (Fed_Interface i) site c;
         Some (update_out (\<lambda>g. g\<lparr>fg_interface_authorized_directives := fg_interface_authorized_directives g @ [(i, idx)]\<rparr>) ctx') }) (main_step sg z c)"
    if c: "main_step sg z ctx c" and i: "i < length (fg_interfaces (e_out ctx))" for c i site
  proof (rule runs_bind [OF emit_definition_authorized_runs [OF wf main_step_wf [OF c] main_step_cache [OF c]]], clarify)
    fix idx c1 assume m: "main_step sg z c c1" and idx: "idx < length (fg_authorized_directives (e_out c1))"
    let ?g = "(e_out c1)\<lparr>fg_interface_authorized_directives := fg_interface_authorized_directives (e_out c1) @ [(i, idx)]\<rparr>"
    have "i < length (fg_interfaces (e_out c1))" using i main_step_extends [OF main_step_trans [OF c m]] by (simp add: graph_extends_def)
    then have "main_step sg z c1 (c1\<lparr>e_out := ?g\<rparr>)"
      using idx by (intro authorized_entry_step [where x = "G_InterfaceAuthorized i idx", OF main_step_wf [OF m] main_step_cache [OF m]])
        (auto simp: graph_extends_def emit_counts_def elim!: gholds.elims)
    then show "runs False (Some (update_out (\<lambda>g. g\<lparr>fg_interface_authorized_directives := fg_interface_authorized_directives g @ [(i, idx)]\<rparr>) c1)) (main_step sg z c)"
      using main_step_trans [OF m] by simp
  qed
  show ?thesis
    unfolding emit_authorized_directives_def
  proof (rule runs_bind [where P = "main_step sg z ctx"])
    show "runs False (foldM (\<lambda>(object_id, site) ctx. do {
         (idx, ctx') \<leftarrow> emit_definition_authorized sg (Fed_Object object_id) site ctx;
         Some (update_out (\<lambda>g. g\<lparr>fg_object_authorized_directives := fg_object_authorized_directives g @ [(object_id, idx)]\<rparr>) ctx') })
       (ir_object_authorized_directives ir) ctx) (main_step sg z ctx)"
      by (rule runs_foldM [where I = "main_step sg z ctx", OF main_step_refl [OF e]])
        (use o1 in \<open>auto intro!: runs_mono [OF objs] elim: main_step_trans\<close>)
    fix c assume c: "main_step sg z ctx c"
    show "runs False (foldM (\<lambda>(interface_id, site) ctx. do {
         (idx, ctx') \<leftarrow> emit_definition_authorized sg (Fed_Interface interface_id) site ctx;
         Some (update_out (\<lambda>g. g\<lparr>fg_interface_authorized_directives := fg_interface_authorized_directives g @ [(interface_id, idx)]\<rparr>) ctx') })
       (ir_interface_authorized_directives ir) c) (main_step sg z ctx)"
      by (rule runs_foldM [where I = "main_step sg z ctx", OF c])
        (use o2 in \<open>auto intro!: runs_mono [OF ints] elim: main_step_trans\<close>)
  qed
qed

lemma emit_keys_runs:
  assumes "wf_store sg" and "n_subgraphs z = length (sg_subgraphs sg)" and "emit_wf z ctx" "cache_ok sg ctx" and "\<forall>k \<in> set ks. key_ok sg (key_id k)"
  shows "runs False (emit_keys sg ks ctx) (main_step sg z ctx)"
  unfolding emit_keys_def by (rule main_foldM [OF emit_key_runs [OF assms(1,2)] assms(3,4)]) (use assms(5) in auto)

subsection \<open>The whole emission\<close>

definition ir_sizes :: "Subgraphs \<Rightarrow> CompositionIr \<Rightarrow> Sizes" where
  "ir_sizes sg ir = \<lparr>n_directives = length (ir_directives ir), n_input_values = length (ir_input_value_definitions ir),
     n_subgraphs = length (sg_subgraphs sg)\<rparr>"

lemma initial_items_ok:
  assumes ir: "ir_wf sg ir" and q: "ir_query_type ir = Some query" and em: "ir_emitting ir z ctx"
    and g: "e_out ctx = emit_initial_graph ir query" and x: "gholds (graph_of ctx) x"
  shows "gitem_ok z (graph_of ctx) x"
proof -
  have ok: "holds ir y \<Longrightarrow> item_ok sg ir y" for y using ir by (simp add: ir_wf_def)
  have oks: "fstr_ok ir s \<Longrightarrow> gstr_ok (graph_of ctx) s" "opt_ok (fstr_ok ir) q \<Longrightarrow> opt_ok (gstr_ok (graph_of ctx)) q"
    "dirs_ok ir r \<Longrightarrow> gdirs_ok z r" "args_ok ir a \<Longrightarrow> gargs_ok z a" for s q r a using ir_emitting_oks [OF em] by blast+
  have ty: "typedef_ok ir k i \<Longrightarrow> gtypedef_ok (graph_of ctx) k i" for k i by (simp add: g emit_initial_graph_def typedef_ok_def gtypedef_ok_def)
  have no: "gfields_ok (graph_of ctx) NO_FIELDS" by (simp add: gfields_ok_def NO_FIELDS_def)
  show ?thesis
  proof (cases x)
    case (G_Root i) then show ?thesis using ok [of "Item_Root i"] x q by (auto simp: g emit_initial_graph_def)
  next
    case (G_Type y) then show ?thesis using ok [of "Item_Type y"] x by (simp add: g emit_initial_graph_def oks)
  next
    case (G_Object y) then show ?thesis using ok [of "Item_Object y"] x no by (simp add: g emit_initial_graph_def oks ty)
  next
    case (G_Interface y) then show ?thesis using ok [of "Item_Interface y"] x no by (simp add: g emit_initial_graph_def oks ty)
  next
    case (G_Union y) then show ?thesis using ok [of "Item_Union y"] x by (simp add: g emit_initial_graph_def oks)
  next
    case (G_InputObject y) then show ?thesis using ok [of "Item_InputObject y"] x by (simp add: g emit_initial_graph_def oks)
  next
    case (G_EnumValue y) then show ?thesis using ok [of "Item_EnumValue y"] x by (simp add: g emit_initial_graph_def oks ty)
  qed (use x in \<open>simp_all add: g emit_initial_graph_def\<close>)
qed

lemma emit_context_new_ok:
  fixes query :: ObjectId
  assumes ir: "ir_wf sg ir" and q: "ir_query_type ir = Some query" and strs: "prefix (ir_strings ir) strs" "distinct strs"
  defines "ctx \<equiv> emit_context_new ir strs (emit_initial_graph ir query)" and "z \<equiv> ir_sizes sg ir"
  shows "emit_wf z ctx" and "cache_ok sg ctx" and "ir_emitting ir z ctx" and "emit_counts ctx = (0, 0, 0)"
proof -
  show em: "ir_emitting ir z ctx"
    using prefix_length_le [OF strs(1)] by (simp add: ir_emitting_def ctx_def z_def ir_sizes_def emit_context_new_def emit_initial_graph_def)
  have defs: "ir_definitions_by_name ir s = Some d \<Longrightarrow> gstr_ok (graph_of ctx) s \<and> gdef_ok (graph_of ctx) d" for s d
    using ir ir_emitting_oks(1,5) [OF em] by (fastforce simp: ir_wf_def dest: spec [of _ "Item_Name s d"])
  have items: "gholds (graph_of ctx) x \<Longrightarrow> gitem_ok z (graph_of ctx) x" for x
    by (rule initial_items_ok [OF ir q em]) (simp_all add: ctx_def emit_context_new_def)
  then have "graph_wf_at z (graph_of ctx)"
    using strs(2) ir unfolding graph_wf_at_def by (simp add: ctx_def emit_context_new_def emit_initial_graph_def ir_wf_def)
  then show "emit_wf z ctx"
    using defs by (simp add: emit_wf_def) (simp add: ctx_def emit_context_new_def emit_initial_graph_def)
  show "cache_ok sg ctx" by (simp add: cache_ok_def ctx_def emit_context_new_def)
  show "emit_counts ctx = (0, 0, 0)" by (simp add: emit_counts_def ctx_def emit_context_new_def emit_initial_graph_def)
qed

text \<open>What the emission keeps of the representation.\<close>

definition emits :: "Subgraphs \<Rightarrow> CompositionIr \<Rightarrow> FederatedGraph \<Rightarrow> bool" where
  "emits sg ir g \<longleftrightarrow> graph_wf g \<and> prefix (ir_strings ir) (fg_strings g) \<and> fg_type_definitions g = ir_type_definitions ir
     \<and> fg_enum_values g = ir_enum_values ir \<and> fg_input_objects g = ir_input_objects ir
     \<and> length (fg_objects g) = length (ir_objects ir) \<and> length (fg_interfaces g) = length (ir_interfaces ir)
     \<and> length (fg_unions g) = length (ir_unions ir) \<and> graph_sizes g = ir_sizes sg ir"

lemma emits_of_steps:
  assumes s: "graph_extends (graph_of (emit_context_new ir strs (emit_initial_graph ir query))) (graph_of ctx)" and wf: "emit_wf z ctx"
    and strs: "prefix (ir_strings ir) strs" and z: "z = ir_sizes sg ir" and c: "emit_counts ctx = (n_directives z, n_input_values z, n_subgraphs z)"
  shows "emits sg ir ((e_out ctx)\<lparr>fg_strings := into_federated_strings (e_strings_ir ctx)\<rparr>)"
proof -
  have g: "(e_out ctx)\<lparr>fg_strings := into_federated_strings (e_strings_ir ctx)\<rparr> = graph_of ctx" by (simp add: graph_of_def into_federated_strings_def)
  have "graph_sizes (graph_of ctx) = ir_sizes sg ir" using c by (simp add: graph_sizes_def emit_counts_def z ir_sizes_def)
  with wf s strs z show ?thesis
    unfolding g emits_def graph_wf_def by (auto simp: emit_wf_def graph_extends_def emit_context_new_def emit_initial_graph_def)
qed

lemma emit_after_input_values:
  assumes wf: "wf_store sg" and ir: "ir_wf sg ir" and e: "emit_wf z ctx" "cache_ok sg ctx" "ir_emitting ir z ctx" and z: "z = ir_sizes sg ir"
    and n: "gstr_ok (graph_of ctx) n1" "gstr_ok (graph_of ctx) n2"
  shows "runs False (do {
       ctx5 \<leftarrow> emit_fields sg (ir_fields ir) from_entity n1 n2 ctx;
       ctx6 \<leftarrow> emit_union_members (ir_union_members ir) (ir_union_join_members ir) ctx5;
       ctx7 \<leftarrow> emit_keys sg (ir_keys ir) ctx6;
       emit_authorized_directives sg ir ctx7 }) (main_step sg z ctx)"
proof -
  have ok: "holds ir x \<Longrightarrow> item_ok sg ir x" for x using ir by (simp add: ir_wf_def)
  have ns: "n_subgraphs z = length (sg_subgraphs sg)" by (simp add: z ir_sizes_def)
  have fs: "\<forall>f \<in> set (ir_fields ir). field_ir_ok sg ir f" using ok [of "Item_Field f" for f] by simp
  have js: "\<forall>(k, ss) \<in> set (ir_union_join_members ir). \<forall>s \<in> set ss. s < n_subgraphs z"
    using ok [of "Item_Join a b ss" for a b ss] ns by (fastforce simp: subgraph_ok_def)
  have ks: "\<forall>k \<in> set (ir_keys ir). key_ok sg (key_id k)" using ok [of "Item_Key k" for k] by simp
  show ?thesis
  proof (rule runs_bind [OF emit_fields_runs [OF wf ns e(3,1,2) fs n]],
      rule runs_bind [OF emit_union_members_runs [OF main_step_wf main_step_cache js]], assumption, assumption,
      rule runs_bind [OF emit_keys_runs [OF wf ns main_step_wf main_step_cache ks]], assumption, assumption)
    fix ctx5 ctx6 ctx7 assume s: "main_step sg z ctx ctx5" "main_step sg z ctx5 ctx6" "main_step sg z ctx6 ctx7"
    have m: "main_step sg z ctx ctx7" by (rule main_step_trans [OF s(1) main_step_trans [OF s(2,3)]])
    have em: "ir_emitting ir z ctx7" by (rule ir_emitting_mono [OF e(3) main_step_extends [OF m]])
    have auth: "\<forall>(i, s) \<in> set (ir_object_authorized_directives ir). i < length (fg_objects (e_out ctx7))"
      "\<forall>(i, s) \<in> set (ir_interface_authorized_directives ir). i < length (fg_interfaces (e_out ctx7))"
      using ok [of "Item_ObjectAuthorized i s" for i s] ok [of "Item_InterfaceAuthorized i s" for i s] em by (fastforce simp: ir_emitting_def)+
    show "runs False (emit_authorized_directives sg ir ctx7) (main_step sg z ctx)"
      by (rule runs_mono [OF emit_authorized_directives_runs [OF wf main_step_wf [OF m] main_step_cache [OF m] auth] main_step_trans [OF m]])
  qed
qed

lemma emit_after_directives:
  fixes query :: ObjectId
  assumes wf: "wf_store sg" and ir: "ir_wf sg ir" and p: "prefix (ir_strings ir) strs" and n: "n1 < length strs" "n2 < length strs"
  defines "ctx \<equiv> emit_context_new ir strs (emit_initial_graph ir query)" and "z \<equiv> ir_sizes sg ir"
  assumes new: "ir_emitting ir z ctx" "emit_counts ctx = (0, 0, 0)"
    and c: "count_step sg z (length (ir_directives ir)) (length (sg_subgraphs sg)) ctx ctx3"
  shows "runs False (do {
       ctx4 \<leftarrow> emit_input_value_definitions sg (ir_input_value_definitions ir) ctx3;
       ctx5 \<leftarrow> emit_fields sg (ir_fields ir) from_entity n1 n2 ctx4;
       ctx6 \<leftarrow> emit_union_members (ir_union_members ir) (ir_union_join_members ir) ctx5;
       ctx7 \<leftarrow> emit_keys sg (ir_keys ir) ctx6;
       ctx8 \<leftarrow> emit_authorized_directives sg ir ctx7;
       Some ((e_out ctx8)\<lparr>fg_strings := into_federated_strings (e_strings_ir ctx8)\<rparr>) }) (emits sg ir)"
proof -
  have ok: "holds ir x \<Longrightarrow> item_ok sg ir x" for x using ir by (simp add: ir_wf_def)
  have zz: "z = ir_sizes sg ir" by (simp add: z_def)
  have len: "length (ir_input_value_definitions ir) \<le> n_input_values z" by (simp add: z_def ir_sizes_def)
  have cnt: "emit_counts ctx3 = (length (ir_directives ir), 0, length (sg_subgraphs sg))" using c new(2) by (simp add: count_step_def)
  note em3 = ir_emitting_mono [OF new(1) count_step_extends [OF c]]
  show ?thesis
  proof (rule runs_bind [OF emit_input_value_definitions_runs [OF wf count_step_wf [OF c] count_step_cache [OF c] em3 _ len]], goal_cases)
    case 1 show ?case using ok [of "Item_InputValue x" for x] by simp
  next
    case 2 show ?case using cnt by (simp add: emit_counts_def)
  next
    case (4 ctx4)
    then have ext: "graph_extends (graph_of ctx) (graph_of ctx4)" and wf4: "emit_wf z ctx4" "cache_ok sg ctx4"
      and cnt4: "emit_counts ctx4 = (n_directives z, n_input_values z, n_subgraphs z)"
      using graph_extends_trans [OF count_step_extends [OF c]] cnt by (auto simp: emit_step_def z_def ir_sizes_def)
    have strs: "gstr_ok (graph_of ctx) n1" "gstr_ok (graph_of ctx) n2" using n by (simp_all add: ctx_def gstr_ok_def emit_context_new_def)
    note main = emit_after_input_values [OF wf ir wf4 ir_emitting_mono [OF new(1) ext] zz gstr_ok_mono [OF ext strs(1)] gstr_ok_mono [OF ext strs(2)]]
    have fin: "runs False (Some ((e_out ctx8)\<lparr>fg_strings := into_federated_strings (e_strings_ir ctx8)\<rparr>)) (emits sg ir)"
      if m: "main_step sg z ctx4 ctx8" for ctx8
    proof -
      have "emit_counts ctx8 = (n_directives z, n_input_values z, n_subgraphs z)" using m cnt4 by (simp add: main_step_def)
      with graph_extends_trans [OF ext main_step_extends [OF m]] main_step_wf [OF m] p
      show ?thesis unfolding ctx_def runs_Some by (rule emits_of_steps [OF _ _ _ zz])
    qed
    show ?case using runs_bind [OF main fin] by (simp add: bind_assoc)
  qed simp
qed

lemma emit_federated_graph_runs:
  assumes wf: "wf_store sg" and ir: "ir_wf sg ir"
  shows "runs False (emit_federated_graph sg ir) (emits sg ir)"
proof -
  obtain n1 strs1 where i1: "strings_ir_insert (ir_strings ir) ''__schema'' = (n1, strs1)" by fastforce
  obtain n2 strs2 where i2: "strings_ir_insert strs1 ''__type'' = (n2, strs2)" by fastforce
  have d0: "distinct (ir_strings ir)" using ir by (simp add: ir_wf_def)
  note d1 = strings_ir.intern_invar [OF d0 i1] and d2 = strings_ir.intern_invar [OF strings_ir.intern_invar [OF d0 i1] i2]
  have n1: "n1 < length strs1" using strings_ir.intern_resolve [OF d0 i1] by (simp add: strings_resolve_def vec_index_eq_Some)
  have n2: "n2 < length strs2" using strings_ir.intern_resolve [OF d1 i2] by (simp add: strings_resolve_def vec_index_eq_Some)
  have p: "prefix (ir_strings ir) strs2" and n12: "n1 < length strs2"
    using strings_ir_insert_prefix [OF i1] strings_ir_insert_prefix [OF i2] n1 by (auto dest: prefix_length_le intro: prefix_order.trans)
  have ok: "holds ir x \<Longrightarrow> item_ok sg ir x" for x using ir by (simp add: ir_wf_def)
  let ?z = "ir_sizes sg ir"
  show ?thesis
    unfolding emit_federated_graph_def i1 i2 Let_def prod.case
  proof (rule runs_bind_eq [OF runs_any])
    fix query assume q: "ir_query_type ir = Some query"
    let ?c = "emit_context_new ir strs2 (emit_initial_graph ir query)"
    note new = emit_context_new_ok [OF ir q p d2]
    have ns: "n_subgraphs ?z = length (sg_subgraphs sg)" by (simp add: ir_sizes_def)
    show "runs False (do {
       ctx1 \<leftarrow> emit_directives sg (ir_directives ir) ?c;
       ctx2 \<leftarrow> emit_subgraphs sg ctx1;
       ctx3 \<leftarrow> emit_interface_impls sg ctx2;
       ctx4 \<leftarrow> emit_input_value_definitions sg (ir_input_value_definitions ir) ctx3;
       ctx5 \<leftarrow> emit_fields sg (ir_fields ir) (ir_object_fields_from_entity_interfaces ir) n1 n2 ctx4;
       ctx6 \<leftarrow> emit_union_members (ir_union_members ir) (ir_union_join_members ir) ctx5;
       ctx7 \<leftarrow> emit_keys sg (ir_keys ir) ctx6;
       ctx8 \<leftarrow> emit_authorized_directives sg ir ctx7;
       Some ((e_out ctx8)\<lparr>fg_strings := into_federated_strings (e_strings_ir ctx8)\<rparr>) }) (emits sg ir)"
    proof (rule runs_bind [OF emit_directives_runs [where ir = ir, OF new(1,2)]], goal_cases)
      case 1 show ?case using ok [of "Item_Directive d" for d] by simp
    next
      case 2 show ?case using prefix_length_le [OF p] by (simp add: emit_context_new_def)
    next
      case (3 ctx1)
      note c1 = 3
      show ?case
      proof (rule runs_bind [OF emit_subgraphs_runs [OF wf count_step_wf [OF c1] count_step_cache [OF c1]]],
          rule runs_bind [OF emit_interface_impls_runs [OF wf count_step_wf count_step_cache ns]], assumption, assumption)
        fix ctx2 ctx3 assume c2: "count_step sg ?z 0 (length (sg_subgraphs sg)) ctx1 ctx2" and c3: "main_step sg ?z ctx2 ctx3"
        have c: "count_step sg ?z (length (ir_directives ir)) (length (sg_subgraphs sg)) ?c ctx3"
          using count_step_trans [OF count_step_trans [OF c1 c2] main_count_step [OF c3]] by simp
        show "runs False (do {
           ctx4 \<leftarrow> emit_input_value_definitions sg (ir_input_value_definitions ir) ctx3;
           ctx5 \<leftarrow> emit_fields sg (ir_fields ir) (ir_object_fields_from_entity_interfaces ir) n1 n2 ctx4;
           ctx6 \<leftarrow> emit_union_members (ir_union_members ir) (ir_union_join_members ir) ctx5;
           ctx7 \<leftarrow> emit_keys sg (ir_keys ir) ctx6;
           ctx8 \<leftarrow> emit_authorized_directives sg ir ctx7;
           Some ((e_out ctx8)\<lparr>fg_strings := into_federated_strings (e_strings_ir ctx8)\<rparr>) }) (emits sg ir)"
          by (rule emit_after_directives [OF wf ir p n12 n2 new(3,4) c])
      qed
    qed
  qed
qed

end
