(* ===== verification/Validate.thy ===== *)
theory Validate
  imports Compose_Context
begin

text \<open>
  The validations that precede composition: \<open>src/engine/crates/composition/src/validate.rs\<close>,
  \<open>validate/subgraph_names.rs\<close>, \<open>validate/selection.rs\<close>, \<open>validate/input_selection.rs\<close>.
  A character of the model is a Unicode scalar value below 256; the classes of characters are the ones
  of the standard library there.
\<close>

subsection \<open>Names of subgraphs\<close>

abbreviation code_point :: "char \<Rightarrow> nat" where
  "code_point \<equiv> of_char"

definition is_alphabetic :: "char \<Rightarrow> bool" where
  "is_alphabetic c \<longleftrightarrow> (let n = code_point c in
     65 \<le> n \<and> n \<le> 90 \<or> 97 \<le> n \<and> n \<le> 122 \<or> n = 170 \<or> n = 181 \<or> n = 186
     \<or> 192 \<le> n \<and> n \<noteq> 215 \<and> n \<noteq> 247)"

definition is_numeric :: "char \<Rightarrow> bool" where
  "is_numeric c \<longleftrightarrow> (let n = code_point c in
     48 \<le> n \<and> n \<le> 57 \<or> n = 178 \<or> n = 179 \<or> n = 185 \<or> 188 \<le> n \<and> n \<le> 190)"

definition is_alphanumeric :: "char \<Rightarrow> bool" where
  "is_alphanumeric c \<longleftrightarrow> is_alphabetic c \<or> is_numeric c"

definition to_ascii_lowercase :: "string \<Rightarrow> string" where
  "to_ascii_lowercase = map (\<lambda>c. let n = code_point c in if 65 \<le> n \<and> n \<le> 90 then char_of (n + 32) else c)"

definition empty_name_message :: string where
  "empty_name_message = ''The empty string is not a valid subgraph name''"

definition invalid_name_message :: "string \<Rightarrow> string" where
  "invalid_name_message name =
     ''Invalid subgraph name: '' @ [CHR 0x22] @ name @ [CHR 0x22]
     @ ''. Only alphanumeric characters and hyphens (`-`) are allowed, and the first character must be alphabetic.''"

definition duplicate_name_message :: "string \<Rightarrow> string" where
  "duplicate_name_message name =
     ''Found two subgraphs named '' @ [CHR 0x22] @ name @ [CHR 0x22] @ ''. Subgraph names are case insensitive.''"

definition validate_name :: "string \<Rightarrow> Context \<Rightarrow> Context" where
  "validate_name name ctx =
     (case name of
        [] \<Rightarrow> ctx_push_fatal empty_name_message ctx
      | first # chars \<Rightarrow>
          if is_alphabetic first \<and> list_all (\<lambda>c. c = CHR ''-'' \<or> is_alphanumeric c) chars then ctx
          else ctx_push_fatal (invalid_name_message name) ctx)"

definition validate_subgraph_names :: "Subgraphs \<Rightarrow> Context \<Rightarrow> Context panicking" where
  "validate_subgraph_names sg ctx =
     map_option snd (foldM (\<lambda>(_, subgraph) (seen, ctx). do {
         name \<leftarrow> as_str sg (s_name subgraph);
         let ctx1 = validate_name name ctx;
         let lower = to_ascii_lowercase name;
         Some (insert lower seen,
           if lower \<in> seen then ctx_push_fatal (duplicate_name_message name) ctx1 else ctx1) })
       (iter_subgraphs sg) ({}, ctx))"

definition validate_query_nonempty :: "Subgraphs \<Rightarrow> Context \<Rightarrow> Context" where
  "validate_query_nonempty sg ctx =
     (if list_all (\<lambda>query_type. def_fields sg query_type = [])
           (List.map_filter (\<lambda>(_, subgraph). s_query_type subgraph) (iter_subgraphs sg))
      then ctx_push_fatal ''None of the subgraphs defines root query fields.'' ctx
      else ctx)"

subsection \<open>Field selections\<close>

text \<open>\<open>argument_type_matches\<close>; the last two functions are the loops over the entries of an object and
  over the elements of a list.\<close>

fun argument_type_matches :: "Subgraphs \<Rightarrow> SubgraphId \<Rightarrow> FieldTypeId \<Rightarrow> Value \<Rightarrow> bool panicking"
  and all_fields_match :: "Subgraphs \<Rightarrow> SubgraphId \<Rightarrow> DefinitionId \<Rightarrow> (StringId \<times> Value) list \<Rightarrow> bool panicking"
  and all_elements_match :: "Subgraphs \<Rightarrow> SubgraphId \<Rightarrow> FieldTypeId \<Rightarrow> Value list \<Rightarrow> bool panicking" where
  "argument_type_matches sg subgraph arg_type value = do {
     arg_type_id \<leftarrow> type_name sg arg_type;
     arg_type_name \<leftarrow> as_str sg arg_type_id;
     (case value of
        Value_String _ \<Rightarrow> Some (arg_type_name = ''String'')
      | Value_Int _ \<Rightarrow> Some (arg_type_name = ''Int'')
      | Value_Float _ \<Rightarrow> Some (arg_type_name = ''Float'')
      | Value_Boolean _ \<Rightarrow> Some (arg_type_name = ''Boolean'')
      | Value_Enum v \<Rightarrow> do {
          d \<leftarrow> type_definition sg arg_type subgraph;
          Some (case d of None \<Rightarrow> False | Some enum_type \<Rightarrow> enum_value_by_name sg enum_type v \<noteq> None) }
      | Value_Object field_values \<Rightarrow> do {
          d \<leftarrow> type_definition sg arg_type subgraph;
          (case d of
             None \<Rightarrow> Some False
           | Some input_object_type \<Rightarrow> all_fields_match sg subgraph input_object_type field_values) }
      | Value_List inner \<Rightarrow> do {
          is_list \<leftarrow> type_is_list sg arg_type;
          if is_list then all_elements_match sg subgraph arg_type inner else Some False }
      | Value_Null \<Rightarrow> Some False) }"
| "all_fields_match sg subgraph d [] = Some True"
| "all_fields_match sg subgraph d ((fname, fvalue) # rest) =
     (case find_field sg d fname of
        None \<Rightarrow> Some False
      | Some inner_field \<Rightarrow> do {
          ok \<leftarrow> argument_type_matches sg subgraph (field_type inner_field) fvalue;
          if ok then all_fields_match sg subgraph d rest else Some False })"
| "all_elements_match sg subgraph arg_type [] = Some True"
| "all_elements_match sg subgraph arg_type (v # rest) = do {
     ok \<leftarrow> argument_type_matches sg subgraph arg_type v;
     if ok then all_elements_match sg subgraph arg_type rest else Some False }"

definition field_does_not_exist_message ::
  "Subgraphs \<Rightarrow> string panicking \<Rightarrow> string \<Rightarrow> StringId \<Rightarrow> DefinitionId \<Rightarrow> string panicking" where
  "field_does_not_exist_message sg directive_path directive_name selected on_definition = do {
     selected_name \<leftarrow> as_str sg selected;
     path \<leftarrow> directive_path;
     def_id \<leftarrow> def_name sg on_definition;
     definition_name \<leftarrow> as_str sg def_id;
     Some (''Error in @'' @ directive_name @ '' at '' @ path @ '': the '' @ selected_name
       @ '' field does not exist on '' @ definition_name) }"

definition argument_required_message ::
  "Subgraphs \<Rightarrow> string panicking \<Rightarrow> string \<Rightarrow> Field \<Rightarrow> StringId \<Rightarrow> string panicking" where
  "argument_required_message sg directive_path directive_name field arg = do {
     fname \<leftarrow> as_str sg (field_name field);
     arg_name \<leftarrow> as_str sg arg;
     path \<leftarrow> directive_path;
     Some (''Error in @'' @ directive_name @ '' on '' @ path @ '': the '' @ fname @ ''.'' @ arg_name
       @ '' argument is required but not provided.'') }"

definition argument_does_not_exist_message ::
  "Subgraphs \<Rightarrow> string panicking \<Rightarrow> string \<Rightarrow> Field \<Rightarrow> StringId \<Rightarrow> DefinitionId \<Rightarrow> string panicking" where
  "argument_does_not_exist_message sg directive_path directive_name field arg on_definition = do {
     arg_name \<leftarrow> as_str sg arg;
     fname \<leftarrow> as_str sg (field_name field);
     def_id \<leftarrow> def_name sg on_definition;
     definition_name \<leftarrow> as_str sg def_id;
     path \<leftarrow> directive_path;
     Some (''Error in @'' @ directive_name @ '' on '' @ path @ '': the '' @ fname @ ''.'' @ arg_name
       @ '' argument does not exist on '' @ definition_name) }"

definition argument_type_message ::
  "Subgraphs \<Rightarrow> string panicking \<Rightarrow> string \<Rightarrow> Field \<Rightarrow> StringId \<Rightarrow> FieldArgument \<Rightarrow> string panicking" where
  "argument_type_message sg directive_path directive_name field arg argument = do {
     arg_name \<leftarrow> as_str sg arg;
     fname \<leftarrow> as_str sg (field_name field);
     expected_type \<leftarrow> type_display sg (argument_type argument);
     path \<leftarrow> directive_path;
     Some (''Error in @'' @ directive_name @ '' on '' @ path @ '': the '' @ fname @ ''.'' @ arg_name
       @ '' argument does not not match the expected type ('' @ expected_type @ '')'') }"

definition check_required_arguments ::
  "Subgraphs \<Rightarrow> string panicking \<Rightarrow> string \<Rightarrow> Field \<Rightarrow> Arguments \<Rightarrow> Context \<Rightarrow> Context panicking" where
  "check_required_arguments sg directive_path directive_name field arguments ctx = do {
     required_arguments \<leftarrow> filterM (\<lambda>arg. do {
         r \<leftarrow> type_is_required sg (argument_type arg);
         Some (r \<and> argument_default sg arg = None) }) (field_arguments sg field);
     foldM (\<lambda>arg ctx.
         if list_all (\<lambda>(name, _). name \<noteq> argument_name arg) arguments then do {
           m \<leftarrow> argument_required_message sg directive_path directive_name field (argument_name arg);
           Some (ctx_push_fatal m ctx) }
         else Some ctx) required_arguments ctx }"

text \<open>The loop over the arguments of a selection; the flag is False when the loop returned early.\<close>

fun check_selected_arguments ::
  "Subgraphs \<Rightarrow> string panicking \<Rightarrow> string \<Rightarrow> DefinitionId \<Rightarrow> Field \<Rightarrow> Arguments \<Rightarrow> Context \<Rightarrow> (bool \<times> Context) panicking" where
  "check_selected_arguments sg directive_path directive_name on_definition field [] ctx = Some (True, ctx)"
| "check_selected_arguments sg directive_path directive_name on_definition field ((name, value) # rest) ctx =
     (case argument_by_name sg field name of
        None \<Rightarrow> do {
          m \<leftarrow> argument_does_not_exist_message sg directive_path directive_name field name on_definition;
          Some (False, ctx_push_fatal m ctx) }
      | Some argument \<Rightarrow> do {
          subgraph \<leftarrow> def_subgraph_id sg on_definition;
          ok \<leftarrow> argument_type_matches sg subgraph (argument_type argument) value;
          if ok then check_selected_arguments sg directive_path directive_name on_definition field rest ctx
          else do {
            m \<leftarrow> argument_type_message sg directive_path directive_name field name argument;
            Some (False, ctx_push_fatal m ctx) } })"

text \<open>The part of \<open>validate_field_selection\<close> before the recursive calls: the selected field, when these
  calls are reached.\<close>

definition check_field_selection ::
  "Subgraphs \<Rightarrow> StringId \<Rightarrow> Arguments \<Rightarrow> DefinitionId \<Rightarrow> string panicking \<Rightarrow> string \<Rightarrow> Context \<Rightarrow>
   (Field option \<times> Context) panicking" where
  "check_field_selection sg selected arguments on_definition directive_path directive_name ctx =
     (case find_field sg on_definition selected of
        None \<Rightarrow> do {
          m \<leftarrow> field_does_not_exist_message sg directive_path directive_name selected on_definition;
          Some (None, ctx_push_fatal m ctx) }
      | Some field \<Rightarrow> do {
          ctx1 \<leftarrow> check_required_arguments sg directive_path directive_name field arguments ctx;
          (continue, ctx2) \<leftarrow> check_selected_arguments sg directive_path directive_name on_definition field arguments ctx1;
          Some (if continue then Some field else None, ctx2) })"

definition type_condition_message ::
  "Subgraphs \<Rightarrow> string panicking \<Rightarrow> string \<Rightarrow> StringId \<Rightarrow> DefinitionId \<Rightarrow> string panicking" where
  "type_condition_message sg directive_path directive_name on on_definition = do {
     path \<leftarrow> directive_path;
     on_name \<leftarrow> as_str sg on;
     def_id \<leftarrow> def_name sg on_definition;
     parent_name \<leftarrow> as_str sg def_id;
     Some (''Error in '' @ directive_name @ '' at '' @ path @ '': type condition `... '' @ on_name
       @ ''` is invalid on '' @ parent_name) }"

text \<open>The definition a field's type names in the subgraph of a definition, with the \<open>expect\<close> or \<open>unwrap\<close>
  of the callers.\<close>

definition definition_of_type :: "Subgraphs \<Rightarrow> Field \<Rightarrow> DefinitionId \<Rightarrow> DefinitionId panicking" where
  "definition_of_type sg field on_definition = do {
     subgraph \<leftarrow> def_subgraph_id sg on_definition;
     d \<leftarrow> type_definition sg (field_type field) subgraph;
     d }"

fun validate_selection ::
  "Subgraphs \<Rightarrow> Selection \<Rightarrow> DefinitionId \<Rightarrow> string panicking \<Rightarrow> string \<Rightarrow> Context \<Rightarrow> Context panicking"
  and validate_subselection ::
  "Subgraphs \<Rightarrow> Selection list \<Rightarrow> DefinitionId panicking \<Rightarrow> string panicking \<Rightarrow> string \<Rightarrow> Context \<Rightarrow> Context panicking" where
  "validate_selection sg (Selection_Field selected arguments subselection) on_definition directive_path directive_name ctx = do {
     (field, ctx1) \<leftarrow> check_field_selection sg selected arguments on_definition directive_path directive_name ctx;
     (case field of
        None \<Rightarrow> Some ctx1
      | Some f \<Rightarrow>
          validate_subselection sg subselection (definition_of_type sg f on_definition) directive_path directive_name ctx1) }"
| "validate_selection sg (InlineFragment on subselection) on_definition directive_path directive_name ctx = do {
     subgraph_id \<leftarrow> def_subgraph_id sg on_definition;
     (case definition_by_name_id sg on subgraph_id of
        None \<Rightarrow> do {
          m \<leftarrow> type_condition_message sg directive_path directive_name on on_definition;
          Some (ctx_push_fatal m ctx) }
      | Some d \<Rightarrow> validate_subselection sg subselection (Some d) directive_path directive_name ctx) }"
| "validate_subselection sg [] on_definition directive_path directive_name ctx = Some ctx"
| "validate_subselection sg (s # rest) on_definition directive_path directive_name ctx = do {
     d \<leftarrow> on_definition;
     ctx1 \<leftarrow> validate_selection sg s d directive_path directive_name ctx;
     validate_subselection sg rest on_definition directive_path directive_name ctx1 }"

definition field_path :: "Subgraphs \<Rightarrow> Field \<Rightarrow> string panicking" where
  "field_path sg field = do {
     def_id \<leftarrow> def_name sg (parent_definition field);
     parent_name \<leftarrow> as_str sg def_id;
     fname \<leftarrow> as_str sg (field_name field);
     Some (parent_name @ ''.'' @ fname) }"

definition flatten_option :: "'a list option \<Rightarrow> 'a list" where
  "flatten_option o' = (case o' of None \<Rightarrow> [] | Some xs \<Rightarrow> xs)"

definition validate_selections :: "Subgraphs \<Rightarrow> Field \<Rightarrow> Context \<Rightarrow> Context panicking" where
  "validate_selections sg field ctx = do {
     let site = field_directives field;
     ctx1 \<leftarrow> validate_subselection sg (flatten_option (requires sg site)) (Some (parent_definition field))
       (field_path sg field) ''requires'' ctx;
     ctx2 \<leftarrow> validate_subselection sg (flatten_option (authorized sg site \<bind> auth_fields)) (Some (parent_definition field))
       (field_path sg field) ''authorized'' ctx1;
     validate_subselection sg (flatten_option (provides sg site)) (definition_of_type sg field (parent_definition field))
       (field_path sg field) ''provides'' ctx2 }"

subsection \<open>Labels and argument selections\<close>

definition invalid_label_message :: "Subgraphs \<Rightarrow> Field \<Rightarrow> string \<Rightarrow> string panicking" where
  "invalid_label_message sg field err = do {
     path \<leftarrow> field_path sg field;
     Some (''Invalid @override label argument on '' @ path @ '': '' @ err) }"

definition validate_override_labels :: "Subgraphs \<Rightarrow> Field \<Rightarrow> Context \<Rightarrow> Context panicking" where
  "validate_override_labels sg field ctx =
     (case override_directive sg (field_directives field) \<bind> override_label of
        None \<Rightarrow> Some ctx
      | Some label \<Rightarrow> do {
          label_str \<leftarrow> as_str sg label;
          (case override_label_from_str label_str of
             Inr _ \<Rightarrow> Some ctx
           | Inl err \<Rightarrow> do { m \<leftarrow> invalid_label_message sg field err; Some (ctx_push_fatal m ctx) }) })"

definition unknown_argument_message :: "Subgraphs \<Rightarrow> Field \<Rightarrow> StringId \<Rightarrow> string \<Rightarrow> string panicking" where
  "unknown_argument_message sg field selected directive_name = do {
     selected_name \<leftarrow> as_str sg selected;
     path \<leftarrow> field_path sg field;
     Some (''Error in @'' @ directive_name @ '': the '' @ selected_name @ '' argument does not exist on '' @ path
       @ ''. Did you use the `arguments` argument instead of `fields`?'') }"

text \<open>An inline fragment is the \<open>todo!()\<close> of the code: it panics.\<close>

definition validate_input_selections :: "Subgraphs \<Rightarrow> Field \<Rightarrow> Context \<Rightarrow> Context panicking" where
  "validate_input_selections sg field ctx =
     foldM (\<lambda>selection ctx. case selection of
         Selection_Field selected _ _ \<Rightarrow>
           if argument_by_name sg field selected = None then do {
             m \<leftarrow> unknown_argument_message sg field selected ''authorized'';
             Some (ctx_push_fatal m ctx) }
           else Some ctx
       | InlineFragment _ _ \<Rightarrow> None)
     (flatten_option (authorized sg (field_directives field) \<bind> auth_arguments)) ctx"

definition validate_fields :: "Subgraphs \<Rightarrow> Context \<Rightarrow> Context panicking" where
  "validate_fields sg ctx =
     foldM (\<lambda>field ctx. do {
         ctx1 \<leftarrow> validate_selections sg field ctx;
         ctx2 \<leftarrow> validate_override_labels sg field ctx1;
         validate_input_selections sg field ctx2 }) (iter_all_fields sg) ctx"

definition validate :: "Subgraphs \<Rightarrow> Context \<Rightarrow> Context panicking" where
  "validate sg ctx = do {
     ctx1 \<leftarrow> validate_subgraph_names sg ctx;
     validate_fields sg (validate_query_nonempty sg ctx1) }"

end
