(* ===== verification/Keys_Parsing.thy ===== *)
theory Keys_Parsing
  imports Subgraphs_Lookup
begin

text \<open>
  The values and selections of the GraphQL parser and their ingestion:
  \<open>ast_value_to_subgraph_value\<close> of \<open>src/engine/crates/composition/src/ingest_subgraph.rs\<close>,
  \<open>selection_set_from_str\<close> and \<open>push_key\<close> of \<open>subgraphs/keys.rs\<close>, \<open>insert_provides\<close> and
  \<open>insert_requires\<close> of \<open>subgraphs/directives.rs\<close>, \<open>ingest_subgraph/directives/authorized.rs\<close>.

  The parser is the crate \<open>async_graphql_parser\<close>, outside the repository.  Its syntax trees are
  data types here; the functions the code calls are the fields of the record \<open>Parser\<close>, an argument of
  the definitions.
\<close>

subsection \<open>Syntax trees\<close>

text \<open>A number is what its accessor methods return.\<close>

record Number =
  is_u64 :: bool
  is_i64 :: bool
  as_i64 :: "int option"
  as_f64 :: "f64 option"

datatype ConstValue =
    Const_Null
  | Const_Number Number
  | Const_String string
  | Const_Boolean bool
  | Const_Binary "8 word list"
  | Const_Enum string
  | Const_List "ConstValue list"
  | Const_Object "(string \<times> ConstValue) list"

record ConstDirective =
  dir_name :: string
  dir_arguments :: "(string \<times> ConstValue) list"

text \<open>The value of an argument in a selection is what \<open>into_const\<close> returns on it: None when it contains a
  variable.\<close>

datatype ast_Selection =
    Ast_Field string "(string \<times> ConstValue option) list" "ast_Selection list"
  | Ast_InlineFragment "string option" "ast_Selection list"
  | Ast_FragmentSpread string

datatype DocumentOperations =
    Operations_Single "ast_Selection list"
  | Operations_Multiple

record Parser =
  parse_query :: "string \<Rightarrow> string + DocumentOperations"
  get_argument :: "ConstDirective \<Rightarrow> string \<Rightarrow> ConstValue option"

subsection \<open>Values\<close>

text \<open>The guard and the \<open>unwrap\<close>s on numbers.\<close>

definition number_to_value :: "Number \<Rightarrow> Value panicking" where
  "number_to_value n =
     (if is_u64 n \<or> is_i64 n then map_option Value_Int (as_i64 n) else map_option Value_Float (as_f64 n))"

fun ast_value_to_subgraph_value :: "ConstValue \<Rightarrow> Subgraphs \<Rightarrow> (Value \<times> Subgraphs) panicking"
  and ast_list_to_subgraph_values :: "ConstValue list \<Rightarrow> Subgraphs \<Rightarrow> (Value list \<times> Subgraphs) panicking"
  and ast_fields_to_subgraph_fields :: "(string \<times> ConstValue) list \<Rightarrow> Subgraphs \<Rightarrow> (Arguments \<times> Subgraphs) panicking" where
  "ast_value_to_subgraph_value (Const_Binary _) sg = None"
| "ast_value_to_subgraph_value Const_Null sg = Some (Value_Null, sg)"
| "ast_value_to_subgraph_value (Const_Number n) sg = do { v \<leftarrow> number_to_value n; Some (v, sg) }"
| "ast_value_to_subgraph_value (Const_String s) sg = (case intern s sg of (i, sg') \<Rightarrow> Some (Value_String i, sg'))"
| "ast_value_to_subgraph_value (Const_Boolean b) sg = Some (Value_Boolean b, sg)"
| "ast_value_to_subgraph_value (Const_Enum e) sg = (case intern e sg of (i, sg') \<Rightarrow> Some (Value_Enum i, sg'))"
| "ast_value_to_subgraph_value (Const_List l) sg = do {
     (vs, sg') \<leftarrow> ast_list_to_subgraph_values l sg;
     Some (Value_List vs, sg') }"
| "ast_value_to_subgraph_value (Const_Object o') sg = do {
     (fs, sg') \<leftarrow> ast_fields_to_subgraph_fields o' sg;
     Some (Value_Object fs, sg') }"
| "ast_list_to_subgraph_values [] sg = Some ([], sg)"
| "ast_list_to_subgraph_values (v # vs) sg = do {
     (x, sg1) \<leftarrow> ast_value_to_subgraph_value v sg;
     (xs, sg2) \<leftarrow> ast_list_to_subgraph_values vs sg1;
     Some (x # xs, sg2) }"
| "ast_fields_to_subgraph_fields [] sg = Some ([], sg)"
| "ast_fields_to_subgraph_fields ((k, v) # rest) sg = (case intern k sg of (i, sg1) \<Rightarrow> do {
     (x, sg2) \<leftarrow> ast_value_to_subgraph_value v sg1;
     (xs, sg3) \<leftarrow> ast_fields_to_subgraph_fields rest sg2;
     Some ((i, x) # xs, sg3) })"

subsection \<open>Selections\<close>

text \<open>The loop over the arguments of a selected field, with the \<open>unwrap\<close> of \<open>into_const\<close>.\<close>

fun build_selection_arguments :: "(string \<times> ConstValue option) list \<Rightarrow> Subgraphs \<Rightarrow> (Arguments \<times> Subgraphs) panicking" where
  "build_selection_arguments [] sg = Some ([], sg)"
| "build_selection_arguments ((name, value) # rest) sg = (case intern name sg of (i, sg1) \<Rightarrow> do {
     v \<leftarrow> value;
     (x, sg2) \<leftarrow> ast_value_to_subgraph_value v sg1;
     (xs, sg3) \<leftarrow> build_selection_arguments rest sg2;
     Some ((i, x) # xs, sg3) })"

text \<open>\<open>build_selection_set\<close>: an error (Inl) stops the iteration; the strings interned before it stay.\<close>

fun build_selection :: "ast_Selection \<Rightarrow> Subgraphs \<Rightarrow> ((string + Selection) \<times> Subgraphs) panicking"
  and build_selection_set :: "ast_Selection list \<Rightarrow> Subgraphs \<Rightarrow> ((string + Selection list) \<times> Subgraphs) panicking" where
  "build_selection (Ast_Field name arguments subselection) sg = (case intern name sg of (field, sg1) \<Rightarrow> do {
     (args, sg2) \<leftarrow> build_selection_arguments arguments sg1;
     (r, sg3) \<leftarrow> build_selection_set subselection sg2;
     Some (case r of Inl e \<Rightarrow> (Inl e, sg3) | Inr sub \<Rightarrow> (Inr (Selection_Field field args sub), sg3)) })"
| "build_selection (Ast_InlineFragment (Some on) subselection) sg = do {
     (r, sg1) \<leftarrow> build_selection_set subselection sg;
     Some (case r of
         Inl e \<Rightarrow> (Inl e, sg1)
       | Inr sub \<Rightarrow> (case intern on sg1 of (i, sg2) \<Rightarrow> (Inr (InlineFragment i sub), sg2))) }"
| "build_selection _ sg = Some (Inl ''Fragment spreads not allowed in key definitions.'', sg)"
| "build_selection_set [] sg = Some (Inr [], sg)"
| "build_selection_set (item # items) sg = do {
     (r, sg1) \<leftarrow> build_selection item sg;
     (case r of
        Inl e \<Rightarrow> Some (Inl e, sg1)
      | Inr s \<Rightarrow> do {
          (r', sg2) \<leftarrow> build_selection_set items sg1;
          Some (case r' of Inl e \<Rightarrow> (Inl e, sg2) | Inr ss \<Rightarrow> (Inr (s # ss), sg2)) }) }"

definition selection_set_from_str ::
  "Parser \<Rightarrow> string \<Rightarrow> Subgraphs \<Rightarrow> ((string + Selection list) \<times> Subgraphs) panicking" where
  "selection_set_from_str P fields_str sg =
     (case parse_query P (''{ '' @ fields_str @ '' }'') of
        Inl err \<Rightarrow> Some (Inl err, sg)
      | Inr Operations_Multiple \<Rightarrow> Some (Inl ''The `fields` argument in `@keys` must be a selection set'', sg)
      | Inr (Operations_Single items) \<Rightarrow> build_selection_set items sg)"

text \<open>The \<open>?\<close> of a caller with \<open>Result<(), String>\<close>: None is \<open>Ok(())\<close>, Some the error.\<close>

definition with_selection_set ::
  "Parser \<Rightarrow> string \<Rightarrow> (Selection list \<Rightarrow> Subgraphs \<Rightarrow> Subgraphs) \<Rightarrow> Subgraphs \<Rightarrow> (string option \<times> Subgraphs) panicking" where
  "with_selection_set P fields_str f sg = do {
     (r, sg1) \<leftarrow> selection_set_from_str P fields_str sg;
     Some (case r of Inl err \<Rightarrow> (Some err, sg1) | Inr selection_set \<Rightarrow> (None, f selection_set sg1)) }"

definition push_key :: "Parser \<Rightarrow> DefinitionId \<Rightarrow> string \<Rightarrow> bool \<Rightarrow> Subgraphs \<Rightarrow> (string option \<times> Subgraphs) panicking" where
  "push_key P object_id selection_set_str resolvable =
     with_selection_set P selection_set_str (\<lambda>s. push_key_selection object_id s resolvable)"

definition insert_provides :: "Parser \<Rightarrow> DirectiveSiteId \<Rightarrow> string \<Rightarrow> Subgraphs \<Rightarrow> (string option \<times> Subgraphs) panicking" where
  "insert_provides P i fields_str = with_selection_set P fields_str (\<lambda>s sg.
     sg\<lparr>sg_directives := (sg_directives sg)\<lparr>dr_provides := bt_insert i s (dr_provides (sg_directives sg))\<rparr>\<rparr>)"

definition insert_requires :: "Parser \<Rightarrow> DirectiveSiteId \<Rightarrow> string \<Rightarrow> Subgraphs \<Rightarrow> (string option \<times> Subgraphs) panicking" where
  "insert_requires P i fields_str = with_selection_set P fields_str (\<lambda>s sg.
     sg\<lparr>sg_directives := (sg_directives sg)\<lparr>dr_requires := bt_insert i s (dr_requires (sg_directives sg))\<rparr>\<rparr>)"

subsection \<open>The directive \<open>@authorized\<close>\<close>

text \<open>\<open>match value { ConstValue::String(s) => Some(s), _ => None }\<close>.\<close>

fun const_string :: "ConstValue \<Rightarrow> string option" where
  "const_string (Const_String s) = Some s"
| "const_string _ = None"

definition string_argument :: "Parser \<Rightarrow> ConstDirective \<Rightarrow> string \<Rightarrow> string option" where
  "string_argument P directive name = get_argument P directive name \<bind> const_string"

definition selection_argument ::
  "Parser \<Rightarrow> ConstDirective \<Rightarrow> string \<Rightarrow> Subgraphs \<Rightarrow> ((string + Selection list option) \<times> Subgraphs) panicking" where
  "selection_argument P directive name sg =
     (case string_argument P directive name of
        None \<Rightarrow> Some (Inr None, sg)
      | Some s \<Rightarrow> do {
          (r, sg1) \<leftarrow> selection_set_from_str P s sg;
          Some (case r of Inl e \<Rightarrow> Inl e | Inr ss \<Rightarrow> Inr (Some ss), sg1) })"

definition ingest_metadata :: "ConstValue option \<Rightarrow> Subgraphs \<Rightarrow> (Value option \<times> Subgraphs) panicking" where
  "ingest_metadata v sg =
     (case v of
        None \<Rightarrow> Some (None, sg)
      | Some value \<Rightarrow> do { (x, sg1) \<leftarrow> ast_value_to_subgraph_value value sg; Some (Some x, sg1) })"

definition ingest_authorized ::
  "Parser \<Rightarrow> DirectiveSiteId \<Rightarrow> ConstDirective \<Rightarrow> Subgraphs \<Rightarrow> (string option \<times> Subgraphs) panicking" where
  "ingest_authorized P directive_site_id directive sg = do {
     (arguments, sg1) \<leftarrow> selection_argument P directive ''arguments'' sg;
     (case arguments of
        Inl err \<Rightarrow> Some (Some err, sg1)
      | Inr arguments \<Rightarrow> do {
     (field_sel, sg2) \<leftarrow> selection_argument P directive ''fields'' sg1;
     (case field_sel of
        Inl err \<Rightarrow> Some (Some err, sg2)
      | Inr field_sel \<Rightarrow> do {
     (node, sg3) \<leftarrow> selection_argument P directive ''node'' sg2;
     (case node of
        Inl err \<Rightarrow> Some (Some err, sg3)
      | Inr node \<Rightarrow> do {
     (metadata, sg4) \<leftarrow> ingest_metadata (get_argument P directive ''metadata'') sg3;
     Some (None, insert_authorized directive_site_id
       \<lparr>auth_arguments = arguments, auth_fields = field_sel, auth_node = node, auth_metadata = metadata\<rparr> sg4) }) }) }) }"

end
