(* ===== verification/Directive_Matcher.thy ===== *)
theory Directive_Matcher
  imports Keys_Parsing "HOL-Library.Char_ord"
begin

text \<open>
  The names of the federation directives in a subgraph and its root types:
  \<open>DirectiveMatcher\<close> of \<open>src/engine/crates/composition/src/ingest_subgraph/directives.rs\<close>,
  \<open>directives/consts.rs\<close>, \<open>schema_definitions.rs\<close>.
\<close>

subsection \<open>Documents\<close>

record ast_InputValueDefinition =
  in_name :: string
  in_description :: "string option"
  in_ty :: ast_Type
  in_default :: "ConstValue option"
  in_directives :: "ConstDirective list"

record ast_FieldDefinition =
  fd_name :: string
  fd_description :: "string option"
  fd_arguments :: "ast_InputValueDefinition list"
  fd_ty :: ast_Type
  fd_directives :: "ConstDirective list"

record ast_EnumValueDefinition =
  evd_value :: string
  evd_directives :: "ConstDirective list"

datatype ast_TypeKind =
    Ast_Scalar
  | Ast_Object "string list" "ast_FieldDefinition list"
  | Ast_Interface "string list" "ast_FieldDefinition list"
  | Ast_Union "string list"
  | Ast_Enum "ast_EnumValueDefinition list"
  | Ast_InputObject "ast_InputValueDefinition list"

record ast_TypeDefinition =
  tdef_name :: string
  tdef_description :: "string option"
  tdef_directives :: "ConstDirective list"
  tdef_kind :: ast_TypeKind

record ast_SchemaDefinition =
  sd_directives :: "ConstDirective list"
  sd_query :: "string option"
  sd_mutation :: "string option"
  sd_subscription :: "string option"

datatype TypeSystemDefinition =
    Schema_Definition ast_SchemaDefinition
  | Type_Definition ast_TypeDefinition
  | Directive_Definition

type_synonym ServiceDocument = "TypeSystemDefinition list"

fun schema_of :: "TypeSystemDefinition \<Rightarrow> ast_SchemaDefinition option" where
  "schema_of (Schema_Definition s) = Some s"
| "schema_of _ = None"

fun type_of_definition :: "TypeSystemDefinition \<Rightarrow> ast_TypeDefinition option" where
  "type_of_definition (Type_Definition t) = Some t"
| "type_of_definition _ = None"

subsection \<open>Names\<close>

abbreviation AUTHENTICATED :: string where "AUTHENTICATED \<equiv> ''authenticated''"
abbreviation AUTHORIZED :: string where "AUTHORIZED \<equiv> ''authorized''"
abbreviation COMPOSE_DIRECTIVE :: string where "COMPOSE_DIRECTIVE \<equiv> ''composeDirective''"
abbreviation EXTERNAL :: string where "EXTERNAL \<equiv> ''external''"
abbreviation INACCESSIBLE :: string where "INACCESSIBLE \<equiv> ''inaccessible''"
abbreviation INTERFACE_OBJECT :: string where "INTERFACE_OBJECT \<equiv> ''interfaceObject''"
abbreviation KEY :: string where "KEY \<equiv> ''key''"
abbreviation OVERRIDE :: string where "OVERRIDE \<equiv> ''override''"
abbreviation POLICY :: string where "POLICY \<equiv> ''policy''"
abbreviation PROVIDES :: string where "PROVIDES \<equiv> ''provides''"
abbreviation REQUIRES :: string where "REQUIRES \<equiv> ''requires''"
abbreviation REQUIRES_SCOPES :: string where "REQUIRES_SCOPES \<equiv> ''requiresScopes''"
abbreviation SHAREABLE :: string where "SHAREABLE \<equiv> ''shareable''"
abbreviation TAG :: string where "TAG \<equiv> ''tag''"

definition DEFAULT_FEDERATION_PREFIX :: string where
  "DEFAULT_FEDERATION_PREFIX = ''federation__''"

record DirectiveMatcher =
  m_shareable :: string
  m_key :: string
  m_external :: string
  m_provides :: string
  m_requires :: string
  m_inaccessible :: string
  m_interface_object :: string
  m_override :: string
  m_compose_directive :: string
  m_requires_scopes :: string
  m_authenticated :: string
  m_policy :: string
  m_tag :: string
  m_composed_directives :: "string btree_set"

definition directive_matcher_default :: DirectiveMatcher where
  "directive_matcher_default =
     \<lparr>m_shareable = SHAREABLE, m_key = KEY, m_external = EXTERNAL, m_provides = PROVIDES, m_requires = REQUIRES,
      m_inaccessible = INACCESSIBLE, m_interface_object = INTERFACE_OBJECT, m_override = OVERRIDE,
      m_compose_directive = COMPOSE_DIRECTIVE, m_requires_scopes = REQUIRES_SCOPES,
      m_authenticated = AUTHENTICATED, m_policy = POLICY, m_tag = TAG, m_composed_directives = []\<rparr>"

text \<open>\<open>str::contains\<close>, \<open>trim_start_matches('@')\<close>.\<close>

fun str_contains :: "string \<Rightarrow> string \<Rightarrow> bool" where
  "str_contains pat [] \<longleftrightarrow> pat = []"
| "str_contains pat (c # cs) \<longleftrightarrow> take (length pat) (c # cs) = pat \<or> str_contains pat cs"

definition trim_at :: "string \<Rightarrow> string" where
  "trim_at = dropWhile (\<lambda>c. c = CHR ''@'')"

definition is_federation_directive :: "Parser \<Rightarrow> ConstDirective \<Rightarrow> bool" where
  "is_federation_directive P directive \<longleftrightarrow>
     dir_name directive = ''link'' \<and>
     (case string_argument P directive ''url'' of
        Some s \<Rightarrow> str_contains ''dev/federation/v2'' s
      | None \<Rightarrow> False)"

text \<open>\<open>obj.get(..)\<close> on the entries of an object value.\<close>

definition obj_get :: "(string \<times> ConstValue) list \<Rightarrow> string \<Rightarrow> ConstValue option" where
  "obj_get obj name = map_of obj name"

definition read_import :: "ConstValue \<Rightarrow> (string \<times> string) list \<Rightarrow> (string \<times> string) list" where
  "read_import import out =
     (case import of
        Const_String s \<Rightarrow> out @ [(trim_at s, trim_at s)]
      | Const_Object obj \<Rightarrow>
          (case obj_get obj ''name'' \<bind> const_string of
             Some name \<Rightarrow>
               (let alias = obj_get obj ''as'' \<bind> const_string
                in out @ [(trim_at name, trim_at (case alias of Some a \<Rightarrow> a | None \<Rightarrow> name))])
           | None \<Rightarrow> out)
      | _ \<Rightarrow> out)"

definition read_imports :: "ConstValue list \<Rightarrow> (string \<times> string) list \<Rightarrow> (string \<times> string) list" where
  "read_imports ast_imports out = fold read_import ast_imports out"

text \<open>The loop of \<open>DirectiveMatcher::new\<close> over the arguments of \<open>@link\<close>.\<close>

fun read_link_arguments ::
  "(string \<times> ConstValue) list \<Rightarrow> string option \<times> (string \<times> string) list \<Rightarrow> string option \<times> (string \<times> string) list" where
  "read_link_arguments [] st = st"
| "read_link_arguments ((arg_name, arg_value) # rest) (as_name, imported) =
     read_link_arguments rest
       (if arg_name = ''as''
        then (case arg_value of Const_String v \<Rightarrow> (Some v, imported) | _ \<Rightarrow> (as_name, imported))
        else if arg_name = ''import''
        then (case arg_value of Const_List imports \<Rightarrow> (as_name, read_imports imports imported) | _ \<Rightarrow> (as_name, imported))
        else (as_name, imported))"

definition federation_prefix :: "string option \<Rightarrow> string" where
  "federation_prefix as_name = (case as_name of Some prefix \<Rightarrow> prefix @ ''__'' | None \<Rightarrow> DEFAULT_FEDERATION_PREFIX)"

definition final_name :: "string option \<Rightarrow> (string \<times> string) list \<Rightarrow> string \<Rightarrow> string" where
  "final_name as_name imported directive_name =
     (case find (\<lambda>(original, _). original = directive_name) imported of
        Some (_, alias) \<Rightarrow> alias
      | None \<Rightarrow> federation_prefix as_name @ directive_name)"

definition directive_matcher_new :: "ConstDirective \<Rightarrow> DirectiveMatcher" where
  "directive_matcher_new directive =
     (case read_link_arguments (dir_arguments directive) (None, []) of (as_name, imported) \<Rightarrow>
       let final = final_name as_name imported in
       \<lparr>m_shareable = final SHAREABLE, m_key = final KEY, m_external = final EXTERNAL, m_provides = final PROVIDES,
        m_requires = final REQUIRES, m_inaccessible = final INACCESSIBLE, m_interface_object = final INTERFACE_OBJECT,
        m_override = final OVERRIDE, m_compose_directive = final COMPOSE_DIRECTIVE,
        m_requires_scopes = final REQUIRES_SCOPES, m_authenticated = final AUTHENTICATED, m_policy = final POLICY,
        m_tag = final TAG, m_composed_directives = []\<rparr>)"

definition is_authorized :: "DirectiveMatcher \<Rightarrow> string \<Rightarrow> bool" where
  "is_authorized m directive_name \<longleftrightarrow> directive_name = AUTHORIZED"

definition is_compose_directive :: "DirectiveMatcher \<Rightarrow> string \<Rightarrow> bool" where
  "is_compose_directive m directive_name \<longleftrightarrow> m_compose_directive m = directive_name"

definition is_composed_directive :: "DirectiveMatcher \<Rightarrow> string \<Rightarrow> bool" where
  "is_composed_directive m directive_name \<longleftrightarrow> trim_at directive_name \<in> set (m_composed_directives m)"

definition matcher_composed_directives :: "DirectiveMatcher \<Rightarrow> string list" where
  "matcher_composed_directives m = m_composed_directives m"

definition is_external :: "DirectiveMatcher \<Rightarrow> string \<Rightarrow> bool" where
  "is_external m directive_name \<longleftrightarrow> m_external m = directive_name"

definition is_interface_object :: "DirectiveMatcher \<Rightarrow> string \<Rightarrow> bool" where
  "is_interface_object m directive_name \<longleftrightarrow> m_interface_object m = directive_name"

definition is_shareable :: "DirectiveMatcher \<Rightarrow> string \<Rightarrow> bool" where
  "is_shareable m directive_name \<longleftrightarrow> m_shareable m = directive_name"

definition is_override :: "DirectiveMatcher \<Rightarrow> string \<Rightarrow> bool" where
  "is_override m directive_name \<longleftrightarrow> m_override m = directive_name"

definition is_requires :: "DirectiveMatcher \<Rightarrow> string \<Rightarrow> bool" where
  "is_requires m directive_name \<longleftrightarrow> m_requires m = directive_name"

definition is_provides :: "DirectiveMatcher \<Rightarrow> string \<Rightarrow> bool" where
  "is_provides m directive_name \<longleftrightarrow> m_provides m = directive_name"

definition is_key :: "DirectiveMatcher \<Rightarrow> string \<Rightarrow> bool" where
  "is_key m directive_name \<longleftrightarrow> m_key m = directive_name"

definition is_inaccessible :: "DirectiveMatcher \<Rightarrow> string \<Rightarrow> bool" where
  "is_inaccessible m directive_name \<longleftrightarrow> m_inaccessible m = directive_name"

definition is_authenticated :: "DirectiveMatcher \<Rightarrow> string \<Rightarrow> bool" where
  "is_authenticated m directive_name \<longleftrightarrow> m_authenticated m = directive_name"

definition is_policy :: "DirectiveMatcher \<Rightarrow> string \<Rightarrow> bool" where
  "is_policy m directive_name \<longleftrightarrow> m_policy m = directive_name"

definition is_requires_scope :: "DirectiveMatcher \<Rightarrow> string \<Rightarrow> bool" where
  "is_requires_scope m directive_name \<longleftrightarrow> m_requires_scopes m = directive_name"

definition is_tag :: "DirectiveMatcher \<Rightarrow> string \<Rightarrow> bool" where
  "is_tag m directive_name \<longleftrightarrow> m_tag m = directive_name"

definition schema_definition_directives :: "ServiceDocument \<Rightarrow> ConstDirective list" where
  "schema_definition_directives document = concat (map sd_directives (List.map_filter schema_of document))"

definition missing_at_message :: "string \<Rightarrow> string" where
  "missing_at_message name = ''The `'' @ name @ ''` directive is missing the `@` prefix in @composeDirective.''"

text \<open>\<open>ingest_directive_definitions\<close>: the matcher and the messages passed to \<open>push_error\<close>, in order.\<close>

definition ingest_directive_definitions :: "Parser \<Rightarrow> ServiceDocument \<Rightarrow> DirectiveMatcher \<times> string list" where
  "ingest_directive_definitions P document =
     (let directives = schema_definition_directives document;
          matcher = (case find (is_federation_directive P) directives of
              Some d \<Rightarrow> directive_matcher_new d
            | None \<Rightarrow> directive_matcher_default);
          names = List.map_filter (\<lambda>d. string_argument P d ''name'')
            (filter (\<lambda>d. is_compose_directive matcher (dir_name d)) directives)
      in (matcher\<lparr>m_composed_directives := fold (\<lambda>name. bs_insert (trim_at name)) names []\<rparr>,
          map missing_at_message (filter (\<lambda>name. take 1 name \<noteq> ''@'') names)))"

subsection \<open>Root types\<close>

record RootTypeMatcher =
  rt_query :: "string option"
  rt_mutation :: "string option"
  rt_subscription :: "string option"

datatype RootTypeMatch = Root_Query | Root_Mutation | Root_Subscription | NotRootButHasDefaultRootName | NotRoot

text \<open>\<open>Option::or\<close>.\<close>

fun option_or :: "'a option \<Rightarrow> 'a option \<Rightarrow> 'a option" where
  "option_or (Some x) _ = Some x"
| "option_or None y = y"

definition ingest_schema_definition :: "ServiceDocument \<Rightarrow> RootTypeMatcher" where
  "ingest_schema_definition document =
     fold (\<lambda>node m. \<lparr>rt_query = option_or (rt_query m) (sd_query node),
                     rt_mutation = option_or (rt_mutation m) (sd_mutation node),
                     rt_subscription = option_or (rt_subscription m) (sd_subscription node)\<rparr>)
       (List.map_filter schema_of document) \<lparr>rt_query = None, rt_mutation = None, rt_subscription = None\<rparr>"

fun match_name_loop :: "(string option \<times> string \<times> RootTypeMatch) list \<Rightarrow> string \<Rightarrow> RootTypeMatch" where
  "match_name_loop [] name = NotRoot"
| "match_name_loop ((name_from_definition, default_name, match_case) # rest) name =
     (case name_from_definition of
        Some root_name \<Rightarrow>
          if root_name = name then match_case
          else if name = default_name then NotRootButHasDefaultRootName
          else match_name_loop rest name
      | None \<Rightarrow> if name = default_name then match_case else match_name_loop rest name)"

definition match_name :: "RootTypeMatcher \<Rightarrow> string \<Rightarrow> RootTypeMatch" where
  "match_name m name = match_name_loop
     [(rt_query m, ''Query'', Root_Query), (rt_mutation m, ''Mutation'', Root_Mutation),
      (rt_subscription m, ''Subscription'', Root_Subscription)] name"

definition is_query :: "RootTypeMatcher \<Rightarrow> string \<Rightarrow> bool" where
  "is_query m name \<longleftrightarrow> match_name m name = Root_Query"

end
