(* ===== verification/Ingest.thy ===== *)
theory Ingest
  imports Directive_Matcher
begin

text \<open>
  Ingestion of a subgraph: \<open>src/engine/crates/composition/src/ingest_subgraph.rs\<close>, with
  \<open>ingest_subgraph/{directives,enums,fields,nested_key_fields}.rs\<close>.
\<close>

subsection \<open>Directives\<close>

text \<open>The steps of the loop of \<open>ingest_directives\<close>, one per kind of directive.\<close>

fun intern_strings :: "ConstValue list \<Rightarrow> Subgraphs \<Rightarrow> StringId list \<times> Subgraphs" where
  "intern_strings [] sg = ([], sg)"
| "intern_strings (v # vs) sg =
     (case v of
        Const_String s \<Rightarrow>
          (case intern s sg of (i, sg1) \<Rightarrow> case intern_strings vs sg1 of (is, sg2) \<Rightarrow> (i # is, sg2))
      | _ \<Rightarrow> intern_strings vs sg)"

fun const_list :: "ConstValue \<Rightarrow> ConstValue list" where
  "const_list (Const_List l) = l"
| "const_list _ = []"

text \<open>A list of lists of strings, each inner list given to an insertion: the scopes and the policies.\<close>

definition ingest_string_lists ::
  "(DirectiveSiteId \<Rightarrow> StringId list \<Rightarrow> Subgraphs \<Rightarrow> Subgraphs) \<Rightarrow> DirectiveSiteId \<Rightarrow> ConstValue option \<Rightarrow> Subgraphs \<Rightarrow> Subgraphs" where
  "ingest_string_lists ins site argument sg =
     fold (\<lambda>inner sg. case intern_strings (const_list inner) sg of (is, sg1) \<Rightarrow> ins site is sg1)
       (case argument of None \<Rightarrow> [] | Some v \<Rightarrow> const_list v) sg"

definition ingest_override :: "Parser \<Rightarrow> DirectiveSiteId \<Rightarrow> ConstDirective \<Rightarrow> Subgraphs \<Rightarrow> Subgraphs" where
  "ingest_override P site directive sg =
     (let (from, sg1) = intern_option (string_argument P directive ''from'') sg;
          (label, sg2) = intern_option (string_argument P directive ''label'') sg1
      in case from of
           None \<Rightarrow> sg2
         | Some f \<Rightarrow> set_override site \<lparr>override_from = f, override_label = label\<rparr> sg2)"

text \<open>\<open>@requires\<close> and \<open>@provides\<close>: an error becomes an ingestion diagnostic.\<close>

definition ingest_selection ::
  "(string \<Rightarrow> Subgraphs \<Rightarrow> (string option \<times> Subgraphs) panicking) \<Rightarrow> Parser \<Rightarrow> ConstDirective \<Rightarrow> SubgraphId \<Rightarrow> Subgraphs \<Rightarrow>
   Subgraphs panicking" where
  "ingest_selection ins P directive subgraph sg =
     (case string_argument P directive ''fields'' of
        None \<Rightarrow> Some sg
      | Some fields_arg \<Rightarrow> do {
          (r, sg1) \<leftarrow> ins fields_arg sg;
          (case r of None \<Rightarrow> Some sg1 | Some err \<Rightarrow> push_ingestion_diagnostic subgraph err sg1) })"

definition ingest_composed_directive :: "DirectiveMatcher \<Rightarrow> DirectiveSiteId \<Rightarrow> ConstDirective \<Rightarrow> Subgraphs \<Rightarrow> Subgraphs panicking" where
  "ingest_composed_directive m site directive sg =
     (if is_composed_directive m (dir_name directive) then do {
        (arguments, sg1) \<leftarrow> ast_fields_to_subgraph_fields (dir_arguments directive) sg;
        Some (insert_composed_directive_instance site (dir_name directive) arguments sg1) }
      else Some sg)"

text \<open>The part of the loop body after the early \<open>continue\<close>s of \<open>@tag\<close>.\<close>

definition ingest_other_directive ::
  "Parser \<Rightarrow> DirectiveMatcher \<Rightarrow> SubgraphId \<Rightarrow> (Subgraphs \<Rightarrow> string panicking) \<Rightarrow> DirectiveSiteId \<Rightarrow> ConstDirective \<Rightarrow>
   Subgraphs \<Rightarrow> Subgraphs panicking" where
  "ingest_other_directive P m subgraph location site directive sg = do {
     let name = dir_name directive;
     let sg1 = (if is_authenticated m name then insert_authenticated site sg else sg);
     let sg2 = (if is_requires_scope m name
       then ingest_string_lists append_required_scopes site (get_argument P directive ''scopes'') sg1 else sg1);
     let sg3 = (if is_policy m name
       then ingest_string_lists insert_policy site (get_argument P directive ''policies'') sg2 else sg2);
     let sg4 = (if name = ''deprecated''
       then insert_deprecated site (string_argument P directive ''reason'') sg3 else sg3);
     if is_authorized m name then do {
       (r, sg5) \<leftarrow> ingest_authorized P site directive sg4;
       (case r of
          None \<Rightarrow> Some sg5
        | Some err \<Rightarrow> do {
            loc \<leftarrow> location sg5;
            push_ingestion_diagnostic subgraph
              (''Error validating the @authorized directive at '' @ loc @ '': '' @ err) sg5 }) }
     else Some sg4 }"

definition ingest_directive ::
  "Parser \<Rightarrow> DirectiveMatcher \<Rightarrow> SubgraphId \<Rightarrow> (Subgraphs \<Rightarrow> string panicking) \<Rightarrow> DirectiveSiteId \<Rightarrow> ConstDirective \<Rightarrow>
   Subgraphs \<Rightarrow> Subgraphs panicking" where
  "ingest_directive P m subgraph location site directive sg =
     (let name = dir_name directive in
      if is_shareable m name then Some (set_shareable site sg)
      else if is_external m name then Some (set_external site sg)
      else if is_interface_object m name then Some (set_interface_object site sg)
      else if is_inaccessible m name then Some (set_inaccessible site sg)
      else if is_override m name then Some (ingest_override P site directive sg)
      else if is_requires m name then ingest_selection (insert_requires P site) P directive subgraph sg
      else if is_provides m name then ingest_selection (insert_provides P site) P directive subgraph sg
      else do {
        sg1 \<leftarrow> ingest_composed_directive m site directive sg;
        if is_tag m name then
          (case get_argument P directive ''name'' of
             None \<Rightarrow> Some sg1
           | Some value \<Rightarrow>
               ingest_other_directive P m subgraph location site directive
                 (case value of Const_String s \<Rightarrow> insert_tag site s sg1 | _ \<Rightarrow> sg1))
        else ingest_other_directive P m subgraph location site directive sg1 })"

definition ingest_directives ::
  "Parser \<Rightarrow> DirectiveSiteId \<Rightarrow> ConstDirective list \<Rightarrow> DirectiveMatcher \<Rightarrow> SubgraphId \<Rightarrow>
   (Subgraphs \<Rightarrow> string panicking) \<Rightarrow> Subgraphs \<Rightarrow> Subgraphs panicking" where
  "ingest_directives P site directives_node m subgraph location sg =
     foldM (ingest_directive P m subgraph location site) directives_node sg"

definition key_is_resolvable :: "Parser \<Rightarrow> ConstDirective \<Rightarrow> bool" where
  "key_is_resolvable P directive =
     (case get_argument P directive ''resolvable'' of Some (Const_Boolean b) \<Rightarrow> b | _ \<Rightarrow> True)"

definition ingest_keys ::
  "Parser \<Rightarrow> DefinitionId \<Rightarrow> ConstDirective list \<Rightarrow> DirectiveMatcher \<Rightarrow> Subgraphs \<Rightarrow> Subgraphs panicking" where
  "ingest_keys P definition_id directives_node m sg =
     foldM (\<lambda>directive sg.
         if is_key m (dir_name directive) then
           (case string_argument P directive ''fields'' of
              None \<Rightarrow> Some sg
            | Some fields_arg \<Rightarrow> do {
                (_, sg1) \<leftarrow> push_key P definition_id fields_arg (key_is_resolvable P directive) sg;
                Some sg1 })
         else Some sg) directives_node sg"

subsection \<open>Enums, fields, arguments\<close>

definition definition_location :: "DefinitionId \<Rightarrow> Subgraphs \<Rightarrow> string panicking" where
  "definition_location d sg = do { name \<leftarrow> def_name sg d; as_str sg name }"

definition ingest_enum ::
  "Parser \<Rightarrow> DefinitionId \<Rightarrow> ast_EnumValueDefinition list \<Rightarrow> DirectiveMatcher \<Rightarrow> SubgraphId \<Rightarrow> Subgraphs \<Rightarrow> Subgraphs panicking" where
  "ingest_enum P definition_id values m subgraph sg =
     foldM (\<lambda>value sg. do {
         let (value_name, sg1) = intern (evd_value value) sg;
         let (value_directives, sg2) = new_directive_site sg1;
         ingest_directives P value_directives (evd_directives value) m subgraph (definition_location definition_id)
           (push_enum_value definition_id value_name value_directives sg2) }) values sg"

definition ingest_default :: "ConstValue option \<Rightarrow> Subgraphs \<Rightarrow> (Value option \<times> Subgraphs) panicking" where
  "ingest_default = ingest_metadata"

definition input_field_location :: "DefinitionId \<Rightarrow> string \<Rightarrow> Subgraphs \<Rightarrow> string panicking" where
  "input_field_location d fname sg = do { parent \<leftarrow> definition_location d sg; Some (parent @ ''.'' @ fname) }"

definition ingest_input_fields ::
  "Parser \<Rightarrow> DefinitionId \<Rightarrow> ast_InputValueDefinition list \<Rightarrow> DirectiveMatcher \<Rightarrow> SubgraphId \<Rightarrow> Subgraphs \<Rightarrow> Subgraphs panicking" where
  "ingest_input_fields P parent_definition_id field_nodes m subgraph_id sg =
     foldM (\<lambda>node sg. do {
         let (fty, sg1) = intern_field_type (in_ty node) sg;
         let (directives, sg2) = new_directive_site sg1;
         sg3 \<leftarrow> ingest_directives P directives (in_directives node) m subgraph_id
           (input_field_location parent_definition_id (in_name node)) sg2;
         let (description, sg4) = intern_option (in_description node) sg3;
         (dflt, sg5) \<leftarrow> ingest_default (in_default node) sg4;
         Some (snd (push_field
           \<lparr>fi_parent_definition_id = parent_definition_id, fi_field_name = in_name node, fi_field_type = fty,
            fi_description = description, fi_directives = directives, fi_default = dflt\<rparr> sg5)) }) field_nodes sg"

definition argument_location :: "FieldId \<Rightarrow> string \<Rightarrow> Subgraphs \<Rightarrow> string panicking" where
  "argument_location field_id aname sg = do {
     field \<leftarrow> walk_field sg field_id;
     parent \<leftarrow> definition_location (parent_definition field) sg;
     fname \<leftarrow> as_str sg (field_name field);
     Some (parent @ ''.'' @ fname @ ''('' @ aname @ '':)'') }"

definition ingest_field_arguments ::
  "Parser \<Rightarrow> FieldId \<Rightarrow> ast_InputValueDefinition list \<Rightarrow> DirectiveMatcher \<Rightarrow> SubgraphId \<Rightarrow> Subgraphs \<Rightarrow> Subgraphs panicking" where
  "ingest_field_arguments P field_id arguments m subgraph_id sg =
     foldM (\<lambda>node sg. do {
         let (fty, sg1) = intern_field_type (in_ty node) sg;
         let (name, sg2) = intern (in_name node) sg1;
         let (directives, sg3) = new_directive_site sg2;
         sg4 \<leftarrow> ingest_directives P directives (in_directives node) m subgraph_id
           (argument_location field_id (in_name node)) sg3;
         let (description, sg5) = intern_option (in_description node) sg4;
         (dflt, sg6) \<leftarrow> ingest_default (in_default node) sg5;
         Some (insert_field_argument field_id name fty directives description dflt sg6) }) arguments sg"

definition ingest_field ::
  "Parser \<Rightarrow> DefinitionId \<Rightarrow> DirectiveMatcher \<Rightarrow> SubgraphId \<Rightarrow> ast_FieldDefinition \<Rightarrow> Subgraphs \<Rightarrow> Subgraphs panicking" where
  "ingest_field P definition_id m subgraph_id node sg = do {
     let (description, sg1) = intern_option (fd_description node) sg;
     let (fty, sg2) = intern_field_type (fd_ty node) sg1;
     let (directives, sg3) = new_directive_site sg2;
     let (field_id, sg4) = push_field
       \<lparr>fi_parent_definition_id = definition_id, fi_field_name = fd_name node, fi_field_type = fty,
        fi_description = description, fi_directives = directives, fi_default = None\<rparr> sg3;
     sg5 \<leftarrow> ingest_directives P directives (fd_directives node) m subgraph_id
       (input_field_location definition_id (fd_name node)) sg4;
     ingest_field_arguments P field_id (fd_arguments node) m subgraph_id sg5 }"

definition ingest_fields ::
  "Parser \<Rightarrow> DefinitionId \<Rightarrow> ast_FieldDefinition list \<Rightarrow> DirectiveMatcher \<Rightarrow> bool \<Rightarrow> SubgraphId \<Rightarrow> Subgraphs \<Rightarrow> Subgraphs panicking" where
  "ingest_fields P definition_id field_nodes m parent_is_query_root_type subgraph_id sg =
     foldM (\<lambda>node sg.
         if parent_is_query_root_type \<and> fd_name node \<in> {''_entities'', ''_service''} then Some sg
         else ingest_field P definition_id m subgraph_id node sg) field_nodes sg"

subsection \<open>Nested key fields\<close>

fun ingest_nested_key_fields_rec :: "Subgraphs \<Rightarrow> DefinitionId \<Rightarrow> Selection \<Rightarrow> NestedKeyFields \<Rightarrow> NestedKeyFields panicking"
  and ingest_nested_key_fields_list :: "Subgraphs \<Rightarrow> DefinitionId \<Rightarrow> Selection list \<Rightarrow> NestedKeyFields \<Rightarrow> NestedKeyFields panicking" where
  "ingest_nested_key_fields_rec sg parent (InlineFragment _ _) nk = Some nk"
| "ingest_nested_key_fields_rec sg parent (Selection_Field f _ subselection) nk =
     (case find_field sg parent f of
        None \<Rightarrow> Some nk
      | Some field \<Rightarrow>
          (let nk1 = nested_key_fields_insert field nk in
           if subselection = [] then Some nk1
           else do {
             s \<leftarrow> def_subgraph_id sg parent;
             d \<leftarrow> type_definition sg (field_type field) s;
             (case d of
                None \<Rightarrow> Some nk1
              | Some selection_field_type \<Rightarrow> ingest_nested_key_fields_list sg selection_field_type subselection nk1) }))"
| "ingest_nested_key_fields_list sg parent [] nk = Some nk"
| "ingest_nested_key_fields_list sg parent (s # rest) nk = do {
     nk1 \<leftarrow> ingest_nested_key_fields_rec sg parent s nk;
     ingest_nested_key_fields_list sg parent rest nk1 }"

definition nested_key_fields_of_selection ::
  "Subgraphs \<Rightarrow> SubgraphId \<Rightarrow> DefinitionId \<Rightarrow> Selection \<Rightarrow> NestedKeyFields \<Rightarrow> NestedKeyFields panicking" where
  "nested_key_fields_of_selection sg subgraph_id d selection nk =
     (case selection of
        InlineFragment _ _ \<Rightarrow> Some nk
      | Selection_Field f _ subselection \<Rightarrow>
          (case find_field sg d f of
             None \<Rightarrow> Some nk
           | Some field \<Rightarrow> do {
               fty \<leftarrow> type_definition sg (field_type field) subgraph_id;
               (case fty of
                  None \<Rightarrow> Some nk
                | Some field_def \<Rightarrow> ingest_nested_key_fields_list sg field_def subselection nk) }))"

definition ingest_nested_key_fields :: "SubgraphId \<Rightarrow> Subgraphs \<Rightarrow> Subgraphs panicking" where
  "ingest_nested_key_fields subgraph_id sg =
     with_nested_key_fields (\<lambda>sg nk. do {
         _ \<leftarrow> walk_subgraph sg subgraph_id;
         foldM (\<lambda>d nk.
             foldM (\<lambda>key nk. do {
                 selections \<leftarrow> key_fields sg key;
                 foldM (nested_key_fields_of_selection sg subgraph_id d) selections nk })
               (entity_keys sg d) nk)
           (subgraph_definitions sg subgraph_id) nk }) sg"

subsection \<open>Definitions\<close>

definition SERVICE_TYPE_NAME :: string where "SERVICE_TYPE_NAME = ''_Service''"
definition ENTITY_UNION_NAME :: string where "ENTITY_UNION_NAME = ''_Entity''"

definition default_root_name_message :: "string \<Rightarrow> string" where
  "default_root_name_message ty_name = ''The '' @ ty_name
     @ '' type has the default name for a root but is itself not a root. This is not valid in a federation context.''"

definition set_root_type :: "RootTypeMatcher \<Rightarrow> SubgraphId \<Rightarrow> string \<Rightarrow> DefinitionId \<Rightarrow> Subgraphs \<Rightarrow> Subgraphs panicking" where
  "set_root_type rm subgraph_id ty_name definition_id sg =
     (case match_name rm ty_name of
        Root_Query \<Rightarrow> set_query_type subgraph_id definition_id sg
      | Root_Mutation \<Rightarrow> set_mutation_type subgraph_id definition_id sg
      | Root_Subscription \<Rightarrow> set_subscription_type subgraph_id definition_id sg
      | NotRootButHasDefaultRootName \<Rightarrow> push_ingestion_diagnostic subgraph_id (default_root_name_message ty_name) sg
      | NotRoot \<Rightarrow> Some sg)"

text \<open>The \<open>match\<close> that pushes the definition; None is its \<open>continue\<close>.\<close>

definition push_type_definition_node ::
  "Parser \<Rightarrow> DirectiveMatcher \<Rightarrow> RootTypeMatcher \<Rightarrow> SubgraphId \<Rightarrow> ast_TypeDefinition \<Rightarrow> StringId option \<Rightarrow> DirectiveSiteId \<Rightarrow>
   Subgraphs \<Rightarrow> (DefinitionId option \<times> Subgraphs) panicking" where
  "push_type_definition_node P m rm subgraph_id node description directives sg =
     (let ty_name = tdef_name node;
          push = (\<lambda>kind. push_definition subgraph_id ty_name kind description directives sg)
      in case tdef_kind node of
        Ast_Object _ _ \<Rightarrow>
          if ty_name = SERVICE_TYPE_NAME then Some (None, sg)
          else (case push Object of (d, sg1) \<Rightarrow> do {
            sg2 \<leftarrow> set_root_type rm subgraph_id ty_name d sg1;
            Some (Some d, sg2) })
      | Ast_Union _ \<Rightarrow>
          if ty_name = ENTITY_UNION_NAME then Some (None, sg)
          else (case push Union of (d, sg1) \<Rightarrow> Some (Some d, sg1))
      | Ast_Interface _ _ \<Rightarrow> (case push Interface of (d, sg1) \<Rightarrow> Some (Some d, sg1))
      | Ast_InputObject _ \<Rightarrow> (case push InputObject of (d, sg1) \<Rightarrow> Some (Some d, sg1))
      | Ast_Scalar \<Rightarrow> (case push Scalar of (d, sg1) \<Rightarrow> Some (Some d, sg1))
      | Ast_Enum values \<Rightarrow> (case push Enum of (d, sg1) \<Rightarrow> do {
            sg2 \<leftarrow> ingest_enum P d values m subgraph_id sg1;
            Some (Some d, sg2) }))"

definition ingest_top_level_definition ::
  "Parser \<Rightarrow> DirectiveMatcher \<Rightarrow> RootTypeMatcher \<Rightarrow> SubgraphId \<Rightarrow> ast_TypeDefinition \<Rightarrow> Subgraphs \<Rightarrow> Subgraphs panicking" where
  "ingest_top_level_definition P m rm subgraph_id node sg = do {
     let (description, sg1) = intern_option (tdef_description node) sg;
     let (directives, sg2) = new_directive_site sg1;
     (d, sg3) \<leftarrow> push_type_definition_node P m rm subgraph_id node description directives sg2;
     (case d of
        None \<Rightarrow> Some sg3
      | Some definition_id \<Rightarrow> do {
          sg4 \<leftarrow> ingest_directives P directives (tdef_directives node) m subgraph_id (\<lambda>_. Some (tdef_name node)) sg3;
          ingest_keys P definition_id (tdef_directives node) m sg4 }) }"

definition ingest_top_level_definitions ::
  "Parser \<Rightarrow> SubgraphId \<Rightarrow> ServiceDocument \<Rightarrow> DirectiveMatcher \<Rightarrow> RootTypeMatcher \<Rightarrow> Subgraphs \<Rightarrow> Subgraphs panicking" where
  "ingest_top_level_definitions P subgraph_id document m rm sg =
     foldM (ingest_top_level_definition P m rm subgraph_id) (List.map_filter type_of_definition document) sg"

definition ingest_implements :: "SubgraphId \<Rightarrow> DefinitionId \<Rightarrow> string list \<Rightarrow> Subgraphs \<Rightarrow> Subgraphs panicking" where
  "ingest_implements subgraph_id definition_id names sg =
     foldM (\<lambda>name sg. do {
         (implemented_interface, sg1) \<leftarrow> definition_by_name name subgraph_id sg;
         push_interface_impl definition_id implemented_interface sg1 }) names sg"

definition ingest_definition_body ::
  "Parser \<Rightarrow> SubgraphId \<Rightarrow> DirectiveMatcher \<Rightarrow> RootTypeMatcher \<Rightarrow> ast_TypeDefinition \<Rightarrow> Subgraphs \<Rightarrow> Subgraphs panicking" where
  "ingest_definition_body P subgraph_id m rm node sg =
     (case tdef_kind node of
        Ast_Union members \<Rightarrow>
          if tdef_name node = ENTITY_UNION_NAME then Some sg
          else do {
            (union_id, sg1) \<leftarrow> definition_by_name (tdef_name node) subgraph_id sg;
            foldM (\<lambda>member sg. do {
                (member_id, sg1) \<leftarrow> definition_by_name member subgraph_id sg;
                Some (push_union_member union_id member_id sg1) }) members sg1 }
      | Ast_InputObject input_fields \<Rightarrow> do {
          (definition_id, sg1) \<leftarrow> definition_by_name (tdef_name node) subgraph_id sg;
          ingest_input_fields P definition_id input_fields m subgraph_id sg1 }
      | Ast_Interface interface_names field_nodes \<Rightarrow> do {
          (definition_id, sg1) \<leftarrow> definition_by_name (tdef_name node) subgraph_id sg;
          sg2 \<leftarrow> ingest_implements subgraph_id definition_id interface_names sg1;
          ingest_fields P definition_id field_nodes m False subgraph_id sg2 }
      | Ast_Object interface_names field_nodes \<Rightarrow>
          if tdef_name node = SERVICE_TYPE_NAME then Some sg
          else do {
            (definition_id, sg1) \<leftarrow> definition_by_name (tdef_name node) subgraph_id sg;
            sg2 \<leftarrow> ingest_implements subgraph_id definition_id interface_names sg1;
            ingest_fields P definition_id field_nodes m (is_query rm (tdef_name node)) subgraph_id sg2 }
      | _ \<Rightarrow> Some sg)"

definition ingest_definition_bodies ::
  "Parser \<Rightarrow> SubgraphId \<Rightarrow> ServiceDocument \<Rightarrow> DirectiveMatcher \<Rightarrow> RootTypeMatcher \<Rightarrow> Subgraphs \<Rightarrow> Subgraphs panicking" where
  "ingest_definition_bodies P subgraph_id document m rm sg =
     foldM (ingest_definition_body P subgraph_id m rm) (List.map_filter type_of_definition document) sg"

definition ingest_subgraph :: "Parser \<Rightarrow> ServiceDocument \<Rightarrow> string \<Rightarrow> string \<Rightarrow> Subgraphs \<Rightarrow> Subgraphs panicking" where
  "ingest_subgraph P document name url sg = do {
     let (subgraph_id, sg1) = push_subgraph name url sg;
     let rm = ingest_schema_definition document;
     let (m, errors) = ingest_directive_definitions P document;
     sg2 \<leftarrow> foldM (push_ingestion_diagnostic subgraph_id) errors sg1;
     sg3 \<leftarrow> ingest_top_level_definitions P subgraph_id document m rm sg2;
     sg4 \<leftarrow> ingest_definition_bodies P subgraph_id document m rm sg3;
     sg5 \<leftarrow> ingest_nested_key_fields subgraph_id sg4;
     Some (fold (insert_composed_directive subgraph_id) (matcher_composed_directives m) sg5) }"

end
