(* ===== verification/Composition.thy ===== *)
theory Composition
  imports Compose Validate Ingest Emit
begin

text \<open>
  The entry point \<open>compose\<close> of \<open>src/engine/crates/composition/src/lib.rs\<close> and \<open>result.rs\<close>.  The graph of the
  result is the one \<open>emit_federated_graph\<close> builds, before it is rendered to SDL.
\<close>

record CompositionResult =
  federated_graph :: "FederatedGraph option"
  result_diagnostics :: Diagnostics

definition no_graphs_message :: string where
  "no_graphs_message = ''No graphs found for composition build. You must have at least one active graph.''"

text \<open>\<open>compose\<close> up to \<open>context.into_ir()\<close>: the representation to emit, if there was no fatal diagnostic.\<close>

definition compose_ir :: "Subgraphs \<Rightarrow> (CompositionIr option \<times> Diagnostics) panicking" where
  "compose_ir sg =
     (if iter_subgraphs sg = []
      then Some (None, push_fatal no_graphs_message [])
      else do {
        context \<leftarrow> context_new sg [];
        context1 \<leftarrow> validate sg context;
        if any_fatal (ctx_diagnostics context1)
        then Some (None, ctx_diagnostics context1)
        else do {
          context2 \<leftarrow> compose_subgraphs sg context1;
          if any_fatal (ctx_diagnostics context2)
          then Some (None, ctx_diagnostics context2)
          else Some (Some (into_ir context2), ctx_diagnostics context2) } })"

definition compose :: "Subgraphs \<Rightarrow> CompositionResult panicking" where
  "compose sg = do {
     (ir, diagnostics) \<leftarrow> compose_ir sg;
     g \<leftarrow> mapM_option (emit_federated_graph sg) ir;
     Some \<lparr>federated_graph = g, result_diagnostics = diagnostics\<rparr> }"

text \<open>\<open>Subgraphs::ingest\<close> on a list of documents with their names and urls.\<close>

definition ingest_all :: "Parser \<Rightarrow> (ServiceDocument \<times> string \<times> string) list \<Rightarrow> Subgraphs \<Rightarrow> Subgraphs panicking" where
  "ingest_all P documents sg = foldM (\<lambda>(document, name, url). ingest_subgraph P document name url) documents sg"

text \<open>\<open>CompositionResult::into_result\<close>.\<close>

definition into_result :: "CompositionResult \<Rightarrow> Diagnostics + FederatedGraph" where
  "into_result r = (case federated_graph r of Some g \<Rightarrow> Inr g | None \<Rightarrow> Inl (result_diagnostics r))"

end
