(* ===== verification/Entity_Steps.thy ===== *)
theory Entity_Steps
  imports Object_Steps
begin

text \<open>
  The composition of entity interfaces keeps the invariant of the intermediate representation and returns.
\<close>

subsection \<open>Checks of entity interfaces\<close>

lemma interface_implementers_ok: "wf_store sg \<Longrightarrow> d \<in> set (interface_implementers sg s n) \<Longrightarrow> def_ok sg d"
  by (auto simp: interface_implementers_def List.map_filter_def dest!: names_ok_get [unfolded definition_by_name_id_def])

lemma implementer_names_runs:
  assumes wf: "wf_store sg" and d: "def_ok sg d"
  shows "runs t (implementer_names sg n d) (\<lambda>ns. \<forall>n \<in> set ns. str_ok sg n)"
  unfolding implementer_names_def
  by (rule runs_bind [OF def_subgraph_runs [OF wf d]], rule runs_bind [OF def_subgraph_id_runs [OF wf d]],
      rule runs_mapM_all [OF def_name_runs [OF wf interface_implementers_ok [OF wf]]])

lemma strs_runs: "\<forall>n \<in> set ns. str_ok sg n \<Longrightarrow> runs t (mapM (as_str sg) ns) (\<lambda>_. True)"
  by (rule runs_mono [OF runs_mapM [where Q = "\<lambda>_ _. True"]]) (auto intro: as_str_runs)

lemma missing_implementers_message_runs [walker_runs]:
  assumes "wf_store sg" and "def_ok sg d" and "str_ok sg n" and "\<forall>n \<in> set ns. str_ok sg n"
  shows "runs t (missing_implementers_message sg d n ns) (\<lambda>_. True)"
  unfolding missing_implementers_message_def
  by (intro runs_bind [where P = "\<lambda>_. True"] walker_runs as_str_runs strs_runs assms) simp

lemma interface_object_on_interface_message_runs [walker_runs]:
  "wf_store sg \<Longrightarrow> def_ok sg d \<Longrightarrow> str_ok sg n \<Longrightarrow> runs t (interface_object_on_interface_message sg d n) (\<lambda>_. True)"
  unfolding interface_object_on_interface_message_def by (intro runs_bind [where P = "\<lambda>_. True"] walker_runs as_str_runs) simp_all

lemma check_interface_runs:
  assumes wf: "wf_store sg" and ir: "ir_wf sg (ctx_ir ctx)" and d: "def_ok sg d" and n: "str_ok sg n" and all: "\<forall>n \<in> set names. str_ok sg n"
  shows "runs t (check_interface sg n names d ctx) (str_step sg ctx)"
  unfolding check_interface_def Let_def
proof (rule runs_bind [OF implementer_names_runs [OF wf d]],
    rule runs_bind [OF push_message_if_runs [OF ir missing_implementers_message_runs [OF wf d n]]])
  show "\<forall>n \<in> set (filter (\<lambda>i. i \<notin> set (fold bs_insert ns [])) names). str_ok sg n" for ns using all by simp
  fix ctx1 assume 1: "str_step sg ctx ctx1"
  show "runs t (do { site \<leftarrow> def_directives sg d;
      if interface_object sg site then do { m \<leftarrow> interface_object_on_interface_message sg d n; Some (ctx_push_fatal m ctx1) } else Some ctx1 })
    (str_step sg ctx)"
    by (rule runs_bind [OF def_directives_runs [OF wf d]],
        rule runs_mono [OF push_message_if_runs [OF str_step_wf [OF 1] interface_object_on_interface_message_runs [OF wf d n]]])
      (rule str_step_trans [OF 1])
qed

lemma check_all_interfaces_runs:
  assumes wf: "wf_store sg" and ir: "ir_wf sg (ctx_ir ctx)" and ds: "\<forall>d \<in> set ds. def_ok sg d" and n: "str_ok sg n"
  shows "runs t (check_all_interfaces sg n ds ctx) (str_step sg ctx)"
proof -
  have names: "runs t (mapM (implementer_names sg n) ds) (\<lambda>nss. \<forall>ns \<in> set nss. \<forall>n \<in> set ns. str_ok sg n)"
    by (rule runs_mapM_all [OF implementer_names_runs [OF wf]]) (use ds in blast)
  show ?thesis
    unfolding check_all_interfaces_def
  proof (rule runs_if, rule runs_bind [OF names], rule runs_foldM [where I = "str_step sg ctx", OF str_step_refl [OF ir]])
    fix nss d ctx1 assume nss: "\<forall>ns \<in> set nss. \<forall>n \<in> set ns. str_ok sg n" and d: "d \<in> set ds" and 1: "str_step sg ctx ctx1"
    have "\<forall>n \<in> set (fold bs_insert (concat nss) []). str_ok sg n" using nss by (auto simp: set_fold_bs_insert)
    from check_interface_runs [OF wf str_step_wf [OF 1] _ n this] show "runs t (check_interface sg n (fold bs_insert (concat nss) []) d ctx1) (str_step sg ctx)"
      by (rule runs_mono) (use ds d str_step_trans [OF 1] in blast)+
  qed (simp add: str_step_refl ir)
qed

subsection \<open>Fields of entity interfaces\<close>

lemma translate_arguments_runs:
  assumes wf: "wf_store sg" and ir: "ir_wf sg (ctx_ir ctx)"
  shows "runs t (translate_arguments sg f ctx) (\<lambda>(r, ctx'). ctx_step sg ctx ctx' \<and> args_ok (ctx_ir ctx') r)"
proof -
  have "runs t (foldM (\<lambda>arg (ids, ctx). do {
         (directives, ctx1) \<leftarrow> collect_composed_directives sg [argument_directives arg] ctx;
         (name, ctx2) \<leftarrow> insert_string sg (argument_name arg) ctx1;
         let (i, ctx3) = insert_input_value_definition
           \<lparr>iv_name = name, iv_type = argument_type arg, iv_directives = directives, iv_description = None,
            iv_default = argument_default sg arg\<rparr> ctx2;
         Some (count_id i ids, ctx3) }) (field_arguments sg f) (None, ctx)) (args_state sg ctx)"
  proof (rule runs_foldM [where I = "args_state sg ctx", OF args_state_init [OF ir]], clarify)
    fix arg :: FieldArgument and ids ctx1 assume "arg \<in> set (field_arguments sg f)" and st: "args_state sg ctx (ids, ctx1)"
    then have arg: "argument_ok sg arg" by (auto intro: field_arguments_ok)
    show "runs t (do {
         (directives, ctx1) \<leftarrow> collect_composed_directives sg [argument_directives arg] ctx1;
         (name, ctx2) \<leftarrow> insert_string sg (argument_name arg) ctx1;
         let (i, ctx3) = insert_input_value_definition
           \<lparr>iv_name = name, iv_type = argument_type arg, iv_directives = directives, iv_description = None,
            iv_default = argument_default sg arg\<rparr> ctx2;
         Some (count_id i ids, ctx3) }) (args_state sg ctx)"
    proof (rule runs_bind [OF collected_runs [OF wf args_state_wf [OF st]]], clarify)
      fix x y ctx2 assume 2: "dir_step sg ctx1 ctx2" "dirs_ok (ctx_ir ctx2) (x, y)"
      show "runs t (do {
         (name, ctx2) \<leftarrow> insert_string sg (argument_name arg) ctx2;
         let (i, ctx3) = insert_input_value_definition
           \<lparr>iv_name = name, iv_type = argument_type arg, iv_directives = (x, y), iv_description = None,
            iv_default = argument_default sg arg\<rparr> ctx2;
         Some (count_id i ids, ctx3) }) (args_state sg ctx)"
        by (rule insert_input_value_runs [OF args_state_dir [OF st 2(1)] argument_parts_ok(1,2) [OF wf arg] 2(2) _ argument_parts_ok(4) [OF wf arg]]) simp_all
    qed
  qed
  then show ?thesis unfolding translate_arguments_def by (rule runs_bind) (auto simp: args_state_range)
qed
text \<open>The map of composed fields built next to the context.\<close>

definition fields_state :: "Subgraphs \<Rightarrow> Context \<Rightarrow> (StringId, FieldIr) btree_map \<times> Context \<Rightarrow> bool" where
  "fields_state sg ctx st \<longleftrightarrow> ctx_step sg ctx (snd st) \<and> (\<forall>(n, x) \<in> set (fst st). field_ir_ok sg (ctx_ir (snd st)) x)"

lemma fields_state_step:
  assumes "fields_state sg ctx (m, ctx1)" and "ctx_step sg ctx1 ctx2"
  shows "fields_state sg ctx (m, ctx2)"
  using assms field_ir_ok_mono [OF ctx_step_extends [OF assms(2)]] ctx_step_trans [OF _ assms(2)]
  by (auto simp: fields_state_def)

lemma fields_state_wf: "fields_state sg ctx (m, ctx1) \<Longrightarrow> ir_wf sg (ctx_ir ctx1)"
  by (auto simp: fields_state_def intro: ctx_step_wf)

lemma entry_or_insert_with_runs:
  assumes st: "fields_state sg ctx (m, ctx1)" and f: "runs t (f field ctx1) (\<lambda>(x, ctx'). ctx_step sg ctx1 ctx' \<and> field_ir_ok sg (ctx_ir ctx') x)"
  shows "runs t (entry_or_insert_with f field (m, ctx1)) (fields_state sg ctx)"
proof -
  have "runs t (do { (ir, ctx') \<leftarrow> f field ctx1; Some (bt_insert (field_name field) ir m, ctx') }) (fields_state sg ctx)"
  proof (rule runs_bind [OF f], clarify)
    fix x and ctx2 :: Context assume 2: "ctx_step sg ctx1 ctx2" "field_ir_ok sg (ctx_ir ctx2) x"
    have "fields_state sg ctx (m, ctx2)" by (rule fields_state_step [OF st 2(1)])
    then show "runs t (Some (bt_insert (field_name field) x m, ctx2)) (fields_state sg ctx)"
      using 2(2) set_bt_insert_subset [of "field_name field" x m] by (fastforce simp: fields_state_def)
  qed
  with st show ?thesis by (simp add: entry_or_insert_with_def)
qed

lemma interface_field_ir_runs:
  assumes wf: "wf_store sg" and ir: "ir_wf sg (ctx_ir ctx)" and i: "fdef_ok (ctx_ir ctx) (Fed_Interface iface)"
    and d: "def_ok sg d" and f: "field_ok sg field"
  shows "runs t (interface_field_ir sg iface d field ctx) (\<lambda>(x, ctx'). ctx_step sg ctx ctx' \<and> field_ir_ok sg (ctx_ir ctx') x)"
  unfolding interface_field_ir_def
proof (rule runs_bind [OF translate_arguments_runs [OF wf ir]], clarify, rule runs_bind [OF is_part_of_key_runs [OF wf]],
    rule runs_bind [OF def_subgraph_id_runs [OF wf d]], rule runs_bind [OF collected_runs [OF wf ctx_step_wf]], assumption, clarify,
    rule runs_bind [OF insert_string_option_runs [OF dir_step_wf field_parts_ok(4) [OF wf f]]], assumption, clarify)
  fix x y ctx1 b s u v ctx2 dscr ctx3
  assume 1: "ctx_step sg ctx ctx1" "args_ok (ctx_ir ctx1) (x, y)" and s: "subgraph_ok sg s"
    and 2: "dir_step sg ctx1 ctx2" "dirs_ok (ctx_ir ctx2) (u, v)" and 3: "str_step sg ctx2 ctx3" "opt_ok (fstr_ok (ctx_ir ctx3)) dscr"
  have s13: "dir_step sg ctx1 ctx3" by (rule dir_step_trans [OF 2(1) str_step_dir [OF 3(1)]])
  have s03: "ctx_step sg ctx ctx3" by (rule ctx_step_trans [OF 1(1) dir_step_ctx [OF s13]])
  show "runs t (Some (\<lparr>f_parent_definition = Fed_Interface iface, f_field_name = field_name field,
        f_field_type = field_type field, f_arguments = (x, y),
        f_resolvable_in = (if b then [] else [s]), f_provides = [], f_requires = [],
        f_authorized_directives = (if authorized sg (field_directives field) \<noteq> None then [fst field] else []),
        f_overrides = [], f_composed_directives = (u, v), f_description = dscr\<rparr>, ctx3))
      (\<lambda>(x, ctx'). ctx_step sg ctx ctx' \<and> field_ir_ok sg (ctx_ir ctx') x)"
    using s03 s 3(2) fdef_ok_mono [OF ctx_step_extends [OF s03] i] field_parts_ok(2,3) [OF wf f] field_id_ok_field [OF f]
      args_ok_mono [OF dir_step_extends [OF s13] 1(2)] dirs_ok_mono [OF str_step_extends [OF 3(1)] 2(2)]
    by (simp add: field_ir_ok_def)
qed

lemma object_field_ir_runs:
  assumes wf: "wf_store sg" and ir: "ir_wf sg (ctx_ir ctx)" and i: "fdef_ok (ctx_ir ctx) (Fed_Interface iface)"
    and d: "def_ok sg d" and f: "field_ok sg field"
  shows "runs t (object_field_ir sg iface d field ctx) (\<lambda>(x, ctx'). ctx_step sg ctx ctx' \<and> field_ir_ok sg (ctx_ir ctx') x)"
proof -
  have fs: "\<forall>f \<in> set [field]. field_ok sg f" using f by simp
  have ov: "runs t (collect_overrides sg [field] ctx) (\<lambda>(r, ctx'). str_step sg ctx ctx' \<and> (\<forall>ov \<in> set r. override_ok sg (ctx_ir ctx') ov))"
    by (rule runs_mono [OF collect_overrides_runs [OF wf ir fs]]) (auto simp: overrides_state_def)
  show ?thesis
    unfolding object_field_ir_def
  proof (rule runs_bind [OF ov], clarify, rule runs_bind [OF collected_runs [OF wf str_step_wf]], assumption, clarify,
      rule runs_bind [OF insert_string_option_runs [OF dir_step_wf field_parts_ok(4) [OF wf f]]], assumption, clarify,
      rule runs_bind [OF translate_arguments_runs [OF wf str_step_wf]], assumption, clarify, rule runs_bind [OF def_subgraph_id_runs [OF wf d]])
    fix ovs ctx1 u v ctx2 dscr ctx3 x y ctx4 s
    assume 1: "str_step sg ctx ctx1" "\<forall>ov \<in> set ovs. override_ok sg (ctx_ir ctx1) ov" and 2: "dir_step sg ctx1 ctx2" "dirs_ok (ctx_ir ctx2) (u, v)"
      and 3: "str_step sg ctx2 ctx3" "opt_ok (fstr_ok (ctx_ir ctx3)) dscr" and 4: "ctx_step sg ctx3 ctx4" "args_ok (ctx_ir ctx4) (x, y)"
      and s: "subgraph_ok sg s"
    have s24: "ctx_step sg ctx2 ctx4" by (rule ctx_step_trans [OF str_step_ctx [OF 3(1)] 4(1)])
    have s14: "ctx_step sg ctx1 ctx4" by (rule ctx_step_trans [OF dir_step_ctx [OF 2(1)] s24])
    have s04: "ctx_step sg ctx ctx4" by (rule ctx_step_trans [OF str_step_ctx [OF 1(1)] s14])
    show "runs t (Some (\<lparr>f_parent_definition = Fed_Interface iface, f_field_name = field_name field,
        f_field_type = field_type field, f_arguments = (x, y), f_resolvable_in = [s],
        f_provides = (if provides sg (field_directives field) \<noteq> None then [fst field] else []),
        f_requires = (if requires sg (field_directives field) \<noteq> None then [fst field] else []),
        f_authorized_directives = (if authorized sg (field_directives field) \<noteq> None then [fst field] else []),
        f_overrides = ovs, f_composed_directives = (u, v), f_description = dscr\<rparr>, ctx4))
      (\<lambda>(x, ctx'). ctx_step sg ctx ctx' \<and> field_ir_ok sg (ctx_ir ctx') x)"
      using s04 s 4(2) fdef_ok_mono [OF ctx_step_extends [OF s04] i] field_parts_ok(2,3) [OF wf f] field_id_ok_field [OF f]
        dirs_ok_mono [OF ctx_step_extends [OF s24] 2(2)] opt_fstr_ok_mono [OF ctx_step_extends [OF 4(1)] 3(2)]
        override_ok_mono [OF ctx_step_extends [OF s14]] 1(2)
      by (simp add: field_ir_ok_def, blast)
  qed
qed
subsection \<open>Entity interfaces\<close>

lemma first_entity_key_ok: "wf_store sg \<Longrightarrow> first_entity_key sg d = Some k \<Longrightarrow> key_ok sg k"
  using entity_keys_ok [of sg k d] by (auto simp: first_entity_key_def split: list.splits)

lemma same_key_runs: "wf_store sg \<Longrightarrow> key_ok sg a \<Longrightarrow> key_ok sg b \<Longrightarrow> runs t (same_key sg a b) (\<lambda>_. True)"
  unfolding same_key_def by (rule runs_bind [OF key_fields_runs], assumption+, rule runs_bind [OF key_fields_runs]) simp_all

lemma entity_messages_run [walker_runs]:
  assumes "wf_store sg" and "def_ok sg a" and "def_ok sg b"
  shows "runs t (missing_interface_object_message sg a) (\<lambda>_. True)" and "runs t (missing_key_message sg a b) (\<lambda>_. True)"
    and "runs t (different_key_message sg a b) (\<lambda>_. True)" and "runs t (implementer_key_message sg a b) (\<lambda>_. True)"
    and "runs t (implementer_missing_key_message sg a) (\<lambda>_. True)" and "runs t (not_an_interface_message sg a) (\<lambda>_. True)"
    and "runs t (interface_missing_key_message sg a b) (\<lambda>_. True)"
  unfolding missing_interface_object_message_def missing_key_message_def different_key_message_def implementer_key_message_def
    implementer_missing_key_message_def not_an_interface_message_def interface_missing_key_message_def
  using assms by (intro runs_bind [where P = "\<lambda>_. True"] def_name_str_runs def_subgraph_name_runs; simp)+

text \<open>A key is compared with the expected one; what is reported depends on the caller.\<close>

lemma check_key_runs:
  assumes wf: "wf_store sg" and ir: "ir_wf sg (ctx_ir ctx)" and k: "key_ok sg expected"
    and "runs t m1 (\<lambda>_. True)" and "runs t m2 (\<lambda>_. True)"
  shows "runs t (case first_entity_key sg d of
        None \<Rightarrow> do { m \<leftarrow> m1; Some (ctx_push_fatal m ctx) }
      | Some key \<Rightarrow> do {
          same \<leftarrow> same_key sg key expected;
          if same then Some ctx else do { m \<leftarrow> m2; Some (ctx_push_fatal m ctx) } }) (str_step sg ctx)"
proof (rule runs_case_option)
  fix key assume "first_entity_key sg d = Some key"
  then have key: "key_ok sg key" by (rule first_entity_key_ok [OF wf])
  show "runs t (do { same \<leftarrow> same_key sg key expected;
      if same then Some ctx else do { m \<leftarrow> m2; Some (ctx_push_fatal m ctx) } }) (str_step sg ctx)"
    by (rule runs_bind [OF same_key_runs [OF wf key k]]) (simp add: str_step_refl ir push_message_runs assms(5))
qed (rule push_message_runs [OF ir assms(4)])

lemma insert_interface_keys_runs:
  assumes "ir_wf sg (ctx_ir ctx)" and "fdef_ok (ctx_ir ctx) (Fed_Interface i)" and "\<forall>k \<in> set ks. key_ok sg k"
  shows "runs t (foldM (\<lambda>k ctx. insert_interface_resolvable_key sg i k b ctx) ks ctx) (ctx_step sg ctx)"
proof (rule runs_foldM [where I = "ctx_step sg ctx", OF ctx_step_refl [OF assms(1)]])
  fix k ctx1 assume "k \<in> set ks" and 1: "ctx_step sg ctx ctx1"
  then have k: "key_ok sg k" using assms(3) by blast
  show "runs t (insert_interface_resolvable_key sg i k b ctx1) (ctx_step sg ctx)"
    by (rule runs_mono [OF insert_keys_runs(2) [OF ctx_step_wf [OF 1] k fdef_ok_mono [OF ctx_step_extends [OF 1] assms(2)]]])
      (rule ctx_step_trans [OF 1])
qed

lemma merge_interface_object_runs:
  assumes wf: "wf_store sg" and st: "fields_state sg ctx (m, ctx1)" and i: "fdef_ok (ctx_ir ctx) (Fed_Interface iface)"
    and ds: "def_ok sg first" "def_ok sg interface_def" "def_ok sg d" and k: "key_ok sg expected"
  shows "runs t (merge_interface_object sg first interface_def iface expected d (m, ctx1)) (fields_state sg ctx)"
proof -
  note ir1 = fields_state_wf [OF st]
  have s01: "ctx_step sg ctx ctx1" using st by (simp add: fields_state_def)
  have i1: "fdef_ok (ctx_ir ctx1) (Fed_Interface iface)" by (rule fdef_ok_mono [OF ctx_step_extends [OF s01] i])
  have keys: "runs t (filterM (is_resolvable sg) (entity_keys sg d)) (\<lambda>ks. \<forall>k \<in> set ks. key_ok sg k)"
    by (rule runs_mono [OF runs_filterM [OF is_resolvable_runs [OF entity_keys_ok [OF wf]]]]) (use entity_keys_ok [OF wf] in blast)+
  show ?thesis
    unfolding merge_interface_object_def prod.case
  proof (rule runs_bind [OF def_directives_runs [OF wf ds(3)]],
      rule runs_bind [OF push_message_if_runs [OF ir1 entity_messages_run(1) [OF wf ds(3) ds(3)]]],
      unfold check_object_key_def, rule runs_bind [OF check_key_runs [OF wf str_step_wf k entity_messages_run(2) [OF wf ds(1,3)]
          entity_messages_run(3) [OF wf ds(3,2)]]], assumption, rule runs_bind [OF keys])
    fix ctx2 ctx3 ks assume 2: "str_step sg ctx1 ctx2" and 3: "str_step sg ctx2 ctx3" and ks: "\<forall>k \<in> set ks. key_ok sg k"
    have s13: "ctx_step sg ctx1 ctx3" by (rule str_step_ctx [OF str_step_trans [OF 2 3]])
    show "runs t (do { ctx3 \<leftarrow> foldM (\<lambda>entity_key ctx. insert_interface_resolvable_key sg iface entity_key True ctx) ks ctx3;
        foldM (entry_or_insert_with (object_field_ir sg iface d)) (def_fields sg d) (m, ctx3) }) (fields_state sg ctx)"
    proof (rule runs_bind [OF insert_interface_keys_runs [OF ctx_step_wf [OF s13] fdef_ok_mono [OF ctx_step_extends [OF s13] i1] ks]])
      fix ctx4 assume "ctx_step sg ctx3 ctx4"
      then have st4: "fields_state sg ctx (m, ctx4)" by (rule fields_state_step [OF st ctx_step_trans [OF s13]])
      show "runs t (foldM (entry_or_insert_with (object_field_ir sg iface d)) (def_fields sg d) (m, ctx4)) (fields_state sg ctx)"
      proof (rule runs_foldM [where I = "fields_state sg ctx", OF st4], clarify)
        fix f :: Field and m' ctx5 assume f: "f \<in> set (def_fields sg d)" and st5: "fields_state sg ctx (m', ctx5)"
        then have i5: "fdef_ok (ctx_ir ctx5) (Fed_Interface iface)" using fdef_ok_mono [OF ctx_step_extends i] by (auto simp: fields_state_def)
        show "runs t (entry_or_insert_with (object_field_ir sg iface d) f (m', ctx5)) (fields_state sg ctx)"
          by (rule entry_or_insert_with_runs [OF st5]) (rule object_field_ir_runs [OF wf fields_state_wf [OF st5] i5 ds(3) def_fields_ok [OF f]])
      qed
    qed
  qed
qed
lemma contribute_fields_runs:
  assumes wf: "wf_store sg" and ir: "ir_wf sg (ctx_ir ctx)" and d: "def_ok sg first" "def_ok sg obj" and k: "key_ok sg expected"
    and ids: "\<forall>(n, i) \<in> set field_ids. i < length (ir_fields (ctx_ir ctx))"
  shows "runs t (contribute_fields sg first expected field_ids obj ctx) (ctx_step sg ctx)"
proof -
  have add: "ctx_step sg ctx' (fold (\<lambda>(_, field_id). insert_object_field_from_entity_interface n field_id) xs ctx')"
    if "ir_wf sg (ctx_ir ctx')" "fstr_ok (ctx_ir ctx') n" "\<forall>(_, i) \<in> set xs. i < length (ir_fields (ctx_ir ctx'))" for n xs ctx'
    using that
  proof (induction xs arbitrary: ctx')
    case (Cons x xs)
    obtain m i where x: "x = (m, i)" by (rule prod.exhaust)
    have s: "ctx_step sg ctx' (insert_object_field_from_entity_interface n i ctx')"
      using Cons.prems by (intro insert_entity_field_step) (simp_all add: x)
    note e = ctx_step_extends [OF s]
    have "\<forall>(_, j) \<in> set xs. j < length (ir_fields (ctx_ir (insert_object_field_from_entity_interface n i ctx')))"
      using Cons.prems(3) field_count_mono [OF e] by auto
    from ctx_step_trans [OF s Cons.IH [OF ctx_step_wf [OF s] fstr_ok_mono [OF e Cons.prems(2)] this]] show ?case by (simp add: x)
  qed (simp add: ctx_step_refl)
  show ?thesis
    unfolding contribute_fields_def
  proof (rule runs_bind [OF check_key_runs [OF wf ir k entity_messages_run(5) [OF wf d(2,2)] entity_messages_run(4) [OF wf d(2,1)]]],
      rule runs_bind [OF def_name_runs [OF wf d(2)]], rule runs_bind [OF insert_string_runs [OF str_step_wf]], assumption, assumption, clarify)
    fix ctx1 n ctx2 assume 1: "str_step sg ctx ctx1" and 2: "str_step sg ctx1 ctx2" "fstr_ok (ctx_ir ctx2) n"
    have s02: "str_step sg ctx ctx2" by (rule str_step_trans [OF 1 2(1)])
    have "\<forall>(_, i) \<in> set (filter (\<lambda>(name, _). find_field sg obj name = None) field_ids). i < length (ir_fields (ctx_ir ctx2))"
      using ids field_count_mono [OF str_step_extends [OF s02]] by auto
    from ctx_step_trans [OF str_step_ctx [OF s02] add [OF str_step_wf [OF s02] 2(2) this]]
    show "runs t (Some (fold (\<lambda>(_, field_id). insert_object_field_from_entity_interface n field_id)
       (filter (\<lambda>(name, _). find_field sg obj name = None) field_ids) ctx2)) (ctx_step sg ctx)" by simp
  qed
qed

lemma insert_fields_runs:
  assumes "fields_state sg ctx (m, ctx1)"
  shows "runs t (map_accumM (\<lambda>(name, field) ctx. case insert_field field ctx of (i, ctx') \<Rightarrow> Some ((name, i), ctx')) m ctx1)
    (\<lambda>(ids, ctx'). ctx_step sg ctx ctx' \<and> (\<forall>(n, i) \<in> set ids. i < length (ir_fields (ctx_ir ctx'))))"
proof (rule runs_map_accumM [where I = "\<lambda>ids ctx'. fields_state sg ctx (m, ctx') \<and> (\<forall>(n, i) \<in> set ids. i < length (ir_fields (ctx_ir ctx')))",
      THEN runs_mono])
  show "fields_state sg ctx (m, ctx1) \<and> (\<forall>(n, i) \<in> set []. i < length (ir_fields (ctx_ir ctx1)))" using assms by simp
  fix x and ids :: "(StringId \<times> fed_FieldId) list" and ctx2 :: Context
  assume x: "x \<in> set m" and I: "fields_state sg ctx (m, ctx2) \<and> (\<forall>(n, i) \<in> set ids. i < length (ir_fields (ctx_ir ctx2)))"
  obtain n f where n: "x = (n, f)" by (rule prod.exhaust)
  obtain i ctx3 where i: "insert_field f ctx2 = (i, ctx3)" by (rule prod.exhaust)
  have f: "field_ir_ok sg (ctx_ir ctx2) f" using I x by (auto simp: fields_state_def n)
  note s = insert_field_step [OF fields_state_wf [OF conjunct1 [OF I]] f i]
  have "fields_state sg ctx (m, ctx3)" by (rule fields_state_step [OF conjunct1 [OF I] conjunct1 [OF s]])
  then show "runs t ((case x of (name, field) \<Rightarrow> \<lambda>ctx. case insert_field field ctx of (i, ctx') \<Rightarrow> Some ((name, i), ctx')) ctx2)
      (\<lambda>(y, ctx'). fields_state sg ctx (m, ctx') \<and> (\<forall>(n, i) \<in> set (ids @ [y]). i < length (ir_fields (ctx_ir ctx'))))"
    using I s field_count_mono [OF ctx_step_extends [OF conjunct1 [OF s]]] by (auto simp: n i)
qed (auto simp: fields_state_def)

lemma kind_filter_runs:
  assumes "wf_store sg" and "\<forall>d \<in> set ds. def_ok sg d"
  shows "runs t (filterM (\<lambda>def. map_option (\<lambda>k. k = K) (def_kind sg def)) ds) (\<lambda>r. \<forall>d \<in> set r. def_ok sg d)"
  by (rule runs_mono [OF runs_filterM]) (use assms in \<open>auto intro!: runs_map_option runs_mono [OF def_kind_runs]\<close>)

lemma merge_entity_interface_objects_runs:
  assumes wf: "wf_store sg" and st: "fields_state sg ctx (m, ctx1)" and i: "fdef_ok (ctx_ir ctx) (Fed_Interface iface)"
    and ds: "def_ok sg first" "def_ok sg interface_def" "\<forall>d \<in> set ds. def_ok sg d" and k: "key_ok sg expected"
  shows "runs t (merge_entity_interface_objects sg first ds interface_def iface expected (m, ctx1)) (ctx_step sg ctx)"
  unfolding merge_entity_interface_objects_def prod.case
proof (rule runs_bind [OF insert_keys_runs(2) [OF fields_state_wf [OF st] k]])
  show "fdef_ok (ctx_ir ctx1) (Fed_Interface iface)" using st fdef_ok_mono [OF ctx_step_extends i] by (auto simp: fields_state_def)
  fix ctx2 assume "ctx_step sg ctx1 ctx2"
  then have st2: "fields_state sg ctx (m, ctx2)" by (rule fields_state_step [OF st])
  have objects: "runs t (foldM (merge_interface_object sg first interface_def iface expected) objs (m, ctx2)) (fields_state sg ctx)"
    if "\<forall>d \<in> set objs. def_ok sg d" for objs
    by (rule runs_foldM [where I = "fields_state sg ctx", OF st2], clarify, rule merge_interface_object_runs [OF wf _ i ds(1,2) _ k])
      (use that in auto)
  show "runs t (do {
     objects \<leftarrow> filterM (\<lambda>def. map_option (\<lambda>k. k = Object) (def_kind sg def)) ds;
     (m', ctx2) \<leftarrow> foldM (merge_interface_object sg first interface_def iface expected) objects (m, ctx2);
     (field_ids, ctx3) \<leftarrow> map_accumM (\<lambda>(name, field) ctx. case insert_field field ctx of (i, ctx') \<Rightarrow> Some ((name, i), ctx')) m' ctx2;
     s \<leftarrow> def_subgraph_id sg interface_def;
     _ \<leftarrow> walk_subgraph sg s;
     name \<leftarrow> def_name sg first;
     foldM (contribute_fields sg first expected field_ids) (interface_implementers sg s name) ctx3 }) (ctx_step sg ctx)"
  proof (rule runs_bind [OF kind_filter_runs [OF wf ds(3)]], rule runs_bind [OF objects], assumption, clarify,
      rule runs_bind [OF insert_fields_runs], assumption, clarify, rule runs_bind [OF def_subgraph_id_runs [OF wf ds(2)]],
      rule runs_bind [OF walk_subgraph_runs [OF wf]], assumption, rule runs_bind [OF def_name_runs [OF wf ds(1)]])
    fix ids :: "(StringId \<times> fed_FieldId) list" and ctx3 s n assume 3: "ctx_step sg ctx ctx3" "\<forall>(n, i) \<in> set ids. i < length (ir_fields (ctx_ir ctx3))"
    show "runs t (foldM (contribute_fields sg first expected ids) (interface_implementers sg s n) ctx3) (ctx_step sg ctx)"
    proof (rule runs_mono [OF runs_foldM [where I = "ctx_step sg ctx3", OF ctx_step_refl [OF ctx_step_wf [OF 3(1)]]]])
      fix d ctx4 assume d: "d \<in> set (interface_implementers sg s n)" and 4: "ctx_step sg ctx3 ctx4"
      have "\<forall>(n, i) \<in> set ids. i < length (ir_fields (ctx_ir ctx4))" using 3(2) field_count_mono [OF ctx_step_extends [OF 4]] by blast
      from contribute_fields_runs [OF wf ctx_step_wf [OF 4] ds(1) interface_implementers_ok [OF wf d] k this]
      show "runs t (contribute_fields sg first expected ids d ctx4) (ctx_step sg ctx3)" by (rule runs_mono) (rule ctx_step_trans [OF 4])
    qed (rule ctx_step_trans [OF 3(1)])
  qed
qed

lemma merge_interface_of_runs:
  assumes wf: "wf_store sg" and ir: "ir_wf sg (ctx_ir ctx)" and d: "def_ok sg first" "def_ok sg interface_def" and ds: "\<forall>d \<in> set ds. def_ok sg d"
    and n: "str_ok sg name_id" and dirs: "dirs_ok (ctx_ir ctx) dirs" and idefs: "\<forall>d \<in> set interface_defs. def_ok sg d"
  shows "runs t (do {
          ctx2 \<leftarrow> check_all_interfaces sg name_id interface_defs ctx;
          description_id \<leftarrow> def_description sg interface_def;
          description \<leftarrow> mapM_option (as_str sg) description_id;
          (interface_name, ctx3) \<leftarrow> insert_string sg name_id ctx2;
          let (interface_id, ctx4) = insert_interface interface_name description dirs ctx3;
          let ctx5 = insert_interface_authorizations sg interface_id sites ctx4;
          (m, ctx6) \<leftarrow> foldM (entry_or_insert_with (interface_field_ir sg interface_id interface_def))
            (def_fields sg interface_def) ([], ctx5);
          (case first_entity_key sg interface_def of
             None \<Rightarrow> do { msg \<leftarrow> interface_missing_key_message sg first interface_def; Some (ctx_push_fatal msg ctx6) }
           | Some expected_key \<Rightarrow>
               merge_entity_interface_objects sg first ds interface_def interface_id expected_key (m, ctx6)) }) (ctx_step sg ctx)"
proof (rule runs_bind [OF check_all_interfaces_runs [OF wf ir idefs n]], rule runs_bind [OF def_description_runs [OF wf d(2)]],
    rule runs_bind [OF description_str_runs], assumption, rule runs_bind [OF insert_string_runs [OF str_step_wf n]], assumption, clarify)
  fix ctx2 descr name ctx3 assume 2: "str_step sg ctx ctx2" and 3: "str_step sg ctx2 ctx3" "fstr_ok (ctx_ir ctx3) name"
  obtain iface ctx4 where i: "insert_interface name descr dirs ctx3 = (iface, ctx4)" by (rule prod.exhaust)
  define ctx5 where "ctx5 = insert_interface_authorizations sg iface sites ctx4"
  have s03: "str_step sg ctx ctx3" by (rule str_step_trans [OF 2 3(1)])
  note s34 = insert_interface_step [OF str_step_wf [OF s03] 3(2) dirs_ok_mono [OF str_step_extends [OF s03] dirs] i]
  have s45: "ctx_step sg ctx4 ctx5"
    unfolding ctx5_def by (rule insert_interface_authorizations_step [OF ctx_step_wf [OF conjunct1 [OF s34]] conjunct2 [OF s34]])
  have s05: "ctx_step sg ctx ctx5" by (rule ctx_step_trans [OF str_step_ctx [OF s03] ctx_step_trans [OF conjunct1 [OF s34] s45]])
  have i5: "fdef_ok (ctx_ir ctx5) (Fed_Interface iface)" by (rule fdef_ok_mono [OF ctx_step_extends [OF s45] conjunct2 [OF s34]])
  have flds: "runs t (foldM (entry_or_insert_with (interface_field_ir sg iface interface_def)) (def_fields sg interface_def) ([], ctx5)) (fields_state sg ctx5)"
  proof (rule runs_foldM [where I = "fields_state sg ctx5"], simp add: fields_state_def ctx_step_refl [OF ctx_step_wf [OF s05]], clarify)
    fix f :: Field and m ctx6 assume f: "f \<in> set (def_fields sg interface_def)" and st: "fields_state sg ctx5 (m, ctx6)"
    then have i6: "fdef_ok (ctx_ir ctx6) (Fed_Interface iface)" using fdef_ok_mono [OF ctx_step_extends i5] by (auto simp: fields_state_def)
    show "runs t (entry_or_insert_with (interface_field_ir sg iface interface_def) f (m, ctx6)) (fields_state sg ctx5)"
      by (rule entry_or_insert_with_runs [OF st]) (rule interface_field_ir_runs [OF wf fields_state_wf [OF st] i6 d(2) def_fields_ok [OF f]])
  qed
  have "runs t (do { (m, ctx6) \<leftarrow> foldM (entry_or_insert_with (interface_field_ir sg iface interface_def)) (def_fields sg interface_def) ([], ctx5);
      (case first_entity_key sg interface_def of
         None \<Rightarrow> do { msg \<leftarrow> interface_missing_key_message sg first interface_def; Some (ctx_push_fatal msg ctx6) }
       | Some expected_key \<Rightarrow> merge_entity_interface_objects sg first ds interface_def iface expected_key (m, ctx6)) }) (ctx_step sg ctx5)"
  proof (rule runs_bind [OF flds], clarify, rule runs_case_option)
    fix m ctx6 assume st: "fields_state sg ctx5 (m, ctx6)"
    show "runs t (do { msg \<leftarrow> interface_missing_key_message sg first interface_def; Some (ctx_push_fatal msg ctx6) }) (ctx_step sg ctx5)"
      by (rule runs_mono [OF push_message_runs [OF fields_state_wf [OF st] entity_messages_run(7) [OF wf d]]])
        (use st in \<open>auto simp: fields_state_def intro: ctx_step_trans str_step_ctx\<close>)
    fix k assume k: "first_entity_key sg interface_def = Some k"
    show "runs t (merge_entity_interface_objects sg first ds interface_def iface k (m, ctx6)) (ctx_step sg ctx5)"
      by (rule merge_entity_interface_objects_runs [OF wf st i5 d ds first_entity_key_ok [OF wf k]])
  qed
  then show "runs t (let (interface_id, ctx4) = insert_interface name descr dirs ctx3; ctx5 = insert_interface_authorizations sg interface_id sites ctx4
      in do { (m, ctx6) \<leftarrow> foldM (entry_or_insert_with (interface_field_ir sg interface_id interface_def)) (def_fields sg interface_def) ([], ctx5);
      (case first_entity_key sg interface_def of
         None \<Rightarrow> do { msg \<leftarrow> interface_missing_key_message sg first interface_def; Some (ctx_push_fatal msg ctx6) }
       | Some expected_key \<Rightarrow> merge_entity_interface_objects sg first ds interface_def interface_id expected_key (m, ctx6)) }) (ctx_step sg ctx)"
    unfolding i Let_def prod.case ctx5_def [symmetric] by (rule runs_mono) (rule ctx_step_trans [OF s05])
qed

lemma merge_entity_interface_definitions_runs:
  assumes wf: "wf_store sg" and ir: "ir_wf sg (ctx_ir ctx)" and d: "def_ok sg first" and ds: "\<forall>d \<in> set ds. def_ok sg d"
  shows "runs t (merge_entity_interface_definitions sg first ds ctx) (ctx_step sg ctx)"
  unfolding merge_entity_interface_definitions_def
proof (rule runs_bind [OF def_name_runs [OF wf d]], rule runs_bind [OF sites_runs [OF wf ds]], rule runs_bind [OF collected_runs [OF wf ir]],
    clarify, rule runs_bind [OF kind_filter_runs [OF wf ds]])
  fix n sites a b ctx1 idefs
  assume n: "str_ok sg n" and 1: "dir_step sg ctx ctx1" "dirs_ok (ctx_ir ctx1) (a, b)" and idefs: "\<forall>d \<in> set idefs. def_ok sg d"
  note none = runs_mono [OF push_message_runs [OF dir_step_wf [OF 1(1)] entity_messages_run(6) [OF wf d d]] ctx_step_trans [OF dir_step_ctx [OF 1(1)] str_step_ctx]]
  show "runs t (case idefs of
        [] \<Rightarrow> do { m \<leftarrow> not_an_interface_message sg first; Some (ctx_push_fatal m ctx1) }
      | interface_def # _ \<Rightarrow> do {
          ctx2 \<leftarrow> check_all_interfaces sg n idefs ctx1;
          description_id \<leftarrow> def_description sg interface_def;
          description \<leftarrow> mapM_option (as_str sg) description_id;
          (interface_name, ctx3) \<leftarrow> insert_string sg n ctx2;
          let (interface_id, ctx4) = insert_interface interface_name description (a, b) ctx3;
          let ctx5 = insert_interface_authorizations sg interface_id sites ctx4;
          (m, ctx6) \<leftarrow> foldM (entry_or_insert_with (interface_field_ir sg interface_id interface_def))
            (def_fields sg interface_def) ([], ctx5);
          (case first_entity_key sg interface_def of
             None \<Rightarrow> do { msg \<leftarrow> interface_missing_key_message sg first interface_def; Some (ctx_push_fatal msg ctx6) }
           | Some expected_key \<Rightarrow>
               merge_entity_interface_objects sg first ds interface_def interface_id expected_key (m, ctx6)) }) (ctx_step sg ctx)"
  proof (cases idefs)
    case (Cons x xs)
    then have x: "def_ok sg x" using idefs by simp
    show ?thesis
      using runs_mono [OF merge_interface_of_runs [OF wf dir_step_wf [OF 1(1)] d x ds n 1(2) idefs] ctx_step_trans [OF dir_step_ctx [OF 1(1)]]]
      unfolding Cons list.case .
  qed (simp add: none)
qed

end
