(* ===== verification/Composition_Steps.thy ===== *)
theory Composition_Steps
  imports Entity_Steps
begin

text \<open>
  The composition of all definitions and of the root types keeps the invariant of the intermediate
  representation; it returns unless two definitions of an enum used in both positions have values of
  which one list extends the other.
\<close>

subsection \<open>Objects and unions\<close>

lemma composition_messages_run [walker_runs]:
  assumes wf: "wf_store sg" and d: "def_ok sg a" and "def_ok sg b" and ds: "\<forall>d \<in> set ds. def_ok sg d"
  shows "runs t (incompatible_kinds_message sg a b) (\<lambda>_. True)" and "runs t (entity_mismatch_message sg a ds) (\<lambda>_. True)"
proof -
  show "runs t (incompatible_kinds_message sg a b) (\<lambda>_. True)"
    unfolding incompatible_kinds_message_def
    using assms by (intro runs_bind [where P = "\<lambda>_. True"] def_kind_runs def_name_str_runs def_subgraph_name_runs) simp_all
  have "runs t (mapM (def_subgraph_name sg) xs) (\<lambda>_. True)" if "set xs \<subseteq> set ds" for xs
    by (rule runs_mono [OF runs_mapM [where Q = "\<lambda>_ _. True"]]) (use that ds in \<open>auto intro!: def_subgraph_name_runs [OF wf]\<close>)
  then show "runs t (entity_mismatch_message sg a ds) (\<lambda>_. True)"
    unfolding entity_mismatch_message_def by (intro runs_bind [where P = "\<lambda>_. True"] def_name_str_runs wf d) auto
qed

lemma compose_object_groups_runs:
  assumes wf: "wf_store sg" and ir: "ir_wf sg (ctx_ir ctx)" and o: "fdef_ok (ctx_ir ctx) (Fed_Object obj)"
  shows "runs t (for_each_field_group sg ds (\<lambda>fs ctx. case fs of [] \<Rightarrow> Some ctx | first # _ \<Rightarrow> compose_object_fields sg obj b first fs ctx) ctx)
    (ctx_step sg ctx)"
proof (rule for_each_field_group_runs [where I = "ctx_step sg ctx", OF ctx_step_refl [OF ir]])
  fix fs and ctx1 :: Context assume fs: "fs \<noteq> []" "\<forall>f \<in> set fs. field_ok sg f" and 1: "ctx_step sg ctx ctx1"
  then obtain f rest where c: "fs = f # rest" by (cases fs) auto
  then have f: "field_ok sg f" using fs(2) by simp
  have "runs t (compose_object_fields sg obj b f fs ctx1) (ctx_step sg ctx)"
    by (rule runs_mono [OF compose_object_fields_runs [OF wf ctx_step_wf [OF 1] fdef_ok_mono [OF ctx_step_extends [OF 1] o] f fs(2,1)]])
      (rule ctx_step_trans [OF 1])
  then show "runs t (case fs of [] \<Rightarrow> Some ctx1 | first # _ \<Rightarrow> compose_object_fields sg obj b first fs ctx1) (ctx_step sg ctx)"
    by (simp add: c)
qed

lemma insert_object_authorizations_step:
  assumes "ir_wf sg (ctx_ir ctx)" and "fdef_ok (ctx_ir ctx) (Fed_Object i)" and "\<forall>x \<in> set xs. authorized sg x \<noteq> None"
  shows "ctx_step sg ctx (fold (insert_object_authorized i) xs ctx)"
  using assms
proof (induction xs arbitrary: ctx)
  case (Cons x xs)
  have s: "ctx_step sg ctx (insert_object_authorized i x ctx)" using Cons.prems by (intro insert_authorized_steps) simp_all
  have "ctx_step sg (insert_object_authorized i x ctx) (fold (insert_object_authorized i) xs (insert_object_authorized i x ctx))"
    using Cons.prems by (intro Cons.IH ctx_step_wf [OF s] fdef_ok_mono [OF ctx_step_extends [OF s]]) simp_all
  then show ?case using ctx_step_trans [OF s] by simp
qed (simp add: ctx_step_refl)

lemma insert_object_keys_runs:
  assumes "ir_wf sg (ctx_ir ctx)" and "fdef_ok (ctx_ir ctx) (Fed_Object i)" and "\<forall>k \<in> set ks. key_ok sg k"
  shows "runs t (foldM (insert_key sg i) ks ctx) (ctx_step sg ctx)"
proof (rule runs_foldM [where I = "ctx_step sg ctx", OF ctx_step_refl [OF assms(1)]])
  fix k ctx1 assume "k \<in> set ks" and 1: "ctx_step sg ctx ctx1"
  then have k: "key_ok sg k" using assms(3) by blast
  show "runs t (insert_key sg i k ctx1) (ctx_step sg ctx)"
    by (rule runs_mono [OF insert_keys_runs(1) [OF ctx_step_wf [OF 1] k fdef_ok_mono [OF ctx_step_extends [OF 1] assms(2)]]])
      (rule ctx_step_trans [OF 1])
qed

text \<open>The object is defined and its keys, authorization and fields are added.\<close>

lemma define_object_runs:
  assumes wf: "wf_store sg" and ir: "ir_wf sg (ctx_ir ctx)" and ds: "\<forall>d \<in> set ds. def_ok sg d"
    and n: "fstr_ok (ctx_ir ctx) n" and dirs: "dirs_ok (ctx_ir ctx) dirs" and descr: "opt_ok (str_ok sg) descr"
  shows "runs t (do {
          (object_id, ctx4) \<leftarrow> insert_object sg n descr dirs ctx;
          ctx5 \<leftarrow> foldM (insert_key sg object_id) (concat (map (entity_keys sg) ds)) ctx4;
          let ctx6 = fold (insert_object_authorized object_id) (filter (\<lambda>site. authorized sg site \<noteq> None) sites) ctx5;
          ctx7 \<leftarrow> (if is_shareable then validate_shareable_object_fields_match sg ds ctx6 else Some ctx6);
          for_each_field_group sg ds (\<lambda>field_list ctx.
              case field_list of
                [] \<Rightarrow> Some ctx
              | first # _ \<Rightarrow> compose_object_fields sg object_id is_shareable first field_list ctx) ctx7 }) (ctx_step sg ctx)"
proof (rule runs_bind [OF insert_object_runs [OF ir n dirs descr]], clarify)
  fix i ctx4 assume 4: "ctx_step sg ctx ctx4" and i4: "fdef_ok (ctx_ir ctx4) (Fed_Object i)"
  have ks: "\<forall>k \<in> set (concat (map (entity_keys sg) ds)). key_ok sg k" using entity_keys_ok [OF wf] by auto
  show "runs t (do {
          ctx5 \<leftarrow> foldM (insert_key sg i) (concat (map (entity_keys sg) ds)) ctx4;
          let ctx6 = fold (insert_object_authorized i) (filter (\<lambda>site. authorized sg site \<noteq> None) sites) ctx5;
          ctx7 \<leftarrow> (if is_shareable then validate_shareable_object_fields_match sg ds ctx6 else Some ctx6);
          for_each_field_group sg ds (\<lambda>field_list ctx.
              case field_list of
                [] \<Rightarrow> Some ctx
              | first # _ \<Rightarrow> compose_object_fields sg i is_shareable first field_list ctx) ctx7 }) (ctx_step sg ctx)"
  proof (rule runs_bind [OF insert_object_keys_runs [OF ctx_step_wf [OF 4] i4 ks]])
    fix ctx5 assume 5: "ctx_step sg ctx4 ctx5"
    note i5 = fdef_ok_mono [OF ctx_step_extends [OF 5] i4]
    define ctx6 where "ctx6 = fold (insert_object_authorized i) (filter (\<lambda>site. authorized sg site \<noteq> None) sites) ctx5"
    have 6: "ctx_step sg ctx5 ctx6"
      unfolding ctx6_def by (rule insert_object_authorizations_step [OF ctx_step_wf [OF 5] i5]) simp
    have s06: "ctx_step sg ctx ctx6" by (rule ctx_step_trans [OF 4 ctx_step_trans [OF 5 6]])
    note i6 = fdef_ok_mono [OF ctx_step_extends [OF 6] i5]
    have v: "runs t (if is_shareable then validate_shareable_object_fields_match sg ds ctx6 else Some ctx6) (str_step sg ctx6)"
      by (rule runs_if, rule validate_shareable_runs [OF wf ctx_step_wf [OF s06] ds]) (simp add: str_step_refl ctx_step_wf [OF s06])
    have "runs t (do { ctx7 \<leftarrow> (if is_shareable then validate_shareable_object_fields_match sg ds ctx6 else Some ctx6);
          for_each_field_group sg ds (\<lambda>field_list ctx. case field_list of [] \<Rightarrow> Some ctx
              | first # _ \<Rightarrow> compose_object_fields sg i is_shareable first field_list ctx) ctx7 }) (ctx_step sg ctx)"
      by (rule runs_bind [OF v], rule runs_mono [OF compose_object_groups_runs [OF wf str_step_wf fdef_ok_mono [OF str_step_extends i6]]], assumption, assumption)
        (blast intro: ctx_step_trans [OF s06] ctx_step_trans str_step_ctx)
    then show "runs t (let ctx6 = fold (insert_object_authorized i) (filter (\<lambda>site. authorized sg site \<noteq> None) sites) ctx5 in do {
          ctx7 \<leftarrow> (if is_shareable then validate_shareable_object_fields_match sg ds ctx6 else Some ctx6);
          for_each_field_group sg ds (\<lambda>field_list ctx. case field_list of [] \<Rightarrow> Some ctx
              | first # _ \<Rightarrow> compose_object_fields sg i is_shareable first field_list ctx) ctx7 }) (ctx_step sg ctx)"
      unfolding Let_def ctx6_def [symmetric] .
  qed
qed

lemma merge_object_definitions_runs:
  assumes wf: "wf_store sg" and ir: "ir_wf sg (ctx_ir ctx)" and d: "def_ok sg first" and ds: "\<forall>d \<in> set ds. def_ok sg d"
  shows "runs t (merge_object_definitions sg first ds ctx) (ctx_step sg ctx)"
proof -
  have find: "runs t (findM (\<lambda>d. map_option (\<lambda>k. k \<noteq> Object) (def_kind sg d)) ds) (\<lambda>r. \<forall>x. r = Some x \<longrightarrow> x \<in> set ds)"
    by (rule runs_findM, rule runs_map_option [OF runs_mono [OF def_kind_runs [OF wf]]]) (use ds in simp_all)
  note entity = push_message_if_runs [OF ir composition_messages_run(2) [OF wf d d ds]]
  show ?thesis
    unfolding merge_object_definitions_def Let_def [of "list_ex (shareable sg) _"]
  proof (rule runs_bind [OF sites_runs [OF wf ds]], rule runs_bind [OF find], rule runs_case_option)
    fix r assume r: "\<forall>x. r = Some x \<longrightarrow> x \<in> set ds"
    show "runs t (do { m \<leftarrow> incompatible_kinds_message sg first x; Some (ctx_push_fatal m ctx) }) (ctx_step sg ctx)" if "r = Some x" for x
      by (rule runs_mono [OF push_message_runs [OF ir composition_messages_run(1) [OF wf d _ ds]] str_step_ctx]) (use r that ds in blast)
    fix sites
    show "runs t (do {
          ctx1 \<leftarrow> (if list_ex (\<lambda>d. is_entity sg d \<noteq> is_entity sg first) ds
                   then do { m \<leftarrow> entity_mismatch_message sg first ds; Some (ctx_push_fatal m ctx) }
                   else Some ctx);
          description \<leftarrow> find_description sg ds;
          (composed_directives, ctx2) \<leftarrow> collect_composed_directives sg sites ctx1;
          first_name \<leftarrow> def_name sg first;
          (object_name, ctx3) \<leftarrow> insert_string sg first_name ctx2;
          (object_id, ctx4) \<leftarrow> insert_object sg object_name description composed_directives ctx3;
          ctx5 \<leftarrow> foldM (insert_key sg object_id) (concat (map (entity_keys sg) ds)) ctx4;
          let ctx6 = fold (insert_object_authorized object_id) (filter (\<lambda>site. authorized sg site \<noteq> None) sites) ctx5;
          ctx7 \<leftarrow> (if list_ex (shareable sg) sites then validate_shareable_object_fields_match sg ds ctx6 else Some ctx6);
          for_each_field_group sg ds (\<lambda>field_list ctx.
              case field_list of
                [] \<Rightarrow> Some ctx
              | first # _ \<Rightarrow> compose_object_fields sg object_id (list_ex (shareable sg) sites) first field_list ctx) ctx7 }) (ctx_step sg ctx)"
    proof (rule runs_bind [OF entity], rule runs_bind [OF find_description_runs [OF wf ds]],
        rule runs_bind [OF collected_runs [OF wf str_step_wf]], assumption, clarify, rule runs_bind [OF def_name_runs [OF wf d]],
        rule runs_bind [OF insert_string_runs [OF dir_step_wf]], assumption, assumption, clarify)
      fix ctx1 descr a b ctx2 name ctx3
      assume 1: "str_step sg ctx ctx1" and descr: "opt_ok (str_ok sg) descr" and 2: "dir_step sg ctx1 ctx2" "dirs_ok (ctx_ir ctx2) (a, b)"
        and 3: "str_step sg ctx2 ctx3" "fstr_ok (ctx_ir ctx3) name"
      have s03: "ctx_step sg ctx ctx3"
        by (rule dir_step_ctx [OF dir_step_trans [OF str_step_dir [OF 1] dir_step_trans [OF 2(1) str_step_dir [OF 3(1)]]]])
      show "runs t (do {
          (object_id, ctx4) \<leftarrow> insert_object sg name descr (a, b) ctx3;
          ctx5 \<leftarrow> foldM (insert_key sg object_id) (concat (map (entity_keys sg) ds)) ctx4;
          let ctx6 = fold (insert_object_authorized object_id) (filter (\<lambda>site. authorized sg site \<noteq> None) sites) ctx5;
          ctx7 \<leftarrow> (if list_ex (shareable sg) sites then validate_shareable_object_fields_match sg ds ctx6 else Some ctx6);
          for_each_field_group sg ds (\<lambda>field_list ctx.
              case field_list of
                [] \<Rightarrow> Some ctx
              | first # _ \<Rightarrow> compose_object_fields sg object_id (list_ex (shareable sg) sites) first field_list ctx) ctx7 }) (ctx_step sg ctx)"
        by (rule runs_mono [OF define_object_runs [OF wf str_step_wf [OF 3(1)] ds 3(2) dirs_ok_mono [OF str_step_extends [OF 3(1)] 2(2)] descr]])
          (rule ctx_step_trans [OF s03])
    qed
  qed
qed

lemma iter_union_members_ok: "wf_store sg \<Longrightarrow> m \<in> set (iter_union_members sg u) \<Longrightarrow> def_ok sg m"
  by (auto simp: iter_union_members_def bs_range_def wf_store_def unions_ok_def)

lemma merge_union_definitions_runs:
  assumes wf: "wf_store sg" and ir: "ir_wf sg (ctx_ir ctx)" and d: "def_ok sg first" and ds: "\<forall>d \<in> set ds. def_ok sg d"
  shows "runs t (merge_union_definitions sg first ds ctx) (ctx_step sg ctx)"
  unfolding merge_union_definitions_def
proof (rule runs_bind [OF def_name_runs [OF wf d]], rule runs_bind [OF insert_string_runs [OF ir]], assumption, clarify,
    rule runs_bind [OF find_description_runs [OF wf ds]], rule runs_bind [OF sites_runs [OF wf ds]],
    rule runs_bind [OF collected_runs [OF wf str_step_wf]], assumption, clarify)
  fix n ctx1 descr a b ctx2
  assume 1: "str_step sg ctx ctx1" "fstr_ok (ctx_ir ctx1) n" and descr: "opt_ok (str_ok sg) descr"
    and 2: "dir_step sg ctx1 ctx2" "dirs_ok (ctx_ir ctx2) (a, b)"
  note n2 = fstr_ok_mono [OF dir_step_extends [OF 2(1)] 1(2)]
  have s02: "ctx_step sg ctx ctx2" by (rule ctx_step_trans [OF str_step_ctx [OF 1(1)] dir_step_ctx [OF 2(1)]])
  have member: "runs t (do {
         name \<leftarrow> def_name sg m;
         (member_name, ctx') \<leftarrow> insert_string sg name ctx4;
         s \<leftarrow> def_subgraph_id sg m;
         Some (insert_union_member s n member_name ctx') }) (ctx_step sg ctx2)"
    if m: "def_ok sg m" and 4: "ctx_step sg ctx2 ctx4" for m ctx4
  proof (rule runs_bind [OF def_name_runs [OF wf m]], rule runs_bind [OF insert_string_runs [OF ctx_step_wf [OF 4]]], assumption, clarify,
      rule runs_bind [OF def_subgraph_id_runs [OF wf m]])
    fix mn ctx5 s assume 5: "str_step sg ctx4 ctx5" "fstr_ok (ctx_ir ctx5) mn" and s: "subgraph_ok sg s"
    have s25: "ctx_step sg ctx2 ctx5" by (rule ctx_step_trans [OF 4 str_step_ctx [OF 5(1)]])
    have "ctx_step sg ctx2 (insert_union_member s n mn ctx5)"
      by (rule ctx_step_trans [OF s25 insert_union_member_step [OF ctx_step_wf [OF s25] s fstr_ok_mono [OF ctx_step_extends [OF s25] n2] 5(2)]])
    then show "runs t (Some (insert_union_member s n mn ctx5)) (ctx_step sg ctx2)" by simp
  qed
  show "runs t (do {
     (_, ctx3) \<leftarrow> insert_union sg n (a, b) descr ctx2;
     foldM (\<lambda>member ctx. do {
         name \<leftarrow> def_name sg member;
         (member_name, ctx') \<leftarrow> insert_string sg name ctx;
         s \<leftarrow> def_subgraph_id sg member;
         Some (insert_union_member s n member_name ctx') })
       (concat (map (iter_union_members sg) ds)) ctx3 }) (ctx_step sg ctx)"
    by (rule runs_bind [OF insert_union_runs [OF ctx_step_wf [OF s02] n2 2(2) descr]], clarify,
        rule runs_mono [OF runs_foldM [where I = "ctx_step sg ctx2", OF _ member] ctx_step_trans [OF s02]])
      (auto dest: iter_union_members_ok [OF wf])
qed
subsection \<open>Root types\<close>

lemma root_types_ok:
  assumes "wf_store sg" and "d \<in> set (List.map_filter (\<lambda>(_, s). f s) (iter_subgraphs sg))" and "f \<in> {s_query_type, s_mutation_type, s_subscription_type}"
  shows "def_ok sg d"
proof -
  obtain s where "s \<in> set (sg_subgraphs sg)" "f s = Some d"
    using assms(2) by (auto simp: List.map_filter_def iter_subgraphs_def in_set_enumerate_eq dest: nth_mem)
  then show ?thesis using assms(1,3) by (auto simp: wf_store_def subgraph_record_ok_def)
qed

lemma merge_fields_runs:
  assumes wf: "wf_store sg" and ir: "ir_wf sg (ctx_ir ctx)" and ds: "\<forall>d \<in> set ds. def_ok sg d"
  shows "runs t (merge_fields sg root ds ctx) (\<lambda>(r, ctx'). ctx_step sg ctx ctx' \<and> (r = None \<longleftrightarrow> ds = [])
    \<and> (\<forall>i. r = Some i \<longrightarrow> fdef_ok (ctx_ir ctx') (Fed_Object i)))"
proof -
  obtain n ctx1 where n: "insert_static_str root ctx = (n, ctx1)" by (rule prod.exhaust)
  then have 1: "str_step sg ctx ctx1" "fstr_ok (ctx_ir ctx1) n" using ir_insert_str_step [OF ir] by (auto simp: insert_static_str_def)
  have "runs t (do {
        sites \<leftarrow> mapM (def_directives sg) ds;
        (directives, ctx2) \<leftarrow> collect_composed_directives sg sites ctx1;
        (object_id, ctx3) \<leftarrow> insert_object sg n None directives ctx2;
        ctx4 \<leftarrow> for_each_field_group sg ds (\<lambda>field_list ctx.
            case field_list of
              [] \<Rightarrow> Some ctx
            | first # _ \<Rightarrow> compose_object_fields sg object_id False first field_list ctx) ctx3;
        Some (Some object_id, ctx4) }) (\<lambda>(r, ctx'). ctx_step sg ctx ctx' \<and> r \<noteq> None \<and> (\<forall>i. r = Some i \<longrightarrow> fdef_ok (ctx_ir ctx') (Fed_Object i)))"
  proof (rule runs_bind [OF sites_runs [OF wf ds]], rule runs_bind [OF collected_runs [OF wf str_step_wf [OF 1(1)]]], clarify)
    fix a b ctx2 assume 2: "dir_step sg ctx1 ctx2" "dirs_ok (ctx_ir ctx2) (a, b)"
    show "runs t (do {
        (object_id, ctx3) \<leftarrow> insert_object sg n None (a, b) ctx2;
        ctx4 \<leftarrow> for_each_field_group sg ds (\<lambda>field_list ctx.
            case field_list of
              [] \<Rightarrow> Some ctx
            | first # _ \<Rightarrow> compose_object_fields sg object_id False first field_list ctx) ctx3;
        Some (Some object_id, ctx4) }) (\<lambda>(r, ctx'). ctx_step sg ctx ctx' \<and> r \<noteq> None \<and> (\<forall>i. r = Some i \<longrightarrow> fdef_ok (ctx_ir ctx') (Fed_Object i)))"
    proof (rule runs_bind [OF insert_object_runs [OF dir_step_wf [OF 2(1)] fstr_ok_mono [OF dir_step_extends [OF 2(1)] 1(2)] 2(2)]], simp, clarify)
      fix i ctx3 assume 3: "ctx_step sg ctx2 ctx3" and i: "fdef_ok (ctx_ir ctx3) (Fed_Object i)"
      have s03: "ctx_step sg ctx ctx3" by (rule ctx_step_trans [OF str_step_ctx [OF 1(1)] ctx_step_trans [OF dir_step_ctx [OF 2(1)] 3]])
      show "runs t (do { ctx4 \<leftarrow> for_each_field_group sg ds (\<lambda>field_list ctx.
            case field_list of
              [] \<Rightarrow> Some ctx
            | first # _ \<Rightarrow> compose_object_fields sg i False first field_list ctx) ctx3;
        Some (Some i, ctx4) }) (\<lambda>(r, ctx'). ctx_step sg ctx ctx' \<and> r \<noteq> None \<and> (\<forall>i. r = Some i \<longrightarrow> fdef_ok (ctx_ir ctx') (Fed_Object i)))"
        by (rule runs_bind [OF compose_object_groups_runs [OF wf ctx_step_wf [OF s03] i]])
          (use ctx_step_trans [OF s03] fdef_ok_mono [OF ctx_step_extends i] in auto)
    qed
  qed
  then show ?thesis
    unfolding merge_fields_def n Let_def prod.case by (intro runs_if) (simp add: ctx_step_refl ir, erule runs_mono, auto)
qed

text \<open>After the root types are merged there is a query type, or a fatal diagnostic.\<close>

lemma merge_root_fields_runs:
  assumes wf: "wf_store sg" and ir: "ir_wf sg (ctx_ir ctx)"
  shows "runs t (merge_root_fields sg ctx) (\<lambda>ctx'. ctx_step sg ctx ctx'
    \<and> (ir_query_type (ctx_ir ctx') \<noteq> None \<or> any_fatal (ctx_diagnostics ctx')))"
proof -
  note ds = root_types_ok [OF wf]
  show ?thesis
    unfolding merge_root_fields_def Let_def
  proof (rule runs_bind [OF merge_fields_runs [OF wf ir]], blast dest: ds, clarify, rule runs_case_option)
    fix query ctx1 assume 1: "ctx_step sg ctx ctx1"
    let ?P = "\<lambda>ctx'. ctx_step sg ctx ctx' \<and> (ir_query_type (ctx_ir ctx') \<noteq> None \<or> any_fatal (ctx_diagnostics ctx'))"
    show "runs t (Some (ctx_push_fatal ''The root `Query` object is not defined in any subgraph.'' ctx1)) ?P"
      using ctx_step_trans [OF 1 str_step_ctx [OF ctx_push_fatal_step [OF ctx_step_wf [OF 1]]]]
      by (simp add: ctx_push_fatal_def push_fatal_def any_fatal_def)
    fix q assume q: "query = Some q" and qok: "\<forall>i. query = Some i \<longrightarrow> fdef_ok (ctx_ir ctx1) (Fed_Object i)"
    define ctx2 where "ctx2 = set_query q ctx1"
    have 2: "ctx_step sg ctx1 ctx2" "ir_query_type (ctx_ir ctx2) \<noteq> None"
      using set_root_steps(1) [OF ctx_step_wf [OF 1]] q qok by (simp_all add: ctx2_def set_query_def)
    have fin: "?P ctx'" if "ctx_step sg ctx2 ctx'" for ctx'
      using ctx_step_trans [OF ctx_step_trans [OF 1 2(1)] that] ctx_step_extends [OF that] 2(2) by (simp add: ir_extends_def)
    have set: "ctx_step sg ctx2 (case r of Some i \<Rightarrow> f i ctx' | None \<Rightarrow> ctx')"
      if "ctx_step sg ctx2 ctx'" "\<forall>i. r = Some i \<longrightarrow> fdef_ok (ctx_ir ctx') (Fed_Object i)" "f = set_mutation \<or> f = set_subscription" for r f ctx'
      using that set_root_steps(2,3) [OF ctx_step_wf [OF that(1)]] ctx_step_trans [OF that(1)] by (cases r) auto
    show "runs t (do {
          (mutation, ctx2) \<leftarrow> merge_fields sg ''Mutation'' (List.map_filter (\<lambda>(_, s). s_mutation_type s) (iter_subgraphs sg)) (set_query q ctx1);
          (subscription, ctx4) \<leftarrow> merge_fields sg ''Subscription'' (List.map_filter (\<lambda>(_, s). s_subscription_type s) (iter_subgraphs sg))
            (case mutation of Some i \<Rightarrow> set_mutation i ctx2 | None \<Rightarrow> ctx2);
          Some (case subscription of Some i \<Rightarrow> set_subscription i ctx4 | None \<Rightarrow> ctx4) }) ?P"
      unfolding ctx2_def [symmetric]
    proof (rule runs_bind [OF merge_fields_runs [OF wf ctx_step_wf [OF 2(1)]]], blast dest: ds, clarify,
        rule runs_bind [OF merge_fields_runs [OF wf ctx_step_wf [OF set]]], assumption, assumption, blast, blast dest: ds, clarify)
      fix m ctx3 s ctx4
      assume 3: "ctx_step sg ctx2 ctx3" "\<forall>i. m = Some i \<longrightarrow> fdef_ok (ctx_ir ctx3) (Fed_Object i)"
        and 4: "ctx_step sg (case m of None \<Rightarrow> ctx3 | Some i \<Rightarrow> set_mutation i ctx3) ctx4" "\<forall>i. s = Some i \<longrightarrow> fdef_ok (ctx_ir ctx4) (Fed_Object i)"
      have "ctx_step sg ctx2 ctx4" using ctx_step_trans [OF set [OF 3, where f = set_mutation] 4(1)] by simp
      from fin [OF set [OF this 4(2), where f = set_subscription]] show "runs t (Some (case s of None \<Rightarrow> ctx4 | Some i \<Rightarrow> set_subscription i ctx4)) ?P" by simp
    qed
  qed
qed
subsection \<open>All definitions\<close>

text \<open>Enums used both as input and as output: the values of no other definition of the group may extend
  the values of the first one.\<close>

definition enum_group_ok :: "Subgraphs \<Rightarrow> DefinitionId list \<Rightarrow> bool" where
  "enum_group_ok sg ds \<longleftrightarrow> (case ds of [] \<Rightarrow> True | first # _ \<Rightarrow>
     def_kind sg first = Some Enum \<longrightarrow> (case def_name sg first of None \<Rightarrow> True | Some n \<Rightarrow>
       used_in_input sg n \<longrightarrow> used_in_output sg n \<longrightarrow> (\<forall>d \<in> set ds. \<not> strict_prefix (value_names sg first) (value_names sg d))))"

lemma compose_group_runs:
  assumes wf: "wf_store sg" and ir: "ir_wf sg (ctx_ir ctx)" and ds: "\<forall>d \<in> set ds. def_ok sg d" and t: "t \<Longrightarrow> enum_group_ok sg ds"
  shows "runs t (compose_group sg ds ctx) (ctx_step sg ctx)"
proof (cases ds)
  case Nil
  then show ?thesis by (simp add: compose_group_def ctx_step_refl ir)
next
  case (Cons d rest)
  have d: "def_ok sg d" using ds Cons by simp
  obtain k where k: "def_kind sg d = Some k" using def_kind_runs [OF wf d, of True] by (auto simp: runs_total)
  obtain n where n: "def_name sg d = Some n" using def_name_runs [OF wf d, of True] by (auto simp: runs_total)
  have first: "d \<in> set ds" using Cons by simp
  note steps = merge_object_definitions_runs [OF wf ir d ds] merge_union_definitions_runs [OF wf ir d ds]
    merge_input_object_definitions_runs [OF wf ir ds first] merge_interface_definitions_runs [OF wf ir ds first]
    merge_scalar_definitions_runs [OF wf ir ds first]
  have enum: "runs t (merge_enum_definitions sg d ds ctx) (ctx_step sg ctx)" if "k = Enum"
    by (rule runs_mono [OF merge_enum_definitions_runs [OF wf ir d ds n]]) (use t k n that Cons in \<open>simp_all add: enum_group_ok_def\<close>)
  have "runs t (do { site \<leftarrow> def_directives sg d;
      if interface_object sg site \<or> k = Interface \<and> entity_keys sg d \<noteq> [] then merge_entity_interface_definitions sg d ds ctx
      else (case k of
              Object \<Rightarrow> merge_object_definitions sg d ds ctx
            | Union \<Rightarrow> merge_union_definitions sg d ds ctx
            | InputObject \<Rightarrow> merge_input_object_definitions sg d ds ctx
            | Interface \<Rightarrow> merge_interface_definitions sg d ds ctx
            | Scalar \<Rightarrow> merge_scalar_definitions sg d ds ctx
            | Enum \<Rightarrow> merge_enum_definitions sg d ds ctx) }) (ctx_step sg ctx)"
    by (rule runs_bind [OF def_directives_runs [OF wf d]], rule runs_if, rule merge_entity_interface_definitions_runs [OF wf ir d ds])
      (cases k; simp add: steps enum)
  then show ?thesis by (simp only: compose_group_def Cons list.case k bind.bind_lunit)
qed

lemma definition_groups_ok: "wf_store sg \<Longrightarrow> g \<in> set (definition_groups sg) \<Longrightarrow> d \<in> set g \<Longrightarrow> def_ok sg d"
  unfolding definition_groups_def
  by (fastforce simp: wf_store_def names_ok_def def_ok_def vec_index_eq_Some dest!: group_by_key_groups)

text \<open>What rules out a panic of composition on a well-formed store.\<close>

definition enums_mergeable :: "Subgraphs \<Rightarrow> bool" where
  "enums_mergeable sg \<longleftrightarrow> (\<forall>g \<in> set (definition_groups sg). enum_group_ok sg g)"

lemma compose_subgraphs_runs:
  assumes wf: "wf_store sg" and ir: "ir_wf sg (ctx_ir ctx)" and t: "t \<Longrightarrow> enums_mergeable sg"
  shows "runs t (compose_subgraphs sg ctx) (\<lambda>ctx'. ctx_step sg ctx ctx'
    \<and> (ir_query_type (ctx_ir ctx') \<noteq> None \<or> any_fatal (ctx_diagnostics ctx')))"
proof -
  have groups: "runs t (iter_definition_groups sg (compose_group sg) ctx) (ctx_step sg ctx)"
    unfolding iter_definition_groups_eq [OF wf]
  proof (rule runs_foldM [where I = "ctx_step sg ctx", OF ctx_step_refl [OF ir]])
    fix g ctx1 assume g: "g \<in> set ([] # definition_groups sg)" and 1: "ctx_step sg ctx ctx1"
    have "\<forall>d \<in> set g. def_ok sg d" using g definition_groups_ok [OF wf] by auto
    moreover have "t \<Longrightarrow> enum_group_ok sg g" using g t by (auto simp: enums_mergeable_def enum_group_ok_def)
    ultimately show "runs t (compose_group sg g ctx1) (ctx_step sg ctx)"
      by (intro runs_mono [OF compose_group_runs [OF wf ctx_step_wf [OF 1]] ctx_step_trans [OF 1]])
  qed
  show ?thesis
    unfolding compose_subgraphs_def
    by (rule runs_bind [OF groups], rule runs_mono [OF merge_root_fields_runs [OF wf ctx_step_wf]], assumption) (blast intro: ctx_step_trans)
qed

subsection \<open>The initial context\<close>

lemma ir_default_wf: "ir_wf sg ir_default"
  unfolding ir_wf_def
proof (intro conjI allI impI)
  show "holds ir_default x \<Longrightarrow> item_ok sg ir_default x" for x by (cases x) (simp_all add: ir_default_def)
qed (simp_all add: ir_default_def)

lemma context_new_runs:
  assumes wf: "wf_store sg"
  shows "runs t (context_new sg ds) (\<lambda>ctx. ctx_step sg \<lparr>ctx_diagnostics = emit_ingestion_diagnostics sg ds, ctx_ir = ir_default\<rparr> ctx)"
proof -
  define ctx0 where "ctx0 = \<lparr>ctx_diagnostics = emit_ingestion_diagnostics sg ds, ctx_ir = ir_default\<rparr>"
  have ir: "ir_wf sg (ctx_ir ctx0)" by (simp add: ctx0_def ir_default_wf)
  have scalars: "runs t (iter_builtin_scalars sg) (\<lambda>xs. \<forall>x \<in> set xs. str_ok sg x)"
    unfolding iter_builtin_scalars_def
  proof (rule runs_mapM_all)
    fix x assume "x \<in> set BUILTIN_SCALARS"
    then have "get_index_of (sg_strings sg) x \<noteq> None" using wf by (auto simp: wf_store_def)
    then show "runs t (strings_lookup (sg_strings sg) x) (str_ok sg)"
      by (auto simp: strings_lookup_def str_ok_def simp del: get_index_of_None dest: get_index_of_Some)
  qed
  show ?thesis
    unfolding context_new_def ctx0_def [symmetric]
  proof (rule runs_bind [OF scalars], rule runs_foldM [where I = "ctx_step sg ctx0", OF ctx_step_refl [OF ir]])
    fix xs x ctx1 assume xs: "\<forall>x \<in> set xs. str_ok sg x" and x: "x \<in> set xs" and 1: "ctx_step sg ctx0 ctx1"
    have "ctx_step sg ctx1 (insert_scalar name None NO_DIRECTIVES ctx1)" for name
      by (rule insert_scalar_step [OF ctx_step_wf [OF 1]]) (simp add: dirs_ok_def range_in_def NO_DIRECTIVES_def)
    then show "runs t (do { name \<leftarrow> as_str sg x; Some (insert_scalar name None NO_DIRECTIVES ctx1) }) (ctx_step sg ctx0)"
      using xs x by (intro runs_bind [OF as_str_runs]) (auto intro: ctx_step_trans [OF 1])
  qed
qed

end
