(* ===== verification/Validate_Steps.thy ===== *)
theory Validate_Steps
  imports Validate Compose_Steps
begin

text \<open>Validation only adds diagnostics.\<close>

definition report_step :: "Context \<Rightarrow> Context \<Rightarrow> bool" where
  "report_step ctx ctx' \<longleftrightarrow> ctx_ir ctx' = ctx_ir ctx \<and> prefix (ctx_diagnostics ctx) (ctx_diagnostics ctx')"

lemma report_step_refl [simp]: "report_step ctx ctx"
  by (simp add: report_step_def)

lemma report_step_trans: "report_step a b \<Longrightarrow> report_step b c \<Longrightarrow> report_step a c"
  by (auto simp: report_step_def)

lemma report_push [simp]: "report_step ctx (ctx_push_fatal m ctx)"
  by (simp add: report_step_def ctx_push_fatal_def push_fatal_def)

lemma report_push_trans: "report_step a b \<Longrightarrow> report_step a (ctx_push_fatal m b)"
  using report_step_trans report_push by blast

lemma report_message_runs: "runs t msg (\<lambda>_. True) \<Longrightarrow> runs t (do { m \<leftarrow> msg; Some (ctx_push_fatal m ctx) }) (report_step ctx)"
  by (erule runs_bind) simp

lemma report_foldM_runs:
  assumes "\<And>x ctx. x \<in> set xs \<Longrightarrow> runs t (f x ctx) (report_step ctx)"
  shows "runs t (foldM f xs ctx) (report_step ctx)"
  by (rule runs_foldM [where I = "report_step ctx"], simp) (erule runs_mono [OF assms], erule report_step_trans)

subsection \<open>Names of subgraphs\<close>

lemma validate_name_report: "report_step ctx (validate_name name ctx)"
  by (simp add: validate_name_def split: list.split)

lemma validate_subgraph_names_runs:
  assumes wf: "wf_store sg"
  shows "runs t (validate_subgraph_names sg ctx) (report_step ctx)"
  unfolding validate_subgraph_names_def
proof (rule runs_map_option, rule runs_foldM [where I = "\<lambda>st. report_step ctx (snd st)"], simp, clarify)
  fix i s and seen :: "string set" and ctx1
  assume "(i, s) \<in> set (iter_subgraphs sg)" and 1: "report_step ctx (snd (seen, ctx1))"
  then have "str_ok sg (s_name s)"
    using wf by (auto simp: iter_subgraphs_def in_set_enumerate_eq wf_store_def subgraph_record_ok_def dest!: nth_mem)
  then show "runs t (do {
         name \<leftarrow> as_str sg (s_name s);
         let ctx1 = validate_name name ctx1;
         let lower = to_ascii_lowercase name;
         Some (insert lower seen, if lower \<in> seen then ctx_push_fatal (duplicate_name_message name) ctx1 else ctx1) })
       (\<lambda>st. report_step ctx (snd st))"
    using 1 by (intro runs_bind [OF as_str_runs]) (auto simp: Let_def intro: report_push_trans report_step_trans validate_name_report)
qed

text \<open>A name is accepted if it starts with a letter and continues with letters, digits and hyphens.\<close>

definition valid_name :: "string \<Rightarrow> bool" where
  "valid_name name \<longleftrightarrow> (case name of [] \<Rightarrow> False
     | first # chars \<Rightarrow> is_alphabetic first \<and> list_all (\<lambda>c. c = CHR ''-'' \<or> is_alphanumeric c) chars)"

lemma validate_name_eq: "ctx_diagnostics (validate_name name ctx) = ctx_diagnostics ctx \<longleftrightarrow> valid_name name"
  by (auto simp: validate_name_def valid_name_def ctx_push_fatal_def push_fatal_def split: list.split)

lemma validate_names_fold:
  assumes "mapM (\<lambda>(_, s). as_str sg (s_name s)) subs = Some names" and "ctx' = snd st" and
    "foldM (\<lambda>(_, subgraph) (seen, ctx). do {
         name \<leftarrow> as_str sg (s_name subgraph);
         let ctx1 = validate_name name ctx;
         let lower = to_ascii_lowercase name;
         Some (insert lower seen,
           if lower \<in> seen then ctx_push_fatal (duplicate_name_message name) ctx1 else ctx1) }) subs (seen, ctx) = Some st"
  shows "report_step ctx ctx' \<and> (ctx_diagnostics ctx' = ctx_diagnostics ctx \<longleftrightarrow> list_all valid_name names \<and> distinct (map to_ascii_lowercase names)
     \<and> seen \<inter> to_ascii_lowercase ` set names = {})"
  using assms
proof (induction subs arbitrary: names seen ctx)
  case (Cons x subs)
  obtain i s where x: "x = (i, s)" by fastforce
  obtain name names' where n: "as_str sg (s_name s) = Some name" "mapM (\<lambda>(_, s). as_str sg (s_name s)) subs = Some names'" "names = name # names'"
    using Cons.prems(1) by (auto simp: x bind_eq_Some_conv)
  define lower where "lower = to_ascii_lowercase name"
  define ctx1 where "ctx1 = (if lower \<in> seen then ctx_push_fatal (duplicate_name_message name) (validate_name name ctx) else validate_name name ctx)"
  have IH: "report_step ctx1 ctx' \<and> (ctx_diagnostics ctx' = ctx_diagnostics ctx1 \<longleftrightarrow> list_all valid_name names' \<and> distinct (map to_ascii_lowercase names')
     \<and> insert lower seen \<inter> to_ascii_lowercase ` set names' = {})"
    by (rule Cons.IH [OF n(2) Cons.prems(2)]) (use Cons.prems(3) in \<open>simp add: x n(1) Let_def lower_def ctx1_def\<close>)
  have 1: "report_step ctx ctx1" by (simp add: ctx1_def validate_name_report report_push_trans)
  have d: "ctx_diagnostics ctx1 = ctx_diagnostics ctx \<longleftrightarrow> valid_name name \<and> lower \<notin> seen"
    by (auto simp: ctx1_def validate_name_eq ctx_push_fatal_def push_fatal_def)
      (metis validate_name_report report_step_def not_Cons_self2 append_eq_conv_conj prefix_def append.assoc append_is_Nil_conv append_self_conv)+
  have "ctx_diagnostics ctx' = ctx_diagnostics ctx \<longleftrightarrow> ctx_diagnostics ctx' = ctx_diagnostics ctx1 \<and> ctx_diagnostics ctx1 = ctx_diagnostics ctx"
    using IH 1 by (metis prefix_order.antisym report_step_def)
  then show ?case using IH d 1 report_step_trans by (auto simp: n(3) lower_def)
qed auto

subsection \<open>Selections\<close>

lemma find_field_field_ok: "wf_store sg \<Longrightarrow> find_field sg d n = Some f \<Longrightarrow> field_ok sg f"
  using find_field_ok by (auto simp: field_ok_def)

lemma argument_by_name_ok: "wf_store sg \<Longrightarrow> argument_by_name sg f n = Some a \<Longrightarrow> argument_ok sg a"
  by (auto simp: argument_by_name_def Let_def argument_ok_def wf_store_def fields_ok_def bt_wf_get split: FieldId.splits)

lemma argument_type_matches_runs:
  shows "wf_store sg \<Longrightarrow> type_ok sg ty \<Longrightarrow> runs t (argument_type_matches sg s ty v) (\<lambda>_. True)"
    and "wf_store sg \<Longrightarrow> runs t (all_fields_match sg s d fs) (\<lambda>_. True)"
    and "wf_store sg \<Longrightarrow> type_ok sg ty \<Longrightarrow> runs t (all_elements_match sg s ty vs) (\<lambda>_. True)"
proof (induction sg s ty v and sg s d fs and sg s ty vs rule: argument_type_matches_all_fields_match_all_elements_match.induct)
  case (1 sg s ty v)
  note ty = type_name_runs [OF "1.prems"] type_definition_runs [OF "1.prems"] type_is_list_runs [OF "1.prems"]
  show ?case
    unfolding argument_type_matches.simps
  proof (rule runs_bind_eq [OF ty(1)], rule runs_bind_eq [OF as_str_runs], assumption)
    fix i n assume n: "type_name sg ty = Some i" "as_str sg i = Some n"
    show "runs t (case v of
        Value_String _ \<Rightarrow> Some (n = ''String'')
      | Value_Int _ \<Rightarrow> Some (n = ''Int'')
      | Value_Float _ \<Rightarrow> Some (n = ''Float'')
      | Value_Boolean _ \<Rightarrow> Some (n = ''Boolean'')
      | Value_Enum v \<Rightarrow> do {
          d \<leftarrow> type_definition sg ty s;
          Some (case d of None \<Rightarrow> False | Some enum_type \<Rightarrow> enum_value_by_name sg enum_type v \<noteq> None) }
      | Value_Object field_values \<Rightarrow> do {
          d \<leftarrow> type_definition sg ty s;
          (case d of
             None \<Rightarrow> Some False
           | Some input_object_type \<Rightarrow> all_fields_match sg s input_object_type field_values) }
      | Value_List inner \<Rightarrow> do {
          is_list \<leftarrow> type_is_list sg ty;
          if is_list then all_elements_match sg s ty inner else Some False }
      | Value_Null \<Rightarrow> Some False) (\<lambda>_. True)"
      using 1 n by (cases v) (auto intro!: runs_bind [OF ty(2)] runs_bind_eq [OF ty(2)] runs_bind_eq [OF ty(3)] split: option.split)
  qed
next
  case (3 sg s d fname fvalue rest)
  show ?case
  proof (cases "find_field sg d fname")
    case (Some f)
    have ty: "type_ok sg (field_type f)" using find_field_ok [OF "3.prems" Some] by simp
    have "runs t (do { ok \<leftarrow> argument_type_matches sg s (field_type f) fvalue; if ok then all_fields_match sg s d rest else Some False }) (\<lambda>_. True)"
      by (rule runs_bind_eq [OF 3(1) [OF Some "3.prems" ty]], rule runs_if, rule 3(2) [OF Some]) (assumption | rule "3.prems" | simp)+
    then show ?thesis by (simp add: Some del: argument_type_matches.simps)
  qed simp
next
  case (5 sg s ty v rest)
  show ?case
    unfolding all_elements_match.simps
    by (rule runs_bind_eq [OF 5(1) [OF "5.prems"]], rule runs_if, rule 5(2)) (assumption | rule "5.prems" | simp)+
qed simp_all

lemma field_path_runs: "wf_store sg \<Longrightarrow> field_ok sg f \<Longrightarrow> runs t (field_path sg f) (\<lambda>_. True)"
  unfolding field_path_def
  by (rule runs_bind [OF def_name_runs [OF _ field_parts_ok(1)]], assumption+, rule runs_bind [OF as_str_runs], assumption,
      rule runs_bind [OF as_str_runs [OF field_parts_ok(2)]]) simp_all

lemma def_name_as_str_runs:
  assumes "wf_store sg" and "def_ok sg d" and "\<And>n. runs t (f n) Q"
  shows "runs t (do { i \<leftarrow> def_name sg d; n \<leftarrow> as_str sg i; f n }) Q"
  by (rule runs_bind [OF def_name_runs [OF assms(1,2)]], rule runs_bind [OF as_str_runs], assumption) (rule assms(3))

lemma selection_messages_run:
  assumes wf: "wf_store sg" and path: "runs t path (\<lambda>_. True)" and d: "def_ok sg d" and n: "str_ok sg n"
  shows "runs t (field_does_not_exist_message sg path dir n d) (\<lambda>_. True)"
    and "field_ok sg f \<Longrightarrow> runs t (argument_required_message sg path dir f n) (\<lambda>_. True)"
    and "field_ok sg f \<Longrightarrow> runs t (argument_does_not_exist_message sg path dir f n d) (\<lambda>_. True)"
    and "field_ok sg f \<Longrightarrow> argument_ok sg a \<Longrightarrow> runs t (argument_type_message sg path dir f n a) (\<lambda>_. True)"
    and "runs t (type_condition_message sg path dir n d) (\<lambda>_. True)"
  unfolding field_does_not_exist_message_def argument_required_message_def argument_does_not_exist_message_def
    argument_type_message_def type_condition_message_def
  using path by (intro runs_bind [where P = "\<lambda>_. True"] def_name_as_str_runs as_str_runs type_display_runs wf d n
      field_parts_ok(2) [OF wf] argument_parts_ok(2) [OF wf]; simp)+

lemma check_required_arguments_runs:
  assumes wf: "wf_store sg" and path: "runs t path (\<lambda>_. True)" and f: "field_ok sg f"
  shows "runs t (check_required_arguments sg path dir f args ctx) (report_step ctx)"
proof -
  have req: "runs t (filterM (\<lambda>arg. do { r \<leftarrow> type_is_required sg (argument_type arg); Some (r \<and> argument_default sg arg = None) })
      (field_arguments sg f)) (\<lambda>r. set r \<subseteq> set (field_arguments sg f))"
    by (rule runs_filterM, rule runs_bind [OF type_is_required_runs [OF wf argument_parts_ok(2) [OF wf field_arguments_ok]]]) simp_all
  show ?thesis
    unfolding check_required_arguments_def
  proof (rule runs_bind [OF req], rule report_foldM_runs, rule runs_if)
    fix r a ctx1 assume "set r \<subseteq> set (field_arguments sg f)" "a \<in> set r"
    then have a: "argument_ok sg a" using field_arguments_ok by blast
    show "runs t (do { m \<leftarrow> argument_required_message sg path dir f (argument_name a); Some (ctx_push_fatal m ctx1) }) (report_step ctx1)"
      by (rule report_message_runs [OF selection_messages_run(2) [OF wf path field_parts_ok(1) [OF wf f] argument_parts_ok(1) [OF wf a] f]])
  qed simp
qed

lemma check_selected_arguments_runs:
  assumes wf: "wf_store sg" and path: "runs t path (\<lambda>_. True)" and d: "def_ok sg d" and f: "field_ok sg f" and "\<forall>(n, v) \<in> set args. str_ok sg n"
  shows "runs t (check_selected_arguments sg path dir d f args ctx) (\<lambda>(b, ctx'). report_step ctx ctx')"
  using assms(5)
proof (induction args)
  case (Cons x args)
  obtain n v where x: "x = (n, v)" by (rule prod.exhaust)
  have n: "str_ok sg n" using Cons.prems by (simp add: x)
  show ?case
  proof (cases "argument_by_name sg f n")
    case None
    have "runs t (do { m \<leftarrow> argument_does_not_exist_message sg path dir f n d; Some (False, ctx_push_fatal m ctx) }) (\<lambda>(b, ctx'). report_step ctx ctx')"
      by (rule runs_bind [OF selection_messages_run(3) [OF wf path d n f]]) simp
    then show ?thesis by (simp add: x None)
  next
    case (Some a)
    then have a: "argument_ok sg a" by (rule argument_by_name_ok [OF wf])
    have IH: "runs t (check_selected_arguments sg path dir d f args ctx) (\<lambda>(b, ctx'). report_step ctx ctx')" using Cons by simp
    have msg: "runs t (do { m \<leftarrow> argument_type_message sg path dir f n a; Some (False, ctx_push_fatal m ctx) }) (\<lambda>(b, ctx'). report_step ctx ctx')"
      by (rule runs_bind [OF selection_messages_run(4) [OF wf path d n f a]]) simp
    have "runs t (do { s \<leftarrow> def_subgraph_id sg d; ok \<leftarrow> argument_type_matches sg s (argument_type a) v;
        if ok then check_selected_arguments sg path dir d f args ctx
        else do { m \<leftarrow> argument_type_message sg path dir f n a; Some (False, ctx_push_fatal m ctx) } }) (\<lambda>(b, ctx'). report_step ctx ctx')"
      by (rule runs_bind [OF def_subgraph_id_runs [OF wf d]],
          rule runs_bind [OF argument_type_matches_runs(1) [OF wf argument_parts_ok(2) [OF wf a]]], rule runs_if, rule IH, rule msg)
    then show ?thesis by (simp add: x Some)
  qed
qed simp

lemma check_field_selection_runs:
  assumes wf: "wf_store sg" and path: "runs t path (\<lambda>_. True)" and d: "def_ok sg d" and n: "str_ok sg n" and args: "\<forall>(n, v) \<in> set args. str_ok sg n"
  shows "runs t (check_field_selection sg n args d path dir ctx) (\<lambda>(r, ctx'). report_step ctx ctx' \<and> (r = None \<or> r = find_field sg d n))"
proof (cases "find_field sg d n")
  case None
  have "runs t (do { m \<leftarrow> field_does_not_exist_message sg path dir n d; Some (None, ctx_push_fatal m ctx) })
      (\<lambda>(r, ctx'). report_step ctx ctx' \<and> (r = None \<or> r = find_field sg d n))"
    by (rule runs_bind [OF selection_messages_run(1) [OF wf path d n]]) simp
  then show ?thesis by (simp add: check_field_selection_def None)
next
  case (Some f)
  note f = find_field_field_ok [OF wf Some]
  have "runs t (do { ctx1 \<leftarrow> check_required_arguments sg path dir f args ctx;
      (continue, ctx2) \<leftarrow> check_selected_arguments sg path dir d f args ctx1; Some (if continue then Some f else None, ctx2) })
      (\<lambda>(r, ctx'). report_step ctx ctx' \<and> (r = None \<or> r = find_field sg d n))"
    by (rule runs_bind [OF check_required_arguments_runs [OF wf path f]], rule runs_bind [OF check_selected_arguments_runs [OF wf path d f args]], clarify)
      (auto intro: report_step_trans simp: Some)
  then show ?thesis by (simp add: check_field_selection_def Some)
qed

text \<open>A nested selection is on a field whose type is defined in the subgraph.\<close>

fun selection_defined :: "Subgraphs \<Rightarrow> DefinitionId \<Rightarrow> Selection \<Rightarrow> bool"
  and selections_defined :: "Subgraphs \<Rightarrow> DefinitionId \<Rightarrow> Selection list \<Rightarrow> bool" where
  "selection_defined sg d (Selection_Field n args sub) \<longleftrightarrow>
     (case find_field sg d n of
        None \<Rightarrow> True
      | Some f \<Rightarrow> sub = [] \<or> (case definition_of_type sg f d of None \<Rightarrow> False | Some d' \<Rightarrow> selections_defined sg d' sub))"
| "selection_defined sg d (InlineFragment n sub) \<longleftrightarrow>
     (case def_subgraph_id sg d of
        None \<Rightarrow> True
      | Some s \<Rightarrow> (case definition_by_name_id sg n s of None \<Rightarrow> True | Some d' \<Rightarrow> selections_defined sg d' sub))"
| "selections_defined sg d [] \<longleftrightarrow> True"
| "selections_defined sg d (s # rest) \<longleftrightarrow> selection_defined sg d s \<and> selections_defined sg d rest"

lemma definition_of_type_ok:
  assumes "wf_store sg" and "field_ok sg f" and "definition_of_type sg f d = Some d'"
  shows "def_ok sg d'"
proof -
  obtain s where "type_definition sg (field_type f) s = Some (Some d')"
    using assms(3) by (auto simp: definition_of_type_def split: Option.bind_splits)
  then show ?thesis using type_definition_runs [OF assms(1) field_parts_ok(3) [OF assms(1,2)], of False s] by simp
qed

lemma validate_selection_runs:
  shows "wf_store sg \<Longrightarrow> runs t path (\<lambda>_. True) \<Longrightarrow> def_ok sg d \<Longrightarrow> selection_ok sg sel \<Longrightarrow> (t \<Longrightarrow> selection_defined sg d sel) \<Longrightarrow>
      runs t (validate_selection sg sel d path dir ctx) (report_step ctx)"
    and "wf_store sg \<Longrightarrow> runs t path (\<lambda>_. True) \<Longrightarrow> (\<And>d. md = Some d \<Longrightarrow> def_ok sg d) \<Longrightarrow> selections_ok sg sels \<Longrightarrow>
      (t \<Longrightarrow> sels = [] \<or> (\<exists>d. md = Some d \<and> selections_defined sg d sels)) \<Longrightarrow>
      runs t (validate_subselection sg sels md path dir ctx) (report_step ctx)"
proof (induction sg sel d path dir ctx and sg sels md path dir ctx rule: validate_selection_validate_subselection.induct)
  case (1 sg n args sub d path dir ctx)
  have args: "\<forall>(n, v) \<in> set args. str_ok sg n" and sub: "selections_ok sg sub" and n: "str_ok sg n"
    using "1.prems"(4) by (auto simp: selections_ok_def arguments_ok_def)
  show ?case
    unfolding validate_selection.simps
  proof (rule runs_bind_eq [OF check_field_selection_runs [OF "1.prems"(1,2,3) n args]], clarify, rule runs_case_option)
    fix r and ctx1 :: Context assume eq: "check_field_selection sg n args d path dir ctx = Some (r, ctx1)"
      and 1: "report_step ctx ctx1" and r: "r = None \<or> r = find_field sg d n"
    show "runs t (Some ctx1) (report_step ctx)" using 1 by simp
    fix f assume f: "r = Some f"
    then have ff: "find_field sg d n = Some f" using r by simp
    have "runs t (validate_subselection sg sub (definition_of_type sg f d) path dir ctx1) (report_step ctx1)"
    proof (rule "1.IH" [OF eq refl f "1.prems"(1,2) _ sub])
      show "definition_of_type sg f d = Some d' \<Longrightarrow> def_ok sg d'" for d'
        by (rule definition_of_type_ok [OF "1.prems"(1) find_field_field_ok [OF "1.prems"(1) ff]])
      show "t \<Longrightarrow> sub = [] \<or> (\<exists>d'. definition_of_type sg f d = Some d' \<and> selections_defined sg d' sub)"
        using "1.prems"(5) by (auto simp: ff split: option.splits)
    qed
    then show "runs t (validate_subselection sg sub (definition_of_type sg f d) path dir ctx1) (report_step ctx)"
      by (rule runs_mono) (rule report_step_trans [OF 1])
  qed
next
  case (2 sg n sub d path dir ctx)
  have sub: "selections_ok sg sub" and n: "str_ok sg n" using "2.prems"(4) by (auto simp: selections_ok_def)
  show ?case
    unfolding validate_selection.simps
  proof (rule runs_bind_eq [OF def_subgraph_id_runs [OF "2.prems"(1,3)]], rule runs_case_option)
    show "runs t (do { m \<leftarrow> type_condition_message sg path dir n d; Some (ctx_push_fatal m ctx) }) (report_step ctx)"
      by (rule report_message_runs [OF selection_messages_run(5) [OF "2.prems"(1,2,3) n]])
    fix s d' assume s: "def_subgraph_id sg d = Some s" and d': "definition_by_name_id sg n s = Some d'"
    show "runs t (validate_subselection sg sub (Some d') path dir ctx) (report_step ctx)"
      using "2.prems"(5) names_ok_get [OF "2.prems"(1) d'] by (intro "2.IH" [OF s d' "2.prems"(1,2) _ sub]) (auto simp: s d')
  qed
next
  case (4 sg s rest md path dir ctx)
  show ?case
  proof (cases md)
    case None
    then show ?thesis using "4.prems"(5) by auto
  next
    case (Some d)
    have d: "def_ok sg d" using "4.prems"(3) Some by simp
    have ok: "selection_ok sg s" "selections_ok sg rest" using "4.prems"(4) by (simp_all add: selections_ok_def)
    have "runs t (do { ctx1 \<leftarrow> validate_selection sg s d path dir ctx; validate_subselection sg rest md path dir ctx1 }) (report_step ctx)"
    proof (rule runs_bind_eq [OF "4.IH"(1) [OF Some "4.prems"(1,2) d ok(1)]])
      show "t \<Longrightarrow> selection_defined sg d s" using "4.prems"(5) Some by simp
      fix ctx1 assume eq: "validate_selection sg s d path dir ctx = Some ctx1" and 1: "report_step ctx ctx1"
      have "runs t (validate_subselection sg rest md path dir ctx1) (report_step ctx1)"
        using "4.prems"(3,5) Some by (intro "4.IH"(2) [OF Some eq "4.prems"(1,2) _ ok(2)]) auto
      then show "runs t (validate_subselection sg rest md path dir ctx1) (report_step ctx)"
        by (rule runs_mono) (rule report_step_trans [OF 1])
    qed
    then show ?thesis by (simp add: Some)
  qed
qed simp

subsection \<open>All validations\<close>

lemma selections_ok_flatten: "opt_ok (selections_ok sg) x \<Longrightarrow> selections_ok sg (flatten_option x)"
  by (cases x) (simp_all add: flatten_option_def selections_ok_def)

lemma site_selections_ok:
  assumes wf: "wf_store sg"
  shows "selections_ok sg (flatten_option (requires sg i))" and "selections_ok sg (flatten_option (provides sg i))"
    and "selections_ok sg (flatten_option (authorized sg i \<bind> auth_fields))"
    and "selections_ok sg (flatten_option (authorized sg i \<bind> auth_arguments))"
proof -
  have "opt_ok (selections_ok sg) (requires sg i)" "opt_ok (selections_ok sg) (provides sg i)" and a: "opt_ok (authorized_ok sg) (authorized sg i)"
    using wf_store_directives [OF wf]
    by (auto simp: directives_ok_def requires_def provides_def authorized_def opt_ok_def dest: entry_ok_get split: option.split)
  then show "selections_ok sg (flatten_option (requires sg i))" "selections_ok sg (flatten_option (provides sg i))"
    by (simp_all add: selections_ok_flatten)
  show "selections_ok sg (flatten_option (authorized sg i \<bind> auth_fields))" "selections_ok sg (flatten_option (authorized sg i \<bind> auth_arguments))"
    using a by (cases "authorized sg i"; simp add: selections_ok_flatten authorized_ok_def)+
qed

text \<open>What the selections of a field have to satisfy for the validations not to panic: nested selections
  are on defined types, what a field provides is selected on a defined type, and the selected arguments
  are plain fields.\<close>

definition field_selections_checkable :: "Subgraphs \<Rightarrow> Field \<Rightarrow> bool" where
  "field_selections_checkable sg f \<longleftrightarrow>
     selections_defined sg (parent_definition f) (flatten_option (requires sg (field_directives f)))
     \<and> selections_defined sg (parent_definition f) (flatten_option (authorized sg (field_directives f) \<bind> auth_fields))
     \<and> (flatten_option (provides sg (field_directives f)) = [] \<or>
        (case definition_of_type sg f (parent_definition f) of
           None \<Rightarrow> False | Some d \<Rightarrow> selections_defined sg d (flatten_option (provides sg (field_directives f)))))
     \<and> (\<forall>s \<in> set (flatten_option (authorized sg (field_directives f) \<bind> auth_arguments)). is_Selection_Field s)"

lemma validate_selections_runs:
  assumes wf: "wf_store sg" and f: "field_ok sg f" and t: "t \<Longrightarrow> field_selections_checkable sg f"
  shows "runs t (validate_selections sg f ctx) (report_step ctx)"
proof -
  note path = field_path_runs [OF wf f] and d = field_parts_ok(1) [OF wf f]
  note sels = site_selections_ok [OF wf]
  have 1: "runs t (validate_subselection sg (flatten_option (requires sg (field_directives f))) (Some (parent_definition f)) (field_path sg f) dir ctx1)
      (report_step ctx1)" for ctx1 dir
    using t d by (intro validate_selection_runs(2) [OF wf path _ sels(1)]) (auto simp: field_selections_checkable_def)
  have 2: "runs t (validate_subselection sg (flatten_option (authorized sg (field_directives f) \<bind> auth_fields)) (Some (parent_definition f))
      (field_path sg f) dir ctx1) (report_step ctx1)" for ctx1 dir
    using t d by (intro validate_selection_runs(2) [OF wf path _ sels(3)]) (auto simp: field_selections_checkable_def)
  have 3: "runs t (validate_subselection sg (flatten_option (provides sg (field_directives f))) (definition_of_type sg f (parent_definition f))
      (field_path sg f) dir ctx1) (report_step ctx1)" for ctx1 dir
    using t by (intro validate_selection_runs(2) [OF wf path definition_of_type_ok [OF wf f] sels(2)]) (auto simp: field_selections_checkable_def split: option.splits)
  show ?thesis
    unfolding validate_selections_def Let_def
    by (rule runs_bind [OF 1], rule runs_bind [OF 2], rule runs_mono [OF 3]) (blast intro: report_step_trans)
qed

lemma validate_override_labels_runs:
  assumes wf: "wf_store sg" and f: "field_ok sg f"
  shows "runs t (validate_override_labels sg f ctx) (report_step ctx)"
proof -
  have msg: "runs t (do { m \<leftarrow> invalid_label_message sg f e; Some (ctx_push_fatal m ctx) }) (report_step ctx)" for e
    by (rule report_message_runs, unfold invalid_label_message_def, rule runs_bind [OF field_path_runs [OF wf f]]) simp
  show ?thesis
    unfolding validate_override_labels_def
  proof (rule runs_case_option)
    fix l assume "override_directive sg (field_directives f) \<bind> override_label = Some l"
    then have "str_ok sg l" using site_directives_ok(2) [OF wf] by (fastforce split: Option.bind_splits)
    then show "runs t (do { label_str \<leftarrow> as_str sg l;
        (case override_label_from_str label_str of Inr _ \<Rightarrow> Some ctx
          | Inl err \<Rightarrow> do { m \<leftarrow> invalid_label_message sg f err; Some (ctx_push_fatal m ctx) }) }) (report_step ctx)"
      by (intro runs_bind [OF as_str_runs]) (auto split: sum.split intro: msg)
  qed simp
qed

lemma validate_input_selections_runs:
  assumes wf: "wf_store sg" and f: "field_ok sg f" and t: "t \<Longrightarrow> field_selections_checkable sg f"
  shows "runs t (validate_input_selections sg f ctx) (report_step ctx)"
  unfolding validate_input_selections_def
proof (rule report_foldM_runs)
  fix s and ctx1 :: Context assume s: "s \<in> set (flatten_option (authorized sg (field_directives f) \<bind> auth_arguments))"
  then have ok: "selection_ok sg s" using site_selections_ok(4) [OF wf] by (simp add: selections_ok_def)
  have msg: "runs t (unknown_argument_message sg f n dir) (\<lambda>_. True)" if "str_ok sg n" for n dir
    unfolding unknown_argument_message_def by (rule runs_bind [OF as_str_runs [OF that]], rule runs_bind [OF field_path_runs [OF wf f]]) simp
  show "runs t (case s of
         Selection_Field selected _ _ \<Rightarrow>
           if argument_by_name sg f selected = None then do {
             m \<leftarrow> unknown_argument_message sg f selected ''authorized'';
             Some (ctx_push_fatal m ctx1) }
           else Some ctx1
       | InlineFragment _ _ \<Rightarrow> None) (report_step ctx1)"
  proof (cases s)
    case (Selection_Field n args sub)
    then have "str_ok sg n" using ok by simp
    then show ?thesis by (simp add: Selection_Field report_message_runs [OF msg])
  next
    case (InlineFragment n sub)
    then have "\<not> is_Selection_Field s" by simp
    then have "\<not> t" using t s unfolding field_selections_checkable_def by blast
    then show ?thesis by (simp add: InlineFragment)
  qed
qed

text \<open>A selection of a field that does not exist is reported and does not panic, so it is not excluded.\<close>

definition selections_checkable :: "Subgraphs \<Rightarrow> bool" where
  "selections_checkable sg \<longleftrightarrow> (\<forall>f \<in> set (iter_all_fields sg). field_selections_checkable sg f)"

lemma validate_runs:
  assumes wf: "wf_store sg" and t: "t \<Longrightarrow> selections_checkable sg"
  shows "runs t (validate sg ctx) (report_step ctx)"
proof -
  have "runs t (validate_fields sg ctx1) (report_step ctx1)" for ctx1
    unfolding validate_fields_def
  proof (rule report_foldM_runs)
    fix f and ctx2 :: Context assume "f \<in> set (iter_all_fields sg)"
    then have f: "field_ok sg f" and t': "t \<Longrightarrow> field_selections_checkable sg f" using t by (auto simp: iter_all_fields_def field_ok_def selections_checkable_def)
    show "runs t (do { ctx1 \<leftarrow> validate_selections sg f ctx2; ctx2 \<leftarrow> validate_override_labels sg f ctx1; validate_input_selections sg f ctx2 }) (report_step ctx2)"
      by (rule runs_bind [OF validate_selections_runs [OF wf f t']], assumption, rule runs_bind [OF validate_override_labels_runs [OF wf f]],
          rule runs_mono [OF validate_input_selections_runs [OF wf f t']], assumption) (blast intro: report_step_trans)
  qed
  moreover have "report_step ctx1 (validate_query_nonempty sg ctx1)" for ctx1 by (simp add: validate_query_nonempty_def)
  ultimately show ?thesis
    unfolding validate_def
    by (intro runs_bind [OF validate_subgraph_names_runs [OF wf]]) (rule runs_mono, assumption, blast intro: report_step_trans)
qed

text \<open>Two of the conditions are necessary: selections under \<open>@provides\<close> on a type that the subgraph does not define, and
  inline fragments in the arguments of \<open>@authorized\<close>, always panic.\<close>

definition field_selections_panic :: "Subgraphs \<Rightarrow> Field \<Rightarrow> bool" where
  "field_selections_panic sg f \<longleftrightarrow>
     (flatten_option (provides sg (field_directives f)) \<noteq> [] \<and> definition_of_type sg f (parent_definition f) = None)
     \<or> (\<exists>s \<in> set (flatten_option (authorized sg (field_directives f) \<bind> auth_arguments)). \<not> is_Selection_Field s)"

lemma validate_panics:
  assumes f: "f \<in> set (iter_all_fields sg)" and p: "field_selections_panic sg f"
  shows "validate sg ctx = None"
proof -
  have "validate_selections sg f ctx = None \<or> (\<forall>ctx. validate_input_selections sg f ctx = None)" for ctx
  proof (cases "\<exists>s \<in> set (flatten_option (authorized sg (field_directives f) \<bind> auth_arguments)). \<not> is_Selection_Field s")
    case True
    then obtain s where s: "s \<in> set (flatten_option (authorized sg (field_directives f) \<bind> auth_arguments))" "\<not> is_Selection_Field s" by blast
    obtain n sub where "s = InlineFragment n sub" using s(2) by (cases s) auto
    then have "validate_input_selections sg f ctx = None" for ctx unfolding validate_input_selections_def by (intro foldM_panics [OF s(1)]) simp
    then show ?thesis by blast
  next
    case False
    then obtain s rest where "flatten_option (provides sg (field_directives f)) = s # rest" "definition_of_type sg f (parent_definition f) = None"
      using p by (auto simp: field_selections_panic_def neq_Nil_conv)
    then show ?thesis by (simp add: validate_selections_def Let_def split: Option.bind_splits)
  qed
  note panics = this
  have step: "(do { ctx1 \<leftarrow> validate_selections sg f ctx; ctx2 \<leftarrow> validate_override_labels sg f ctx1; validate_input_selections sg f ctx2 }) = None" for ctx
    using panics [of ctx] by (auto split: Option.bind_splits)
  have "validate_fields sg ctx = None" for ctx unfolding validate_fields_def by (rule foldM_panics [OF f]) (rule step)
  then show ?thesis by (auto simp: validate_def split: Option.bind_splits)
qed

end
