(* ===== verification/Examples.thy ===== *)
theory Examples
  imports Ingest
begin

text \<open>
  Two small subgraphs on which the definitions are evaluated: \<open>products\<close> owns the entity \<open>Product\<close>,
  \<open>reviews\<close> extends it through its key.  The parser's functions are instantiated with what the crate does
  on these inputs: \<open>get_argument\<close> looks a name up in the arguments of a directive, and the only
  selection that occurs is \<open>id\<close>.
\<close>

definition example_parser :: Parser where
  "example_parser = \<lparr>parse_query = (\<lambda>s.
       if s = ''{ id }'' then Inr (Operations_Single [Ast_Field ''id'' [] []]) else Inl ''unexpected input''),
     get_argument = (\<lambda>d name. map_of (dir_arguments d) name)\<rparr>"

abbreviation directive_node :: "string \<Rightarrow> (string \<times> ConstValue) list \<Rightarrow> ConstDirective" where
  "directive_node name args \<equiv> \<lparr>dir_name = name, dir_arguments = args\<rparr>"

abbreviation key_id_directive :: ConstDirective where
  "key_id_directive \<equiv> directive_node ''key'' [(''fields'', Const_String ''id'')]"

abbreviation field_node :: "string \<Rightarrow> ast_Type \<Rightarrow> ast_FieldDefinition" where
  "field_node name ty \<equiv> \<lparr>fd_name = name, fd_description = None, fd_arguments = [], fd_ty = ty, fd_directives = []\<rparr>"

abbreviation type_node :: "string \<Rightarrow> ConstDirective list \<Rightarrow> ast_TypeKind \<Rightarrow> TypeSystemDefinition" where
  "type_node name ds kind \<equiv> Type_Definition \<lparr>tdef_name = name, tdef_description = None, tdef_directives = ds, tdef_kind = kind\<rparr>"

definition products_document :: ServiceDocument where
  "products_document =
     [type_node ''Query'' [] (Ast_Object [] [field_node ''top'' (Type_Named ''Product'' True)]),
      type_node ''Product'' [key_id_directive] (Ast_Object [''Node'']
        [field_node ''id'' (Type_Named ''ID'' False), field_node ''name'' (Type_Named ''String'' True)]),
      type_node ''Node'' [] (Ast_Interface [] [field_node ''id'' (Type_Named ''ID'' False)])]"

definition reviews_document :: ServiceDocument where
  "reviews_document =
     [type_node ''Product'' [key_id_directive] (Ast_Object []
        [field_node ''id'' (Type_Named ''ID'' False), field_node ''stars'' (Type_List (Type_Named ''Int'' False) True)])]"

definition example_documents :: "(ServiceDocument \<times> string \<times> string) list" where
  "example_documents =
     [(products_document, ''products'', ''http://products''), (reviews_document, ''reviews'', ''http://reviews'')]"

end
