(* ===== verification/Ingest_Invariant.thy ===== *)
theory Ingest_Invariant
  imports Examples
begin

text \<open>
  Ingestion keeps the invariant of the store, and it returns on documents whose values convert, whose
  selections parse without variables, and whose unions and \<open>implements\<close> clauses name types of the
  document.  Each lemma is stated with \<open>runs t\<close>: the conditions that rule out a panic are needed for
  \<open>t\<close> only.
\<close>

subsection \<open>Documents on which ingestion cannot panic\<close>

fun const_ok :: "ConstValue \<Rightarrow> bool" where
  "const_ok (Const_Binary _) \<longleftrightarrow> False"
| "const_ok (Const_Number n) \<longleftrightarrow> number_to_value n \<noteq> None"
| "const_ok (Const_List l) \<longleftrightarrow> (\<forall>v \<in> set l. const_ok v)"
| "const_ok (Const_Object o') \<longleftrightarrow> (\<forall>(_, v) \<in> set o'. const_ok v)"
| "const_ok _ \<longleftrightarrow> True"

fun ast_selection_ok :: "ast_Selection \<Rightarrow> bool" where
  "ast_selection_ok (Ast_Field _ args sel) \<longleftrightarrow>
     (\<forall>(_, v) \<in> set args. case v of None \<Rightarrow> False | Some c \<Rightarrow> const_ok c) \<and> (\<forall>s \<in> set sel. ast_selection_ok s)"
| "ast_selection_ok (Ast_InlineFragment _ sel) \<longleftrightarrow> (\<forall>s \<in> set sel. ast_selection_ok s)"
| "ast_selection_ok (Ast_FragmentSpread _) \<longleftrightarrow> True"

definition selection_str_ok :: "Parser \<Rightarrow> string \<Rightarrow> bool" where
  "selection_str_ok P s \<longleftrightarrow>
     (case parse_query P (''{ '' @ s @ '' }'') of
        Inr (Operations_Single items) \<Rightarrow> list_all ast_selection_ok items
      | _ \<Rightarrow> True)"

definition directive_ok :: "Parser \<Rightarrow> ConstDirective \<Rightarrow> bool" where
  "directive_ok P d \<longleftrightarrow> list_all (\<lambda>(_, v). const_ok v) (dir_arguments d)
     \<and> list_all (\<lambda>name. case string_argument P d name of None \<Rightarrow> True | Some s \<Rightarrow> selection_str_ok P s)
         [''fields'', ''arguments'', ''node'']
     \<and> (case get_argument P d ''metadata'' of None \<Rightarrow> True | Some v \<Rightarrow> const_ok v)"

definition input_value_ok :: "Parser \<Rightarrow> ast_InputValueDefinition \<Rightarrow> bool" where
  "input_value_ok P v \<longleftrightarrow> list_all (directive_ok P) (in_directives v)
     \<and> (case in_default v of None \<Rightarrow> True | Some c \<Rightarrow> const_ok c)"

definition field_node_ok :: "Parser \<Rightarrow> ast_FieldDefinition \<Rightarrow> bool" where
  "field_node_ok P f \<longleftrightarrow> list_all (directive_ok P) (fd_directives f) \<and> list_all (input_value_ok P) (fd_arguments f)"

text \<open>The names of the types that \<open>ingest_top_level_definitions\<close> pushes.\<close>

definition is_pushed :: "ast_TypeDefinition \<Rightarrow> bool" where
  "is_pushed node \<longleftrightarrow>
     (case tdef_kind node of
        Ast_Object _ _ \<Rightarrow> tdef_name node \<noteq> SERVICE_TYPE_NAME
      | Ast_Union _ \<Rightarrow> tdef_name node \<noteq> ENTITY_UNION_NAME
      | _ \<Rightarrow> True)"

definition declared_names :: "ast_TypeDefinition list \<Rightarrow> string set" where
  "declared_names nodes = tdef_name ` set (filter is_pushed nodes)"

definition type_node_ok :: "Parser \<Rightarrow> string set \<Rightarrow> ast_TypeDefinition \<Rightarrow> bool" where
  "type_node_ok P names node \<longleftrightarrow> list_all (directive_ok P) (tdef_directives node) \<and>
     (case tdef_kind node of
        Ast_Object implemented fields_list \<Rightarrow> set implemented \<subseteq> names \<and> list_all (field_node_ok P) fields_list
      | Ast_Interface implemented fields_list \<Rightarrow> set implemented \<subseteq> names \<and> list_all (field_node_ok P) fields_list
      | Ast_Union members \<Rightarrow> set members \<subseteq> names
      | Ast_Enum values \<Rightarrow> list_all (\<lambda>v. list_all (directive_ok P) (evd_directives v)) values
      | Ast_InputObject field_list \<Rightarrow> list_all (input_value_ok P) field_list
      | Ast_Scalar \<Rightarrow> True)"

definition document_ok :: "Parser \<Rightarrow> ServiceDocument \<Rightarrow> bool" where
  "document_ok P document \<longleftrightarrow>
     (let nodes = List.map_filter type_of_definition document
      in list_all (type_node_ok P (declared_names nodes)) nodes)"

subsection \<open>Frames\<close>

text \<open>Ingestion of values, selections and directives changes the strings, the directives and the
  diagnostics only.\<close>

definition site_step :: "Subgraphs \<Rightarrow> Subgraphs \<Rightarrow> bool" where
  "site_step sg sg' \<longleftrightarrow> wf_step sg sg' \<and> sg_subgraphs sg' = sg_subgraphs sg \<and> sg_definitions sg' = sg_definitions sg
     \<and> sg_definition_names sg' = sg_definition_names sg \<and> sg_enums sg' = sg_enums sg \<and> sg_fields sg' = sg_fields sg
     \<and> sg_field_types sg' = sg_field_types sg \<and> sg_keys sg' = sg_keys sg \<and> sg_unions sg' = sg_unions sg"

text \<open>Later steps may change more, but not the definitions, their index and the subgraphs.\<close>

definition keep_step :: "Subgraphs \<Rightarrow> Subgraphs \<Rightarrow> bool" where
  "keep_step sg sg' \<longleftrightarrow> wf_step sg sg'
     \<and> ds_definitions (sg_definitions sg') = ds_definitions (sg_definitions sg)
     \<and> sg_definition_names sg' = sg_definition_names sg
     \<and> length (sg_subgraphs sg') = length (sg_subgraphs sg)"

lemma site_step_refl: "wf_store sg \<Longrightarrow> site_step sg sg"
  by (simp add: site_step_def wf_step_refl)

lemma site_step_trans: "site_step a b \<Longrightarrow> site_step b c \<Longrightarrow> site_step a c"
  unfolding site_step_def by (simp, blast intro: wf_step_trans)

lemma keep_step_refl: "wf_store sg \<Longrightarrow> keep_step sg sg"
  by (simp add: keep_step_def wf_step_refl)

lemma keep_step_trans: "keep_step a b \<Longrightarrow> keep_step b c \<Longrightarrow> keep_step a c"
  unfolding keep_step_def by (simp, blast intro: wf_step_trans)

lemma site_step_keep: "site_step sg sg' \<Longrightarrow> keep_step sg sg'"
  by (simp add: keep_step_def site_step_def)

subsection \<open>Strings, values, selections\<close>

lemma intern_site_step: "wf_store sg \<Longrightarrow> intern s sg = (i, sg') \<Longrightarrow> site_step sg sg'"
  using intern_extends [of s sg i sg'] by (auto simp: site_step_def intro: intern_step)

lemma intern_site: "wf_store sg \<Longrightarrow> intern s sg = (i, sg') \<Longrightarrow> site_step sg sg' \<and> str_ok sg' i \<and> as_str sg' i = Some s"
  by (simp add: intern_site_step intern_step)

lemma intern_option_site: "wf_store sg \<Longrightarrow> intern_option s sg = (i, sg') \<Longrightarrow> site_step sg sg' \<and> opt_ok (str_ok sg') i"
  by (cases s) (auto simp: site_step_refl intern_site split: prod.splits)

lemma site_step_wf: "site_step sg sg' \<Longrightarrow> wf_store sg'"
  by (simp add: site_step_def wf_step_def)

lemma site_step_extends: "site_step sg sg' \<Longrightarrow> extends sg sg'"
  by (simp add: site_step_def wf_step_def)

lemma keep_step_wf: "keep_step sg sg' \<Longrightarrow> wf_store sg'"
  by (simp add: keep_step_def wf_step_def)

lemma keep_step_extends: "keep_step sg sg' \<Longrightarrow> extends sg sg'"
  by (simp add: keep_step_def wf_step_def)

lemma ast_value_runs:
  shows "wf_store sg \<Longrightarrow> (t \<Longrightarrow> const_ok v) \<Longrightarrow>
      runs t (ast_value_to_subgraph_value v sg) (\<lambda>(x, sg'). site_step sg sg' \<and> value_ok sg' x)"
    and "wf_store sg \<Longrightarrow> (t \<Longrightarrow> \<forall>v \<in> set vs. const_ok v) \<Longrightarrow>
      runs t (ast_list_to_subgraph_values vs sg) (\<lambda>(xs, sg'). site_step sg sg' \<and> (\<forall>x \<in> set xs. value_ok sg' x))"
    and "wf_store sg \<Longrightarrow> (t \<Longrightarrow> \<forall>(_, v) \<in> set fs. const_ok v) \<Longrightarrow>
      runs t (ast_fields_to_subgraph_fields fs sg) (\<lambda>(xs, sg'). site_step sg sg' \<and> arguments_ok sg' xs)"
proof (induction v sg and vs sg and fs sg
    rule: ast_value_to_subgraph_value_ast_list_to_subgraph_values_ast_fields_to_subgraph_fields.induct)
  case (3 n sg)
  then show ?case by (cases "number_to_value n") (auto simp: site_step_refl number_to_value_def split: if_splits)
next
  case (7 l sg)
  then show ?case by (auto intro!: runs_bind)
next
  case (8 o' sg)
  then show ?case by (auto intro!: runs_bind simp: arguments_ok_def)
next
  case (10 v vs sg)
  have "runs t (ast_value_to_subgraph_value v sg) (\<lambda>(x, sg'). site_step sg sg' \<and> value_ok sg' x)"
    using 10 by auto
  then show ?case
    unfolding ast_list_to_subgraph_values.simps
  proof (rule runs_bind_eq, clarify)
    fix x sg1 assume eq: "ast_value_to_subgraph_value v sg = Some (x, sg1)" and 1: "site_step sg sg1" "value_ok sg1 x"
    have "runs t (ast_list_to_subgraph_values vs sg1) (\<lambda>(xs, sg'). site_step sg1 sg' \<and> (\<forall>x \<in> set xs. value_ok sg' x))"
      using 10(2) [OF eq refl site_step_wf [OF 1(1)]] 10(4) by simp
    then show "runs t (ast_list_to_subgraph_values vs sg1 \<bind> (\<lambda>(xs, sg2). Some (x # xs, sg2)))
         (\<lambda>(xs, sg'). site_step sg sg' \<and> (\<forall>x\<in>set xs. value_ok sg' x))"
      using 1 by (auto elim!: runs_bind intro: site_step_trans value_ok_mono [OF site_step_extends])
  qed
next
  case (12 k v rest sg)
  obtain i sg0 where k: "intern k sg = (i, sg0)" by fastforce
  note i = intern_site [OF 12(3) k]
  have "runs t (ast_value_to_subgraph_value v sg0) (\<lambda>(x, sg'). site_step sg0 sg' \<and> value_ok sg' x)"
    using 12(1) [OF k [symmetric]] 12(4) i site_step_wf by auto
  then have "runs t (do {
      (x, sg2) \<leftarrow> ast_value_to_subgraph_value v sg0;
      (xs, sg3) \<leftarrow> ast_fields_to_subgraph_fields rest sg2;
      Some ((i, x) # xs, sg3) }) (\<lambda>(xs, sg'). site_step sg sg' \<and> arguments_ok sg' xs)"
  proof (rule runs_bind_eq, clarify)
    fix x sg1 assume eq: "ast_value_to_subgraph_value v sg0 = Some (x, sg1)" and 1: "site_step sg0 sg1" "value_ok sg1 x"
    have "runs t (ast_fields_to_subgraph_fields rest sg1) (\<lambda>(xs, sg'). site_step sg1 sg' \<and> arguments_ok sg' xs)"
      using 12(2) [OF k [symmetric] eq refl site_step_wf [OF 1(1)]] 12(4) by simp
    moreover have "site_step sg sg1" "str_ok sg1 i"
      using i 1(1) site_step_trans str_ok_mono [OF site_step_extends] by blast+
    ultimately show "runs t (ast_fields_to_subgraph_fields rest sg1 \<bind> (\<lambda>(xs, sg3). Some ((i, x) # xs, sg3)))
         (\<lambda>(xs, sg'). site_step sg sg' \<and> arguments_ok sg' xs)"
      using 1 by (auto elim!: runs_bind simp: arguments_ok_def
          intro: site_step_trans value_ok_mono [OF site_step_extends] str_ok_mono [OF site_step_extends])
  qed
  then show ?case by (simp add: k)
qed (auto simp: site_step_refl intern_site arguments_ok_def split: prod.splits)

lemma build_selection_arguments_runs:
  assumes "wf_store sg" and "t \<Longrightarrow> \<forall>(_, v) \<in> set args. case v of None \<Rightarrow> False | Some c \<Rightarrow> const_ok c"
  shows "runs t (build_selection_arguments args sg) (\<lambda>(xs, sg'). site_step sg sg' \<and> arguments_ok sg' xs)"
  using assms
proof (induction args arbitrary: sg)
  case (Cons a args)
  obtain k v where a: "a = (k, v)" by fastforce
  obtain i sg0 where k: "intern k sg = (i, sg0)" by fastforce
  note i = intern_site [OF Cons.prems(1) k]
  have "runs t v (\<lambda>c. t \<longrightarrow> const_ok c)" using Cons.prems(2) by (cases v) (auto simp: a)
  then have "runs t (do { c \<leftarrow> v; (x, sg2) \<leftarrow> ast_value_to_subgraph_value c sg0;
      (xs, sg3) \<leftarrow> build_selection_arguments args sg2; Some ((i, x) # xs, sg3) })
      (\<lambda>(xs, sg'). site_step sg sg' \<and> arguments_ok sg' xs)"
  proof (rule runs_bind)
    fix c assume "t \<longrightarrow> const_ok c"
    then have "runs t (ast_value_to_subgraph_value c sg0) (\<lambda>(x, sg'). site_step sg0 sg' \<and> value_ok sg' x)"
      using i by (intro ast_value_runs(1)) (auto intro: site_step_wf)
    then show "runs t (do { (x, sg2) \<leftarrow> ast_value_to_subgraph_value c sg0;
      (xs, sg3) \<leftarrow> build_selection_arguments args sg2; Some ((i, x) # xs, sg3) })
      (\<lambda>(xs, sg'). site_step sg sg' \<and> arguments_ok sg' xs)"
    proof (rule runs_bind, clarify)
      fix x sg1 assume 1: "site_step sg0 sg1" "value_ok sg1 x"
      have "runs t (build_selection_arguments args sg1) (\<lambda>(xs, sg'). site_step sg1 sg' \<and> arguments_ok sg' xs)"
        using Cons.prems(2) by (intro Cons.IH site_step_wf [OF 1(1)]) (auto simp: a)
      moreover have "site_step sg sg1" "str_ok sg1 i"
        using i 1(1) site_step_trans str_ok_mono [OF site_step_extends] by blast+
      ultimately show "runs t (build_selection_arguments args sg1 \<bind> (\<lambda>(xs, sg3). Some ((i, x) # xs, sg3)))
           (\<lambda>(xs, sg'). site_step sg sg' \<and> arguments_ok sg' xs)"
        using 1 by (auto elim!: runs_bind simp: arguments_ok_def
            intro: site_step_trans value_ok_mono [OF site_step_extends] str_ok_mono [OF site_step_extends])
    qed
  qed
  then show ?case by (simp add: a k)
qed (simp add: site_step_refl arguments_ok_def)

text \<open>The result of a fallible step: an error, or something well formed.\<close>

definition result_ok :: "('a \<Rightarrow> bool) \<Rightarrow> string + 'a \<Rightarrow> bool" where
  "result_ok p r \<longleftrightarrow> (case r of Inl _ \<Rightarrow> True | Inr x \<Rightarrow> p x)"

lemma result_ok_simps [simp]: "result_ok p (Inl e)" "result_ok p (Inr x) \<longleftrightarrow> p x"
  by (simp_all add: result_ok_def)

lemma result_ok_case: "result_ok p (case r of Inl e \<Rightarrow> Inl e | Inr x \<Rightarrow> Inr (f x)) \<longleftrightarrow> result_ok (\<lambda>x. p (f x)) r"
  by (cases r) simp_all

lemma result_ok_mono: "result_ok p r \<Longrightarrow> (\<And>x. p x \<Longrightarrow> q x) \<Longrightarrow> result_ok q r"
  by (cases r) simp_all

lemma build_selection_runs:
  shows "wf_store sg \<Longrightarrow> (t \<Longrightarrow> ast_selection_ok s) \<Longrightarrow>
      runs t (build_selection s sg) (\<lambda>(r, sg'). site_step sg sg' \<and> result_ok (selection_ok sg') r)"
    and "wf_store sg \<Longrightarrow> (t \<Longrightarrow> \<forall>s \<in> set ss. ast_selection_ok s) \<Longrightarrow>
      runs t (build_selection_set ss sg) (\<lambda>(r, sg'). site_step sg sg' \<and> result_ok (selections_ok sg') r)"
proof (induction s sg and ss sg rule: build_selection_build_selection_set.induct)
  case (1 name arguments subselection sg)
  obtain f sg0 where k: "intern name sg = (f, sg0)" by fastforce
  note i = intern_site [OF 1(2) k]
  have "runs t (build_selection_arguments arguments sg0) (\<lambda>(xs, sg'). site_step sg0 sg' \<and> arguments_ok sg' xs)"
    using 1(3) i site_step_wf by (intro build_selection_arguments_runs) auto
  then have "runs t (do {
     (args, sg2) \<leftarrow> build_selection_arguments arguments sg0;
     (r, sg3) \<leftarrow> build_selection_set subselection sg2;
     Some (case r of Inl e \<Rightarrow> (Inl e, sg3) | Inr sub \<Rightarrow> (Inr (Selection_Field f args sub), sg3)) })
     (\<lambda>(r, sg'). site_step sg sg' \<and> result_ok (selection_ok sg') r)"
  proof (rule runs_bind_eq, clarify)
    fix args sg1 assume eq: "build_selection_arguments arguments sg0 = Some (args, sg1)"
      and s1: "site_step sg0 sg1" "arguments_ok sg1 args"
    have "runs t (build_selection_set subselection sg1) (\<lambda>(r, sg'). site_step sg1 sg' \<and> result_ok (selections_ok sg') r)"
      using 1(1) [OF k [symmetric] eq refl site_step_wf [OF s1(1)]] 1(3) by simp
    moreover have "site_step sg sg1" "str_ok sg1 f"
      using i s1(1) site_step_trans str_ok_mono [OF site_step_extends] by blast+
    ultimately show "runs t (do { (r, sg3) \<leftarrow> build_selection_set subselection sg1;
         Some (case r of Inl e \<Rightarrow> (Inl e, sg3) | Inr sub \<Rightarrow> (Inr (Selection_Field f args sub), sg3)) })
       (\<lambda>(r, sg'). site_step sg sg' \<and> result_ok (selection_ok sg') r)"
      using s1 by (auto elim!: runs_bind simp: selections_ok_def split: sum.splits
          intro: site_step_trans arguments_ok_mono [OF site_step_extends] str_ok_mono [OF site_step_extends])
  qed
  then show ?case by (simp add: k)
next
  case (2 on subselection sg)
  have "runs t (build_selection_set subselection sg) (\<lambda>(r, sg'). site_step sg sg' \<and> result_ok (selections_ok sg') r)"
    using 2 by simp
  then show ?case
  proof (unfold build_selection.simps, elim runs_bind, clarify)
    fix r sg1 assume s1: "site_step sg sg1" "result_ok (selections_ok sg1) r"
    obtain i sg2 where k: "intern on sg1 = (i, sg2)" by fastforce
    note i = intern_site [OF site_step_wf [OF s1(1)] k]
    then have "site_step sg sg2" "selections_ok sg1 x \<Longrightarrow> selections_ok sg2 x" for x
      using s1(1) site_step_trans selections_ok_mono [OF site_step_extends] by blast+
    with s1 i show "runs t (Some (case r of Inl e \<Rightarrow> (Inl e, sg1)
         | Inr sub \<Rightarrow> (case intern on sg1 of (i, sg2) \<Rightarrow> (Inr (InlineFragment i sub), sg2))))
       (\<lambda>(r, sg'). site_step sg sg' \<and> result_ok (selection_ok sg') r)"
      by (auto simp: k selections_ok_def split: sum.splits)
  qed
next
  case (5 item items sg)
  have "runs t (build_selection item sg) (\<lambda>(r, sg'). site_step sg sg' \<and> result_ok (selection_ok sg') r)"
    using 5 by simp
  then show ?case
    unfolding build_selection_set.simps
  proof (rule runs_bind_eq, clarify)
    fix r sg1 assume eq: "build_selection item sg = Some (r, sg1)" and s1: "site_step sg sg1" "result_ok (selection_ok sg1) r"
    show "runs t (case r of Inl e \<Rightarrow> Some (Inl e, sg1)
        | Inr s \<Rightarrow> do { (r', sg2) \<leftarrow> build_selection_set items sg1;
            Some (case r' of Inl e \<Rightarrow> (Inl e, sg2) | Inr ss \<Rightarrow> (Inr (s # ss), sg2)) })
      (\<lambda>(r, sg'). site_step sg sg' \<and> result_ok (selections_ok sg') r)"
    proof (cases r)
      case (Inr s)
      have "runs t (build_selection_set items sg1) (\<lambda>(r, sg'). site_step sg1 sg' \<and> result_ok (selections_ok sg') r)"
        using 5(2) [OF eq refl Inr site_step_wf [OF s1(1)]] 5(4) by simp
      then show ?thesis
        using s1 Inr by (auto elim!: runs_bind simp: selections_ok_def split: sum.splits
            intro: site_step_trans selection_ok_mono [OF site_step_extends])
    qed (use s1 in simp)
  qed
qed (auto simp: site_step_refl selections_ok_def)

lemma selection_set_from_str_runs:
  assumes "wf_store sg" and "t \<Longrightarrow> selection_str_ok P s"
  shows "runs t (selection_set_from_str P s sg) (\<lambda>(r, sg'). site_step sg sg' \<and> result_ok (selections_ok sg') r)"
  unfolding selection_set_from_str_def
  using assms build_selection_runs(2) [OF assms(1), of t]
  by (auto simp: site_step_refl selection_str_ok_def list_all_iff split: sum.split DocumentOperations.split)

subsection \<open>Directives\<close>

text \<open>The insertions of directives are steps of this kind.\<close>

lemma site_step_directives:
  "wf_step sg (sg\<lparr>sg_directives := dr\<rparr>) \<Longrightarrow> site_step sg (sg\<lparr>sg_directives := dr\<rparr>)"
  by (simp add: site_step_def)

lemma flag_site_steps:
  assumes "wf_store sg"
  shows "site_step sg (insert_authenticated i sg)" "site_step sg (set_external i sg)" "site_step sg (set_inaccessible i sg)"
    "site_step sg (set_interface_object i sg)" "site_step sg (set_shareable i sg)"
  using flag_directives_step [OF assms, of i]
  unfolding insert_authenticated_def set_external_def set_inaccessible_def set_interface_object_def set_shareable_def
  by (auto intro: site_step_directives)

lemma insert_authorized_site: "wf_store sg \<Longrightarrow> authorized_ok sg a \<Longrightarrow> site_step sg (insert_authorized i a sg)"
  using insert_authorized_step [of sg a i] by (auto simp: insert_authorized_def intro: site_step_directives)

lemma set_override_site:
  "wf_store sg \<Longrightarrow> str_ok sg (override_from d) \<Longrightarrow> opt_ok (str_ok sg) (override_label d) \<Longrightarrow> site_step sg (set_override i d sg)"
  using set_override_step [of sg d i] by (auto simp: set_override_def intro: site_step_directives)

lemma site_strings_site:
  assumes "wf_store sg" and "\<forall>s \<in> set ss. str_ok sg s"
  shows "site_step sg (insert_policy i ss sg)" "site_step sg (append_required_scopes i ss sg)"
  using site_strings_step [OF assms] by (auto simp: insert_policy_def append_required_scopes_def intro: site_step_directives)

lemma site_step_then:
  assumes "wf_step sg sg'" and "site_step sg sg1" and "sg' = sg1\<lparr>sg_directives := dr\<rparr>"
  shows "site_step sg sg'"
  using assms(1,2) unfolding assms(3) by (simp add: site_step_def)

lemma insert_interned_site:
  assumes "wf_store sg"
  shows "site_step sg (insert_tag i tag sg)" "site_step sg (insert_composed_directive s name sg)"
    "site_step sg (insert_deprecated i reason sg)"
    "arguments_ok sg args \<Longrightarrow> site_step sg (insert_composed_directive_instance i name args sg)"
proof -
  obtain a sga b sgb c sgc where i: "intern tag sg = (a, sga)" "intern name sg = (b, sgb)" "intern_option reason sg = (c, sgc)"
    by (metis surj_pair)
  note sites = conjunct1 [OF intern_site [OF assms i(1)]] conjunct1 [OF intern_site [OF assms i(2)]]
    conjunct1 [OF intern_option_site [OF assms i(3)]]
  show "site_step sg (insert_tag i tag sg)"
    using insert_tag_step [OF assms] sites(1) by (rule site_step_then) (simp add: insert_tag_def i)
  show "site_step sg (insert_composed_directive s name sg)"
    using insert_composed_directive_step [OF assms] sites(2) by (rule site_step_then) (simp add: insert_composed_directive_def i)
  show "site_step sg (insert_deprecated i reason sg)"
    using insert_deprecated_step [OF assms] sites(3) by (rule site_step_then) (simp add: insert_deprecated_def i)
  show "site_step sg (insert_composed_directive_instance i name args sg)" if "arguments_ok sg args"
    using insert_composed_directive_instance_step [OF assms that] sites(2)
    by (rule site_step_then) (simp add: insert_composed_directive_instance_def i)
qed

lemma new_directive_site_site:
  assumes "wf_store sg" and "new_directive_site sg = (i, sg')"
  shows "site_step sg sg' \<and> site_ok sg' i"
proof -
  have "sg' = sg\<lparr>sg_directives := (sg_directives sg)\<lparr>site_id_counter := i + 1\<rparr>\<rparr>"
    using assms(2) by (auto simp: new_directive_site_def Let_def)
  then show ?thesis
    using new_directive_site_step [OF assms] site_step_then [OF _ site_step_refl [OF assms(1)]] by blast
qed

lemma push_ingestion_diagnostic_runs:
  assumes "wf_store sg" and "subgraph_ok sg s"
  shows "runs t (push_ingestion_diagnostic s m sg) (site_step sg)"
proof -
  obtain sg' where r: "push_ingestion_diagnostic s m sg = Some sg'" "wf_step sg sg'"
    using push_ingestion_diagnostic_step [OF assms] by blast
  then obtain ds where "sg' = sg\<lparr>sg_ingestion_diagnostics := ds\<rparr>"
    unfolding push_ingestion_diagnostic_def by (auto simp only: bind_eq_Some_conv option.inject)
  with r(2) have "site_step sg sg'" by (simp add: site_step_def)
  with r(1) show ?thesis by simp
qed

lemma intern_strings_site:
  "wf_store sg \<Longrightarrow> intern_strings vs sg = (is, sg') \<Longrightarrow> site_step sg sg' \<and> (\<forall>s \<in> set is. str_ok sg' s)"
proof (induction vs arbitrary: sg "is" sg')
  case (Cons v vs)
  show ?case
  proof (cases "\<exists>s. v = Const_String s")
    case True
    then obtain s where v: "v = Const_String s" by blast
    obtain i sg1 is' where i: "intern s sg = (i, sg1)" and is': "intern_strings vs sg1 = (is', sg')" "is = i # is'"
      using Cons.prems(2) by (auto simp: v split: prod.splits)
    note s1 = intern_site [OF Cons.prems(1) i]
    have s2: "site_step sg1 sg' \<and> (\<forall>s \<in> set is'. str_ok sg' s)"
      using Cons.IH [OF site_step_wf is'(1)] s1 by blast
    then have "str_ok sg' i" using s1 str_ok_mono [OF site_step_extends] by blast
    with s1 s2 site_step_trans show ?thesis unfolding is'(2) by auto
  next
    case False
    then have "intern_strings vs sg = (is, sg')" using Cons.prems(2) by (cases v) auto
    with Cons show ?thesis by blast
  qed
qed (simp add: site_step_refl)

lemma ingest_string_lists_site:
  assumes "wf_store sg"
    and "\<And>sg ss. wf_store sg \<Longrightarrow> \<forall>s \<in> set ss. str_ok sg s \<Longrightarrow> site_step sg (ins site ss sg)"
  shows "site_step sg (ingest_string_lists ins site argument sg)"
proof -
  have "site_step sg (fold (\<lambda>inner sg. case intern_strings (const_list inner) sg of (is, sg1) \<Rightarrow> ins site is sg1) vs sg)" for vs
    using assms(1)
  proof (induction vs arbitrary: sg)
    case (Cons v vs)
    obtain "is" sg1 where i: "intern_strings (const_list v) sg = (is, sg1)" by fastforce
    note s1 = intern_strings_site [OF Cons.prems i]
    then have "site_step sg (ins site is sg1)" using assms(2) site_step_trans site_step_wf by blast
    with Cons.IH [of "ins site is sg1"] show ?case using site_step_trans site_step_wf by (fastforce simp: i)
  qed (simp add: site_step_refl)
  then show ?thesis by (simp add: ingest_string_lists_def)
qed

lemma ingest_override_site: "wf_store sg \<Longrightarrow> site_step sg (ingest_override P site directive sg)"
proof -
  assume wf: "wf_store sg"
  obtain frm sg1 where f: "intern_option (string_argument P directive ''from'') sg = (frm, sg1)" by fastforce
  note s1 = intern_option_site [OF wf f]
  obtain label sg2 where l: "intern_option (string_argument P directive ''label'') sg1 = (label, sg2)" by fastforce
  note s2 = intern_option_site [OF site_step_wf [OF conjunct1 [OF s1]] l]
  have "site_step sg sg2" "opt_ok (str_ok sg2) frm"
    using s1 s2 site_step_trans opt_str_ok_mono [OF site_step_extends] by blast+
  then show ?thesis
    using s2 site_step_trans [OF _ set_override_site] site_step_wf
    by (cases frm) (simp_all add: ingest_override_def f l)
qed

lemma with_selection_set_runs:
  assumes "wf_store sg" and "t \<Longrightarrow> selection_str_ok P s"
    and f: "\<And>sel sg1. site_step sg sg1 \<Longrightarrow> selections_ok sg1 sel \<Longrightarrow> Q (f sel sg1)"
    and err: "\<And>sg1. site_step sg sg1 \<Longrightarrow> Q sg1"
  shows "runs t (with_selection_set P s f sg) (\<lambda>(r, sg'). Q sg')"
  unfolding with_selection_set_def
  by (rule runs_bind [OF selection_set_from_str_runs [OF assms(1)]]) (auto simp: assms split: sum.split)

lemma insert_selection_runs:
  assumes "wf_store sg" and "t \<Longrightarrow> selection_str_ok P s"
  shows "runs t (insert_provides P i s sg) (\<lambda>(r, sg'). site_step sg sg')"
    and "runs t (insert_requires P i s sg) (\<lambda>(r, sg'). site_step sg sg')"
proof -
  have *: "site_step sg sg1 \<Longrightarrow> selections_ok sg1 sel \<Longrightarrow>
      site_step sg (sg1\<lparr>sg_directives := (sg_directives sg1)\<lparr>dr_provides := bt_insert i sel (dr_provides (sg_directives sg1))\<rparr>\<rparr>)"
    "site_step sg sg1 \<Longrightarrow> selections_ok sg1 sel \<Longrightarrow>
      site_step sg (sg1\<lparr>sg_directives := (sg_directives sg1)\<lparr>dr_requires := bt_insert i sel (dr_requires (sg_directives sg1))\<rparr>\<rparr>)" for sg1 sel
    using selection_directives_step [OF site_step_wf] site_step_directives site_step_trans by blast+
  show "runs t (insert_provides P i s sg) (\<lambda>(r, sg'). site_step sg sg')"
    unfolding insert_provides_def using assms * by (intro with_selection_set_runs)
  show "runs t (insert_requires P i s sg) (\<lambda>(r, sg'). site_step sg sg')"
    unfolding insert_requires_def using assms * by (intro with_selection_set_runs)
qed

lemma selection_argument_runs:
  assumes "wf_store sg" and "t \<Longrightarrow> directive_ok P d" and "name \<in> {''fields'', ''arguments'', ''node''}"
  shows "runs t (selection_argument P d name sg) (\<lambda>(r, sg'). site_step sg sg' \<and> result_ok (opt_ok (selections_ok sg')) r)"
proof -
  have "t \<Longrightarrow> string_argument P d name = Some s \<Longrightarrow> selection_str_ok P s" for s
    using assms(2,3) by (auto simp: directive_ok_def)
  then show ?thesis
    unfolding selection_argument_def
    by (auto simp: site_step_refl assms(1) result_ok_case split: option.split
        intro!: runs_bind [OF selection_set_from_str_runs [OF assms(1)]])
qed

lemma ingest_metadata_runs:
  assumes "wf_store sg" and "t \<Longrightarrow> (case v of None \<Rightarrow> True | Some c \<Rightarrow> const_ok c)"
  shows "runs t (ingest_metadata v sg) (\<lambda>(r, sg'). site_step sg sg' \<and> opt_ok (value_ok sg') r)"
  using assms unfolding ingest_metadata_def
  by (auto simp: site_step_refl split: option.splits intro!: runs_bind [OF ast_value_runs(1) [OF assms(1)]])

lemma ingest_authorized_runs:
  assumes "wf_store sg" and t: "t \<Longrightarrow> directive_ok P d"
  shows "runs t (ingest_authorized P site d sg) (\<lambda>(r, sg'). site_step sg sg')"
proof -
  have auth: "site_step sg (insert_authorized site \<lparr>auth_arguments = a, auth_fields = f, auth_node = n, auth_metadata = m\<rparr> sg4)"
    if "site_step sg sg1" "site_step sg1 sg2" "site_step sg2 sg3" "site_step sg3 sg4"
      "opt_ok (selections_ok sg1) a" "opt_ok (selections_ok sg2) f" "opt_ok (selections_ok sg3) n" "opt_ok (value_ok sg4) m"
    for sg1 sg2 sg3 sg4 a f n m
  proof -
    have e: "extends sg3 sg4" "extends sg2 sg4" "extends sg1 sg4" and s: "site_step sg sg4"
      using that(1-4) site_step_trans site_step_extends by blast+
    have "authorized_ok sg4 \<lparr>auth_arguments = a, auth_fields = f, auth_node = n, auth_metadata = m\<rparr>"
      using that(5-8) opt_selections_ok_mono e by (auto simp: authorized_ok_def)
    then show ?thesis using s insert_authorized_site site_step_wf site_step_trans by blast
  qed
  have m: "t \<Longrightarrow> (case get_argument P d ''metadata'' of None \<Rightarrow> True | Some c \<Rightarrow> const_ok c)"
    using t by (simp add: directive_ok_def)
  note args = selection_argument_runs [OF _ t]
  show ?thesis
    unfolding ingest_authorized_def
    apply (rule runs_bind [OF args [OF assms(1), where name = "''arguments''"]], simp, simp, clarify, intro runs_case_sum)
     apply simp
    apply (rule runs_bind [OF args [where name = "''fields''"]], erule site_step_wf, simp, simp, clarify, intro runs_case_sum)
     apply (simp, blast intro: site_step_trans)
    apply (rule runs_bind [OF args [where name = "''node''"]], erule site_step_wf, simp, simp, clarify, intro runs_case_sum)
     apply (simp, blast intro: site_step_trans)
    apply (rule runs_bind [OF ingest_metadata_runs [OF _ m]], erule site_step_wf, simp, clarify)
    using auth by simp
qed

lemma ingest_selection_runs:
  assumes "wf_store sg" and "subgraph_ok sg s" and t: "t \<Longrightarrow> directive_ok P d"
    and ins: "\<And>str. (t \<Longrightarrow> selection_str_ok P str) \<Longrightarrow> runs t (ins str sg) (\<lambda>(r, sg'). site_step sg sg')"
  shows "runs t (ingest_selection ins P d s sg) (site_step sg)"
proof -
  have str: "t \<Longrightarrow> string_argument P d ''fields'' = Some str \<Longrightarrow> selection_str_ok P str" for str
    using t by (auto simp: directive_ok_def)
  show ?thesis
    unfolding ingest_selection_def
    apply (intro runs_case_option)
     apply (simp add: site_step_refl assms(1))
    apply (rule runs_bind [OF ins], rule str, assumption+, clarify, intro runs_case_option)
     apply simp
    using push_ingestion_diagnostic_runs site_step_wf site_step_trans subgraph_ok_mono [OF site_step_extends] assms(2)
    by (blast intro: runs_mono)
qed

lemma ingest_composed_directive_runs:
  assumes "wf_store sg" and "t \<Longrightarrow> directive_ok P d"
  shows "runs t (ingest_composed_directive m site d sg) (site_step sg)"
proof -
  have "runs t (ast_fields_to_subgraph_fields (dir_arguments d) sg) (\<lambda>(xs, sg'). site_step sg sg' \<and> arguments_ok sg' xs)"
    using assms(2) by (intro ast_value_runs(3) assms(1)) (auto simp: directive_ok_def list_all_iff)
  then show ?thesis
    unfolding ingest_composed_directive_def
    using insert_interned_site(4) site_step_wf site_step_trans
    by (auto simp: site_step_refl assms(1) elim!: runs_bind)
qed

lemma ingest_other_directive_runs:
  assumes wf: "wf_store sg" and s: "subgraph_ok sg s" and t: "t \<Longrightarrow> directive_ok P d"
    and loc: "\<And>sg'. site_step sg sg' \<Longrightarrow> runs t (location sg') (\<lambda>_. True)"
  shows "runs t (ingest_other_directive P m s location site d sg) (site_step sg)"
proof -
  define sg1 where "sg1 = (if is_authenticated m (dir_name d) then insert_authenticated site sg else sg)"
  define sg2 where "sg2 = (if is_requires_scope m (dir_name d)
       then ingest_string_lists append_required_scopes site (get_argument P d ''scopes'') sg1 else sg1)"
  define sg3 where "sg3 = (if is_policy m (dir_name d)
       then ingest_string_lists insert_policy site (get_argument P d ''policies'') sg2 else sg2)"
  define sg4 where "sg4 = (if dir_name d = ''deprecated''
       then insert_deprecated site (string_argument P d ''reason'') sg3 else sg3)"
  have 1: "site_step sg sg1" using wf by (simp add: sg1_def flag_site_steps site_step_refl)
  have 2: "site_step sg1 sg2"
    using site_step_wf [OF 1] by (simp add: sg2_def ingest_string_lists_site site_strings_site site_step_refl)
  have 3: "site_step sg2 sg3"
    using site_step_wf [OF 2] by (simp add: sg3_def ingest_string_lists_site site_strings_site site_step_refl)
  have 4: "site_step sg3 sg4"
    using site_step_wf [OF 3] by (simp add: sg4_def insert_interned_site site_step_refl)
  have step: "site_step sg sg4" using 1 2 3 4 site_step_trans by blast
  have "runs t (do {
       (r, sg5) \<leftarrow> ingest_authorized P site d sg4;
       (case r of
          None \<Rightarrow> Some sg5
        | Some err \<Rightarrow> do {
            loc \<leftarrow> location sg5;
            push_ingestion_diagnostic s (''Error validating the @authorized directive at '' @ loc @ '': '' @ err) sg5 }) })
     (site_step sg)"
  proof (rule runs_bind [OF ingest_authorized_runs [OF site_step_wf [OF step] t]], simp, clarify, rule runs_case_option)
    fix r sg5 assume "site_step sg4 sg5"
    with step have s5: "site_step sg sg5" using site_step_trans by blast
    then show "runs t (Some sg5) (site_step sg)" by simp
    fix err
    show "runs t (do { loc \<leftarrow> location sg5;
            push_ingestion_diagnostic s (''Error validating the @authorized directive at '' @ loc @ '': '' @ err) sg5 }) (site_step sg)"
      by (rule runs_bind [OF loc [OF s5]], rule runs_mono [OF push_ingestion_diagnostic_runs])
        (use s5 s site_step_wf site_step_trans subgraph_ok_mono [OF site_step_extends] in blast)+
  qed
  then show ?thesis
    using step unfolding ingest_other_directive_def Let_def sg1_def [symmetric] sg2_def [symmetric] sg3_def [symmetric] sg4_def [symmetric]
    by simp
qed

lemma ingest_directive_runs:
  assumes wf: "wf_store sg" and s: "subgraph_ok sg s" and t: "t \<Longrightarrow> directive_ok P d"
    and loc: "\<And>sg'. site_step sg sg' \<Longrightarrow> runs t (location sg') (\<lambda>_. True)"
  shows "runs t (ingest_directive P m s location site d sg) (site_step sg)"
proof -
  have other: "runs t (ingest_other_directive P m s location site d sg1) (site_step sg)" if "site_step sg sg1" for sg1
    using that by (intro runs_mono [OF ingest_other_directive_runs])
      (use site_step_wf s subgraph_ok_mono [OF site_step_extends] t loc site_step_trans in blast)+
  have tag: "site_step sg sg1 \<Longrightarrow> site_step sg (case v of Const_String s \<Rightarrow> insert_tag site s sg1 | _ \<Rightarrow> sg1)" for sg1 v
    using insert_interned_site(1) [OF site_step_wf] site_step_trans by (cases v) auto
  have composed: "runs t (do {
        sg1 \<leftarrow> ingest_composed_directive m site d sg;
        if is_tag m (dir_name d) then
          (case get_argument P d ''name'' of
             None \<Rightarrow> Some sg1
           | Some value \<Rightarrow> ingest_other_directive P m s location site d
                 (case value of Const_String s \<Rightarrow> insert_tag site s sg1 | _ \<Rightarrow> sg1))
        else ingest_other_directive P m s location site d sg1 }) (site_step sg)"
    by (rule runs_bind [OF ingest_composed_directive_runs [OF wf t]]) (auto intro!: runs_if runs_case_option other tag)
  have sel: "runs t (ingest_selection (insert_requires P site) P d s sg) (site_step sg)"
    "runs t (ingest_selection (insert_provides P site) P d s sg) (site_step sg)"
    using wf s t insert_selection_runs [OF wf] by (auto intro!: ingest_selection_runs)
  show ?thesis
    unfolding ingest_directive_def Let_def
    by (intro runs_if sel composed) (simp_all add: flag_site_steps wf ingest_override_site)
qed

lemma ingest_directives_runs:
  assumes wf: "wf_store sg" and s: "subgraph_ok sg s" and t: "t \<Longrightarrow> list_all (directive_ok P) ds"
    and loc: "\<And>sg'. site_step sg sg' \<Longrightarrow> runs t (location sg') (\<lambda>_. True)"
  shows "runs t (ingest_directives P site ds m s location sg) (site_step sg)"
  unfolding ingest_directives_def
proof (rule runs_foldM_rel [where R = site_step, OF site_step_refl [OF wf] site_step_trans], assumption+)
  fix d sg' assume "d \<in> set ds" and "site_step sg sg'"
  then show "runs t (ingest_directive P m s location site d sg') (site_step sg')"
    using t by (intro ingest_directive_runs)
      (auto simp: list_all_iff intro: site_step_wf s subgraph_ok_mono [OF site_step_extends] loc site_step_trans)
qed

text \<open>Where a message names a definition or a field, the name is in the store.\<close>

lemma definition_location_runs: "wf_store sg \<Longrightarrow> def_ok sg d \<Longrightarrow> runs t (definition_location d sg) (\<lambda>_. True)"
  unfolding definition_location_def by (rule runs_bind [OF def_name_runs as_str_runs])

lemma input_field_location_runs: "wf_store sg \<Longrightarrow> def_ok sg d \<Longrightarrow> runs t (input_field_location d f sg) (\<lambda>_. True)"
  unfolding input_field_location_def by (rule runs_bind [OF definition_location_runs]) simp_all

lemma argument_location_runs:
  assumes "wf_store sg" and "f \<in> set (map fst (fs_definition_fields (sg_fields sg)))"
  shows "runs t (argument_location f a sg) (\<lambda>_. True)"
proof -
  obtain tuple where w: "walk_field sg f = Some (f, tuple)" and ok: "def_ok sg (field_parent f)" "str_ok sg (field_name_id f)"
    using walk_field_ok [OF assms] by blast
  show ?thesis
    unfolding argument_location_def
    by (simp add: w parent_definition_def field_name_def)
      (intro runs_bind [OF definition_location_runs [OF assms(1) ok(1)]] runs_bind [OF as_str_runs [OF ok(2)]], simp)
qed

lemma ingest_keys_runs:
  assumes wf: "wf_store sg" and d: "length (ds_definitions (sg_definitions sg)) = Suc d"
    and t: "t \<Longrightarrow> list_all (directive_ok P) ds"
  shows "runs t (ingest_keys P d ds m sg) (keep_step sg)"
  unfolding ingest_keys_def
proof (rule runs_foldM_rel [where R = keep_step, OF keep_step_refl [OF wf] keep_step_trans], assumption+)
  fix dir sg' assume dir: "dir \<in> set ds" and k: "keep_step sg sg'"
  have str: "t \<Longrightarrow> string_argument P dir ''fields'' = Some str \<Longrightarrow> selection_str_ok P str" for str
    using t dir by (auto simp: directive_ok_def list_all_iff)
  have key: "keep_step sg' (push_key_selection d sel r sg1)" if "site_step sg' sg1" "selections_ok sg1 sel" for sg1 sel r
  proof -
    have k1: "keep_step sg' sg1" using that(1) by (rule site_step_keep)
    then have len: "length (ds_definitions (sg_definitions sg1)) = Suc d" using k d by (simp add: keep_step_def)
    have "\<forall>(d', _) \<in> set (ks_keys (sg_keys sg1)). d' \<le> d"
      using keep_step_wf [OF k1] by (auto simp: wf_store_def keys_ok_def def_ok_def len)
    then have "wf_step sg1 (push_key_selection d sel r sg1)"
      using keep_step_wf [OF k1] that(2) by (intro push_key_selection_step) (simp_all add: def_ok_def len)
    then have "keep_step sg1 (push_key_selection d sel r sg1)"
      by (simp add: keep_step_def push_key_selection_def)
    with k1 show ?thesis by (rule keep_step_trans)
  qed
  have "runs t (push_key P d str r sg') (\<lambda>(_, sg1). keep_step sg' sg1)" if "t \<Longrightarrow> selection_str_ok P str" for str r
    unfolding push_key_def using that key site_step_keep keep_step_wf [OF k] by (intro with_selection_set_runs)
  note push = this
  show "runs t (if is_key m (dir_name dir) then
           (case string_argument P dir ''fields'' of
              None \<Rightarrow> Some sg'
            | Some fields_arg \<Rightarrow> do {
                (_, sg1) \<leftarrow> push_key P d fields_arg (key_is_resolvable P dir) sg';
                Some sg1 })
         else Some sg') (keep_step sg')"
  proof (intro runs_if runs_case_option)
    fix arg assume "string_argument P dir ''fields'' = Some arg"
    then have "runs t (push_key P d arg (key_is_resolvable P dir) sg') (\<lambda>(_, sg1). keep_step sg' sg1)" using str push by blast
    then show "runs t (do { (_, sg1) \<leftarrow> push_key P d arg (key_is_resolvable P dir) sg'; Some sg1 }) (keep_step sg')"
      by (rule runs_bind) auto
  qed (simp_all add: keep_step_refl [OF keep_step_wf [OF k]])
qed
subsection \<open>Enums, fields and arguments\<close>

lemma keep_stepI:
  "wf_step sg sg' \<Longrightarrow> ds_definitions (sg_definitions sg') = ds_definitions (sg_definitions sg) \<Longrightarrow>
   sg_definition_names sg' = sg_definition_names sg \<Longrightarrow> sg_subgraphs sg' = sg_subgraphs sg \<Longrightarrow> keep_step sg sg'"
  by (simp add: keep_step_def)

lemma intern_field_type_keep:
  assumes "wf_store sg" and "intern_field_type t sg = (i, sg')"
  shows "keep_step sg sg' \<and> sg_fields sg' = sg_fields sg \<and> type_ok sg' i"
proof -
  have "field_types_wf sg" using assms(1) by (simp add: wf_store_def)
  then have "types_extend sg sg'" using assms(2) by (rule intern_field_type_extends)
  then show ?thesis
    using intern_field_type_step [OF assms] by (auto simp: types_extend_def intro!: keep_stepI)
qed

lemma push_enum_value_keep:
  "wf_store sg \<Longrightarrow> def_ok sg d \<Longrightarrow> str_ok sg v \<Longrightarrow> site_ok sg i \<Longrightarrow> keep_step sg (push_enum_value d v i sg)"
  by (intro keep_stepI push_enum_value_step) (simp_all add: push_enum_value_def)

lemma push_field_keep:
  assumes "wf_store sg" and "push_field f sg = (i, sg')"
    and "def_ok sg (fi_parent_definition_id f)" and "type_ok sg (fi_field_type f)"
    and "opt_ok (str_ok sg) (fi_description f)" and "site_ok sg (fi_directives f)" and "opt_ok (value_ok sg) (fi_default f)"
  shows "keep_step sg sg' \<and> i \<in> set (map fst (fs_definition_fields (sg_fields sg')))"
proof -
  obtain n sg1 where n: "intern (fi_field_name f) sg = (n, sg1)" by fastforce
  then have "sg_definitions sg1 = sg_definitions sg \<and> sg_definition_names sg1 = sg_definition_names sg \<and> sg_subgraphs sg1 = sg_subgraphs sg"
    using intern_site_step [OF assms(1) n] by (simp add: site_step_def)
  moreover have "\<exists>fs. sg' = sg1\<lparr>sg_fields := fs\<rparr>"
    using assms(2) by (auto simp: push_field_def n Let_def split: option.splits)
  ultimately show ?thesis using push_field_step(1,2) [OF assms] by (auto intro!: keep_stepI)
qed

lemma insert_field_argument_keep:
  assumes "wf_store sg" and "f \<in> set (map fst (fs_definition_fields (sg_fields sg)))" and "str_ok sg n"
    and "type_ok sg ty" and "site_ok sg site" and "opt_ok (str_ok sg) descr" and "opt_ok (value_ok sg) dflt"
  shows "keep_step sg (insert_field_argument f n ty site descr dflt sg)"
    and "fs_definition_fields (sg_fields (insert_field_argument f n ty site descr dflt sg)) = fs_definition_fields (sg_fields sg)"
  using insert_field_argument_step [OF assms]
  by (auto intro!: keep_stepI simp: insert_field_argument_def Let_def split: option.splits)

lemma ingest_enum_runs:
  assumes wf: "wf_store sg" and s: "subgraph_ok sg s" and d: "def_ok sg d"
    and t: "t \<Longrightarrow> list_all (\<lambda>v. list_all (directive_ok P) (evd_directives v)) values"
  shows "runs t (ingest_enum P d values m s sg) (keep_step sg)"
  unfolding ingest_enum_def
proof (rule runs_foldM_rel [where R = keep_step, OF keep_step_refl [OF wf] keep_step_trans], assumption+)
  fix v sg0 assume v: "v \<in> set values" and k: "keep_step sg sg0"
  obtain n sg1 i sg2 where 1: "intern (evd_value v) sg0 = (n, sg1)" and 2: "new_directive_site sg1 = (i, sg2)" by fastforce
  have s1: "site_step sg0 sg1" "str_ok sg1 n" using intern_site [OF keep_step_wf [OF k] 1] by simp_all
  have s2: "site_step sg1 sg2" "site_ok sg2 i" using new_directive_site_site [OF site_step_wf [OF s1(1)] 2] by simp_all
  define sg3 where "sg3 = push_enum_value d n i sg2"
  have k2: "keep_step sg0 sg2" using s1 s2 site_step_trans site_step_keep by blast
  have e: "extends sg sg2" using k k2 keep_step_extends extends_trans by blast
  have "keep_step sg2 sg3"
    unfolding sg3_def using s1 s2 d e site_step_wf extends_mono [OF site_step_extends [OF s2(1)]] extends_mono [OF e]
    by (intro push_enum_value_keep) auto
  then have k3: "keep_step sg0 sg3" using k2 keep_step_trans by blast
  then have e3: "extends sg sg3" using k keep_step_extends extends_trans by blast
  have "runs t (ingest_directives P i (evd_directives v) m s (definition_location d) sg3) (site_step sg3)"
  proof (rule ingest_directives_runs [OF keep_step_wf [OF k3]])
    show "runs t (definition_location d sg') (\<lambda>_. True)" if "site_step sg3 sg'" for sg'
      using that d def_ok_mono [OF extends_trans [OF e3 site_step_extends]] site_step_wf by (intro definition_location_runs)
  qed (use t v s extends_mono [OF e3] in \<open>auto simp: list_all_iff\<close>)
  then show "runs t (do {
         let (value_name, sg1) = intern (evd_value v) sg0;
         let (value_directives, sg2) = new_directive_site sg1;
         ingest_directives P value_directives (evd_directives v) m s (definition_location d)
           (push_enum_value d value_name value_directives sg2) }) (keep_step sg0)"
    using k3 site_step_keep keep_step_trans by (auto simp: 1 2 sg3_def intro: runs_mono)
qed

text \<open>The part that input fields and field arguments share: the directives, the description and the default.\<close>

lemma input_value_runs:
  assumes wf: "wf_store sg" and s: "subgraph_ok sg s" and t: "t \<Longrightarrow> input_value_ok P node"
    and loc: "\<And>sg'. site_step sg sg' \<Longrightarrow> runs t (location sg') (\<lambda>_. True)"
    and k: "\<And>descr dflt sg'. site_step sg sg' \<Longrightarrow> opt_ok (str_ok sg') descr \<Longrightarrow> opt_ok (value_ok sg') dflt \<Longrightarrow>
      runs t (k descr dflt sg') Q"
  shows "runs t (do {
      sg1 \<leftarrow> ingest_directives P site (in_directives node) m s location sg;
      let (descr, sg2) = intern_option (in_description node) sg1;
      (dflt, sg3) \<leftarrow> ingest_default (in_default node) sg2;
      k descr dflt sg3 }) Q"
proof (rule runs_bind [OF ingest_directives_runs [OF wf s _ loc]])
  show "t \<Longrightarrow> list_all (directive_ok P) (in_directives node)" using t by (simp add: input_value_ok_def)
  fix sg1 assume s1: "site_step sg sg1"
  obtain descr sg2 where d: "intern_option (in_description node) sg1 = (descr, sg2)" by fastforce
  have s2: "site_step sg1 sg2" "opt_ok (str_ok sg2) descr" using intern_option_site [OF site_step_wf [OF s1] d] by simp_all
  have "runs t (ingest_default (in_default node) sg2) (\<lambda>(dflt, sg3). site_step sg2 sg3 \<and> opt_ok (value_ok sg3) dflt)"
    unfolding ingest_default_def using t
    by (intro ingest_metadata_runs site_step_wf [OF s2(1)]) (auto simp: input_value_ok_def split: option.splits)
  then have "runs t (ingest_default (in_default node) sg2 \<bind> (\<lambda>(dflt, sg3). k descr dflt sg3)) Q"
  proof (rule runs_bind, clarify)
    fix dflt sg3 assume 3: "site_step sg2 sg3" "opt_ok (value_ok sg3) dflt"
    then show "runs t (k descr dflt sg3) Q"
      using s1 s2 by (intro k opt_str_ok_mono [OF site_step_extends [OF 3(1)]]) (blast intro: site_step_trans)+
  qed
  then show "runs t (let (descr, sg2) = intern_option (in_description node) sg1
      in ingest_default (in_default node) sg2 \<bind> (\<lambda>(dflt, sg3). k descr dflt sg3)) Q"
    by (simp add: d)
qed (use loc in blast)

lemma keep_step_mono:
  "keep_step sg sg' \<Longrightarrow> def_ok sg d \<Longrightarrow> def_ok sg' d" "keep_step sg sg' \<Longrightarrow> subgraph_ok sg s \<Longrightarrow> subgraph_ok sg' s"
  "keep_step sg sg' \<Longrightarrow> str_ok sg n \<Longrightarrow> str_ok sg' n" "keep_step sg sg' \<Longrightarrow> type_ok sg ty \<Longrightarrow> type_ok sg' ty"
  "keep_step sg sg' \<Longrightarrow> site_ok sg i \<Longrightarrow> site_ok sg' i" "keep_step sg sg' \<Longrightarrow> opt_ok (str_ok sg) x \<Longrightarrow> opt_ok (str_ok sg') x"
  using keep_step_extends extends_mono by blast+

lemma ingest_input_fields_runs:
  assumes wf: "wf_store sg" and s: "subgraph_ok sg s" and d: "def_ok sg d"
    and t: "t \<Longrightarrow> list_all (input_value_ok P) nodes"
  shows "runs t (ingest_input_fields P d nodes m s sg) (keep_step sg)"
  unfolding ingest_input_fields_def
proof (rule runs_foldM_rel [where R = keep_step, OF keep_step_refl [OF wf] keep_step_trans], assumption+)
  fix node sg0 assume n: "node \<in> set nodes" and k: "keep_step sg sg0"
  obtain ty sg1 i sg2 where 1: "intern_field_type (in_ty node) sg0 = (ty, sg1)" and 2: "new_directive_site sg1 = (i, sg2)"
    by fastforce
  have k1: "keep_step sg0 sg1" "type_ok sg1 ty" using intern_field_type_keep [OF keep_step_wf [OF k] 1] by simp_all
  have k2: "keep_step sg1 sg2" "site_ok sg2 i"
    using new_directive_site_site [OF keep_step_wf [OF k1(1)] 2] site_step_keep by simp_all
  have k02: "keep_step sg0 sg2" using k1 k2 keep_step_trans by blast
  have dt: "def_ok sg2 d" "type_ok sg2 ty" "subgraph_ok sg2 s"
    using keep_step_mono [OF keep_step_trans [OF k k02]] d s keep_step_mono(4) [OF k2(1) k1(2)] by simp_all
  have "runs t (do {
         sg3 \<leftarrow> ingest_directives P i (in_directives node) m s (input_field_location d (in_name node)) sg2;
         let (description, sg4) = intern_option (in_description node) sg3;
         (dflt, sg5) \<leftarrow> ingest_default (in_default node) sg4;
         Some (snd (push_field
           \<lparr>fi_parent_definition_id = d, fi_field_name = in_name node, fi_field_type = ty,
            fi_description = description, fi_directives = i, fi_default = dflt\<rparr> sg5)) }) (keep_step sg0)"
  proof (rule input_value_runs [OF keep_step_wf [OF k02] dt(3)])
    show "t \<Longrightarrow> input_value_ok P node" using t n by (simp add: list_all_iff)
    fix sg' assume s': "site_step sg2 sg'"
    note k' = site_step_keep [OF s']
    show "runs t (input_field_location d (in_name node) sg') (\<lambda>_. True)"
      by (rule input_field_location_runs [OF keep_step_wf [OF k'] keep_step_mono(1) [OF k' dt(1)]])
    fix descr dflt assume ok: "opt_ok (str_ok sg') descr" "opt_ok (value_ok sg') dflt"
    let ?f = "\<lparr>fi_parent_definition_id = d, fi_field_name = in_name node, fi_field_type = ty,
            fi_description = descr, fi_directives = i, fi_default = dflt\<rparr>"
    have "keep_step sg' (snd (push_field ?f sg'))"
      using push_field_keep [OF keep_step_wf [OF k'], of ?f] ok keep_step_mono [OF k'] dt k2(2) by (cases "push_field ?f sg'") simp
    then show "runs t (Some (snd (push_field ?f sg'))) (keep_step sg0)"
      by (simp add: keep_step_trans [OF k02 keep_step_trans [OF k']])
  qed
  then show "runs t (do {
         let (fty, sg1) = intern_field_type (in_ty node) sg0;
         let (directives, sg2) = new_directive_site sg1;
         sg3 \<leftarrow> ingest_directives P directives (in_directives node) m s (input_field_location d (in_name node)) sg2;
         let (description, sg4) = intern_option (in_description node) sg3;
         (dflt, sg5) \<leftarrow> ingest_default (in_default node) sg4;
         Some (snd (push_field
           \<lparr>fi_parent_definition_id = d, fi_field_name = in_name node, fi_field_type = fty,
            fi_description = description, fi_directives = directives, fi_default = dflt\<rparr> sg5)) }) (keep_step sg0)"
    by (simp add: 1 2)
qed
lemma ingest_field_arguments_runs:
  assumes wf: "wf_store sg" and s: "subgraph_ok sg s" and f: "f \<in> set (map fst (fs_definition_fields (sg_fields sg)))"
    and t: "t \<Longrightarrow> list_all (input_value_ok P) nodes"
  shows "runs t (ingest_field_arguments P f nodes m s sg) (keep_step sg)"
proof -
  define R where "R = (\<lambda>sg sg'. keep_step sg sg' \<and> fs_definition_fields (sg_fields sg') = fs_definition_fields (sg_fields sg))"
  have site: "site_step sg sg' \<Longrightarrow> R sg sg'" for sg sg' by (simp add: R_def site_step_keep, simp add: site_step_def)
  have trans: "R a b \<Longrightarrow> R b c \<Longrightarrow> R a c" for a b c using keep_step_trans by (auto simp: R_def)
  have "runs t (ingest_field_arguments P f nodes m s sg) (R sg)"
    unfolding ingest_field_arguments_def
  proof (rule runs_foldM_rel [where R = R, OF _ trans], simp add: R_def keep_step_refl [OF wf], assumption+)
    fix node sg0 assume n: "node \<in> set nodes" and k: "R sg sg0"
    obtain ty sg1 a sg2 i sg3 where 1: "intern_field_type (in_ty node) sg0 = (ty, sg1)"
      and 2: "intern (in_name node) sg1 = (a, sg2)" and 3: "new_directive_site sg2 = (i, sg3)" by fastforce
    have k1: "R sg0 sg1" "type_ok sg1 ty"
      using intern_field_type_keep [OF keep_step_wf 1] k by (auto simp: R_def)
    have wf_R: "R a b \<Longrightarrow> wf_store b" for a b using keep_step_wf by (auto simp: R_def)
    have k2: "R sg1 sg2" "str_ok sg2 a" using intern_site [OF wf_R [OF k1(1)] 2] site by blast+
    have k3: "R sg2 sg3" "site_ok sg3 i" using new_directive_site_site [OF wf_R [OF k2(1)] 3] site by blast+
    have k03: "R sg0 sg3" "R sg sg3" "R sg1 sg3" using trans k k1(1) k2(1) k3(1) by blast+
    note mono = keep_step_mono
    have ok: "subgraph_ok sg3 s" "type_ok sg3 ty" "str_ok sg3 a" "wf_store sg3"
      using k03 k3 s k1(2) k2(2) mono keep_step_wf by (auto simp: R_def)
    have f3: "f \<in> set (map fst (fs_definition_fields (sg_fields sg3)))" using f k03(2) by (simp add: R_def)
    have "runs t (do {
         sg4 \<leftarrow> ingest_directives P i (in_directives node) m s (argument_location f (in_name node)) sg3;
         let (description, sg5) = intern_option (in_description node) sg4;
         (dflt, sg6) \<leftarrow> ingest_default (in_default node) sg5;
         Some (insert_field_argument f a ty i description dflt sg6) }) (R sg0)"
    proof (rule input_value_runs [OF ok(4,1)])
      show "t \<Longrightarrow> input_value_ok P node" using t n by (simp add: list_all_iff)
      fix sg' assume s': "site_step sg3 sg'"
      then have k': "R sg3 sg'" and f': "f \<in> set (map fst (fs_definition_fields (sg_fields sg')))"
        using f3 site by (simp_all add: R_def)
      show "runs t (argument_location f (in_name node) sg') (\<lambda>_. True)"
        by (rule argument_location_runs [OF site_step_wf [OF s'] f'])
      fix descr dflt assume "opt_ok (str_ok sg') descr" "opt_ok (value_ok sg') dflt"
      then have "R sg' (insert_field_argument f a ty i descr dflt sg')"
        unfolding R_def using site_step_wf [OF s'] f' ok k3(2) mono [OF site_step_keep [OF s']]
        by (intro conjI insert_field_argument_keep) auto
      then show "runs t (Some (insert_field_argument f a ty i descr dflt sg')) (R sg0)" 
        using trans [OF trans [OF k03(1) k']] by simp
    qed
    then show "runs t (do {
         let (fty, sg1) = intern_field_type (in_ty node) sg0;
         let (name, sg2) = intern (in_name node) sg1;
         let (directives, sg3) = new_directive_site sg2;
         sg4 \<leftarrow> ingest_directives P directives (in_directives node) m s (argument_location f (in_name node)) sg3;
         let (description, sg5) = intern_option (in_description node) sg4;
         (dflt, sg6) \<leftarrow> ingest_default (in_default node) sg5;
         Some (insert_field_argument f name fty directives description dflt sg6) }) (R sg0)"
      by (simp add: 1 2 3)
  qed
  then show ?thesis by (rule runs_mono) (simp add: R_def)
qed

lemma ingest_field_runs:
  assumes wf: "wf_store sg" and s: "subgraph_ok sg s" and d: "def_ok sg d" and t: "t \<Longrightarrow> field_node_ok P node"
  shows "runs t (ingest_field P d m s node sg) (keep_step sg)"
proof -
  obtain descr sg1 ty sg2 i sg3 where 1: "intern_option (fd_description node) sg = (descr, sg1)"
    and 2: "intern_field_type (fd_ty node) sg1 = (ty, sg2)" and 3: "new_directive_site sg2 = (i, sg3)" by (metis prod.exhaust)
  define fi where "fi = \<lparr>fi_parent_definition_id = d, fi_field_name = fd_name node, fi_field_type = ty,
        fi_description = descr, fi_directives = i, fi_default = None\<rparr>"
  obtain f sg4 where 4: "push_field fi sg3 = (f, sg4)" by fastforce
  have k1: "keep_step sg sg1" "opt_ok (str_ok sg1) descr" using intern_option_site [OF wf 1] site_step_keep by auto
  have k2: "keep_step sg1 sg2" "type_ok sg2 ty" using intern_field_type_keep [OF keep_step_wf [OF k1(1)] 2] by auto
  have k3: "keep_step sg2 sg3" "site_ok sg3 i"
    using new_directive_site_site [OF keep_step_wf [OF k2(1)] 3] site_step_keep by auto
  have k03: "keep_step sg sg3" "keep_step sg1 sg3" using k1(1) k2(1) k3(1) keep_step_trans by blast+
  have "keep_step sg3 sg4 \<and> f \<in> set (map fst (fs_definition_fields (sg_fields sg4)))"
    using k03 k1(2) k2(2) k3 d keep_step_mono by (intro push_field_keep [OF keep_step_wf [OF k3(1)] 4]) (auto simp: fi_def)
  then have f: "f \<in> set (map fst (fs_definition_fields (sg_fields sg4)))" and k4: "keep_step sg sg4"
    using k03 keep_step_trans by blast+
  note ok = keep_step_wf [OF k4] keep_step_mono(2) [OF k4 s] keep_step_mono(1) [OF k4 d]
  have "runs t (do {
     sg5 \<leftarrow> ingest_directives P i (fd_directives node) m s (input_field_location d (fd_name node)) sg4;
     ingest_field_arguments P f (fd_arguments node) m s sg5 }) (keep_step sg)"
  proof (rule runs_bind [OF ingest_directives_runs [OF ok(1,2)]])
    show "t \<Longrightarrow> list_all (directive_ok P) (fd_directives node)" using t by (simp add: field_node_ok_def)
    fix sg5 assume s5: "site_step sg4 sg5"
    note k5 = site_step_keep [OF s5]
    show "runs t (input_field_location d (fd_name node) sg5) (\<lambda>_. True)"
      by (rule input_field_location_runs [OF site_step_wf [OF s5] keep_step_mono(1) [OF k5 ok(3)]])
    have "runs t (ingest_field_arguments P f (fd_arguments node) m s sg5) (keep_step sg5)"
      using f s5 t by (intro ingest_field_arguments_runs site_step_wf [OF s5] keep_step_mono(2) [OF k5 ok(2)])
        (auto simp: site_step_def field_node_ok_def)
    then show "runs t (ingest_field_arguments P f (fd_arguments node) m s sg5) (keep_step sg)"
      by (rule runs_mono) (rule keep_step_trans [OF keep_step_trans [OF k4 k5]])
  qed
  then show ?thesis by (simp add: ingest_field_def 1 2 3 4 fi_def [symmetric])
qed

lemma ingest_fields_runs:
  assumes wf: "wf_store sg" and s: "subgraph_ok sg s" and d: "def_ok sg d" and t: "t \<Longrightarrow> list_all (field_node_ok P) nodes"
  shows "runs t (ingest_fields P d nodes m q s sg) (keep_step sg)"
  unfolding ingest_fields_def
proof (rule runs_foldM_rel [where R = keep_step, OF keep_step_refl [OF wf] keep_step_trans], assumption+, rule runs_if)
  fix node sg' assume "node \<in> set nodes" and k: "keep_step sg sg'"
  then show "runs t (Some sg') (keep_step sg')" "runs t (ingest_field P d m s node sg') (keep_step sg')"
    using t s d keep_step_mono [OF k] keep_step_wf [OF k]
    by (auto simp: list_all_iff keep_step_refl intro!: ingest_field_runs)
qed

subsection \<open>Nested key fields\<close>

lemma ingest_nested_key_fields_rec_runs:
  shows "wf_store sg \<Longrightarrow> def_ok sg d \<Longrightarrow> runs t (ingest_nested_key_fields_rec sg d sel nk) (\<lambda>_. True)"
    and "wf_store sg \<Longrightarrow> def_ok sg d \<Longrightarrow> runs t (ingest_nested_key_fields_list sg d sels nk) (\<lambda>_. True)"
proof (induction sg d sel nk and sg d sels nk rule: ingest_nested_key_fields_rec_ingest_nested_key_fields_list.induct)
  case (2 sg parent f args subs nk)
  show ?case
  proof (cases "find_field sg parent f")
    case (Some field)
    have ty: "type_ok sg (field_type field)" using find_field_ok [OF 2(2) Some] by simp
    have "runs t (do {
             s \<leftarrow> def_subgraph_id sg parent;
             d \<leftarrow> type_definition sg (field_type field) s;
             (case d of
                None \<Rightarrow> Some (nested_key_fields_insert field nk)
              | Some selection_field_type \<Rightarrow>
                  ingest_nested_key_fields_list sg selection_field_type subs (nested_key_fields_insert field nk)) }) (\<lambda>_. True)"
      if "subs \<noteq> []"
      by (rule runs_bind_eq [OF def_subgraph_id_runs [OF 2(2,3)]], rule runs_bind_eq [OF type_definition_runs [OF 2(2) ty]],
          rule runs_case_option) (use 2 Some that in \<open>auto simp: opt_ok_def\<close>)
    then show ?thesis by (simp add: Some Let_def)
  qed simp
next
  case (4 sg parent s rest nk)
  then show ?case by (auto intro: runs_bind_eq [where P = "\<lambda>_. True"])
qed simp_all

lemma nested_key_fields_of_selection_runs:
  assumes "wf_store sg" and "def_ok sg d"
  shows "runs t (nested_key_fields_of_selection sg s d sel nk) (\<lambda>_. True)"
proof (cases sel)
  case (Selection_Field f args subs)
  show ?thesis
  proof (cases "find_field sg d f")
    case (Some field)
    then have ty: "type_ok sg (field_type field)" using find_field_ok [OF assms(1)] by blast
    have "runs t (type_definition sg (field_type field) s \<bind> (\<lambda>fty. case fty of
        None \<Rightarrow> Some nk | Some field_def \<Rightarrow> ingest_nested_key_fields_list sg field_def subs nk)) (\<lambda>_. True)"
      by (rule runs_bind [OF type_definition_runs [OF assms(1) ty]], rule runs_case_option)
        (auto intro!: ingest_nested_key_fields_rec_runs(2) assms(1))
    then show ?thesis by (simp add: nested_key_fields_of_selection_def Selection_Field Some)
  qed (simp add: nested_key_fields_of_selection_def Selection_Field)
qed (simp add: nested_key_fields_of_selection_def)

lemma ingest_nested_key_fields_runs:
  assumes wf: "wf_store sg" and s: "subgraph_ok sg s"
  shows "runs t (ingest_nested_key_fields s sg) (keep_step sg)"
proof -
  define sg1 where "sg1 = sg\<lparr>sg_keys := (sg_keys sg)\<lparr>ks_nested_key_fields := \<lparr>nk_fields = {}, nk_objects_with_nested_keys = {}\<rparr>\<rparr>\<rparr>"
  define h where "h = (\<lambda>sg nk. do {
         _ \<leftarrow> walk_subgraph sg s;
         foldM (\<lambda>d nk.
             foldM (\<lambda>key nk. do {
                 selections \<leftarrow> key_fields sg key;
                 foldM (nested_key_fields_of_selection sg s d) selections nk })
               (entity_keys sg d) nk)
           (subgraph_definitions sg s) nk })"
  have wf1: "wf_store sg1"
    using with_nested_key_fields_step [OF wf, of "\<lambda>_ _. Some \<lparr>nk_fields = {}, nk_objects_with_nested_keys = {}\<rparr>" sg1]
    by (simp add: with_nested_key_fields_def sg1_def wf_step_def)
  have d1: "def_ok sg1 d" if "d \<in> set (subgraph_definitions sg1 s)" for d
    using that wf1 by (simp add: subgraph_definitions_filter def_ok_def)
  have key: "runs t (key_fields sg1 k) (\<lambda>_. True)" if "k \<in> set (entity_keys sg1 d)" for k d
    using that wf1 by (auto simp: entity_keys_filter key_fields_def walk_key_def)
  have "runs t (h sg1 (ks_nested_key_fields (sg_keys sg))) (\<lambda>_. True)"
    unfolding h_def
  proof (rule runs_bind [where P = "\<lambda>_. True"])
    show "runs t (walk_subgraph sg1 s) (\<lambda>_. True)" using s by (simp add: walk_subgraph_def subgraph_ok_def sg1_def)
  qed (intro runs_foldM runs_bind [OF key] nested_key_fields_of_selection_runs wf1 d1, simp_all)
  then have "runs t (ingest_nested_key_fields s sg) (\<lambda>_. True)"
    unfolding ingest_nested_key_fields_def h_def [symmetric] with_nested_key_fields_def Let_def sg1_def [symmetric]
    by (rule runs_bind) simp
  moreover have "ingest_nested_key_fields s sg = Some sg' \<Longrightarrow> keep_step sg sg'" for sg'
    using with_nested_key_fields_step [OF wf, of h sg']
    by (auto simp: ingest_nested_key_fields_def h_def [symmetric] with_nested_key_fields_def Let_def
        intro!: keep_stepI split: Option.bind_splits)
  ultimately show ?thesis by (cases "ingest_nested_key_fields s sg") auto
qed
subsection \<open>Definitions\<close>

definition declares :: "Subgraphs \<Rightarrow> SubgraphId \<Rightarrow> string \<Rightarrow> bool" where
  "declares sg s name \<longleftrightarrow> (\<exists>n d. as_str sg n = Some name \<and> definition_by_name_id sg n s = Some d)"

text \<open>The first pass: definitions of the subgraph that is being ingested are added.\<close>

definition top_step :: "SubgraphId \<Rightarrow> Subgraphs \<Rightarrow> Subgraphs \<Rightarrow> bool" where
  "top_step s sg sg' \<longleftrightarrow> wf_step sg sg' \<and> length (sg_subgraphs sg') = length (sg_subgraphs sg)
     \<and> (\<forall>name. declares sg s name \<longrightarrow> declares sg' s name)"

lemma top_step_trans: "top_step s a b \<Longrightarrow> top_step s b c \<Longrightarrow> top_step s a c"
  unfolding top_step_def using wf_step_trans by auto

lemma top_step_wf: "top_step s sg sg' \<Longrightarrow> wf_store sg'"
  by (simp add: top_step_def wf_step_def)

lemma top_step_extends: "top_step s sg sg' \<Longrightarrow> extends sg sg'"
  by (simp add: top_step_def wf_step_def)

lemma as_str_extends: "extends sg sg' \<Longrightarrow> as_str sg n = Some name \<Longrightarrow> as_str sg' n = Some name"
  by (auto simp: extends_def as_str_def strings_resolve_def vec_index_append)

lemma keep_step_declares: "keep_step sg sg' \<Longrightarrow> declares sg s name \<Longrightarrow> declares sg' s name"
  using as_str_extends by (fastforce simp: declares_def definition_by_name_id_def keep_step_def wf_step_def)

lemma keep_step_top: "keep_step sg sg' \<Longrightarrow> top_step s sg sg'"
  using keep_step_declares by (auto simp: top_step_def, auto simp: keep_step_def)

lemma definition_by_name_runs:
  assumes wf: "wf_store sg" and t: "t \<Longrightarrow> declares sg s name"
  shows "runs t (definition_by_name name s sg) (\<lambda>(d, sg'). keep_step sg sg' \<and> def_ok sg' d)"
proof -
  obtain n sg1 where n: "intern name sg = (n, sg1)" by fastforce
  have k: "keep_step sg sg1" "as_str sg1 n = Some name" using intern_site [OF wf n] site_step_keep by auto
  have "definition_by_name_id sg1 n s \<noteq> None" if yes: "t"
  proof -
    obtain n' d where n': "as_str sg1 n' = Some name" "definition_by_name_id sg1 n' s = Some d"
      using keep_step_declares [OF k(1) t [OF yes]] by (auto simp: declares_def)
    have "n' = n" using n'(1) k(2) keep_step_wf [OF k(1)] strings.resolve_inj
      by (auto simp: as_str_def wf_store_def field_types_wf_def)
    with n' show ?thesis by simp
  qed
  then show ?thesis
    using k(1) names_ok_get [OF keep_step_wf [OF k(1)]]
    by (cases "definition_by_name_id sg1 n s") (auto simp: definition_by_name_def n)
qed

lemma set_root_type_runs:
  assumes wf: "wf_store sg" and s: "subgraph_ok sg s" and d: "def_ok sg d"
  shows "runs t (set_root_type rm s name d sg) (keep_step sg)"
proof -
  have "keep_step sg sg'" if "wf_step sg sg'" "set_query_type s d sg = Some sg' \<or> set_mutation_type s d sg = Some sg'
      \<or> set_subscription_type s d sg = Some sg'" for sg'
    using that by (auto simp: keep_step_def set_query_type_def set_mutation_type_def set_subscription_type_def split: Option.bind_splits)
  then show ?thesis
    using set_root_types_step [OF assms] runs_mono [OF push_ingestion_diagnostic_runs [OF wf s] site_step_keep] keep_step_refl [OF wf]
    by (auto simp: set_root_type_def split: RootTypeMatch.split)
qed

lemma push_definition_top:
  assumes wf: "wf_store sg" and p: "push_definition s name kind descr site sg = (d, sg')"
    and s: "length (sg_subgraphs sg) = Suc s" and "opt_ok (str_ok sg) descr" and "site_ok sg site"
  shows "top_step s sg sg' \<and> length (ds_definitions (sg_definitions sg')) = Suc d \<and> declares sg' s name"
proof -
  have ids: "\<forall>x \<in> set (ds_definitions (sg_definitions sg)). d_subgraph_id x \<le> s"
    using wf s by (auto simp: wf_store_def definitions_ok_def definition_ok_def subgraph_ok_def)
  note step = push_definition_step [OF wf p _ assms(4,5) ids]
  have ok: "subgraph_ok sg s" using s by (simp add: subgraph_ok_def)
  obtain n sg1 where n: "intern name sg = (n, sg1)" by fastforce
  have k: "keep_step sg sg1" "sg_subgraphs sg1 = sg_subgraphs sg"
    using intern_site_step [OF wf n] site_step_keep by (simp_all add: site_step_def)
  have sg': "sg_definition_names sg' = bt_insert (n, s) d (sg_definition_names sg1)" "sg_subgraphs sg' = sg_subgraphs sg"
    "length (ds_definitions (sg_definitions sg')) = Suc d" "sg_strings sg' = sg_strings sg1"
    using p k by (auto simp: push_definition_def n push_return_idx_def)
  have "declares sg' s x" if "declares sg s x" for x
    using keep_step_declares [OF k(1) that] by (auto simp: declares_def definition_by_name_id_def sg' bt_insert_get as_str_def)
  then show ?thesis using step(1,4) [OF ok] sg' by (auto simp: top_step_def declares_def)
qed
lemma push_type_definition_node_runs:
  assumes wf: "wf_store sg" and s: "length (sg_subgraphs sg) = Suc s" and descr: "opt_ok (str_ok sg) descr"
    and site: "site_ok sg site" and t: "t \<Longrightarrow> type_node_ok P names node"
  shows "runs t (push_type_definition_node P m rm s node descr site sg) (\<lambda>(r, sg'). top_step s sg sg' \<and>
    (case r of None \<Rightarrow> \<not> is_pushed node
     | Some d \<Rightarrow> length (ds_definitions (sg_definitions sg')) = Suc d \<and> declares sg' s (tdef_name node)))"
proof -
  define Q where "Q = (\<lambda>(r, sg'). top_step s sg sg' \<and> (case r of None \<Rightarrow> \<not> is_pushed node
     | Some d \<Rightarrow> length (ds_definitions (sg_definitions sg')) = Suc d \<and> declares sg' s (tdef_name node)))"
  have push: "Q (Some d, sg')" if "push_definition s (tdef_name node) kind descr site sg = (d, sg')" for kind d sg'
    using push_definition_top [OF wf that s descr site] by (simp add: Q_def)
  have keep: "Q (Some d, sg'')" if "Q (Some d, sg')" "keep_step sg' sg''" for d sg' sg''
    using that keep_step_top [OF that(2)] top_step_trans keep_step_declares [OF that(2)]
    by (auto simp: Q_def, auto simp: keep_step_def)
  have after: "runs t (do { sg2 \<leftarrow> f d sg1; Some (Some d, sg2) }) Q"
    if "push_definition s (tdef_name node) kind descr site sg = (d, sg1)"
      "\<And>sg'. wf_store sg' \<Longrightarrow> subgraph_ok sg' s \<Longrightarrow> def_ok sg' d \<Longrightarrow> runs t (f d sg') (keep_step sg')" for kind d sg1 f
  proof -
    have "wf_store sg1" "subgraph_ok sg1 s" "def_ok sg1 d"
      using push [OF that(1)] s by (auto simp: Q_def top_step_def wf_step_def subgraph_ok_def def_ok_def)
    from that(2) [OF this] show ?thesis by (rule runs_bind) (simp add: keep [OF push [OF that(1)]])
  qed
  have skip: "\<not> is_pushed node \<Longrightarrow> Q (None, sg)" by (simp add: Q_def keep_step_top keep_step_refl wf)
  have "runs t (push_type_definition_node P m rm s node descr site sg) Q"
  proof (cases "tdef_kind node")
    case (Ast_Object a b)
    then show ?thesis
      using skip by (auto simp: push_type_definition_node_def is_pushed_def Let_def intro!: after set_root_type_runs split: prod.split)
  next
    case (Ast_Enum vs)
    then show ?thesis
      using t by (auto simp: push_type_definition_node_def type_node_ok_def intro!: after ingest_enum_runs split: prod.split)
  qed (use skip push in \<open>auto simp: push_type_definition_node_def is_pushed_def Let_def split: prod.split\<close>)
  then show ?thesis by (simp add: Q_def)
qed

lemma ingest_top_level_definition_runs:
  assumes wf: "wf_store sg" and s: "length (sg_subgraphs sg) = Suc s" and t: "t \<Longrightarrow> type_node_ok P names node"
  shows "runs t (ingest_top_level_definition P m rm s node sg)
    (\<lambda>sg'. top_step s sg sg' \<and> (is_pushed node \<longrightarrow> declares sg' s (tdef_name node)))"
proof -
  obtain descr sg1 i sg2 where 1: "intern_option (tdef_description node) sg = (descr, sg1)" and 2: "new_directive_site sg1 = (i, sg2)"
    by (metis prod.exhaust)
  have s1: "site_step sg sg1" "opt_ok (str_ok sg1) descr" using intern_option_site [OF wf 1] by simp_all
  have s2: "site_step sg1 sg2" "site_ok sg2 i" using new_directive_site_site [OF site_step_wf [OF s1(1)] 2] by simp_all
  have s02: "site_step sg sg2" "opt_ok (str_ok sg2) descr"
    using site_step_trans [OF s1(1) s2(1)] opt_str_ok_mono [OF site_step_extends [OF s2(1)] s1(2)] by simp_all
  then have len2: "length (sg_subgraphs sg2) = Suc s" using s by (simp add: site_step_def)
  note push = push_type_definition_node_runs [OF site_step_wf [OF s02(1)] len2 s02(2) s2(2) t]
  have "runs t (do {
     (d, sg3) \<leftarrow> push_type_definition_node P m rm s node descr i sg2;
     (case d of
        None \<Rightarrow> Some sg3
      | Some definition_id \<Rightarrow> do {
          sg4 \<leftarrow> ingest_directives P i (tdef_directives node) m s (\<lambda>_. Some (tdef_name node)) sg3;
          ingest_keys P definition_id (tdef_directives node) m sg4 }) })
    (\<lambda>sg'. top_step s sg2 sg' \<and> (is_pushed node \<longrightarrow> declares sg' s (tdef_name node)))"
  proof (rule runs_bind [OF push], simp, clarify, rule runs_case_option)
    fix r sg3 d assume top: "top_step s sg2 sg3" and r: "r = Some d"
      and "case r of None \<Rightarrow> \<not> is_pushed node
        | Some d \<Rightarrow> length (ds_definitions (sg_definitions sg3)) = Suc d \<and> declares sg3 s (tdef_name node)"
    then have len: "length (ds_definitions (sg_definitions sg3)) = Suc d" and decl: "declares sg3 s (tdef_name node)" by simp_all
    have dirs: "t \<Longrightarrow> list_all (directive_ok P) (tdef_directives node)" using t by (simp add: type_node_ok_def)
    have sub: "subgraph_ok sg3 s" using top len2 by (simp add: top_step_def subgraph_ok_def)
    have "runs t (ingest_keys P d (tdef_directives node) m sg4) (keep_step sg3)" if "site_step sg3 sg4" for sg4
    proof -
      have "length (ds_definitions (sg_definitions sg4)) = Suc d" using that len by (simp add: site_step_def)
      then show ?thesis
        using dirs by (rule runs_mono [OF ingest_keys_runs [OF site_step_wf [OF that]] keep_step_trans [OF site_step_keep [OF that]]])
    qed
    then have "runs t (do {
          sg4 \<leftarrow> ingest_directives P i (tdef_directives node) m s (\<lambda>_. Some (tdef_name node)) sg3;
          ingest_keys P d (tdef_directives node) m sg4 }) (keep_step sg3)"
      by (intro runs_bind [OF ingest_directives_runs [OF top_step_wf [OF top] sub dirs]]) simp_all
    then show "runs t (do {
          sg4 \<leftarrow> ingest_directives P i (tdef_directives node) m s (\<lambda>_. Some (tdef_name node)) sg3;
          ingest_keys P d (tdef_directives node) m sg4 })
      (\<lambda>sg'. top_step s sg2 sg' \<and> (is_pushed node \<longrightarrow> declares sg' s (tdef_name node)))"
      by (rule runs_mono) (use top decl keep_step_top keep_step_declares top_step_trans in blast)
  qed simp
  then show ?thesis
    unfolding ingest_top_level_definition_def 1 2 Let_def prod.case
    by (rule runs_mono) (use keep_step_top [OF site_step_keep [OF s02(1)]] top_step_trans in blast)
qed

text \<open>The second pass: interfaces, unions and fields refer to the definitions of the first.\<close>

lemma push_interface_impl_runs:
  assumes "wf_store sg" and "def_ok sg a" and "def_ok sg b"
  shows "runs t (push_interface_impl a b sg) (keep_step sg)"
proof -
  obtain sg' where r: "push_interface_impl a b sg = Some sg'" "wf_step sg sg'" using push_interface_impl_step [OF assms] by blast
  then have "keep_step sg sg'"
    by (intro keep_stepI) (auto simp: push_interface_impl_def Let_def split: Option.bind_splits option.splits)
  with r show ?thesis by simp
qed

lemma push_union_member_keep:
  "wf_store sg \<Longrightarrow> def_ok sg u \<Longrightarrow> def_ok sg d \<Longrightarrow> keep_step sg (push_union_member u d sg)"
  by (intro keep_stepI push_union_member_step) (simp_all add: push_union_member_def)

lemma foldM_names_runs:
  assumes wf: "wf_store sg" and names: "t \<Longrightarrow> \<forall>n \<in> set ns. declares sg s n" and d: "def_ok sg d"
    and f: "\<And>x sg'. wf_store sg' \<Longrightarrow> def_ok sg' d \<Longrightarrow> def_ok sg' x \<Longrightarrow> runs t (f x sg') (keep_step sg')"
  shows "runs t (foldM (\<lambda>name sg. do { (x, sg1) \<leftarrow> definition_by_name name s sg; f x sg1 }) ns sg) (keep_step sg)"
proof (rule runs_foldM_rel [where R = keep_step, OF keep_step_refl [OF wf] keep_step_trans], assumption+)
  fix n sg0 assume n: "n \<in> set ns" and k: "keep_step sg sg0"
  have "t \<Longrightarrow> declares sg0 s n" using names n keep_step_declares [OF k] by blast
  then show "runs t (do { (x, sg1) \<leftarrow> definition_by_name n s sg0; f x sg1 }) (keep_step sg0)"
  proof (rule runs_bind [OF definition_by_name_runs [OF keep_step_wf [OF k]]], simp, clarify)
    fix x sg1 assume 1: "keep_step sg0 sg1" "def_ok sg1 x"
    show "runs t (f x sg1) (keep_step sg0)"
      by (rule runs_mono [OF f [OF keep_step_wf [OF 1(1)] _ 1(2)] keep_step_trans [OF 1(1)]])
        (rule keep_step_mono(1) [OF keep_step_trans [OF k 1(1)] d])
  qed
qed

lemma ingest_implements_runs:
  assumes "wf_store sg" and "t \<Longrightarrow> \<forall>n \<in> set ns. declares sg s n" and "def_ok sg d"
  shows "runs t (ingest_implements s d ns sg) (keep_step sg)"
  unfolding ingest_implements_def using assms by (intro foldM_names_runs push_interface_impl_runs)

text \<open>A body looks its own definition up first.\<close>

lemma definition_then_runs:
  assumes wf: "wf_store sg" and t: "t \<Longrightarrow> declares sg s name"
    and f: "\<And>d sg'. keep_step sg sg' \<Longrightarrow> def_ok sg' d \<Longrightarrow> runs t (f d sg') (keep_step sg')"
  shows "runs t (do { (d, sg1) \<leftarrow> definition_by_name name s sg; f d sg1 }) (keep_step sg)"
  by (rule runs_bind [OF definition_by_name_runs [OF wf t]]) (auto intro: runs_mono [OF f] keep_step_trans)

lemma implements_then_fields_runs:
  assumes wf: "wf_store sg" and s: "subgraph_ok sg s" and d: "def_ok sg d"
    and names: "t \<Longrightarrow> \<forall>n \<in> set ns. declares sg s n" and t: "t \<Longrightarrow> list_all (field_node_ok P) nodes"
  shows "runs t (do { sg2 \<leftarrow> ingest_implements s d ns sg; ingest_fields P d nodes m q s sg2 }) (keep_step sg)"
proof (rule runs_bind [OF ingest_implements_runs [OF wf names d]], assumption)
  fix sg2 assume k: "keep_step sg sg2"
  show "runs t (ingest_fields P d nodes m q s sg2) (keep_step sg)"
    using k keep_step_mono [OF k] s d t keep_step_wf [OF k]
    by (intro runs_mono [OF ingest_fields_runs keep_step_trans [OF k]]) auto
qed

lemma ingest_definition_body_runs:
  assumes wf: "wf_store sg" and s: "subgraph_ok sg s"
    and t: "t \<Longrightarrow> type_node_ok P names node" and self: "t \<Longrightarrow> is_pushed node \<Longrightarrow> declares sg s (tdef_name node)"
    and names: "t \<Longrightarrow> \<forall>n \<in> names. declares sg s n"
  shows "runs t (ingest_definition_body P s m rm node sg) (keep_step sg)"
proof -
  have decl: "t \<Longrightarrow> set ns \<subseteq> names \<Longrightarrow> keep_step sg sg' \<Longrightarrow> \<forall>n \<in> set ns. declares sg' s n" for ns sg'
    using names keep_step_declares by blast
  have refl: "keep_step sg sg" by (rule keep_step_refl [OF wf])
  show ?thesis
  proof (cases "tdef_kind node")
    case (Ast_Object ns nodes)
    then show ?thesis
      using t self decl s keep_step_wf keep_step_mono(2) refl unfolding ingest_definition_body_def
      by (auto intro!: definition_then_runs [OF wf] implements_then_fields_runs simp: type_node_ok_def is_pushed_def)
  next
    case (Ast_Interface ns nodes)
    then show ?thesis
      using t self decl s keep_step_wf keep_step_mono(2) unfolding ingest_definition_body_def
      by (auto intro!: definition_then_runs [OF wf] implements_then_fields_runs simp: type_node_ok_def is_pushed_def)
  next
    case (Ast_Union ns)
    then show ?thesis
      using t self decl s keep_step_wf refl unfolding ingest_definition_body_def
      by (auto intro!: definition_then_runs [OF wf] foldM_names_runs simp: type_node_ok_def is_pushed_def push_union_member_keep)
  next
    case (Ast_InputObject nodes)
    then show ?thesis
      using t self s keep_step_wf keep_step_mono(2) unfolding ingest_definition_body_def
      by (auto intro!: definition_then_runs [OF wf] ingest_input_fields_runs simp: type_node_ok_def is_pushed_def)
  qed (simp_all add: ingest_definition_body_def refl)
qed

subsection \<open>Subgraphs\<close>

lemma ingest_top_level_definitions_runs:
  assumes wf: "wf_store sg" and s: "length (sg_subgraphs sg) = Suc s"
    and nodes: "nodes = List.map_filter type_of_definition document"
    and t: "t \<Longrightarrow> list_all (type_node_ok P names) nodes"
  shows "runs t (ingest_top_level_definitions P s document m rm sg)
    (\<lambda>sg'. top_step s sg sg' \<and> (\<forall>name \<in> declared_names nodes. declares sg' s name))"
proof -
  have "runs t (foldM (ingest_top_level_definition P m rm s) nodes sg)
      (\<lambda>sg'. top_step s sg sg' \<and> (\<forall>x \<in> set nodes. is_pushed x \<longrightarrow> declares sg' s (tdef_name x)))"
  proof (rule runs_foldM_all)
    show "top_step s sg sg" by (rule keep_step_top [OF keep_step_refl [OF wf]])
    fix node sg' assume "node \<in> set nodes" and top: "top_step s sg sg'"
    then show "runs t (ingest_top_level_definition P m rm s node sg')
        (\<lambda>sg''. top_step s sg' sg'' \<and> (is_pushed node \<longrightarrow> declares sg'' s (tdef_name node)))"
      using t s by (intro ingest_top_level_definition_runs [where names = names] top_step_wf [OF top])
        (auto simp: list_all_iff top_step_def)
  qed (auto intro: top_step_trans, auto simp: top_step_def)
  then show ?thesis
    unfolding ingest_top_level_definitions_def nodes [symmetric] by (rule runs_mono) (auto simp: declared_names_def)
qed

lemma ingest_definition_bodies_runs:
  assumes wf: "wf_store sg" and s: "subgraph_ok sg s"
    and nodes: "nodes = List.map_filter type_of_definition document"
    and t: "t \<Longrightarrow> list_all (type_node_ok P (declared_names nodes)) nodes"
    and decl: "t \<Longrightarrow> \<forall>name \<in> declared_names nodes. declares sg s name"
  shows "runs t (ingest_definition_bodies P s document m rm sg) (keep_step sg)"
  unfolding ingest_definition_bodies_def nodes [symmetric]
proof (rule runs_foldM_rel [where R = keep_step, OF keep_step_refl [OF wf] keep_step_trans], assumption+)
  fix node sg' assume n: "node \<in> set nodes" and k: "keep_step sg sg'"
  have names: "t \<Longrightarrow> \<forall>name \<in> declared_names nodes. declares sg' s name" using decl keep_step_declares [OF k] by blast
  then have "t \<Longrightarrow> is_pushed node \<Longrightarrow> declares sg' s (tdef_name node)" using n by (auto simp: declared_names_def)
  then show "runs t (ingest_definition_body P s m rm node sg') (keep_step sg')"
    using names t n by (intro ingest_definition_body_runs keep_step_wf [OF k] keep_step_mono(2) [OF k s]) (auto simp: list_all_iff)
qed

lemma push_subgraph_length: "push_subgraph name url sg = (s, sg') \<Longrightarrow> length (sg_subgraphs sg') = Suc (length (sg_subgraphs sg))"
proof -
  assume p: "push_subgraph name url sg = (s, sg')"
  obtain n sg2 u sg3 where i: "intern name sg = (n, sg2)" "intern url sg2 = (u, sg3)" by fastforce
  have "sg_subgraphs sg2 = sg_subgraphs sg" "sg_subgraphs sg3 = sg_subgraphs sg2"
    using intern_extends [OF i(1)] intern_extends [OF i(2)] by auto
  with p i show ?thesis by (auto simp: push_subgraph_def push_return_idx_def)
qed

lemma ingest_subgraph_runs:
  assumes wf: "wf_store sg" and t: "t \<Longrightarrow> document_ok P document"
  shows "runs t (ingest_subgraph P document name url sg)
    (\<lambda>sg'. wf_step sg sg' \<and> length (sg_subgraphs sg') = Suc (length (sg_subgraphs sg)))"
proof -
  obtain s sg1 where 1: "push_subgraph name url sg = (s, sg1)" by fastforce
  obtain m errors where m: "ingest_directive_definitions P document = (m, errors)" by fastforce
  define rm where "rm = ingest_schema_definition document"
  define nodes where "nodes = List.map_filter type_of_definition document"
  have s1: "wf_step sg sg1" "s = length (sg_subgraphs sg)" "subgraph_ok sg1 s" using push_subgraph_step [OF wf 1] by simp_all
  have len: "length (sg_subgraphs sg1) = Suc s" using push_subgraph_length [OF 1] s1(2) by simp
  have ok: "t \<Longrightarrow> list_all (type_node_ok P (declared_names nodes)) nodes"
    using t by (simp add: document_ok_def nodes_def Let_def)
  define Q where "Q = (\<lambda>sg'. top_step s sg1 sg')"
  have sub: "Q sg' \<Longrightarrow> wf_store sg' \<and> subgraph_ok sg' s \<and> length (sg_subgraphs sg') = Suc s" for sg'
    using len by (auto simp: Q_def top_step_def wf_step_def subgraph_ok_def)
  have keep: "Q a \<Longrightarrow> keep_step a b \<Longrightarrow> Q b" for a b using keep_step_top top_step_trans by (auto simp: Q_def)
  have errs: "runs t (foldM (push_ingestion_diagnostic s) errors sg1) Q"
  proof (rule runs_foldM)
    show "Q sg1" using s1(1) by (simp add: Q_def keep_step_top keep_step_refl wf_step_def)
    show "runs t (push_ingestion_diagnostic s x sg') Q" if "Q sg'" for x sg'
      using sub [OF that] by (intro runs_mono [OF push_ingestion_diagnostic_runs keep [OF that site_step_keep]]) simp_all
  qed
  have top: "runs t (ingest_top_level_definitions P s document m rm sg2)
      (\<lambda>sg3. Q sg3 \<and> (\<forall>name \<in> declared_names nodes. declares sg3 s name))" if "Q sg2" for sg2
  proof (rule runs_mono [OF ingest_top_level_definitions_runs [OF _ _ nodes_def ok]])
    show "wf_store sg2" "length (sg_subgraphs sg2) = Suc s" using sub [OF that] by simp_all
  qed (use that top_step_trans in \<open>unfold Q_def, blast+\<close>)
  have bodies: "runs t (ingest_definition_bodies P s document m rm sg3) Q"
    if "Q sg3" "\<forall>name \<in> declared_names nodes. declares sg3 s name" for sg3
    using sub [OF that(1)] that(2) by (intro runs_mono [OF ingest_definition_bodies_runs [OF _ _ nodes_def ok] keep [OF that(1)]]) auto
  have nested: "runs t (ingest_nested_key_fields s sg4) Q" if "Q sg4" for sg4
    using sub [OF that] by (intro runs_mono [OF ingest_nested_key_fields_runs keep [OF that]]) auto
  have final: "Q (fold (insert_composed_directive s) names sg5)" if "Q sg5" for names sg5
    using that
  proof (induction names arbitrary: sg5)
    case (Cons n names)
    have "Q (insert_composed_directive s n sg5)"
      using sub [OF Cons.prems] by (intro keep [OF Cons.prems site_step_keep] insert_interned_site(2)) simp
    then show ?case using Cons.IH by simp
  qed simp
  have "runs t (ingest_subgraph P document name url sg) Q"
    unfolding ingest_subgraph_def 1 m Let_def prod.case rm_def [symmetric]
    by (rule runs_bind [OF errs], rule runs_bind [OF top], assumption, rule runs_bind [OF bodies], blast, blast,
        rule runs_bind [OF nested], assumption, simp add: final)
  then show ?thesis
  proof (rule runs_mono)
    fix sg' assume "Q sg'"
    then have "wf_step sg1 sg'" by (simp add: Q_def top_step_def)
    then have "wf_step sg sg'" by (rule wf_step_trans [OF s1(1)])
    moreover have "length (sg_subgraphs sg') = Suc s" using sub [OF \<open>Q sg'\<close>] by blast
    ultimately show "wf_step sg sg' \<and> length (sg_subgraphs sg') = Suc (length (sg_subgraphs sg))" by (simp only: s1(2) simp_thms)
  qed
qed

text \<open>C16. Ingestion keeps the invariant of the store: after \<open>ingest_subgraph\<close> returns, every id in every
  table points into its table, the ordered maps are ordered, the strings are distinct, the definitions
  are sorted by subgraph and the keys by definition; the tables of strings and definitions were only
  appended to, and one subgraph was added.
\<close>

theorem ingest_subgraph_invariant:
  assumes "wf_store sg" and "ingest_subgraph P document name url sg = Some sg'"
  shows "wf_store sg' \<and> extends sg sg' \<and> length (sg_subgraphs sg') = Suc (length (sg_subgraphs sg))"
  using ingest_subgraph_runs [OF assms(1), of False P document name url] assms(2) by (simp add: wf_step_def)

theorem ingest_subgraph_invariant_witness:
  "\<exists>sg'. ingest_subgraph example_parser products_document ''products'' ''http://products'' subgraphs_default = Some sg'
     \<and> wf_store sg' \<and> extends subgraphs_default sg' \<and> length (sg_subgraphs sg') = 1"
proof -
  have "map_option (\<lambda>sg. length (sg_subgraphs sg))
      (ingest_subgraph example_parser products_document ''products'' ''http://products'' subgraphs_default) = Some 1"
    by code_simp
  then show ?thesis
    using ingest_subgraph_invariant [OF wf_store_default] by auto
qed

text \<open>C17. Ingestion never panics on a document whose values convert to subgraph values, whose selection
  sets use no variables, and whose \<open>implements\<close> clauses and unions name types that the document
  defines: it returns a store that satisfies the invariant.
\<close>

theorem ingest_subgraph_total:
  assumes "wf_store sg" and "document_ok P document"
  shows "\<exists>sg'. ingest_subgraph P document name url sg = Some sg' \<and> wf_store sg'"
  using ingest_subgraph_runs [OF assms(1), of True P document name url] assms(2) by (auto simp: runs_total wf_step_def)

theorem ingest_subgraph_total_witness:
  "document_ok example_parser products_document \<and>
   (\<exists>sg'. ingest_subgraph example_parser products_document ''products'' ''http://products'' subgraphs_default = Some sg' \<and> wf_store sg')"
proof -
  have "document_ok example_parser products_document" by code_simp
  then show ?thesis using ingest_subgraph_total [OF wf_store_default] by blast
qed

end
