(* ===== verification/Composition_Correct.thy ===== *)
theory Composition_Correct
  imports Composition Composition_Steps Validate_Steps Ingest_Invariant
begin

text \<open>
  The composition of a well-formed store: what \<open>compose\<close> hands to the emission, and that it returns.
\<close>

definition result_ok :: "Subgraphs \<Rightarrow> CompositionIr option \<times> Diagnostics \<Rightarrow> bool" where
  "result_ok sg r \<longleftrightarrow> (case fst r of
     None \<Rightarrow> any_fatal (snd r)
   | Some ir \<Rightarrow> ir_wf sg ir \<and> ir_query_type ir \<noteq> None \<and> \<not> any_fatal (snd r))"

lemma compose_ir_runs:
  assumes wf: "wf_store sg" and t: "t \<Longrightarrow> selections_checkable sg" "t \<Longrightarrow> enums_mergeable sg"
  shows "runs t (compose_ir sg) (result_ok sg)"
  unfolding compose_ir_def
proof (rule runs_if)
  show "runs t (Some (None, push_fatal no_graphs_message [])) (result_ok sg)"
    by (simp add: result_ok_def push_fatal_def any_fatal_def)
  show "runs t (do {
        context \<leftarrow> context_new sg [];
        context1 \<leftarrow> validate sg context;
        if any_fatal (ctx_diagnostics context1)
        then Some (None, ctx_diagnostics context1)
        else do {
          context2 \<leftarrow> compose_subgraphs sg context1;
          if any_fatal (ctx_diagnostics context2)
          then Some (None, ctx_diagnostics context2)
          else Some (Some (into_ir context2), ctx_diagnostics context2) } }) (result_ok sg)"
  proof (rule runs_bind [OF context_new_runs [OF wf]], rule runs_bind [OF validate_runs [OF wf t(1)]], assumption, rule runs_if)
    fix ctx ctx1 assume "ctx_step sg \<lparr>ctx_diagnostics = emit_ingestion_diagnostics sg [], ctx_ir = ir_default\<rparr> ctx" and 1: "report_step ctx ctx1"
    then have ir: "ir_wf sg (ctx_ir ctx1)" using ctx_step_wf by (auto simp: report_step_def)
    show "any_fatal (ctx_diagnostics ctx1) \<Longrightarrow> runs t (Some (None, ctx_diagnostics ctx1)) (result_ok sg)"
      by (simp add: result_ok_def)
    show "runs t (do { context2 \<leftarrow> compose_subgraphs sg ctx1;
          if any_fatal (ctx_diagnostics context2)
          then Some (None, ctx_diagnostics context2)
          else Some (Some (into_ir context2), ctx_diagnostics context2) }) (result_ok sg)"
      by (rule runs_bind [OF compose_subgraphs_runs [OF wf ir t(2)]], assumption)
        (auto simp: result_ok_def into_ir_def intro: ctx_step_wf)
  qed
qed

lemma ingest_all_runs:
  assumes "wf_store sg" and "t \<Longrightarrow> \<forall>(document, _) \<in> set documents. document_ok P document"
  shows "runs t (ingest_all P documents sg) (\<lambda>sg'. wf_store sg' \<and> length (sg_subgraphs sg') = length (sg_subgraphs sg) + length documents)"
  using assms
proof (induction documents arbitrary: sg)
  case (Cons d documents)
  obtain doc name url where d: "d = (doc, name, url)" by (cases d)
  have "runs t (ingest_subgraph P doc name url sg) (\<lambda>sg'. wf_store sg' \<and> length (sg_subgraphs sg') = Suc (length (sg_subgraphs sg)))"
    using ingest_subgraph_runs [OF Cons.prems(1), of t P doc name url] Cons.prems(2) by (auto simp: d wf_step_def elim!: runs_mono)
  then show ?case
    unfolding ingest_all_def foldM.simps d prod.case
  proof (rule runs_bind)
    fix sg' assume 1: "wf_store sg' \<and> length (sg_subgraphs sg') = Suc (length (sg_subgraphs sg))"
    show "runs t (foldM (\<lambda>(document, name, url). ingest_subgraph P document name url) documents sg')
        (\<lambda>sg''. wf_store sg'' \<and> length (sg_subgraphs sg'') = length (sg_subgraphs sg) + length ((doc, name, url) # documents))"
      by (rule runs_mono [OF Cons.IH [unfolded ingest_all_def]]) (use 1 Cons.prems(2) in auto)
  qed
qed (simp add: ingest_all_def)

subsection \<open>Stores to evaluate on\<close>

definition example_store :: "Subgraphs panicking" where
  "example_store = ingest_all example_parser example_documents subgraphs_default"

lemma enums_mergeable_without_enums:
  "\<forall>d \<in> set (ds_definitions (sg_definitions sg)). d_kind d \<noteq> Enum \<Longrightarrow> enums_mergeable sg"
  by (auto simp: enums_mergeable_def enum_group_ok_def def_kind_def walk_definition_def split: list.split dest: vec_index_mem)

lemma selections_checkable_without_selections:
  "dr_requires (sg_directives sg) = [] \<Longrightarrow> dr_provides (sg_directives sg) = [] \<Longrightarrow> dr_authorized (sg_directives sg) = [] \<Longrightarrow>
   selections_checkable sg"
  by (simp add: selections_checkable_def field_selections_checkable_def requires_def provides_def authorized_def flatten_option_def)

lemma example_store_facts:
  "map_option (\<lambda>sg. (length (sg_subgraphs sg), \<forall>d \<in> set (ds_definitions (sg_definitions sg)). d_kind d \<noteq> Enum,
     dr_requires (sg_directives sg) = [] \<and> dr_provides (sg_directives sg) = [] \<and> dr_authorized (sg_directives sg) = [])) example_store
   = Some (2, True, True)"
  by code_simp

lemma example_fields_evaluated:
  "map_option (\<lambda>sg. (length (iter_all_fields sg), dr_override (sg_directives sg) = [],
     map (\<lambda>f. def_subgraph_id sg (parent_definition f))
       (filter (\<lambda>f. field_directives f \<notin> dr_external (sg_directives sg) \<and> \<not> selected_by_key sg f) (iter_all_fields sg)))) example_store
   = Some (6, True, [Some 0, Some 0, Some 0, Some 1])"
  by code_simp

text \<open>An enum and its value, both with a directive that is to be composed.\<close>

definition marked_enum_documents :: "(ServiceDocument \<times> string \<times> string) list" where
  "marked_enum_documents =
     [([Schema_Definition \<lparr>sd_directives = [directive_node ''composeDirective'' [(''name'', Const_String ''@mark'')]],
          sd_query = None, sd_mutation = None, sd_subscription = None\<rparr>,
        type_node ''Color'' [directive_node ''mark'' []] (Ast_Enum [\<lparr>evd_value = ''RED'', evd_directives = [directive_node ''mark'' []]\<rparr>])],
       ''paints'', ''http://paints'')]"

lemma marked_enum_evaluated:
  "map_option (\<lambda>sg. (dr_composed_directive_instances (sg_directives sg), map d_directives (ds_definitions (sg_definitions sg))))
     (ingest_all example_parser marked_enum_documents subgraphs_default)
   = Some ([(1, 9, []), (0, 9, [])], [0])"
  by code_simp

text \<open>Two subgraphs that share an enum.\<close>

definition enum_node :: "string \<Rightarrow> ast_EnumValueDefinition" where
  "enum_node v = \<lparr>evd_value = v, evd_directives = []\<rparr>"

definition paint_documents :: "(ServiceDocument \<times> string \<times> string) list" where
  "paint_documents =
     [([type_node ''Query'' [] (Ast_Object [] [field_node ''wall'' (Type_Named ''Color'' True)]),
        type_node ''Color'' [] (Ast_Enum [enum_node ''RED'', enum_node ''GREEN''])], ''walls'', ''http://walls''),
      ([type_node ''Query'' [] (Ast_Object [] [field_node ''door'' (Type_Named ''Color'' True)]),
        type_node ''Color'' [] (Ast_Enum [enum_node ''GREEN'', enum_node ''BLUE''])], ''doors'', ''http://doors'')]"

definition paint_store :: "Subgraphs panicking" where
  "paint_store = ingest_all example_parser paint_documents subgraphs_default"

lemma paint_store_facts:
  "map_option (\<lambda>sg. ((sg_enums sg, length (sg_strings sg), length (sg_subgraphs sg), length (ds_definitions (sg_definitions sg))),
      (def_name sg 1, used_in_input sg 8, used_in_output sg 8, map (as_str sg) [9, 10, 14]))) paint_store
   = Some (([((1, 9), 2), ((1, 10), 3), ((3, 10), 7), ((3, 14), 8)], 16, 2, 4), (Some 8, False, True, map Some [''RED'', ''GREEN'', ''BLUE'']))"
  by code_simp

lemma paint_store_values:
  assumes "paint_store = Some sg"
  shows "sg_enums sg = [((1, 9), 2), ((1, 10), 3), ((3, 10), 7), ((3, 14), 8)]" "length (sg_strings sg) = 16" "length (sg_subgraphs sg) = 2"
    "length (ds_definitions (sg_definitions sg)) = 4" "def_name sg 1 = Some 8" "\<not> used_in_input sg 8" "used_in_output sg 8"
    "map (as_str sg) [9, 10, 14] = map Some [''RED'', ''GREEN'', ''BLUE'']"
  using paint_store_facts by (simp_all only: assms option.map option.inject prod.inject) simp_all

lemma paint_store_wf: "paint_store = Some sg \<Longrightarrow> wf_store sg"
  using ingest_all_runs [OF wf_store_default, of False paint_documents example_parser] by (simp add: paint_store_def)

lemma paint_store_merged:
  assumes "paint_store = Some sg"
  shows "merged_enum_values sg 1 [1, 3] 8 = [9, 10, 14]" and "value_names sg 1 = [9, 10]" and "value_names sg 3 = [10, 14]"
proof -
  have "store_bounded sg" using paint_store_values [OF assms] by (simp add: store_bounded_def usize_MAX_def)
  then have "value_names sg d = map enum_value_name (map (\<lambda>((e, v), i). (e, v, i)) (filter (\<lambda>((e, _), _). e = d) (sg_enums sg)))" for d
    using enum_values_filter [OF paint_store_wf [OF assms]] by (simp add: value_names_def)
  then show "value_names sg 1 = [9, 10]" "value_names sg 3 = [10, 14]" using paint_store_values(1) [OF assms] by simp_all
  then have "(\<Union>d \<in> set [1, 3]. set (value_names sg d)) = set [9, 10, 14]" by auto
  then have "union_values sg [1, 3] = [9, 10, 14]" unfolding union_values_def by (simp only: sorted_list_of_set_sort_remdups) simp
  then show "merged_enum_values sg 1 [1, 3] 8 = [9, 10, 14]"
    using paint_store_values(6,7) [OF assms] by (simp add: merged_enum_values_def)
qed

lemma paint_store_more:
  "map_option (\<lambda>sg. (map fst (filter (\<lambda>f. parent_definition f = 2) (iter_all_fields sg)), definition_groups sg,
      mapM (\<lambda>(_, s). as_str sg (s_name s)) (iter_subgraphs sg))) paint_store
   = Some ([FieldId 2 15], [[], [1, 3]], Some [''walls'', ''doors''])"
  by code_simp

lemma paint_store_more_values:
  assumes "paint_store = Some sg"
  shows "map fst (filter (\<lambda>f. parent_definition f = 2) (iter_all_fields sg)) = [FieldId 2 15]"
    "definition_groups sg = [[], [1, 3]]"
    "mapM (\<lambda>(_, s). as_str sg (s_name s)) (iter_subgraphs sg) = Some [''walls'', ''doors'']"
  using paint_store_more by (simp_all only: assms option.map option.inject prod.inject)

lemma paint_store_bounded: "paint_store = Some sg \<Longrightarrow> store_bounded sg"
  using paint_store_values [of sg] by (simp add: store_bounded_def usize_MAX_def)

lemma paint_store_defined: "\<exists>sg. paint_store = Some sg"
  using paint_store_facts by fastforce

subsection \<open>Properties\<close>

text \<open>C18. Ten lookups of the store search an ordered table, by a range of a map or by a binary search: the fields of a
  definition, the arguments of a field, the values of an enum, the members of a union, the implementers
  of an interface, the keys of an entity, the definitions of a subgraph, the tags, policies and scopes
  of a directive site.  On a well-formed store with at most \<open>usize::MAX\<close> strings, subgraphs and definitions each of them gives
  exactly the entries a scan of the whole table would give, in the order of the table.
\<close>

theorem store_lookups_are_filters:
  assumes "wf_store sg" and "store_bounded sg"
  shows "def_fields sg d = filter (\<lambda>f. parent_definition f = d) (iter_all_fields sg)
    \<and> field_arguments sg (FieldId d n, tuple) =
        filter (\<lambda>a. argument_parent (fst a) = d \<and> argument_field (fst a) = n) (iter_all_field_arguments sg)
    \<and> enum_values sg d = map (\<lambda>((e, v), i). (e, v, i)) (filter (\<lambda>((e, _), _). e = d) (sg_enums sg))
    \<and> iter_union_members sg d = map snd (filter (\<lambda>(u, _). u = d) (sg_unions sg))
    \<and> iter_implementers_for_interface sg n = map snd (filter (\<lambda>(i, _). i = n) (ds_interface_impls (sg_definitions sg)))
    \<and> entity_keys sg d = filter (\<lambda>k. fst (ks_keys (sg_keys sg) ! k) = d) [0..<length (ks_keys (sg_keys sg))]
    \<and> subgraph_definitions sg s =
        filter (\<lambda>d. d_subgraph_id (ds_definitions (sg_definitions sg) ! d) = s) [0..<length (ds_definitions (sg_definitions sg))]
    \<and> tags sg i = map snd (filter (\<lambda>(j, _). j = i) (dr_tags (sg_directives sg)))
    \<and> policies sg i = map snd (filter (\<lambda>(j, _). j = i) (dr_policies (sg_directives sg)))
    \<and> requires_scopes sg i = map snd (filter (\<lambda>(j, _). j = i) (dr_requires_scopes (sg_directives sg)))"
  by (intro conjI def_fields_filter field_arguments_filter enum_values_filter iter_union_members_filter iter_implementers_filter
      entity_keys_filter subgraph_definitions_filter tags_filter policies_scopes_filter assms)

theorem store_lookups_are_filters_witness:
  "\<exists>sg. paint_store = Some sg \<and> map fst (def_fields sg 2) = [FieldId 2 15] \<and> enum_values sg 3 = [(3, 10, 7), (3, 14, 8)]"
proof -
  obtain sg where sg: "paint_store = Some sg" using paint_store_defined by blast
  show ?thesis
    using store_lookups_are_filters [OF paint_store_wf [OF sg] paint_store_bounded [OF sg], of 2]
      store_lookups_are_filters [OF paint_store_wf [OF sg] paint_store_bounded [OF sg], of 3]
      sg paint_store_values(1) [OF sg] paint_store_more_values(1) [OF sg] by auto
qed

text \<open>C19. The composed directives of a directive site are searched in a table that is in the order of ingestion.  Let the
  directives of the site stand together in it and those after them belong to later sites.  Then the search yields
  all of them or none: all if the ones before belong to earlier sites, none if the last one before them belongs to a later
  site.  This is so for an enum with a composed directive that has a composed directive on one of its values, whose
  sites are later and are ingested first: the enum's own directives are lost, as in the store of the example.
\<close>

theorem composed_directives_lookup:
  assumes "dr_composed_directive_instances (sg_directives sg) = before @ own @ after"
    and "\<forall>e \<in> set own. fst e = i" and "\<forall>e \<in> set before. fst e \<noteq> i" and "\<forall>e \<in> set after. i < fst e"
  shows "iter_composed_directives sg i \<in> {map snd own, []}
    \<and> (list_all (\<lambda>e. fst e < i) before \<longrightarrow> iter_composed_directives sg i = map snd own)
    \<and> (before \<noteq> [] \<and> i < fst (last before) \<longrightarrow> iter_composed_directives sg i = [])"
  using composed_directives_block [OF assms] by (simp add: list_all_iff)

theorem composed_directives_lookup_witness:
  "\<exists>sg name args. ingest_all example_parser marked_enum_documents subgraphs_default = Some sg
     \<and> map d_directives (ds_definitions (sg_definitions sg)) = [0] \<and> (0, name, args) \<in> set (dr_composed_directive_instances (sg_directives sg))
     \<and> iter_composed_directives sg 0 = []"
proof -
  obtain sg where sg: "ingest_all example_parser marked_enum_documents subgraphs_default = Some sg"
    "dr_composed_directive_instances (sg_directives sg) = [(1, 9, []), (0, 9, [])]" "map d_directives (ds_definitions (sg_definitions sg)) = [0]"
    using marked_enum_evaluated by (cases "ingest_all example_parser marked_enum_documents subgraphs_default") auto
  then have "iter_composed_directives sg 0 = []"
    using composed_directives_lookup [of sg "[(1, 9, [])]" "[(0, 9, [])]" "[]" 0] by simp
  with sg show ?thesis by auto
qed

text \<open>C20. The walk over the definitions calls its body once with no definition and then once for every name of the index
  with a group of definitions.  No definition is in the groups twice.  The groups hold exactly the definitions
  that are not root types of their subgraph and that the index has under their name and subgraph, so of two definitions of one name
  in one subgraph only the one that was indexed.  Two definitions in the groups are in the same group exactly when they
  have the same name.
\<close>

theorem definition_groups_exact:
  assumes "wf_store sg"
  shows "iter_definition_groups sg f s = foldM f ([] # definition_groups sg) s
    \<and> distinct (concat (definition_groups sg))
    \<and> (\<forall>d. d \<in> set (concat (definition_groups sg)) \<longleftrightarrow>
        (\<exists>n u. def_name sg d = Some n \<and> def_subgraph_id sg d = Some u \<and> definition_by_name_id sg n u = Some d \<and> is_root_type sg u d = Some False))
    \<and> (\<forall>g \<in> set (definition_groups sg). \<forall>d \<in> set g. \<forall>d' \<in> set (concat (definition_groups sg)). d' \<in> set g \<longleftrightarrow> def_name sg d' = def_name sg d)"
  using definition_groups_member [OF assms] definition_groups_by_name [OF assms]
  by (intro conjI iter_definition_groups_eq definition_groups_distinct assms allI ballI) simp_all

theorem definition_groups_exact_witness:
  "\<exists>sg. paint_store = Some sg \<and> iter_definition_groups sg (\<lambda>g gs. Some (gs @ [g])) [] = Some [[], [], [1, 3]]"
proof -
  obtain sg where sg: "paint_store = Some sg" using paint_store_defined by blast
  show ?thesis
    using conjunct1 [OF definition_groups_exact [OF paint_store_wf [OF sg], of "\<lambda>g gs. Some (gs @ [g])" "[]"]] sg
    by (auto simp: paint_store_more_values(2) [OF sg])
qed

text \<open>C21. The check of the subgraph names adds no diagnostic exactly when every name is well-formed and no two
  names agree up to the case of ASCII letters.
\<close>

theorem subgraph_names_checked:
  assumes "mapM (\<lambda>(_, s). as_str sg (s_name s)) (iter_subgraphs sg) = Some names" and "validate_subgraph_names sg ctx = Some ctx'"
  shows "ctx_diagnostics ctx' = ctx_diagnostics ctx \<longleftrightarrow> list_all valid_name names \<and> distinct (map to_ascii_lowercase names)"
  using assms(2) validate_names_fold [OF assms(1) refl] by (fastforce simp: validate_subgraph_names_def)

theorem subgraph_names_checked_witness:
  "\<exists>sg ctx. paint_store = Some sg \<and> validate_subgraph_names sg \<lparr>ctx_diagnostics = [], ctx_ir = ir_default\<rparr> = Some ctx \<and> ctx_diagnostics ctx = []"
proof -
  obtain sg where sg: "paint_store = Some sg" using paint_store_defined by blast
  obtain ctx where ctx: "validate_subgraph_names sg \<lparr>ctx_diagnostics = [], ctx_ir = ir_default\<rparr> = Some ctx"
    using validate_subgraph_names_runs [OF paint_store_wf [OF sg], where t = True] by (auto simp: runs_total)
  have "list_all valid_name [''walls'', ''doors''] \<and> distinct (map to_ascii_lowercase [''walls'', ''doors''])" by code_simp
  then show ?thesis using subgraph_names_checked [OF paint_store_more_values(3) [OF sg] ctx] sg ctx by auto
qed

text \<open>C22. Merging the definitions of an enum returns, unless the enum is used both in input and in output
  position and another definition strictly extends the values of the first; it then adds exactly the
  values the usage asks for: the common values of an enum used as input, all values of an enum used as
  output, the values of the first definition if all definitions agree for an enum used as both, none
  otherwise.
\<close>

theorem enum_values_merged:
  assumes "wf_store sg" and "ir_wf sg (ctx_ir ctx)" and "def_ok sg first" and "\<forall>d \<in> set ds. def_ok sg d" and "def_name sg first = Some n"
    and "\<not> (used_in_input sg n \<and> used_in_output sg n \<and> (\<exists>d \<in> set ds. strict_prefix (value_names sg first) (value_names sg d)))"
  shows "\<exists>ctx'. merge_enum_definitions sg first ds ctx = Some ctx' \<and> ir_wf sg (ctx_ir ctx')
    \<and> values_pushed sg (merged_enum_values sg first ds n) ctx ctx'"
  using merge_enum_definitions_runs [OF assms(1-5), where t = True] assms(6) by (auto simp: runs_total intro: ctx_step_wf)

theorem enum_values_merged_witness:
  "\<exists>sg ctx'. paint_store = Some sg
     \<and> merge_enum_definitions sg 1 [1, 3] \<lparr>ctx_diagnostics = [], ctx_ir = ir_default\<rparr> = Some ctx'
     \<and> map (\<lambda>x. strings_resolve (ir_strings (ctx_ir ctx')) (ev_value x)) (ir_enum_values (ctx_ir ctx')) = map Some [''RED'', ''GREEN'', ''BLUE'']"
proof -
  obtain sg where sg: "paint_store = Some sg" using paint_store_facts by fastforce
  let ?ctx = "\<lparr>ctx_diagnostics = [], ctx_ir = ir_default\<rparr> :: Context"
  have "\<exists>ctx'. merge_enum_definitions sg 1 [1, 3] ?ctx = Some ctx' \<and> ir_wf sg (ctx_ir ctx')
      \<and> values_pushed sg (merged_enum_values sg 1 [1, 3] 8) ?ctx ctx'"
    using paint_store_values [OF sg] by (intro enum_values_merged paint_store_wf [OF sg]) (auto simp: def_ok_def ir_default_wf)
  then obtain ctx' where ctx': "merge_enum_definitions sg 1 [1, 3] ?ctx = Some ctx'" "values_pushed sg [9, 10, 14] ?ctx ctx'"
    by (auto simp: paint_store_merged(1) [OF sg, simplified])
  then have "map (\<lambda>x. strings_resolve (ir_strings (ctx_ir ctx')) (ev_value x)) (ir_enum_values (ctx_ir ctx')) = map (as_str sg) [9, 10, 14]"
    by (auto simp: values_pushed_def ir_default_def)
  then show ?thesis using sg ctx'(1) paint_store_values(8) [OF sg] by metis
qed

text \<open>C23. The subgraphs a composed field is resolvable in.  The list is empty for a shareable object, and if one
  of the field's definitions has an entry in the table of \<open>@override\<close>.  Otherwise it has, in order, the subgraph of every
  definition of the field that is not in the set of external sites and that is not part of a key: no key
  in the table of keys belongs to its parent and selects it by name, and it is not among the nested key fields.
\<close>

theorem resolvable_in_exact:
  assumes "wf_store sg" and "\<forall>f \<in> set fs. field_ok sg f"
  shows "\<exists>xs. resolvable_in sg fs b = Some xs \<and>
    (if b \<or> (\<exists>f \<in> set fs. field_directives f \<in> fst ` set (dr_override (sg_directives sg))) then xs = []
     else list_all2 (\<lambda>f s. def_subgraph_id sg (parent_definition f) = Some s)
       (filter (\<lambda>f. field_directives f \<notin> dr_external (sg_directives sg) \<and> \<not> selected_by_key sg f) fs) xs)"
  by (rule resolvable_in_tables [OF assms])

theorem resolvable_in_exact_witness:
  "\<exists>sg. example_store = Some sg \<and> length (iter_all_fields sg) = 6 \<and> resolvable_in sg (iter_all_fields sg) False = Some [0, 0, 0, 1]"
proof -
  obtain sg where sg: "example_store = Some sg" "length (iter_all_fields sg) = 6" "dr_override (sg_directives sg) = []"
    "map (\<lambda>f. def_subgraph_id sg (parent_definition f))
       (filter (\<lambda>f. field_directives f \<notin> dr_external (sg_directives sg) \<and> \<not> selected_by_key sg f) (iter_all_fields sg)) = [Some 0, Some 0, Some 0, Some 1]"
    using example_fields_evaluated by (cases example_store) auto
  have wf: "wf_store sg" using ingest_all_runs [OF wf_store_default, of False example_documents example_parser] sg(1) by (simp add: runs_partial example_store_def)
  obtain xs where xs: "resolvable_in sg (iter_all_fields sg) False = Some xs" "list_all2 (\<lambda>f s. def_subgraph_id sg (parent_definition f) = Some s)
      (filter (\<lambda>f. field_directives f \<notin> dr_external (sg_directives sg) \<and> \<not> selected_by_key sg f) (iter_all_fields sg)) xs"
    using resolvable_in_exact [OF wf, of "iter_all_fields sg" False] by (auto simp: sg(3) field_ok_def iter_all_fields_def)
  have "map Some xs = [Some 0, Some 0, Some 0, Some 1]"
    using xs(2) unfolding sg(4) [symmetric] by (auto simp: list_all2_conv_all_nth intro!: nth_equalityI)
  then have "xs = [0, 0, 0, 1]" by (auto simp: map_eq_Cons_conv)
  with sg(1,2) xs(1) show ?thesis by blast
qed

text \<open>C24. The comparison of the values of two enum definitions panics exactly when the other definition strictly
  extends the expected values; otherwise it decides their equality.
\<close>

theorem enum_slices_match:
  "is_slice_match xs 0 ys = (if strict_prefix xs ys then None else Some (ys = xs))"
  by (simp add: is_slice_match_eq)

end
