(* ===== verification/Emit_Correct.thy ===== *)
theory Emit_Correct
  imports Emit_Graph Composition_Correct "HOL-Library.Code_Target_Nat"
begin

text \<open>
  The properties of the emission and of the whole of \<open>compose\<close>, from the documents to the federated graph.
\<close>

subsection \<open>A store to evaluate on\<close>

text \<open>One subgraph with one field.\<close>

definition mini_documents :: "(ServiceDocument \<times> string \<times> string) list" where
  "mini_documents = [([type_node ''Query'' [] (Ast_Object [] [field_node ''top'' (Type_Named ''String'' True)])], ''a'', ''b'')]"

definition mini_store :: "Subgraphs panicking" where
  "mini_store = ingest_all example_parser mini_documents subgraphs_default"

definition mini_ir :: "(Subgraphs \<times> CompositionIr \<times> Diagnostics) panicking" where
  "mini_ir = do {
     sg \<leftarrow> mini_store;
     (ir, ds) \<leftarrow> compose_ir sg;
     ir' \<leftarrow> ir;
     Some (sg, ir', ds) }"

definition mini_context :: "CompositionIr \<Rightarrow> EmitContext panicking" where
  "mini_context ir = do {
     query \<leftarrow> ir_query_type ir;
     Some (emit_context_new ir (ir_strings ir) (emit_initial_graph ir query)) }"

definition no_selections :: DelayedSelections where
  "no_selections = \<lparr>del_provides = [], del_requires = [], del_authorized = []\<rparr>"

lemma mini_evaluated:
  "map_option (\<lambda>(sg, ir, ds). (ds, length (ir_strings ir), map (\<lambda>f. as_str sg (f_field_name f)) (ir_fields ir),
      map_option (\<lambda>g. mapM (\<lambda>f. graph_str g (ff_name f)) (fg_fields g)) (emit_federated_graph sg ir),
      map_option (\<lambda>ctx. (map (\<lambda>f. type_emittable sg ctx (f_field_type f)) (ir_fields ir),
        map_option (\<lambda>(_, ctx'). map_option (map ff_name) (definition_fields (e_out ctx') (Fed_Object 0)))
          (emit_field_group sg (ir_fields ir) [] 0 1 (ir_fields ir) (no_selections, ctx)))) (mini_context ir))) mini_ir
   = Some ([], 6, [Some ''top''], Some (Some [''top'', ''__schema'', ''__type'']), Some ([True], Some (Some [6, 0, 1])))"
  by code_simp

lemma mini_facts:
  obtains sg ir g ctx ctx' del f where
    "mini_store = Some sg" "compose_ir sg = Some (Some ir, [])" "emit_federated_graph sg ir = Some g"
    "mapM (\<lambda>f. graph_str g (ff_name f)) (fg_fields g) = Some [''top'', ''__schema'', ''__type'']"
    "wf_store sg" "ir_wf sg ir" "ir_fields ir = [f]" "as_str sg (f_field_name f) = Some ''top''"
    "length (ir_strings ir) = 6" "mini_context ir = Some ctx" "type_emittable sg ctx (f_field_type f)"
    "emit_field_group sg (ir_fields ir) [] 0 1 (ir_fields ir) (no_selections, ctx) = Some (del, ctx')"
    "map_option (map ff_name) (definition_fields (e_out ctx') (Fed_Object 0)) = Some [6, 0, 1]"
proof -
  obtain sg ir ds where m: "mini_ir = Some (sg, ir, ds)" using mini_evaluated by (cases mini_ir) auto
  then have sg: "mini_store = Some sg" and c: "compose_ir sg = Some (Some ir, ds)" by (auto simp: mini_ir_def bind_eq_Some_conv)
  have wf: "wf_store sg" using ingest_all_runs [OF wf_store_default, of False mini_documents example_parser] sg by (simp add: mini_store_def)
  have ir: "ir_wf sg ir" using compose_ir_runs [OF wf, of False] c by (simp add: runs_partial result_ok_def)
  obtain f where f: "ir_fields ir = [f]" "as_str sg (f_field_name f) = Some ''top''" using mini_evaluated by (auto simp: m)
  show ?thesis using that [OF sg _ _ _ wf ir f] mini_evaluated c by (auto simp: m f)
qed

lemma mini_context_ok:
  assumes "ir_wf sg ir" and "mini_context ir = Some ctx"
  shows "emit_wf (ir_sizes sg ir) ctx" and "cache_ok sg ctx" and "ir_emitting ir (ir_sizes sg ir) ctx" and "e_strings_ir ctx = ir_strings ir"
proof -
  obtain q where q: "ir_query_type ir = Some q" "ctx = emit_context_new ir (ir_strings ir) (emit_initial_graph ir q)"
    using assms(2) by (auto simp: mini_context_def bind_eq_Some_conv)
  have d: "distinct (ir_strings ir)" using assms(1) by (simp add: ir_wf_def)
  note new = emit_context_new_ok [OF assms(1) q(1) prefix_order.refl d, folded q(2)]
  show "emit_wf (ir_sizes sg ir) ctx" "cache_ok sg ctx" "ir_emitting ir (ir_sizes sg ir) ctx" using new by simp_all
  show "e_strings_ir ctx = ir_strings ir" by (simp add: q(2) emit_context_new_def)
qed

subsection \<open>Properties\<close>

text \<open>C1. Whatever documents were ingested: if \<open>compose\<close> returns, then \<open>into_result\<close> gives either the
  diagnostics, one of them fatal, or a federated graph, and then no diagnostic is fatal, the graph has one
  subgraph for every document, and it is well-formed: every id points into its table, every range lies
  inside its table, the strings are distinct and the enum values are sorted by their enum.
\<close>

theorem compose_result:
  assumes "ingest_all P documents subgraphs_default = Some sg" and "compose sg = Some r"
  shows "case into_result r of
      Inl ds \<Rightarrow> ds = result_diagnostics r \<and> any_fatal ds
    | Inr g \<Rightarrow> graph_wf g \<and> length (fg_subgraphs g) = length documents \<and> \<not> any_fatal (result_diagnostics r)"
proof -
  have wf: "wf_store sg" and len: "length (sg_subgraphs sg) = length documents"
    using ingest_all_runs [OF wf_store_default, of False documents P] assms(1) by (auto simp: runs_partial subgraphs_default_def)
  obtain ir ds g where c: "compose_ir sg = Some (ir, ds)" "mapM_option (emit_federated_graph sg) ir = Some g" "r = \<lparr>federated_graph = g, result_diagnostics = ds\<rparr>"
    using assms(2) by (auto simp: compose_def bind_eq_Some_conv)
  have ok: "result_ok sg (ir, ds)" using compose_ir_runs [OF wf, of False] c(1) by (simp add: runs_partial)
  show ?thesis
  proof (cases ir)
    case None
    then show ?thesis using c ok by (simp add: into_result_def result_ok_def)
  next
    case (Some i)
    then obtain g' where g: "emit_federated_graph sg i = Some g'" "g = Some g'" using c(2) by (auto simp: bind_eq_Some_conv)
    have "emits sg i g'" using emit_federated_graph_runs [OF wf, of i] ok g(1) Some by (simp add: runs_partial result_ok_def)
    then show ?thesis using ok Some c(3) g(2) len by (simp add: into_result_def result_ok_def emits_def graph_sizes_def ir_sizes_def)
  qed
qed

theorem compose_result_witness:
  "\<exists>sg r g. ingest_all example_parser mini_documents subgraphs_default = Some sg \<and> compose sg = Some r \<and> into_result r = Inr g
     \<and> graph_wf g \<and> length (fg_subgraphs g) = 1 \<and> mapM (\<lambda>f. graph_str g (ff_name f)) (fg_fields g) = Some [''top'', ''__schema'', ''__type'']"
proof -
  obtain sg ir g where m: "mini_store = Some sg" "compose_ir sg = Some (Some ir, [])" "emit_federated_graph sg ir = Some g"
    "mapM (\<lambda>f. graph_str g (ff_name f)) (fg_fields g) = Some [''top'', ''__schema'', ''__type'']" by (rule mini_facts)
  have sg: "ingest_all example_parser mini_documents subgraphs_default = Some sg" using m(1) by (simp add: mini_store_def)
  have c: "compose sg = Some \<lparr>federated_graph = Some g, result_diagnostics = []\<rparr>" by (simp add: compose_def m)
  show ?thesis using compose_result [OF sg c] sg c m(4) by (auto simp: into_result_def mini_documents_def)
qed

text \<open>C2. The emission of a well-formed representation, if it returns, gives a well-formed graph that has the
  type definitions, enum values and input objects of the representation, as many objects, interfaces and
  unions, one directive and one input value for each of the representation, one subgraph for each of the
  store, and whose strings extend those of the representation.
\<close>

theorem emission_refines_ir:
  assumes "wf_store sg" and "ir_wf sg ir" and "emit_federated_graph sg ir = Some g"
  shows "graph_wf g \<and> prefix (ir_strings ir) (fg_strings g) \<and> fg_type_definitions g = ir_type_definitions ir
    \<and> fg_enum_values g = ir_enum_values ir \<and> fg_input_objects g = ir_input_objects ir
    \<and> length (fg_objects g) = length (ir_objects ir) \<and> length (fg_interfaces g) = length (ir_interfaces ir)
    \<and> length (fg_unions g) = length (ir_unions ir) \<and> length (fg_directives g) = length (ir_directives ir)
    \<and> length (fg_input_value_definitions g) = length (ir_input_value_definitions ir) \<and> length (fg_subgraphs g) = length (sg_subgraphs sg)"
  using emit_federated_graph_runs [OF assms(1,2)] assms(3) by (auto simp: runs_partial emits_def graph_sizes_def ir_sizes_def)

theorem emission_refines_ir_witness:
  "\<exists>sg ir g. mini_store = Some sg \<and> compose_ir sg = Some (Some ir, []) \<and> emit_federated_graph sg ir = Some g
     \<and> graph_wf g \<and> fg_type_definitions g = ir_type_definitions ir"
proof -
  obtain sg ir g where m: "mini_store = Some sg" "compose_ir sg = Some (Some ir, [])" "emit_federated_graph sg ir = Some g" "wf_store sg" "ir_wf sg ir"
    by (rule mini_facts)
  show ?thesis using emission_refines_ir [OF m(4,5,3)] m(1-3) by blast
qed

text \<open>C5. The emission of a field type returns exactly when the type's name is registered as a definition and
  the type has at most 21 list wrappers; it then returns a type with the definition of that name, the same
  wrappers and the same requiredness.  Otherwise it panics.
\<close>

theorem field_type_emission:
  assumes "wf_store sg" and "emit_wf z ctx" and "cache_ok sg ctx" and "type_ok sg i"
  shows "if type_emittable sg ctx i then \<exists>ty ctx'. insert_field_type sg i ctx = Some (ty, ctx') \<and> type_emitted sg ctx' i ty \<and> gtype_ok (graph_of ctx') ty
    else insert_field_type sg i ctx = None"
proof (cases "type_emittable sg ctx i")
  case True
  then show ?thesis using insert_field_type_runs [OF assms(1,2,4,3), where t = True] by (auto simp: runs_total)
next
  case False
  have "insert_field_type sg i ctx = None"
  proof (rule ccontr)
    assume "insert_field_type sg i ctx \<noteq> None"
    then obtain ty ctx' where ty: "insert_field_type sg i ctx = Some (ty, ctx')" by auto
    have "type_emitted sg ctx' i ty \<and> type_step z ctx ctx'" using insert_field_type_runs [OF assms(1,2,4,3), where t = False] ty by (simp add: runs_partial)
    then show False using type_emitted_emittable [OF type_step_step assms(2)] False by blast
  qed
  with False show ?thesis by simp
qed

theorem field_type_emission_witness:
  "\<exists>sg ir ctx f ty ctx'. mini_store = Some sg \<and> compose_ir sg = Some (Some ir, []) \<and> mini_context ir = Some ctx \<and> ir_fields ir = [f]
     \<and> insert_field_type sg (f_field_type f) ctx = Some (ty, ctx') \<and> type_emitted sg ctx' (f_field_type f) ty"
proof -
  obtain sg ir ctx f where m: "mini_store = Some sg" "compose_ir sg = Some (Some ir, [])" "wf_store sg" "ir_wf sg ir" "ir_fields ir = [f]"
    "mini_context ir = Some ctx" "type_emittable sg ctx (f_field_type f)" by (rule mini_facts)
  have "holds ir (Item_Field f)" by (simp add: m(5))
  then have "item_ok sg ir (Item_Field f)" using m(4) unfolding ir_wf_def by blast
  then have t: "type_ok sg (f_field_type f)" by (simp add: field_ir_ok_def)
  show ?thesis using field_type_emission [OF m(3) mini_context_ok(1,2) [OF m(4,6)] t] m by auto
qed

text \<open>C4. The fields of a definition.  When the group of its fields is emitted, the definition gets, in a range of
  its own, one field for every field of the group and, for an object, for every field of an entity interface
  it implements that was added to it; the fields are in the order of their names, and each has the name, the type,
  the arguments, the overrides, the directives and the subgraphs of its origin.  The query type gets two more
  fields for introspection.
\<close>

theorem field_group_emission:
  assumes "wf_store sg" and "n_subgraphs z = length (sg_subgraphs sg)" and "ir_emitting ir z ctx" and "emit_wf z ctx" and "cache_ok sg ctx"
    and "\<forall>f \<in> set all. field_ir_ok sg ir f" and "set fs \<subseteq> set all" and "gstr_ok (graph_of ctx) n1" and "gstr_ok (graph_of ctx) n2"
    and "delayed_ok sg z ctx del" and "emit_field_group sg all from_entity n1 n2 fs (del, ctx) = Some (del', ctx')"
  shows "\<exists>d more gs names xs. map_option f_parent_definition (vec_index fs 0) = Some d \<and> entity_interface_fields all from_entity d ctx = Some more
    \<and> mset gs = mset (fs @ more) \<and> mapM (\<lambda>f. as_str sg (f_field_name f)) gs = Some names \<and> sorted names
    \<and> list_all2 (field_emitted sg ctx') gs xs \<and> definition_fields (e_out ctx') d = Some (xs @ query_fields (e_out ctx) d n1 n2)"
  by (rule emit_field_group_exact [OF assms(1-5,10,6-9,11)])

theorem field_group_emission_witness:
  "\<exists>sg ir ctx del ctx' d gs xs. mini_store = Some sg \<and> compose_ir sg = Some (Some ir, []) \<and> mini_context ir = Some ctx
     \<and> emit_field_group sg (ir_fields ir) [] 0 1 (ir_fields ir) (no_selections, ctx) = Some (del, ctx')
     \<and> list_all2 (field_emitted sg ctx') gs xs \<and> definition_fields (e_out ctx') d = Some (xs @ query_fields (e_out ctx) d 0 1)"
proof -
  obtain sg ir ctx f del ctx' where m: "mini_store = Some sg" "compose_ir sg = Some (Some ir, [])" "wf_store sg" "ir_wf sg ir" "length (ir_strings ir) = 6"
    "mini_context ir = Some ctx" "emit_field_group sg (ir_fields ir) [] 0 1 (ir_fields ir) (no_selections, ctx) = Some (del, ctx')" by (rule mini_facts)
  note c = mini_context_ok [OF m(4,6)]
  have f: "\<forall>f \<in> set (ir_fields ir). field_ir_ok sg ir f"
  proof
    fix f assume "f \<in> set (ir_fields ir)"
    then have "holds ir (Item_Field f)" by simp
    then have "item_ok sg ir (Item_Field f)" using m(4) unfolding ir_wf_def by blast
    then show "field_ir_ok sg ir f" by simp
  qed
  have "n_subgraphs (ir_sizes sg ir) = length (sg_subgraphs sg)" "gstr_ok (graph_of ctx) 0" "gstr_ok (graph_of ctx) 1" "delayed_ok sg (ir_sizes sg ir) ctx no_selections"
    using m(5) c(4) by (simp_all add: ir_sizes_def gstr_ok_def delayed_ok_def no_selections_def)
  from field_group_emission [OF m(3) this(1) c(3,1,2) f order.refl this(2,3,4) m(7)] show ?thesis using m by blast
qed

text \<open>C3. When composition does not panic.  On a store that was built by ingestion, \<open>compose_ir\<close> returns, with the
  representation or with a fatal diagnostic, if the store satisfies two conditions.  The first is on the selections: a nested
  selection below a field that exists is on a field whose type is defined in the subgraph, what \<open>@provides\<close>
  selects is on a field whose type is defined in the subgraph, and the arguments of \<open>@authorized\<close> have no inline
  fragment; selections of missing fields are allowed, they are reported.  The second is that no enum that is used as input and
  output has a definition that strictly extends the values of the first.  The representation is well-formed and has a query type.
\<close>

theorem compose_ir_returns:
  assumes "ingest_all P documents subgraphs_default = Some sg" and "selections_checkable sg" and "enums_mergeable sg"
  shows "\<exists>ir ds. compose_ir sg = Some (ir, ds) \<and> (ir = None \<longleftrightarrow> any_fatal ds)
    \<and> (case ir of None \<Rightarrow> True | Some i \<Rightarrow> ir_wf sg i \<and> ir_query_type i \<noteq> None)"
proof -
  have "wf_store sg" using ingest_all_runs [OF wf_store_default, of False documents P] assms(1) by (simp add: runs_partial)
  then obtain ir ds where "compose_ir sg = Some (ir, ds)" "result_ok sg (ir, ds)"
    using compose_ir_runs [of sg True] assms(2,3) by (auto simp: runs_total)
  then show ?thesis by (cases ir) (auto simp: result_ok_def)
qed

theorem compose_ir_returns_witness:
  "\<exists>sg ir ds. ingest_all example_parser example_documents subgraphs_default = Some sg \<and> length (sg_subgraphs sg) = 2
     \<and> compose_ir sg = Some (ir, ds) \<and> (ir = None \<longleftrightarrow> any_fatal ds)"
proof -
  obtain sg where sg: "example_store = Some sg" "length (sg_subgraphs sg) = 2" "\<forall>d \<in> set (ds_definitions (sg_definitions sg)). d_kind d \<noteq> Enum"
    "dr_requires (sg_directives sg) = []" "dr_provides (sg_directives sg) = []" "dr_authorized (sg_directives sg) = []"
    using example_store_facts by (cases example_store) auto
  have i: "ingest_all example_parser example_documents subgraphs_default = Some sg" using sg(1) by (simp add: example_store_def)
  show ?thesis
    using compose_ir_returns [OF i selections_checkable_without_selections [OF sg(4-6)] enums_mergeable_without_enums [OF sg(3)]] i sg(2) by blast
qed



text \<open>C7. The enum value with a name is found by binary search on the enum and then by a scan of its values.  On
  values that are sorted by enum, as in every well-formed graph, this finds the same value as a scan of all
  values.
\<close>

theorem enum_value_lookup:
  assumes "sorted (map ev_enum_id (fg_enum_values g))"
  shows "find_enum_value_by_name_id g e n = find (\<lambda>(_, v). ev_enum_id v = e \<and> ev_value v = n) (enumerate 0 (fg_enum_values g))"
  using assms by (simp add: find_enum_value_by_name_id_def iter_enum_values_def sorted_entries_filter find_filter case_prod_unfold)

theorem enum_value_lookup_witness:
  "let g = federated_graph_default\<lparr>fg_enum_values := map (\<lambda>(e, n). \<lparr>ev_enum_id = e, ev_value = n, ev_composed_directives = NO_DIRECTIVES, ev_description = None\<rparr>)
        [(1, 7), (1, 8), (4, 7), (4, 9)]\<rparr>
   in map_option fst (find_enum_value_by_name_id g 4 7) = Some 2 \<and> find_enum_value_by_name_id g 4 8 = None"
  by (simp add: Let_def enum_value_lookup)

end
