(* ===== verification/Check_Wrapping.thy ===== *)
theory Check_Wrapping
  imports Field_Types "HOL-Library.Word"
begin

text \<open>
  The wrapping types of the operation checks (\<open>src/engine/crates/operation-checks/src/schema/wrapping_types.rs\<close>):
  a \<open>u64\<close> with the number of list wrappers in the 6 highest bits, whether the innermost type is required in
  the next one, and one bit for every list wrapper, the outermost in the lowest bit.  The lemmas relate the word to
  the list of wrappers and the flag it denotes, and the comparison of two words to the order on those.
\<close>

unbundle bit_operations_syntax

subsection \<open>Model\<close>

datatype ListType = LT_List | LT_NonNullList

type_synonym WrappingTypes = "64 word"

definition LIST_BITS_COUNT :: nat where
  "LIST_BITS_COUNT = 57"

definition NONNULL_BIT_OFFSET :: nat where
  "NONNULL_BIT_OFFSET = LIST_BITS_COUNT"

definition NONNULL_BIT_MASK :: "64 word" where
  "NONNULL_BIT_MASK = push_bit NONNULL_BIT_OFFSET 1"

definition LIST_COUNT_BITS_OFFSET :: nat where
  "LIST_COUNT_BITS_OFFSET = NONNULL_BIT_OFFSET + 1"

definition LIST_COUNT_BITS_MASK :: "64 word" where
  "LIST_COUNT_BITS_MASK = push_bit LIST_COUNT_BITS_OFFSET (- 1)"

definition lists_count :: "WrappingTypes \<Rightarrow> 8 word" where
  "lists_count w = ucast (drop_bit LIST_COUNT_BITS_OFFSET (w AND LIST_COUNT_BITS_MASK))"

definition inner_is_nonnull :: "WrappingTypes \<Rightarrow> bool" where
  "inner_is_nonnull w \<longleftrightarrow> w AND NONNULL_BIT_MASK \<noteq> 0"

definition iter_list_types :: "WrappingTypes \<Rightarrow> ListType list" where
  "iter_list_types w = map (\<lambda>i. if drop_bit i w AND 1 = 0 then LT_List else LT_NonNullList) [0..<unat (lists_count w)]"

definition render :: "WrappingTypes \<Rightarrow> string \<Rightarrow> string" where
  "render w inner =
     concat (map (\<lambda>_. ''['') (iter_list_types w)) @ inner @ (if inner_is_nonnull w then ''!'' else [])
     @ concat (map (\<lambda>l. case l of LT_List \<Rightarrow> '']'' | LT_NonNullList \<Rightarrow> '']!'') (rev (iter_list_types w)))"

definition is_nonnull :: "WrappingTypes \<Rightarrow> bool" where
  "is_nonnull w = (case iter_list_types w of l # _ \<Rightarrow> l = LT_NonNullList | [] \<Rightarrow> inner_is_nonnull w)"

datatype WrapperTypesComparison = NoChange | RemovedNonNull | AddedNonNull | NotCompatible

fun removed_nonnull :: "WrapperTypesComparison \<Rightarrow> WrapperTypesComparison" where
  "removed_nonnull NoChange = RemovedNonNull"
| "removed_nonnull RemovedNonNull = RemovedNonNull"
| "removed_nonnull AddedNonNull = NotCompatible"
| "removed_nonnull NotCompatible = NotCompatible"

fun added_nonnull :: "WrapperTypesComparison \<Rightarrow> WrapperTypesComparison" where
  "added_nonnull NoChange = AddedNonNull"
| "added_nonnull AddedNonNull = AddedNonNull"
| "added_nonnull RemovedNonNull = NotCompatible"
| "added_nonnull NotCompatible = NotCompatible"

fun compare_loop :: "ListType list \<Rightarrow> ListType list \<Rightarrow> WrapperTypesComparison \<Rightarrow> WrapperTypesComparison" where
  "compare_loop [] [] end_state = end_state"
| "compare_loop (_ # src) [] end_state = compare_loop src [] NotCompatible"
| "compare_loop [] (_ # target) end_state = compare_loop [] target NotCompatible"
| "compare_loop (LT_List # src) (LT_List # target) end_state = compare_loop src target end_state"
| "compare_loop (LT_NonNullList # src) (LT_NonNullList # target) end_state = compare_loop src target end_state"
| "compare_loop (LT_NonNullList # src) (LT_List # target) end_state = compare_loop src target (removed_nonnull end_state)"
| "compare_loop (LT_List # src) (LT_NonNullList # target) end_state = compare_loop src target (added_nonnull end_state)"

definition wrappers_compare :: "WrappingTypes \<Rightarrow> WrappingTypes \<Rightarrow> WrapperTypesComparison" where
  "wrappers_compare src target =
     (let end_state = compare_loop (iter_list_types src) (iter_list_types target) NoChange
      in case (inner_is_nonnull src, inner_is_nonnull target) of
           (True, False) \<Rightarrow> removed_nonnull end_state
         | (False, True) \<Rightarrow> added_nonnull end_state
         | _ \<Rightarrow> end_state)"

definition set_inner_nonnull :: "bool \<Rightarrow> WrappingTypes \<Rightarrow> WrappingTypes" where
  "set_inner_nonnull nonnull w = (w AND NOT NONNULL_BIT_MASK) OR push_bit NONNULL_BIT_OFFSET (of_bool nonnull)"

definition push_list :: "bool \<Rightarrow> WrappingTypes \<Rightarrow> WrappingTypes" where
  "push_list nonnull w =
     (let count = unat (lists_count w)
      in if count > LIST_BITS_COUNT then w
         else let w1 = (if nonnull then w OR push_bit count 1 else w)
              in (w1 AND NOT LIST_COUNT_BITS_MASK) OR push_bit LIST_COUNT_BITS_OFFSET (word_of_nat (count + 1)))"

text \<open>\<open>extract_type\<close> of \<open>schema/async_graphql.rs\<close>: the flag of a type of the syntax tree says whether it is nullable.\<close>

fun extract_type_loop :: "ast_Type \<Rightarrow> WrappingTypes \<Rightarrow> string \<times> WrappingTypes" where
  "extract_type_loop (Type_Named name is_null) w = (name, set_inner_nonnull (\<not> is_null) w)"
| "extract_type_loop (Type_List inner is_null) w = extract_type_loop inner (push_list (\<not> is_null) w)"

definition extract_type_of :: "ast_Type \<Rightarrow> string \<times> WrappingTypes" where
  "extract_type_of ty = extract_type_loop ty 0"

subsection \<open>Bits\<close>

lemmas check_consts = LIST_BITS_COUNT_def NONNULL_BIT_OFFSET_def NONNULL_BIT_MASK_def LIST_COUNT_BITS_OFFSET_def LIST_COUNT_BITS_MASK_def

lemma nonnull_mask_bit: "bit NONNULL_BIT_MASK n \<longleftrightarrow> n = 57"
  unfolding check_consts bit_push_bit_iff by (auto simp: bit_1_iff)

lemma count_mask_bit: "bit LIST_COUNT_BITS_MASK n \<longleftrightarrow> 58 \<le> n \<and> n < 64"
  unfolding check_consts bit_push_bit_iff by auto

lemma inner_is_nonnull_bit: "inner_is_nonnull w \<longleftrightarrow> bit w 57"
proof -
  have "w AND NONNULL_BIT_MASK = 0 \<longleftrightarrow> \<not> bit w 57"
    unfolding bit_eq_iff [where 'a = "64 word"] bit_and_iff nonnull_mask_bit by (auto dest: spec [of _ 57])
  then show ?thesis by (simp add: inner_is_nonnull_def)
qed

lemma list_bit_iff: "drop_bit i (w :: 64 word) AND 1 = 0 \<longleftrightarrow> \<not> bit w i"
  by (simp add: and_one_eq odd_iff_mod_2_eq_one [symmetric] bit_iff_odd_drop_bit mod_2_eq_odd)

text \<open>The number of list wrappers.\<close>

definition wrappers_count :: "WrappingTypes \<Rightarrow> nat" where
  "wrappers_count w = unat (drop_bit 58 w)"

lemma lists_count_eq: "unat (lists_count w) = wrappers_count w"
proof -
  have d: "drop_bit LIST_COUNT_BITS_OFFSET (w AND LIST_COUNT_BITS_MASK) = drop_bit 58 w"
    by (rule bit_word_eqI) (auto simp: bit_drop_bit_eq bit_and_iff count_mask_bit LIST_COUNT_BITS_OFFSET_def NONNULL_BIT_OFFSET_def LIST_BITS_COUNT_def dest: bit_imp_le_length)
  have "unat (drop_bit 58 w) < 2 ^ 6"
    using unsigned_less [of w, where 'a = nat] by (simp add: drop_bit_eq_div unat_div less_mult_imp_div_less)
  then show ?thesis
    unfolding lists_count_def d wrappers_count_def by (simp add: unsigned_ucast_eq unsigned_take_bit_eq take_bit_nat_eq_self)
qed

lemma set_inner_bit: "n < 64 \<Longrightarrow> bit (set_inner_nonnull b w) n \<longleftrightarrow> (if n = 57 then b else bit w n)"
  by (auto simp: set_inner_nonnull_def bit_or_iff bit_and_iff bit_not_iff nonnull_mask_bit bit_push_bit_iff NONNULL_BIT_OFFSET_def LIST_BITS_COUNT_def bit_of_bool_iff)

lemma set_inner_count: "wrappers_count (set_inner_nonnull b w) = wrappers_count w"
proof -
  have "drop_bit 58 (set_inner_nonnull b w) = drop_bit 58 w"
  proof (rule bit_word_eqI)
    fix n assume "n < LENGTH(64)"
    show "bit (drop_bit 58 (set_inner_nonnull b w)) n \<longleftrightarrow> bit (drop_bit 58 w) n"
      by (cases "58 + n < 64") (auto simp: bit_drop_bit_eq set_inner_bit dest: bit_imp_le_length)
  qed
  then show ?thesis by (simp add: wrappers_count_def)
qed

lemma push_list_bits:
  assumes "wrappers_count w \<le> 57"
  shows "wrappers_count (push_list b w) = Suc (wrappers_count w)"
    and "n < 58 \<Longrightarrow> bit (push_list b w) n \<longleftrightarrow> bit w n \<or> b \<and> n = wrappers_count w"
proof -
  let ?k = "word_of_nat (wrappers_count w + 1) :: 64 word"
  define w1 where "w1 = (if b then w OR push_bit (wrappers_count w) 1 else w)"
  have p: "push_list b w = (w1 AND NOT LIST_COUNT_BITS_MASK) OR push_bit 58 ?k"
    using assms by (simp add: push_list_def lists_count_eq w1_def Let_def LIST_BITS_COUNT_def LIST_COUNT_BITS_OFFSET_def NONNULL_BIT_OFFSET_def)
  have k: "unat ?k = wrappers_count w + 1" using assms unfolding unat_of_nat by simp
  have hi: "\<not> bit ?k n" if "6 \<le> n" for n
  proof -
    have "wrappers_count w + 1 < 2 ^ n" using assms power_increasing [OF that, of "2 :: nat"] by simp
    then show ?thesis unfolding bit_of_nat_iff bit_iff_odd [of "wrappers_count w + 1"] by simp
  qed
  have "drop_bit 58 (push_list b w) = ?k"
  proof (rule bit_word_eqI)
    fix n assume "n < LENGTH(64)"
    then show "bit (drop_bit 58 (push_list b w)) n \<longleftrightarrow> bit ?k n"
      using hi [of n] unfolding p by (cases "n < 6") (auto simp: bit_drop_bit_eq bit_or_iff bit_and_iff bit_not_iff count_mask_bit bit_push_bit_iff dest: bit_imp_le_length)
  qed
  then show "wrappers_count (push_list b w) = Suc (wrappers_count w)" using k by (simp add: wrappers_count_def [of "push_list b w"])
  show "n < 58 \<Longrightarrow> bit (push_list b w) n \<longleftrightarrow> bit w n \<or> b \<and> n = wrappers_count w"
    unfolding p by (auto simp: w1_def bit_or_iff bit_and_iff bit_not_iff count_mask_bit bit_push_bit_iff bit_exp_iff)
qed

subsection \<open>What a word denotes\<close>

text \<open>The list wrappers of a type of the syntax tree, from the outermost, and whether the named type is required.\<close>

fun ast_lists :: "ast_Type \<Rightarrow> ListType list" where
  "ast_lists (Type_Named _ _) = []"
| "ast_lists (Type_List inner is_null) = (if is_null then LT_List else LT_NonNullList) # ast_lists inner"

fun ast_base :: "ast_Type \<Rightarrow> string \<times> bool" where
  "ast_base (Type_Named name is_null) = (name, \<not> is_null)"
| "ast_base (Type_List inner _) = ast_base inner"

text \<open>The word while wrappers are pushed: at most 58 are counted, and the first 57 have a bit of their own.\<close>

definition denotes_lists :: "WrappingTypes \<Rightarrow> ListType list \<Rightarrow> bool" where
  "denotes_lists w ls \<longleftrightarrow> wrappers_count w = min 58 (length ls) \<and> (\<forall>i < 57. bit w i \<longleftrightarrow> i < length ls \<and> ls ! i = LT_NonNullList)"

lemma denotes_lists_default: "denotes_lists 0 []"
  by (simp add: denotes_lists_def wrappers_count_def)

lemma denotes_lists_push:
  assumes "denotes_lists w ls"
  shows "denotes_lists (push_list (l = LT_NonNullList) w) (ls @ [l])"
proof (cases "length ls \<le> 57")
  case True
  then have c: "wrappers_count w = length ls" using assms by (simp add: denotes_lists_def)
  show ?thesis
    using assms push_list_bits [of w, where b = "l = LT_NonNullList"] True c by (auto simp: denotes_lists_def nth_append)
next
  case False
  then have "push_list (l = LT_NonNullList) w = w"
    using assms by (simp add: push_list_def lists_count_eq denotes_lists_def LIST_BITS_COUNT_def)
  then show ?thesis using assms False by (auto simp: denotes_lists_def nth_append)
qed

lemma extract_type_loop_denotes:
  "denotes_lists w ls \<Longrightarrow> \<exists>w'. extract_type_loop ty w = (fst (ast_base ty), set_inner_nonnull (snd (ast_base ty)) w') \<and> denotes_lists w' (ls @ ast_lists ty)"
proof (induction ty arbitrary: w ls)
  case (Type_List inner is_null)
  have "denotes_lists (push_list (\<not> is_null) w) (ls @ [if is_null then LT_List else LT_NonNullList])"
    using denotes_lists_push [OF Type_List.prems, of "if is_null then LT_List else LT_NonNullList"] by (cases is_null) simp_all
  from Type_List.IH [OF this] show ?case by simp
qed auto

lemma iter_list_types_denotes:
  assumes "denotes_lists w ls"
  shows "iter_list_types (set_inner_nonnull b w) = (if length ls \<le> 57 then ls else take 57 ls @ [if b then LT_NonNullList else LT_List])"
proof -
  let ?w = "set_inner_nonnull b w"
  have i: "iter_list_types ?w = map (\<lambda>i. if bit ?w i then LT_NonNullList else LT_List) [0..<min 58 (length ls)]"
    using assms by (simp add: iter_list_types_def list_bit_iff lists_count_eq set_inner_count denotes_lists_def)
  have b: "(if bit ?w i then LT_NonNullList else LT_List) = (if i = 57 then if b then LT_NonNullList else LT_List else ls ! i)" if "i < min 58 (length ls)" for i
    using assms that by (cases "ls ! i") (auto simp: set_inner_bit denotes_lists_def)
  show ?thesis
    unfolding i by (rule nth_equalityI) (auto simp: b nth_append min_def)
qed

subsection \<open>The comparison\<close>

fun cmp_join :: "WrapperTypesComparison \<Rightarrow> WrapperTypesComparison \<Rightarrow> WrapperTypesComparison" where
  "cmp_join NoChange c = c"
| "cmp_join c NoChange = c"
| "cmp_join c d = (if c = d then c else NotCompatible)"

lemma cmp_join_simps [simp]: "cmp_join c NoChange = c" "cmp_join NotCompatible c = NotCompatible" "cmp_join c NotCompatible = NotCompatible"
  by (cases c; simp)+

lemma removed_nonnull_join: "removed_nonnull c = cmp_join c RemovedNonNull" and added_nonnull_join: "added_nonnull c = cmp_join c AddedNonNull"
  by (cases c; simp)+

lemma cmp_join_assoc: "cmp_join (cmp_join a b) c = cmp_join a (cmp_join b c)"
  by (cases a; cases b; cases c; simp)

text \<open>The order on requiredness, on types of the same nesting.\<close>

definition stricter :: "bool list \<Rightarrow> bool list \<Rightarrow> bool" where
  "stricter fs gs \<longleftrightarrow> list_all2 (\<lambda>f g. g \<longrightarrow> f) fs gs"

definition compare_flags :: "bool list \<Rightarrow> bool list \<Rightarrow> WrapperTypesComparison" where
  "compare_flags src target =
     (if stricter src target then if stricter target src then NoChange else RemovedNonNull
      else if stricter target src then AddedNonNull else NotCompatible)"

lemma compare_flags_Cons:
  "compare_flags (f # fs) (g # gs) = cmp_join (if f = g then NoChange else if f then RemovedNonNull else AddedNonNull) (compare_flags fs gs)"
  by (auto simp: compare_flags_def stricter_def)

lemma compare_flags_length: "length fs \<noteq> length gs \<Longrightarrow> compare_flags fs gs = NotCompatible"
  by (auto simp: compare_flags_def stricter_def dest: list_all2_lengthD)

definition type_flags :: "ListType list \<Rightarrow> bool \<Rightarrow> bool list" where
  "type_flags ls inner = map (\<lambda>l. l = LT_NonNullList) ls @ [inner]"

lemma compare_loop_flags:
  "cmp_join (compare_loop ls ms c) (if m = n then NoChange else if m then RemovedNonNull else AddedNonNull)
     = cmp_join c (compare_flags (type_flags ls m) (type_flags ms n))"
proof (induction ls ms c rule: compare_loop.induct)
  case 1
  then show ?case by (simp add: type_flags_def compare_flags_Cons) (simp add: compare_flags_def stricter_def)
next
  case (2 l src c)
  then show ?case by (simp add: compare_flags_length type_flags_def)
next
  case (3 l target c)
  then show ?case by (simp add: compare_flags_length type_flags_def)
qed (simp_all add: type_flags_def compare_flags_Cons removed_nonnull_join added_nonnull_join cmp_join_assoc)

lemma wrappers_compare_flags:
  "wrappers_compare s t = compare_flags (type_flags (iter_list_types s) (inner_is_nonnull s)) (type_flags (iter_list_types t) (inner_is_nonnull t))"
  using compare_loop_flags [of "iter_list_types s" "iter_list_types t" NoChange "inner_is_nonnull s" "inner_is_nonnull t"]
  by (cases "inner_is_nonnull s"; cases "inner_is_nonnull t") (simp_all add: wrappers_compare_def removed_nonnull_join added_nonnull_join)

text \<open>The values of a type, up to the values of the named type.\<close>

datatype json = J_Null | J_Leaf | J_List "json list"

fun fits :: "ListType list \<Rightarrow> bool \<Rightarrow> json \<Rightarrow> bool" where
  "fits [] inner J_Null \<longleftrightarrow> \<not> inner"
| "fits [] inner J_Leaf \<longleftrightarrow> True"
| "fits [] inner (J_List _) \<longleftrightarrow> False"
| "fits (l # ls) inner J_Null \<longleftrightarrow> l = LT_List"
| "fits (l # ls) inner J_Leaf \<longleftrightarrow> False"
| "fits (l # ls) inner (J_List vs) \<longleftrightarrow> (\<forall>v \<in> set vs. fits ls inner v)"

lemma fits_subset:
  "(\<forall>v. fits ls m v \<longrightarrow> fits ms n v) \<longleftrightarrow> stricter (type_flags ls m) (type_flags ms n)"
proof (induction ls arbitrary: ms)
  case Nil
  show ?case
  proof (cases ms)
    case Nil
    have "fits [] m v \<longrightarrow> fits [] n v" if "n \<longrightarrow> m" for v using that by (cases v) auto
    moreover have "n \<longrightarrow> m" if "\<forall>v. fits [] m v \<longrightarrow> fits [] n v" using spec [OF that, of J_Null] by auto
    ultimately show ?thesis by (auto simp: Nil type_flags_def stricter_def)
  next
    case (Cons x xs)
    have "\<exists>v. fits [] m v \<and> \<not> fits ms n v" by (rule exI [of _ J_Leaf]) (simp add: Cons)
    then show ?thesis using Cons by (auto simp: type_flags_def stricter_def list_all2_Cons1)
  qed
next
  case (Cons l ls)
  show ?case
  proof (cases ms)
    case Nil
    have "\<exists>v. fits (l # ls) m v \<and> \<not> fits ms n v" by (rule exI [of _ "J_List []"]) (simp add: Nil)
    then show ?thesis using Nil by (auto simp: type_flags_def stricter_def list_all2_Cons2)
  next
    case (Cons x xs)
    have "(\<forall>v. fits (l # ls) m v \<longrightarrow> fits (x # xs) n v) \<longleftrightarrow> (x = LT_NonNullList \<longrightarrow> l = LT_NonNullList) \<and> (\<forall>v. fits ls m v \<longrightarrow> fits xs n v)" (is "?L \<longleftrightarrow> ?R")
    proof
      assume L: ?L
      have "fits ls m v \<longrightarrow> fits xs n v" for v using spec [OF L, of "J_List [v]"] by simp
      moreover have "x = LT_NonNullList \<longrightarrow> l = LT_NonNullList" using spec [OF L, of J_Null] by (cases l; cases x) auto
      ultimately show ?R by blast
    next
      assume R: ?R
      have "fits (l # ls) m v \<longrightarrow> fits (x # xs) n v" for v
        using R by (cases v; cases x; cases l) auto
      then show ?L by blast
    qed
    then show ?thesis using Cons.IH [of xs] by (simp add: Cons type_flags_def stricter_def)
  qed
qed

subsection \<open>Properties\<close>

text \<open>C26. Reading a type into a word.  The name and the requiredness of the named type are kept.  Up to 57 list
  wrappers are kept exactly.  Of a type with more, the first 57 are kept, and one more is read back, which is
  required exactly when the named type is.
\<close>

theorem extract_type_exact:
  "case extract_type_of ty of (name, w) \<Rightarrow> name = fst (ast_base ty) \<and> inner_is_nonnull w = snd (ast_base ty)
     \<and> iter_list_types w = (if length (ast_lists ty) \<le> 57 then ast_lists ty
         else take 57 (ast_lists ty) @ [if snd (ast_base ty) then LT_NonNullList else LT_List])"
proof -
  obtain w' where w': "extract_type_of ty = (fst (ast_base ty), set_inner_nonnull (snd (ast_base ty)) w')" "denotes_lists w' (ast_lists ty)"
    using extract_type_loop_denotes [OF denotes_lists_default, of ty] by (auto simp: extract_type_of_def)
  then show ?thesis using iter_list_types_denotes [OF w'(2)] by (simp add: inner_is_nonnull_bit set_inner_bit)
qed

text \<open>C25. The comparison of the wrappers of two types decides which values of one are values of the other: the values of
  the target are values of the source exactly if nothing changed or types became required, the values of
  the source are values of the target exactly if nothing changed or types became optional.  So the types are
  incompatible exactly if each has values that do not fit the other.
\<close>

theorem wrappers_compare_values:
  "(Collect (fits (iter_list_types t) (inner_is_nonnull t)) \<subseteq> Collect (fits (iter_list_types s) (inner_is_nonnull s)))
       = (wrappers_compare s t \<in> {NoChange, AddedNonNull})
   \<and> (Collect (fits (iter_list_types s) (inner_is_nonnull s)) \<subseteq> Collect (fits (iter_list_types t) (inner_is_nonnull t)))
       = (wrappers_compare s t \<in> {NoChange, RemovedNonNull})"
  unfolding Collect_mono_iff fits_subset wrappers_compare_flags by (simp add: compare_flags_def)

end
