(* ===== verification/Check_Schema.thy ===== *)
theory Check_Schema
  imports Check_Wrapping Directive_Matcher
begin

text \<open>
  The schemas of the operation checks (\<open>src/engine/crates/operation-checks/src/schema.rs\<close> and
  \<open>schema/async_graphql.rs\<close>): two tables sorted by name, their construction from a document, and the lookups
  in them.  A \<open>HashSet\<close> is a set.
\<close>

subsection \<open>Model\<close>

text \<open>\<open>slice::binary_search_by_key\<close>: the loop over the part of the slice that can hold the key.\<close>

function binary_search_loop :: "('a \<Rightarrow> 'k::linorder) \<Rightarrow> 'k \<Rightarrow> 'a list \<Rightarrow> nat \<Rightarrow> nat \<Rightarrow> nat option" where
  "binary_search_loop key k xs left right =
     (if left < right
      then let mid = left + (right - left) div 2
           in if key (xs ! mid) = k then Some mid
              else if key (xs ! mid) < k then binary_search_loop key k xs (mid + 1) right
              else binary_search_loop key k xs left mid
      else None)"
  by pat_completeness auto
termination
  by (relation "measure (\<lambda>(key, k, xs, left, right). right - left)") (auto simp: Let_def)

declare binary_search_loop.simps [simp del]

definition binary_search_by_key :: "('a \<Rightarrow> 'k::linorder) \<Rightarrow> 'k \<Rightarrow> 'a list \<Rightarrow> nat option" where
  "binary_search_by_key key k xs = binary_search_loop key k xs 0 (length xs)"

type_synonym SchemaFieldId = nat
type_synonym SchemaArgumentId = nat

record SchemaField =
  sf_type_name :: string
  sf_field_name :: string
  sf_base_type :: string
  sf_wrappers :: WrappingTypes

record SchemaArgument =
  sa_type_name :: string
  sa_field_name :: string
  sa_argument_name :: string
  sa_base_type :: string
  sa_wrappers :: WrappingTypes
  sa_has_default :: bool

record Schema =
  sc_fields :: "SchemaField list"
  sc_field_arguments :: "SchemaArgument list"
  sc_input_objects :: "string set"
  sc_query_type_name :: string
  sc_mutation_type_name :: string
  sc_subscription_type_name :: string

definition field_key :: "SchemaField \<Rightarrow> string \<times> string" where
  "field_key x = (sf_type_name x, sf_field_name x)"

definition argument_sort_key :: "SchemaArgument \<Rightarrow> string \<times> string \<times> string" where
  "argument_sort_key x = (sa_type_name x, sa_field_name x, sa_argument_name x)"

definition schema_find_field :: "Schema \<Rightarrow> string \<Rightarrow> string \<Rightarrow> SchemaFieldId option" where
  "schema_find_field s ty_name f_name = binary_search_by_key field_key (ty_name, f_name) (sc_fields s)"

definition schema_find_argument :: "Schema \<Rightarrow> string \<times> string \<times> string \<Rightarrow> SchemaArgumentId option" where
  "schema_find_argument s path = binary_search_by_key argument_sort_key path (sc_field_arguments s)"

definition schema_iter_fields :: "Schema \<Rightarrow> string \<Rightarrow> SchemaField list" where
  "schema_iter_fields s ty_name =
     (let start = partition_point (\<lambda>x. sf_type_name x < ty_name) (sc_fields s)
      in takeWhile (\<lambda>x. ty_name = sf_type_name x) (drop start (sc_fields s)))"

definition schema_iter_field_arguments :: "Schema \<Rightarrow> SchemaFieldId \<Rightarrow> (SchemaArgumentId \<times> SchemaArgument) list panicking" where
  "schema_iter_field_arguments s field_id = do {
     field \<leftarrow> vec_index (sc_fields s) field_id;
     let start = partition_point (\<lambda>x. sa_type_name x < sf_type_name field \<and> sa_field_name x < sf_field_name field) (sc_field_arguments s);
     Some (map (\<lambda>(idx, x). (idx + start, x))
       (enumerate 0 (takeWhile (\<lambda>x. sa_type_name x = sf_type_name field \<and> sa_field_name x = sf_field_name field)
          (drop start (sc_field_arguments s))))) }"

definition field_is_required :: "SchemaField \<Rightarrow> bool" where
  "field_is_required x = is_nonnull (sf_wrappers x)"

definition render_type :: "SchemaField \<Rightarrow> string" where
  "render_type x = render (sf_wrappers x) (sf_base_type x)"

definition argument_is_required :: "SchemaArgument \<Rightarrow> bool" where
  "argument_is_required x = is_nonnull (sa_wrappers x)"

definition is_required_without_default_value :: "SchemaArgument \<Rightarrow> bool" where
  "is_required_without_default_value x \<longleftrightarrow> argument_is_required x \<and> \<not> sa_has_default x"

subsection \<open>Construction\<close>

definition schema_field :: "string \<Rightarrow> string \<Rightarrow> ast_Type \<Rightarrow> SchemaField" where
  "schema_field ty_name name ty =
     (let (base_type, w) = extract_type_of ty
      in \<lparr>sf_type_name = ty_name, sf_field_name = name, sf_base_type = base_type, sf_wrappers = w\<rparr>)"

definition schema_argument :: "string \<Rightarrow> string \<Rightarrow> ast_InputValueDefinition \<Rightarrow> SchemaArgument" where
  "schema_argument ty_name name argument =
     (let (base_type, w) = extract_type_of (in_ty argument)
      in \<lparr>sa_type_name = ty_name, sa_field_name = name, sa_argument_name = in_name argument, sa_base_type = base_type,
          sa_wrappers = w, sa_has_default = (in_default argument \<noteq> None)\<rparr>)"

text \<open>One round of the loop over the definitions.  The names of the root types are set by the last schema definition that has them.\<close>

record SchemaBuilder =
  sb_schema :: Schema
  sb_query :: "string option"
  sb_mutation :: "string option"
  sb_subscription :: "string option"

definition schema_push_type :: "ast_TypeDefinition \<Rightarrow> Schema \<Rightarrow> Schema" where
  "schema_push_type typedef s =
     (case tdef_kind typedef of
        Ast_Object _ fs \<Rightarrow>
          fold (\<lambda>f s. s\<lparr>sc_fields := sc_fields s @ [schema_field (tdef_name typedef) (fd_name f) (fd_ty f)],
                        sc_field_arguments := sc_field_arguments s @ map (schema_argument (tdef_name typedef) (fd_name f)) (fd_arguments f)\<rparr>) fs s
      | Ast_Interface _ fs \<Rightarrow>
          fold (\<lambda>f s. s\<lparr>sc_fields := sc_fields s @ [schema_field (tdef_name typedef) (fd_name f) (fd_ty f)]\<rparr>) fs s
      | Ast_InputObject fs \<Rightarrow>
          fold (\<lambda>f s. s\<lparr>sc_fields := sc_fields s @ [schema_field (tdef_name typedef) (in_name f) (in_ty f)]\<rparr>) fs
            (s\<lparr>sc_input_objects := insert (tdef_name typedef) (sc_input_objects s)\<rparr>)
      | _ \<Rightarrow> s)"

definition schema_push_definition :: "TypeSystemDefinition \<Rightarrow> SchemaBuilder \<Rightarrow> SchemaBuilder" where
  "schema_push_definition d b =
     (case d of
        Schema_Definition sd \<Rightarrow>
          b\<lparr>sb_query := (case sd_query sd of Some q \<Rightarrow> Some q | None \<Rightarrow> sb_query b),
            sb_mutation := (case sd_mutation sd of Some q \<Rightarrow> Some q | None \<Rightarrow> sb_mutation b),
            sb_subscription := (case sd_subscription sd of Some q \<Rightarrow> Some q | None \<Rightarrow> sb_subscription b)\<rparr>
      | Directive_Definition \<Rightarrow> b
      | Type_Definition typedef \<Rightarrow> b\<lparr>sb_schema := schema_push_type typedef (sb_schema b)\<rparr>)"

definition schema_empty :: Schema where
  "schema_empty = \<lparr>sc_fields = [], sc_field_arguments = [], sc_input_objects = {}, sc_query_type_name = [], sc_mutation_type_name = [],
     sc_subscription_type_name = []\<rparr>"

definition schema_from :: "ServiceDocument \<Rightarrow> Schema" where
  "schema_from document =
     (let b = fold schema_push_definition document \<lparr>sb_schema = schema_empty, sb_query = None, sb_mutation = None, sb_subscription = None\<rparr>
      in \<lparr>sc_fields = sort_key field_key (sc_fields (sb_schema b)),
          sc_field_arguments = sort_key argument_sort_key (sc_field_arguments (sb_schema b)),
          sc_input_objects = sc_input_objects (sb_schema b),
          sc_query_type_name = (case sb_query b of Some q \<Rightarrow> q | None \<Rightarrow> ''Query''),
          sc_mutation_type_name = (case sb_mutation b of Some q \<Rightarrow> q | None \<Rightarrow> ''Mutation''),
          sc_subscription_type_name = (case sb_subscription b of Some q \<Rightarrow> q | None \<Rightarrow> ''Subscription'')\<rparr>)"

subsection \<open>Lookups\<close>

lemma binary_search_loop_found:
  "binary_search_loop key k xs l r = Some i \<Longrightarrow> l \<le> i \<and> i < r \<and> key (xs ! i) = k"
proof (induction key k xs l r rule: binary_search_loop.induct)
  case (1 key k xs l r)
  let ?m = "l + (r - l) div 2"
  show ?case
  proof (cases "l < r")
    case True
    then have m: "l \<le> ?m" "?m < r" by auto
    show ?thesis
      using "1.prems" "1.IH"(1) [OF True refl] "1.IH"(2) [OF True refl] True m
      by (subst (asm) binary_search_loop.simps) (fastforce simp: Let_def split: if_splits)
  next
    case False
    then show ?thesis using "1.prems" by (subst (asm) binary_search_loop.simps) simp
  qed
qed

lemma binary_search_loop_missing:
  "sorted (map key xs) \<Longrightarrow> r \<le> length xs \<Longrightarrow> binary_search_loop key k xs l r = None \<Longrightarrow> l \<le> i \<Longrightarrow> i < r \<Longrightarrow> key (xs ! i) \<noteq> k"
proof (induction key k xs l r rule: binary_search_loop.induct)
  case (1 key k xs l r)
  let ?m = "l + (r - l) div 2"
  have lr: "l < r" and m: "?m < r" using "1.prems" by auto
  have mono: "i \<le> j \<Longrightarrow> j < length xs \<Longrightarrow> key (xs ! i) \<le> key (xs ! j)" for i j using sorted_nth_mono [OF "1.prems"(1), of i j] by simp
  have none: "key (xs ! ?m) \<noteq> k" "key (xs ! ?m) < k \<Longrightarrow> binary_search_loop key k xs (?m + 1) r = None"
    "\<not> key (xs ! ?m) < k \<Longrightarrow> binary_search_loop key k xs l ?m = None"
    using "1.prems"(3) lr by (subst (asm) binary_search_loop.simps; simp add: Let_def split: if_splits)+
  show ?case
  proof (cases "key (xs ! ?m) < k")
    case True
    show ?thesis
    proof (cases "i \<le> ?m")
      case le: True
      then show ?thesis using mono [OF le] m "1.prems"(2) True by fastforce
    next
      case False
      then show ?thesis using "1.IH"(1) [OF lr refl none(1) True "1.prems"(1,2) none(2) [OF True]] "1.prems"(5) by simp
    qed
  next
    case False
    then have gt: "k < key (xs ! ?m)" using none(1) by simp
    show ?thesis
    proof (cases "i < ?m")
      case True
      then show ?thesis using "1.IH"(2) [OF lr refl none(1) False "1.prems"(1) _ none(3) [OF False]] m "1.prems"(2,4) by simp
    next
      case ge: False
      then show ?thesis using mono [of ?m i] "1.prems"(2,5) gt by fastforce
    qed
  qed
qed

lemma binary_search_by_key_exact:
  assumes "sorted (map key xs)"
  shows "case binary_search_by_key key k xs of None \<Rightarrow> k \<notin> key ` set xs | Some i \<Rightarrow> i < length xs \<and> key (xs ! i) = k"
proof (cases "binary_search_by_key key k xs")
  case None
  then have "\<forall>i < length xs. key (xs ! i) \<noteq> k"
    using binary_search_loop_missing [OF assms, of "length xs" k 0] by (auto simp: binary_search_by_key_def)
  then show ?thesis using None by (auto simp: in_set_conv_nth)
next
  case (Some i)
  then show ?thesis using binary_search_loop_found [of key k xs 0 "length xs" i] by (simp add: binary_search_by_key_def)
qed

text \<open>The tables are sorted and have one entry for every key.\<close>

definition schema_wf :: "Schema \<Rightarrow> bool" where
  "schema_wf s \<longleftrightarrow> sorted (map field_key (sc_fields s)) \<and> distinct (map field_key (sc_fields s))
     \<and> sorted (map argument_sort_key (sc_field_arguments s)) \<and> distinct (map argument_sort_key (sc_field_arguments s))"

lemma binary_search_unique:
  assumes "sorted (map key xs)" and "distinct (map key xs)"
  shows "binary_search_by_key key k xs = Some i \<longleftrightarrow> i < length xs \<and> key (xs ! i) = k"
  using binary_search_by_key_exact [OF assms(1), of k] nth_eq_iff_index_eq [OF assms(2)] nth_mem [of i xs]
  by (cases "binary_search_by_key key k xs") auto

lemma schema_find_field_iff:
  "schema_wf s \<Longrightarrow> schema_find_field s t f = Some i \<longleftrightarrow> i < length (sc_fields s) \<and> sf_type_name (sc_fields s ! i) = t \<and> sf_field_name (sc_fields s ! i) = f"
  by (simp add: schema_find_field_def schema_wf_def binary_search_unique field_key_def)

lemma schema_find_argument_iff:
  "schema_wf s \<Longrightarrow> schema_find_argument s p = Some i \<longleftrightarrow> i < length (sc_field_arguments s) \<and> argument_sort_key (sc_field_arguments s ! i) = p"
  by (simp add: schema_find_argument_def schema_wf_def binary_search_unique)

lemma sorted_type_names: "sorted (map field_key xs) \<Longrightarrow> sorted (map sf_type_name xs)"
  by (induction xs) (auto simp: field_key_def)

lemma schema_iter_fields_filter: "schema_wf s \<Longrightarrow> schema_iter_fields s t = filter (\<lambda>x. sf_type_name x = t) (sc_fields s)"
  using partition_point_key_slice [OF sorted_type_names, of "sc_fields s" t] by (simp add: schema_wf_def schema_iter_fields_def Let_def eq_commute)

subsection \<open>The schema of a document\<close>

text \<open>The fields and arguments of a document, in the order of the document.\<close>

definition document_fields :: "ServiceDocument \<Rightarrow> SchemaField list" where
  "document_fields doc = concat (map (\<lambda>d. case type_of_definition d of None \<Rightarrow> [] | Some t \<Rightarrow>
     (case tdef_kind t of
        Ast_Object _ fs \<Rightarrow> map (\<lambda>f. schema_field (tdef_name t) (fd_name f) (fd_ty f)) fs
      | Ast_Interface _ fs \<Rightarrow> map (\<lambda>f. schema_field (tdef_name t) (fd_name f) (fd_ty f)) fs
      | Ast_InputObject fs \<Rightarrow> map (\<lambda>f. schema_field (tdef_name t) (in_name f) (in_ty f)) fs
      | _ \<Rightarrow> [])) doc)"

definition document_arguments :: "ServiceDocument \<Rightarrow> SchemaArgument list" where
  "document_arguments doc = concat (map (\<lambda>d. case type_of_definition d of None \<Rightarrow> [] | Some t \<Rightarrow>
     (case tdef_kind t of
        Ast_Object _ fs \<Rightarrow> concat (map (\<lambda>f. map (schema_argument (tdef_name t) (fd_name f)) (fd_arguments f)) fs)
      | _ \<Rightarrow> [])) doc)"

definition document_input_objects :: "ServiceDocument \<Rightarrow> string list" where
  "document_input_objects doc = concat (map (\<lambda>d. case type_of_definition d of None \<Rightarrow> [] | Some t \<Rightarrow>
     (case tdef_kind t of Ast_InputObject _ \<Rightarrow> [tdef_name t] | _ \<Rightarrow> [])) doc)"

lemma fold_push_fields:
  "fold (\<lambda>f s. s\<lparr>sc_fields := sc_fields s @ [g f], sc_field_arguments := sc_field_arguments s @ h f\<rparr>) fs s
     = s\<lparr>sc_fields := sc_fields s @ map g fs, sc_field_arguments := sc_field_arguments s @ concat (map h fs)\<rparr>"
  "fold (\<lambda>f s. s\<lparr>sc_fields := sc_fields s @ [g f]\<rparr>) fs s = s\<lparr>sc_fields := sc_fields s @ map g fs\<rparr>"
  by (induction fs arbitrary: s) simp_all

lemma fold_push_definition:
  "let s = sb_schema (fold schema_push_definition doc b) in sc_fields s = sc_fields (sb_schema b) @ document_fields doc
     \<and> sc_field_arguments s = sc_field_arguments (sb_schema b) @ document_arguments doc
     \<and> sc_input_objects s = sc_input_objects (sb_schema b) \<union> set (document_input_objects doc)"
proof (induction doc arbitrary: b)
  case (Cons d doc)
  have "let s = sb_schema (schema_push_definition d b) in sc_fields s = sc_fields (sb_schema b) @ document_fields [d]
     \<and> sc_field_arguments s = sc_field_arguments (sb_schema b) @ document_arguments [d]
     \<and> sc_input_objects s = sc_input_objects (sb_schema b) \<union> set (document_input_objects [d])"
    by (cases d) (auto simp: schema_push_definition_def schema_push_type_def fold_push_fields document_fields_def document_arguments_def
        document_input_objects_def split: ast_TypeKind.split)
  with Cons.IH [of "schema_push_definition d b"] show ?case
    by (auto simp: Let_def document_fields_def document_arguments_def document_input_objects_def)
qed (simp add: document_fields_def document_arguments_def document_input_objects_def)

lemma schema_from_tables:
  "sc_fields (schema_from doc) = sort_key field_key (document_fields doc)"
  "sc_field_arguments (schema_from doc) = sort_key argument_sort_key (document_arguments doc)"
  "sc_input_objects (schema_from doc) = set (document_input_objects doc)"
  using fold_push_definition [of doc "\<lparr>sb_schema = schema_empty, sb_query = None, sb_mutation = None, sb_subscription = None\<rparr>"]
  by (simp_all add: schema_from_def Let_def schema_empty_def)

definition unique_names :: "ServiceDocument \<Rightarrow> bool" where
  "unique_names doc \<longleftrightarrow> distinct (map field_key (document_fields doc)) \<and> distinct (map argument_sort_key (document_arguments doc))"

lemma schema_from_wf: "unique_names doc \<Longrightarrow> schema_wf (schema_from doc)"
  by (simp add: schema_wf_def unique_names_def schema_from_tables distinct_map inj_on_def)

subsection \<open>The arguments of a field\<close>

text \<open>The type and the field an argument belongs to, the arguments of a field with their ids, the arguments before them in the table,
  and what the search in \<open>iter_field_arguments\<close> takes to come before the field.\<close>

definition argument_owner :: "SchemaArgument \<Rightarrow> string \<times> string" where
  "argument_owner x = (sa_type_name x, sa_field_name x)"

lemma sorted_owners: "sorted (map argument_sort_key xs) \<Longrightarrow> sorted (map argument_owner xs)"
  by (induction xs) (auto simp: argument_sort_key_def argument_owner_def less_eq_prod_def)

definition field_arguments_of :: "Schema \<Rightarrow> SchemaField \<Rightarrow> (SchemaArgumentId \<times> SchemaArgument) list" where
  "field_arguments_of s field = filter (\<lambda>(_, a). argument_owner a = field_key field) (enumerate 0 (sc_field_arguments s))"

definition arguments_before :: "Schema \<Rightarrow> SchemaField \<Rightarrow> SchemaArgument list" where
  "arguments_before s field = filter (\<lambda>a. argument_owner a < field_key field) (sc_field_arguments s)"

definition searched_past :: "SchemaField \<Rightarrow> SchemaArgument \<Rightarrow> bool" where
  "searched_past field a \<longleftrightarrow> sa_type_name a < sf_type_name field \<and> sa_field_name a < sf_field_name field"

lemma enumerate_shift: "map (\<lambda>(i, x). (i + n, x)) (enumerate m xs) = enumerate (m + n) xs"
  by (induction xs arbitrary: m) simp_all

lemma filter_enumerate_all: "(\<forall>x \<in> set xs. P x) \<Longrightarrow> filter (\<lambda>(_, x). P x) (enumerate n xs) = enumerate n xs"
  "(\<forall>x \<in> set xs. \<not> P x) \<Longrightarrow> filter (\<lambda>(_, x). P x) (enumerate n xs) = []"
  by (induction xs arbitrary: n) simp_all

lemma iter_field_arguments_block:
  assumes sorted: "sorted (map argument_sort_key (sc_field_arguments s))" and field: "vec_index (sc_fields s) i = Some field"
  shows "\<exists>xs. schema_iter_field_arguments s i = Some xs \<and> (xs = field_arguments_of s field \<or> xs = [])
    \<and> (list_all (searched_past field) (arguments_before s field) \<longrightarrow> xs = field_arguments_of s field)
    \<and> (arguments_before s field \<noteq> [] \<and> \<not> searched_past field (last (arguments_before s field)) \<longrightarrow> xs = [])"
proof -
  let ?args = "sc_field_arguments s" and ?q = "\<lambda>a. sa_type_name a = sf_type_name field \<and> sa_field_name a = sf_field_name field"
  define b where "b = filter (\<lambda>a. argument_owner a = field_key field) ?args"
  define c where "c = filter (\<lambda>a. field_key field < argument_owner a) ?args"
  let ?a = "arguments_before s field"
  have args: "?args = ?a @ b @ c"
    unfolding b_def c_def arguments_before_def by (rule sorted_blocks [OF sorted_owners [OF sorted]])
  have p: "\<forall>x \<in> set (b @ c). \<not> searched_past field x"
    by (auto simp: b_def c_def searched_past_def argument_owner_def field_key_def less_prod_def)
  have q: "\<forall>x \<in> set b. ?q x" "\<forall>x \<in> set ?a. \<not> ?q x" "\<forall>x \<in> set c. \<not> ?q x"
    by (auto simp: b_def c_def arguments_before_def argument_owner_def field_key_def)
  define k where "k = partition_point (searched_past field) (?a @ b @ c)"
  note block = partition_point_block [OF p q, folded k_def]
  have own: "field_arguments_of s field = enumerate (length ?a) b"
    using q by (subst field_arguments_of_def, subst args)
      (simp add: enumerate_append_eq filter_enumerate_all argument_owner_def field_key_def del: filter_True filter_False)
  have "schema_iter_field_arguments s i = Some (map (\<lambda>(j, x). (j + k, x)) (enumerate 0 (takeWhile ?q (drop k (?a @ b @ c)))))"
    by (simp add: schema_iter_field_arguments_def field Let_def k_def searched_past_def [abs_def] flip: args)
  then have "schema_iter_field_arguments s i = Some (if k = length ?a then field_arguments_of s field else [])"
    unfolding block(1) by (simp add: own enumerate_shift)
  then show ?thesis using block(2,3) by (auto simp: list_all_iff)
qed

lemma same_type_before:
  assumes "sorted (map argument_sort_key (sc_field_arguments s))" and "a \<in> set (sc_field_arguments s)"
    and "sa_type_name a = sf_type_name field" and "sa_field_name a < sf_field_name field"
  shows "arguments_before s field \<noteq> [] \<and> \<not> searched_past field (last (arguments_before s field))"
proof -
  let ?a = "arguments_before s field"
  have mem: "a \<in> set ?a" using assms(2-4) by (simp add: arguments_before_def argument_owner_def field_key_def less_prod_def)
  have "sorted (map argument_owner ?a)"
    unfolding arguments_before_def by (rule sorted_filter [OF sorted_owners [OF assms(1)]])
  then have "argument_owner a \<le> argument_owner (last ?a)" using mem by (rule sorted_le_last)
  then show ?thesis using mem assms(3) by (auto simp: searched_past_def argument_owner_def less_eq_prod_def)
qed

text \<open>A type with two fields that have one argument each.\<close>

definition two_fields_document :: ServiceDocument where
  "two_fields_document =
     (let field = (\<lambda>name arg. \<lparr>fd_name = name, fd_description = None, fd_arguments = [\<lparr>in_name = arg, in_description = None,
            in_ty = Type_Named ''Int'' False, in_default = Some Const_Null, in_directives = []\<rparr>], fd_ty = Type_Named ''Int'' True, fd_directives = []\<rparr>)
      in [Type_Definition \<lparr>tdef_name = ''A'', tdef_description = None, tdef_directives = [], tdef_kind = Ast_Object [] [field ''f'' ''x'', field ''g'' ''y'']\<rparr>])"

lemma two_fields_evaluated:
  "(let s = schema_from two_fields_document in
     (map_option field_key (vec_index (sc_fields s) 1), map argument_sort_key (sc_field_arguments s),
      map (\<lambda>f. map (\<lambda>(j, _). j) (field_arguments_of s f)) (sc_fields s)))
   = (Some (''A'', ''g''), [(''A'', ''f'', ''x''), (''A'', ''g'', ''y'')], [[0], [1]])"
  by code_simp

subsection \<open>Properties\<close>

text \<open>C27. In the schema of a document the binary search for a field finds an entry of the document with that type and
  name, with the base type and the wrappers of the document, and fails only if there is none; the fields of a type
  are exactly the fields the document gives to it, in the order of their names.
\<close>

theorem schema_lookups:
  "(case schema_find_field (schema_from doc) t f of
      None \<Rightarrow> (t, f) \<notin> field_key ` set (document_fields doc)
    | Some i \<Rightarrow> \<exists>x \<in> set (document_fields doc). field_key x = (t, f) \<and> vec_index (sc_fields (schema_from doc)) i = Some x)
   \<and> schema_iter_fields (schema_from doc) t = sort_key field_key (filter (\<lambda>x. sf_type_name x = t) (document_fields doc))"
proof -
  have s: "sorted (map field_key (sc_fields (schema_from doc)))" and set: "set (sc_fields (schema_from doc)) = set (document_fields doc)"
    by (simp_all add: schema_from_tables)
  have "case schema_find_field (schema_from doc) t f of
      None \<Rightarrow> (t, f) \<notin> field_key ` set (document_fields doc)
    | Some i \<Rightarrow> \<exists>x \<in> set (document_fields doc). field_key x = (t, f) \<and> vec_index (sc_fields (schema_from doc)) i = Some x"
    using binary_search_by_key_exact [OF s, of "(t, f)"] nth_mem [of _ "sc_fields (schema_from doc)"]
    by (fastforce simp: schema_find_field_def set vec_index_def split: option.split)
  moreover have "schema_iter_fields (schema_from doc) t = filter (\<lambda>x. sf_type_name x = t) (sc_fields (schema_from doc))"
    using partition_point_key_slice [OF sorted_type_names [OF s], of t] by (simp add: schema_iter_fields_def Let_def eq_commute)
  ultimately show ?thesis by (simp add: schema_from_tables filter_sort)
qed

text \<open>C28. The arguments of a field.  The search for the first one skips the arguments whose type and whose field both come
  earlier, which is not the order of the table.  The iteration yields all arguments of the field, with their ids, or none of them:
  all if every argument before them in the table is skipped; none if the last argument before them is not, and so none whenever
  a field of the same type with an earlier name has an argument.
\<close>

theorem iter_field_arguments_all_or_nothing:
  assumes "vec_index (sc_fields (schema_from doc)) i = Some field"
  shows "\<exists>xs. schema_iter_field_arguments (schema_from doc) i = Some xs
    \<and> (xs = field_arguments_of (schema_from doc) field \<or> xs = [])
    \<and> (list_all (searched_past field) (arguments_before (schema_from doc) field) \<longrightarrow> xs = field_arguments_of (schema_from doc) field)
    \<and> (arguments_before (schema_from doc) field \<noteq> [] \<and> \<not> searched_past field (last (arguments_before (schema_from doc) field)) \<longrightarrow> xs = [])
    \<and> ((\<exists>a \<in> set (sc_field_arguments (schema_from doc)). sa_type_name a = sf_type_name field \<and> sa_field_name a < sf_field_name field) \<longrightarrow> xs = [])"
proof -
  let ?s = "schema_from doc"
  have sorted: "sorted (map argument_sort_key (sc_field_arguments ?s))" by (simp add: schema_from_tables)
  have "arguments_before ?s field \<noteq> [] \<and> \<not> searched_past field (last (arguments_before ?s field))"
    if a: "a \<in> set (sc_field_arguments ?s)" "sa_type_name a = sf_type_name field" "sa_field_name a < sf_field_name field" for a
    by (rule same_type_before [OF sorted a])
  then show ?thesis using iter_field_arguments_block [OF sorted assms] by blast
qed

theorem iter_field_arguments_all_or_nothing_witness:
  "\<exists>field. vec_index (sc_fields (schema_from two_fields_document)) 1 = Some field \<and> field_key field = (''A'', ''g'')
     \<and> map fst (field_arguments_of (schema_from two_fields_document) field) = [1]
     \<and> schema_iter_field_arguments (schema_from two_fields_document) 1 = Some []"
proof -
  let ?s = "schema_from two_fields_document"
  obtain field where field: "vec_index (sc_fields ?s) 1 = Some field" "field_key field = (''A'', ''g'')"
    and keys: "map argument_sort_key (sc_field_arguments ?s) = [(''A'', ''f'', ''x''), (''A'', ''g'', ''y'')]"
    and own: "map (\<lambda>f. map (\<lambda>(j, _). j) (field_arguments_of ?s f)) (sc_fields ?s) = [[0], [1]]"
    using two_fields_evaluated by (auto simp: Let_def)
  have "(''A'', ''f'', ''x'') \<in> argument_sort_key ` set (sc_field_arguments ?s)" using arg_cong [OF keys, of set] by simp
  then obtain a where "a \<in> set (sc_field_arguments ?s)" "sa_type_name a = ''A''" "sa_field_name a = ''f''" by (auto simp: argument_sort_key_def)
  moreover have "''f'' < (''g'' :: string)" by code_simp
  ultimately have "\<exists>a \<in> set (sc_field_arguments ?s). sa_type_name a = sf_type_name field \<and> sa_field_name a < sf_field_name field"
    using field(2) by (auto simp: field_key_def)
  then have "schema_iter_field_arguments ?s 1 = Some []" using iter_field_arguments_all_or_nothing [OF field(1)] by auto
  moreover have "map fst (field_arguments_of ?s field) = [1]"
    using arg_cong [OF own, of "\<lambda>xs. xs ! 1"] field(1) by (simp add: vec_index_eq_Some case_prod_unfold)
  ultimately show ?thesis using field by (intro exI [of _ field] conjI)
qed

end
